(* ===== verification/Accel_Prelude.thy ===== *)
theory Accel_Prelude
  imports Main "HOL-Library.Word"
begin

text \<open>
  Shared vocabulary of the development: machine integers as words, Rust's \<open>Result\<close> and
  \<open>Option\<close> combinators as functions on sums and options, checked and saturating
  arithmetic, byte slices, little-endian encodings, and sums over finite maps. Every
  component theory builds on this one. Integers keep the width the code gives them;
  \<open>usize\<close> is a \<open>nat\<close> where it is the length or an index of a slice or a vector,
  which the language bounds by the address space.
\<close>

unbundle bit_operations_syntax

type_synonym u8 = "8 word"
type_synonym u16 = "16 word"
type_synonym u32 = "32 word"
type_synonym u64 = "64 word"
type_synonym u128 = "128 word"

text \<open>The bits of a signed word; the program stores it and does not compute with it.\<close>

type_synonym i64 = "64 word"

named_theorems wire_simps "unfolding rules for wire layouts and codecs"
named_theorems inv_intros "introduction rules for component invariants"

section \<open>Results\<close>

text \<open>\<open>Result\<close> is a sum with the error on the left; \<open>and_then r f\<close> is the \<open>?\<close> operator.\<close>

definition and_then :: "'e + 'a \<Rightarrow> ('a \<Rightarrow> 'e + 'b) \<Rightarrow> 'e + 'b" where
  "and_then r f = (case r of Inl e \<Rightarrow> Inl e | Inr x \<Rightarrow> f x)"

definition map_err :: "('e \<Rightarrow> 'f) \<Rightarrow> 'e + 'a \<Rightarrow> 'f + 'a" where
  "map_err f r = (case r of Inl e \<Rightarrow> Inl (f e) | Inr x \<Rightarrow> Inr x)"

definition ok_or :: "'e \<Rightarrow> 'a option \<Rightarrow> 'e + 'a" where
  "ok_or e x = (case x of None \<Rightarrow> Inl e | Some y \<Rightarrow> Inr y)"

definition ensure :: "bool \<Rightarrow> 'e \<Rightarrow> 'e + unit" where
  "ensure b e = (if b then Inr () else Inl e)"

definition is_ok :: "'e + 'a \<Rightarrow> bool" where
  "is_ok r = (case r of Inl _ \<Rightarrow> False | Inr _ \<Rightarrow> True)"

lemma and_then_simps [simp]:
  "and_then (Inl e) f = Inl e"
  "and_then (Inr x) f = f x"
  by (simp_all add: and_then_def)

lemma and_then_eq_Inr [simp]: "and_then r f = Inr y \<longleftrightarrow> (\<exists>x. r = Inr x \<and> f x = Inr y)"
  by (cases r) auto

lemma and_then_eq_Inl: "and_then r f = Inl e \<longleftrightarrow> r = Inl e \<or> (\<exists>x. r = Inr x \<and> f x = Inl e)"
  by (cases r) auto

lemma map_err_simps [simp]:
  "map_err f (Inl e) = Inl (f e)"
  "map_err f (Inr x) = Inr x"
  by (simp_all add: map_err_def)

lemma map_err_eq_Inr [simp]: "map_err f r = Inr x \<longleftrightarrow> r = Inr x"
  by (cases r) auto

lemma map_err_eq_Inl: "map_err f r = Inl e \<longleftrightarrow> (\<exists>e'. r = Inl e' \<and> e = f e')"
  by (cases r) auto

lemma ok_or_simps [simp]:
  "ok_or e None = Inl e"
  "ok_or e (Some x) = Inr x"
  by (simp_all add: ok_or_def)

lemma ok_or_eq_Inr [simp]: "ok_or e x = Inr y \<longleftrightarrow> x = Some y"
  by (cases x) auto

lemma ensure_simps [simp]:
  "ensure b e = Inr u \<longleftrightarrow> b"
  "ensure b e = Inl e' \<longleftrightarrow> \<not> b \<and> e' = e"
  by (auto simp: ensure_def)

lemma ensure_True [simp]: "ensure True e = Inr ()"
  by (simp add: ensure_def)

lemma ensure_False [simp]: "ensure False e = Inl e"
  by (simp add: ensure_def)

lemma is_ok_simps [simp]:
  "is_ok (Inl e) = False"
  "is_ok (Inr x) = True"
  by (simp_all add: is_ok_def)

lemma is_ok_iff: "is_ok r \<longleftrightarrow> (\<exists>x. r = Inr x)"
  by (cases r) auto

section \<open>Integer arithmetic\<close>

definition checked_add :: "'a::len word \<Rightarrow> 'a word \<Rightarrow> 'a word option" where
  "checked_add a b = (if unat a + unat b < 2 ^ LENGTH('a) then Some (a + b) else None)"

definition checked_sub :: "'a::len word \<Rightarrow> 'a word \<Rightarrow> 'a word option" where
  "checked_sub a b = (if unat b \<le> unat a then Some (a - b) else None)"

definition checked_mul :: "'a::len word \<Rightarrow> 'a word \<Rightarrow> 'a word option" where
  "checked_mul a b = (if unat a * unat b < 2 ^ LENGTH('a) then Some (a * b) else None)"

definition saturating_add :: "'a::len word \<Rightarrow> 'a word \<Rightarrow> 'a word" where
  "saturating_add a b = (if unat a + unat b < 2 ^ LENGTH('a) then a + b else - 1)"

definition count_ones :: "'a::len word \<Rightarrow> nat" where
  "count_ones w = length (filter (bit w) [0..<LENGTH('a)])"

definition is_power_of_two :: "'a::len word \<Rightarrow> bool" where
  "is_power_of_two w \<longleftrightarrow> count_ones w = 1"

lemma unat_add_no_overflow:
  fixes a b :: "'a::len word"
  assumes "unat a + unat b < 2 ^ LENGTH('a)"
  shows "unat (a + b) = unat a + unat b"
  using assms by (simp add: unat_word_ariths)

lemma unat_u32_less: "unat (w :: u32) < 2 ^ 32"
  using unsigned_less [of w] by simp

lemma unat_u64_less: "unat (w :: u64) < 2 ^ 64"
  using unsigned_less [of w] by simp

lemma unat_inc:
  fixes a :: "'a::len word"
  assumes "unat a < 2 ^ LENGTH('a) - 1"
  shows "unat (a + 1) = Suc (unat a)"
proof -
  have "unat (a + 1) = Suc (unat a) mod 2 ^ LENGTH('a)"
    by (simp add: unat_word_ariths)
  also from assms have "\<dots> = Suc (unat a)"
    by simp
  finally show ?thesis .
qed

lemma unat_dec:
  fixes a :: "'a::len word"
  assumes "a \<noteq> 0"
  shows "unat (a - 1) = unat a - 1"
  using assms by (simp add: unat_minus_one)

text \<open>The checks evaluated on binary integers.\<close>

lemma checked_add_code [code]:
  "checked_add a b = (if uint a + uint b < 2 ^ LENGTH('a::len) then Some (a + (b :: 'a word)) else None)"
  using of_nat_less_iff [of "unat a + unat b" "2 ^ LENGTH('a)", where ?'a = int]
  by (simp add: checked_add_def)

lemma checked_mul_code [code]:
  "checked_mul a b = (if uint a * uint b < 2 ^ LENGTH('a::len) then Some (a * (b :: 'a word)) else None)"
  using of_nat_less_iff [of "unat a * unat b" "2 ^ LENGTH('a)", where ?'a = int]
  by (simp add: checked_mul_def)

lemma checked_sub_code [code]: "checked_sub a b = (if b \<le> a then Some (a - b) else None)"
  by (simp add: checked_sub_def word_le_nat_alt)

lemma saturating_add_code [code]:
  "saturating_add a b = (if uint a + uint b < 2 ^ LENGTH('a::len) then a + (b :: 'a word) else - 1)"
  using of_nat_less_iff [of "unat a + unat b" "2 ^ LENGTH('a)", where ?'a = int]
  by (simp add: saturating_add_def)

lemma checked_add_Some:
  "checked_add a b = Some c \<longleftrightarrow> unat a + unat b < 2 ^ LENGTH('a::len) \<and> c = a + (b :: 'a word)"
  by (auto simp: checked_add_def)

lemma checked_add_None:
  "checked_add a b = None \<longleftrightarrow> 2 ^ LENGTH('a::len) \<le> unat a + unat (b :: 'a word)"
  by (auto simp: checked_add_def)

lemma checked_add_SomeD: "checked_add a b = Some c \<Longrightarrow> unat c = unat a + unat b"
  by (simp add: checked_add_Some unat_add_no_overflow)

lemma checked_sub_SomeD: "checked_sub a b = Some c \<Longrightarrow> unat b \<le> unat a \<and> unat c = unat a - unat b"
  by (auto simp: checked_sub_def unat_sub word_le_nat_alt split: if_splits)

lemma checked_mul_SomeD: "checked_mul a b = Some c \<Longrightarrow> unat c = unat a * unat b"
  by (auto simp: checked_mul_def unat_word_ariths split: if_splits)

lemma unat_saturating_add:
  "unat (saturating_add a b :: 'a::len word) = min (unat a + unat b) (2 ^ LENGTH('a) - 1)"
proof -
  have "unat (- 1 :: 'a word) = 2 ^ LENGTH('a) - 1"
    by (simp add: unsigned_minus_1_eq_mask mask_eq_exp_minus_1)
  then show ?thesis
    by (auto simp: saturating_add_def unat_add_no_overflow)
qed

lemma saturating_add_0 [simp]: "saturating_add a 0 = a" "saturating_add 0 a = a"
  by (simp_all add: saturating_add_def)

lemma unat_eq_iff: "(a :: 'a::len word) = b \<longleftrightarrow> unat a = unat b"
  by (simp add: word_unat_eq_iff)

text \<open>A power of two is a single bit, so masking with its predecessor is the remainder.\<close>

lemma is_power_of_two_imp_exp:
  fixes w :: "'a::len word"
  assumes "is_power_of_two w"
  shows "\<exists>k < LENGTH('a). w = 2 ^ k"
proof -
  from assms obtain k where f: "filter (bit w) [0..<LENGTH('a)] = [k]"
    by (auto simp: is_power_of_two_def count_ones_def length_Suc_conv)
  then have mem: "{n \<in> {0..<LENGTH('a)}. bit w n} = {k}"
    by (metis empty_set list.simps(15) set_filter set_upt)
  then have kl: "k < LENGTH('a)" and one: "n < LENGTH('a) \<Longrightarrow> bit w n \<longleftrightarrow> n = k" for n
    by auto
  have "w = 2 ^ k"
  proof (rule bit_word_eqI)
    fix n assume "n < LENGTH('a)"
    then show "bit w n = bit (2 ^ k :: 'a word) n"
      using kl by (simp add: one bit_exp_iff exp_eq_zero_iff eq_commute)
  qed
  with kl show ?thesis by blast
qed

lemma unat_exp:
  assumes "k < LENGTH('a::len)"
  shows "unat (2 ^ k :: 'a word) = 2 ^ k"
proof -
  from assms have "(2::nat) ^ k < 2 ^ LENGTH('a)" by simp
  then have "unat (of_nat (2 ^ k) :: 'a word) = 2 ^ k"
    by (simp only: unat_of_nat mod_less)
  then show ?thesis by simp
qed

lemma is_power_of_two_nonzero: "is_power_of_two w \<Longrightarrow> 0 < unat w"
  by (auto dest!: is_power_of_two_imp_exp simp: unat_exp)

lemma is_power_of_two_iff: "is_power_of_two w \<longleftrightarrow> (\<exists>e. unat w = 2 ^ e)" for w :: "'a::len word"
proof
  assume "is_power_of_two w"
  then show "\<exists>e. unat w = 2 ^ e"
    using is_power_of_two_imp_exp [of w] unat_exp by blast
next
  assume "\<exists>e. unat w = 2 ^ e"
  then obtain e where e: "unat w = 2 ^ e" ..
  then have small: "e < LENGTH('a)"
    using unsigned_less [of w, where ?'a = nat] power_less_imp_less_exp [of 2 e "LENGTH('a)"] by simp
  have "w = 2 ^ e"
    using e small by (simp add: unat_eq_iff unat_exp)
  then have "filter (bit w) [0..<LENGTH('a)] = filter (\<lambda>j. j = e) [0..<LENGTH('a)]"
    using small by (intro filter_cong) (auto simp: bit_exp_iff exp_eq_zero_iff)
  moreover have "length (filter (\<lambda>j. j = e) [0..<LENGTH('a)]) = 1"
    using small by (simp add: length_filter_conv_card Collect_conv_if cong: conj_cong)
  ultimately show "is_power_of_two w"
    by (simp add: is_power_of_two_def count_ones_def)
qed

lemma exp_dvd_iff:
  fixes a b :: "'a::len word"
  assumes "is_power_of_two a" "is_power_of_two b"
  shows "unat a dvd unat b \<longleftrightarrow> a \<le> b"
proof -
  obtain i j where "i < LENGTH('a)" "a = 2 ^ i" "j < LENGTH('a)" "b = 2 ^ j"
    using is_power_of_two_imp_exp assms by metis
  moreover have "(2 :: nat) ^ i dvd 2 ^ j \<longleftrightarrow> i \<le> j"
    using power_dvd_imp_le [of "2 :: nat" i j] le_imp_power_dvd [of i j "2 :: nat"] by auto
  ultimately show ?thesis
    by (simp add: word_le_nat_alt unat_exp)
qed

lemma bit_word_exp: "k < LENGTH('a) \<Longrightarrow> bit (2 ^ k :: 'a::len word) j \<longleftrightarrow> j = k"
  by (auto simp: bit_exp_iff exp_eq_zero_iff)

lemma and_pred_eq_mod:
  fixes w i :: "'a::len word"
  assumes "is_power_of_two w"
  shows "unat (i AND (w - 1)) = unat i mod unat w"
proof -
  from is_power_of_two_imp_exp [OF assms] obtain k where k: "k < LENGTH('a)" "w = 2 ^ k"
    by blast
  have "i AND (w - 1) = take_bit k i"
    by (simp add: k take_bit_eq_mask mask_eq_exp_minus_1)
  then have "unat (i AND (w - 1)) = take_bit k (unat i)"
    by (simp add: unsigned_take_bit_eq)
  with k show ?thesis
    by (simp add: take_bit_eq_mod unat_exp)
qed

section \<open>Byte slices\<close>

text \<open>
  \<open>slice_get xs i n\<close> is \<open>xs.get(i..i + n)\<close> and \<open>overwrite xs i ys\<close> is
  \<open>xs[i..i + ys.len()].copy_from_slice(ys)\<close> on a range known to be inside \<open>xs\<close>.
\<close>

definition slice_get :: "'a list \<Rightarrow> nat \<Rightarrow> nat \<Rightarrow> 'a list option" where
  "slice_get xs i n = (if i + n \<le> length xs then Some (take n (drop i xs)) else None)"

definition overwrite :: "'a list \<Rightarrow> nat \<Rightarrow> 'a list \<Rightarrow> 'a list" where
  "overwrite xs i ys = take i xs @ ys @ drop (i + length ys) xs"

lemma length_overwrite [simp]:
  "i + length ys \<le> length xs \<Longrightarrow> length (overwrite xs i ys) = length xs"
  by (simp add: overwrite_def)

lemma overwrite_Nil [simp]: "overwrite xs i [] = xs"
  by (simp add: overwrite_def)

lemma nth_overwrite:
  "i + length ys \<le> length xs \<Longrightarrow> k < length xs \<Longrightarrow>
   overwrite xs i ys ! k = (if i \<le> k \<and> k < i + length ys then ys ! (k - i) else xs ! k)"
  by (auto simp: overwrite_def nth_append min_def)

lemma take_drop_overwrite_same:
  "i + length ys \<le> length xs \<Longrightarrow> take (length ys) (drop i (overwrite xs i ys)) = ys"
  by (simp add: overwrite_def)

lemma overwrite_overwrite_adjacent:
  assumes "i + length ys + length zs \<le> length xs"
  shows "overwrite (overwrite xs i ys) (i + length ys) zs = overwrite xs i (ys @ zs)"
proof -
  have "take (i + length ys) (overwrite xs i ys) = take i xs @ ys"
    using assms by (simp add: overwrite_def)
  moreover have "drop (i + length ys + length zs) (overwrite xs i ys)
      = drop (i + length ys + length zs) xs"
    using assms by (simp add: overwrite_def add.commute add.left_commute)
  ultimately show ?thesis
    by (simp add: overwrite_def [of "overwrite xs i ys"] overwrite_def [of xs i "ys @ zs"] add.assoc)
qed

lemma take_drop_split:
  "take (m + n) (drop i xs) = take m (drop i xs) @ take n (drop (i + m) xs)"
  by (simp add: take_add add.commute)

section \<open>Little-endian encodings\<close>

text \<open>
  \<open>to_le n w\<close> is the little-endian byte string of \<open>n\<close> bytes of a word, \<open>from_le\<close> reads
  one back: the storage of the code's \<open>Le16\<close>, \<open>Le32\<close> and \<open>Le64\<close> fields.
\<close>

primrec to_le :: "nat \<Rightarrow> 'a::len word \<Rightarrow> u8 list" where
  "to_le 0 w = []"
| "to_le (Suc n) w = ucast w # to_le n (drop_bit 8 w)"

primrec from_le :: "u8 list \<Rightarrow> 'a::len word" where
  "from_le [] = 0"
| "from_le (b # bs) = ucast b OR push_bit 8 (from_le bs)"

lemma length_to_le [simp]: "length (to_le n w) = n"
  by (induction n arbitrary: w) auto

lemma from_le_to_le: "from_le (to_le n w) = take_bit (8 * n) w"
proof (induction n arbitrary: w)
  case 0
  then show ?case by simp
next
  case (Suc n)
  have "ucast (ucast w :: u8) OR push_bit 8 (take_bit (8 * n) (drop_bit 8 w)) = take_bit (8 * Suc n) w"
    by (rule bit_word_eqI) (auto simp: bit_simps)
  then show ?case
    by (simp add: Suc.IH)
qed

lemma bit_from_le_beyond: "8 * length bs \<le> i \<Longrightarrow> \<not> bit (from_le bs :: 'a::len word) i"
proof (induction bs arbitrary: i)
  case Nil
  then show ?case by simp
next
  case (Cons b bs)
  have "\<not> bit b i"
    using Cons.prems by (auto dest: bit_imp_le_length)
  moreover have "\<not> bit (from_le bs :: 'a word) (i - 8)"
    using Cons.prems by (intro Cons.IH) simp
  ultimately show ?case
    by (simp add: bit_simps)
qed

lemma to_le_from_le:
  "8 * length bs \<le> LENGTH('a) \<Longrightarrow> to_le (length bs) (from_le bs :: 'a::len word) = bs"
proof (induction bs)
  case Nil
  then show ?case by simp
next
  case (Cons b bs)
  let ?x = "from_le bs :: 'a word"
  have low: "ucast (ucast b OR push_bit 8 ?x) = b"
    using Cons.prems by (intro bit_word_eqI) (auto simp: bit_simps)
  have high: "drop_bit 8 (ucast b OR push_bit 8 ?x) = ?x"
  proof (rule bit_word_eqI)
    fix n assume n: "n < LENGTH('a)"
    have "\<not> bit b (8 + n)"
      by (auto dest: bit_imp_le_length)
    moreover have "bit ?x n \<Longrightarrow> 8 + n < LENGTH('a)"
      using bit_from_le_beyond [of bs n, where 'a = 'a] Cons.prems by (cases "8 * length bs \<le> n") auto
    ultimately show "bit (drop_bit 8 (ucast b OR push_bit 8 ?x)) n = bit ?x n"
      using n by (auto simp: bit_simps)
  qed
  have "to_le (length (b # bs)) (from_le (b # bs) :: 'a word) = b # to_le (length bs) ?x"
    by (simp only: list.size to_le.simps from_le.simps low high add_Suc_right add_0_right)
  with Cons show ?case by simp
qed

lemma from_le_to_le_full: "8 * n = LENGTH('a) \<Longrightarrow> from_le (to_le n w) = (w :: 'a::len word)"
  by (simp add: from_le_to_le take_bit_word_eq_self)

text \<open>The number that a little-endian byte string spells.\<close>

lemma unat_from_le:
  "8 * length bs \<le> LENGTH('a) \<Longrightarrow> unat (from_le bs :: 'a::len word) = (\<Sum>i<length bs. unat (bs ! i) * 256 ^ i)"
proof (induction bs)
  case (Cons b bs)
  let ?x = "from_le bs :: 'a word"
  have fits: "8 * length bs + 8 \<le> LENGTH('a)"
    using Cons.prems by simp
  have "?x = take_bit (8 * length bs) ?x"
    by (rule bit_word_eqI) (use bit_from_le_beyond [of bs, where 'a = 'a] in \<open>auto simp: bit_take_bit_iff not_less [symmetric]\<close>)
  then have small: "unat ?x < 2 ^ (8 * length bs)"
    by (metis take_bit_nat_less_exp unsigned_take_bit_eq)
  have b: "unat (ucast b :: 'a word) = unat b"
    using fits unsigned_less [of b, where ?'a = nat] power_increasing [of 8 "LENGTH('a)" "2 :: nat"]
    by (simp add: unsigned_ucast_eq take_bit_eq_mod less_le_trans)
  have "unat b + 256 * unat ?x < 256 * 2 ^ (8 * length bs)"
    using small unsigned_less [of b, where ?'a = nat] by simp
  also have "\<dots> = 2 ^ (8 * length bs + 8)"
    by (simp add: power_add)
  also have "\<dots> \<le> 2 ^ LENGTH('a)"
    using fits by (rule power_increasing) simp
  finally have room: "unat b + 256 * unat ?x < 2 ^ LENGTH('a)" .
  have shift: "unat (push_bit 8 ?x) = 256 * unat ?x"
    unfolding unsigned_push_bit_eq using room by (simp add: push_bit_eq_mult take_bit_eq_mod mult.commute)
  have "(ucast b :: 'a word) OR push_bit 8 ?x = ucast b + push_bit 8 ?x"
    by (rule disjunctive_add [symmetric]) (auto simp: bit_simps dest: bit_imp_le_length)
  then have "unat (from_le (b # bs) :: 'a word) = unat b + 256 * unat ?x"
    using room by (simp add: unat_word_ariths b shift)
  then show ?case
    using Cons by (simp add: sum.lessThan_Suc_shift sum_distrib_left mult_ac del: sum.lessThan_Suc)
qed simp

section \<open>Sums over finite maps\<close>

text \<open>\<open>msum f m\<close> adds \<open>f k v\<close> over the entries of a finite map: reference counts and charges.\<close>

definition msum :: "('k \<Rightarrow> 'v \<Rightarrow> nat) \<Rightarrow> ('k \<rightharpoonup> 'v) \<Rightarrow> nat" where
  "msum f m = (\<Sum>k\<in>dom m. f k (the (m k)))"

lemma msum_empty [simp]: "msum f Map.empty = 0"
  by (simp add: msum_def)

lemma msum_insert:
  assumes "finite (dom m)" and "m k = None"
  shows "msum f (m(k \<mapsto> v)) = msum f m + f k v"
proof -
  have "k \<notin> dom m" using assms(2) by auto
  moreover have "(\<Sum>x\<in>dom m. f x (the ((m(k \<mapsto> v)) x))) = (\<Sum>x\<in>dom m. f x (the (m x)))"
    by (rule sum.cong) (use \<open>k \<notin> dom m\<close> in auto)
  ultimately show ?thesis
    using assms(1) by (simp add: msum_def)
qed

lemma msum_remove:
  assumes "finite (dom m)" and "m k = Some v"
  shows "msum f (m(k := None)) + f k v = msum f m"
proof -
  have "msum f ((m(k := None))(k \<mapsto> v)) = msum f (m(k := None)) + f k v"
    using assms(1) by (intro msum_insert) auto
  moreover have "(m(k := None))(k \<mapsto> v) = m"
    using assms(2) by auto
  ultimately show ?thesis by simp
qed

lemma msum_update:
  assumes "finite (dom m)" and "m k = Some v"
  shows "msum f (m(k \<mapsto> v')) + f k v = msum f m + f k v'"
proof -
  have "msum f ((m(k := None))(k \<mapsto> v')) = msum f (m(k := None)) + f k v'"
    using assms(1) by (intro msum_insert) auto
  moreover have "(m(k := None))(k \<mapsto> v') = m(k \<mapsto> v')"
    by auto
  ultimately show ?thesis
    using msum_remove [OF assms, of f] by simp
qed

lemma msum_update_same:
  assumes "finite (dom m)" and "m k = Some v" and "f k v' = f k v"
  shows "msum f (m(k \<mapsto> v')) = msum f m"
  using msum_update [OF assms(1,2), of f v'] assms(3) by simp

lemma msum_ge:
  assumes "finite (dom m)" and "m k = Some v"
  shows "f k v \<le> msum f m"
  using msum_remove [OF assms, of f] by simp

lemma msum_eq_0D: "finite (dom m) \<Longrightarrow> msum f m = 0 \<Longrightarrow> m k = Some v \<Longrightarrow> f k v = 0"
  using msum_ge [of m k v f] by simp

lemma msum_cong:
  "(\<And>k v. m k = Some v \<Longrightarrow> f k v = g k v) \<Longrightarrow> msum f m = msum g m"
  by (auto simp: msum_def intro!: sum.cong)

lemma msum_zero: "(\<And>k v. m k = Some v \<Longrightarrow> f k v = 0) \<Longrightarrow> msum f m = 0"
  by (auto simp: msum_def intro!: sum.neutral)

end
