(* ===== verification/Accel_Core.thy ===== *)
theory Accel_Core
  imports Accel_Prelude
begin

text \<open>
  The transport-independent semantics of \<open>virtio-accel-core\<close>: the backend error taxonomy,
  device metadata and its validation, buffer descriptors and verified allocations, byte
  ranges, program bindings, timeouts, events, the acceptance and release boundaries, and
  the \<open>Accelerator\<close> trait as a record of the provider's methods. A flag set of the
  \<open>bitflags\<close> macro is the word of its bits. A \<open>NonZeroU64\<close> is a \<open>u64\<close>; the
  constructors of the code are the only way to build a descriptor, and their guards make
  the nonzero facts that \<open>buffer_desc_ok\<close> states.
\<close>

named_theorems core_consts "flag and limit constants"

section \<open>Errors and device metadata\<close>

datatype backend_error =
    BE_Unsupported
  | BE_Incompatible
  | BE_InvalidArgument
  | BE_OutOfBounds
  | BE_Busy
  | BE_OutOfMemory
  | BE_ResourceLimit
  | BE_DeadlineExpired
  | BE_DeviceLost
  | BE_PermissionDenied
  | BE_External u32 i64

definition flags_contain :: "'a::len word \<Rightarrow> 'a word \<Rightarrow> bool" where
  "flags_contain s f \<longleftrightarrow> s AND f = f"

definition flags_intersect :: "'a::len word \<Rightarrow> 'a word \<Rightarrow> bool" where
  "flags_intersect s f \<longleftrightarrow> s AND f \<noteq> 0"

lemma flags_contain_bits: "flags_contain s f \<longleftrightarrow> (\<forall>j. bit f j \<longrightarrow> bit s j)"
  by (auto simp: flags_contain_def bit_eq_iff bit_and_iff dest: bit_imp_le_length)

lemma flags_intersect_bits: "flags_intersect s f \<longleftrightarrow> (\<exists>j. bit f j \<and> bit s j)"
  by (auto simp: flags_intersect_def bit_eq_iff bit_and_iff dest: bit_imp_le_length)

type_synonym accelerator_class = u16
type_synonym capabilities = u64
type_synonym buffer_usage = u32
type_synonym buffer_properties = u32

definition HOST_VISIBLE_MEMORY :: capabilities where [core_consts]: "HOST_VISIBLE_MEMORY = 1"
definition DEVICE_LOCAL_MEMORY :: capabilities where [core_consts]: "DEVICE_LOCAL_MEMORY = 2"
definition EVENT_CANCELLATION :: capabilities where [core_consts]: "EVENT_CANCELLATION = 4"
definition EXTERNAL_MEMORY :: capabilities where [core_consts]: "EXTERNAL_MEMORY = 8"
definition SECURE_CONTEXTS :: capabilities where [core_consts]: "SECURE_CONTEXTS = 16"
definition SHARED_MEMORY :: capabilities where [core_consts]: "SHARED_MEMORY = 32"
definition MEMORY_DOMAINS :: capabilities where
  [core_consts]: "MEMORY_DOMAINS = HOST_VISIBLE_MEMORY OR DEVICE_LOCAL_MEMORY OR SHARED_MEMORY"
definition RESERVED_CAPABILITIES :: capabilities where
  [core_consts]: "RESERVED_CAPABILITIES = EXTERNAL_MEMORY OR SECURE_CONTEXTS"

datatype memory_domain = Host | Device | Shared

definition memory_domain_try_from :: "u8 \<Rightarrow> backend_error + memory_domain" where
  "memory_domain_try_from v =
     (if v = 1 then Inr Host else if v = 2 then Inr Device else if v = 3 then Inr Shared
      else Inl BE_InvalidArgument)"

fun supports_memory_domain :: "capabilities \<Rightarrow> memory_domain \<Rightarrow> bool" where
  "supports_memory_domain c Host = flags_contain c HOST_VISIBLE_MEMORY"
| "supports_memory_domain c Device = flags_contain c DEVICE_LOCAL_MEMORY"
| "supports_memory_domain c Shared = flags_contain c SHARED_MEMORY"

record device_identity =
  di_uuid :: "u8 list"
  di_class :: accelerator_class
  di_vendor_id :: u32
  di_device_id :: u32

record device_limits =
  max_contexts :: u32
  max_buffers_per_context :: u32
  max_programs_per_context :: u32
  max_queues_per_context :: u32
  max_events_per_context :: u32
  max_bindings_per_submission :: u32
  max_buffer_bytes :: u64
  max_artifact_bytes :: u64

record device_info =
  di_identity :: device_identity
  di_capabilities :: capabilities
  di_limits :: device_limits

datatype device_info_error = DIE_ReservedCapabilities | DIE_MissingMemoryDomain | DIE_ZeroLimit

type_synonym context_desc = u32
type_synonym queue_desc = u32

definition device_info_validate :: "device_info \<Rightarrow> device_info_error + unit" where
  "device_info_validate i =
     (let l = di_limits i in
      if flags_intersect (di_capabilities i) RESERVED_CAPABILITIES then Inl DIE_ReservedCapabilities
      else if \<not> flags_intersect (di_capabilities i) MEMORY_DOMAINS then Inl DIE_MissingMemoryDomain
      else if max_contexts l = 0 \<or> max_buffers_per_context l = 0 \<or> max_programs_per_context l = 0
           \<or> max_queues_per_context l = 0 \<or> max_events_per_context l = 0
           \<or> max_bindings_per_submission l = 0 \<or> max_buffer_bytes l = 0 \<or> max_artifact_bytes l = 0
      then Inl DIE_ZeroLimit
      else Inr ())"

definition validate_context_desc :: "device_info \<Rightarrow> context_desc \<Rightarrow> backend_error + unit" where
  "validate_context_desc i flags = (if flags = 0 then Inr () else Inl BE_Unsupported)"

definition validate_queue_desc :: "device_info \<Rightarrow> queue_desc \<Rightarrow> backend_error + unit" where
  "validate_queue_desc i flags = (if flags = 0 then Inr () else Inl BE_Unsupported)"

definition validate_event_cancellation :: "device_info \<Rightarrow> backend_error + unit" where
  "validate_event_cancellation i =
     (if flags_contain (di_capabilities i) EVENT_CANCELLATION then Inr () else Inl BE_Unsupported)"

section \<open>Buffers\<close>

definition TRANSFER_SOURCE :: buffer_usage where [core_consts]: "TRANSFER_SOURCE = 1"
definition TRANSFER_DESTINATION :: buffer_usage where [core_consts]: "TRANSFER_DESTINATION = 2"
definition PROGRAM_INPUT :: buffer_usage where [core_consts]: "PROGRAM_INPUT = 4"
definition PROGRAM_OUTPUT :: buffer_usage where [core_consts]: "PROGRAM_OUTPUT = 8"
definition MUTABLE_STATE :: buffer_usage where [core_consts]: "MUTABLE_STATE = 16"
definition BUFFER_USAGE_ALL :: buffer_usage where
  [core_consts]: "BUFFER_USAGE_ALL = TRANSFER_SOURCE OR TRANSFER_DESTINATION OR PROGRAM_INPUT
     OR PROGRAM_OUTPUT OR MUTABLE_STATE"

definition buffer_usage_from_bits :: "u32 \<Rightarrow> buffer_usage option" where
  "buffer_usage_from_bits bits = (if bits AND NOT BUFFER_USAGE_ALL = 0 then Some bits else None)"

datatype access_mode = AM_Read | AM_Write | AM_ReadWrite

definition access_mode_try_from :: "u8 \<Rightarrow> backend_error + access_mode" where
  "access_mode_try_from v =
     (if v = 1 then Inr AM_Read else if v = 2 then Inr AM_Write else if v = 3 then Inr AM_ReadWrite
      else Inl BE_InvalidArgument)"

record buffer_desc =
  bd_bytes :: u64
  bd_alignment :: u64
  bd_domain :: memory_domain
  bd_usage :: buffer_usage

definition buffer_desc_new ::
  "u64 \<Rightarrow> u64 \<Rightarrow> memory_domain \<Rightarrow> buffer_usage \<Rightarrow> backend_error + buffer_desc" where
  "buffer_desc_new bytes alignment domain usage =
     (if bytes = 0 then Inl BE_InvalidArgument
      else if alignment = 0 then Inl BE_InvalidArgument
      else if \<not> is_power_of_two alignment \<or> usage = 0 \<or> \<not> flags_contain BUFFER_USAGE_ALL usage
      then Inl BE_InvalidArgument
      else Inr \<lparr>bd_bytes = bytes, bd_alignment = alignment, bd_domain = domain, bd_usage = usage\<rparr>)"

fun allows_access :: "buffer_desc \<Rightarrow> access_mode \<Rightarrow> bool" where
  "allows_access d AM_Read = flags_intersect (bd_usage d) (PROGRAM_INPUT OR MUTABLE_STATE)"
| "allows_access d AM_Write = flags_intersect (bd_usage d) (PROGRAM_OUTPUT OR MUTABLE_STATE)"
| "allows_access d AM_ReadWrite = flags_contain (bd_usage d) MUTABLE_STATE"

definition is_program_visible :: "buffer_desc \<Rightarrow> bool" where
  "is_program_visible d =
     flags_intersect (bd_usage d) (PROGRAM_INPUT OR PROGRAM_OUTPUT OR MUTABLE_STATE)"

definition HOST_VISIBLE :: buffer_properties where [core_consts]: "HOST_VISIBLE = 1"
definition DEVICE_LOCAL :: buffer_properties where [core_consts]: "DEVICE_LOCAL = 2"
definition DIRECT_BINDING :: buffer_properties where [core_consts]: "DIRECT_BINDING = 4"
definition BUFFER_PROPERTIES_ALL :: buffer_properties where
  [core_consts]: "BUFFER_PROPERTIES_ALL = HOST_VISIBLE OR DEVICE_LOCAL OR DIRECT_BINDING"

record buffer_info =
  bi_desc :: buffer_desc
  bi_allocation_bytes :: u64
  bi_alignment :: u64
  bi_properties :: buffer_properties

fun required_properties :: "memory_domain \<Rightarrow> buffer_properties" where
  "required_properties Host = HOST_VISIBLE"
| "required_properties Device = DEVICE_LOCAL"
| "required_properties Shared = HOST_VISIBLE OR DIRECT_BINDING"

definition buffer_info_new ::
  "buffer_desc \<Rightarrow> u64 \<Rightarrow> u64 \<Rightarrow> buffer_properties \<Rightarrow> backend_error + buffer_info" where
  "buffer_info_new desc allocation_bytes alignment properties =
     (if allocation_bytes = 0 then Inl BE_InvalidArgument
      else if alignment = 0 then Inl BE_InvalidArgument
      else if \<not> flags_contain BUFFER_PROPERTIES_ALL properties then Inl BE_InvalidArgument
      else if allocation_bytes < bd_bytes desc \<or> \<not> is_power_of_two alignment
           \<or> alignment < bd_alignment desc
      then Inl BE_Incompatible
      else if \<not> flags_contain properties (required_properties (bd_domain desc))
           \<or> (is_program_visible desc \<and> \<not> flags_contain properties DIRECT_BINDING)
      then Inl BE_Incompatible
      else Inr \<lparr>bi_desc = desc, bi_allocation_bytes = allocation_bytes, bi_alignment = alignment,
                bi_properties = properties\<rparr>)"

definition validate_buffer_desc :: "device_info \<Rightarrow> buffer_desc \<Rightarrow> backend_error + unit" where
  "validate_buffer_desc i d =
     (if max_buffer_bytes (di_limits i) < bd_bytes d then Inl BE_ResourceLimit
      else if \<not> supports_memory_domain (di_capabilities i) (bd_domain d) then Inl BE_Unsupported
      else Inr ())"

definition validate_buffer_info ::
  "device_info \<Rightarrow> buffer_desc \<Rightarrow> buffer_info \<Rightarrow> backend_error + unit" where
  "validate_buffer_info i requested actual =
     and_then (validate_buffer_desc i requested)
       (\<lambda>_. if bi_desc actual \<noteq> requested then Inl BE_Incompatible else Inr ())"

record buffer_range =
  br_offset :: u64
  br_bytes :: u64

definition buffer_range_new :: "u64 \<Rightarrow> u64 \<Rightarrow> backend_error + buffer_range" where
  "buffer_range_new offset bytes =
     (if bytes = 0 then Inl BE_InvalidArgument
      else case checked_add offset bytes of
             None \<Rightarrow> Inl BE_OutOfBounds
           | Some _ \<Rightarrow> Inr \<lparr>br_offset = offset, br_bytes = bytes\<rparr>)"

definition buffer_range_end :: "buffer_range \<Rightarrow> u64" where
  "buffer_range_end r = br_offset r + br_bytes r"

section \<open>Programs, bindings, timeouts and events\<close>

definition artifact_format_new :: "u32 \<Rightarrow> u32 option" where
  "artifact_format_new v = (if v = 0 then None else Some v)"

datatype timeout = Infinite | AfterNs u64

definition timeout_from_wire_ns :: "u64 \<Rightarrow> timeout" where
  "timeout_from_wire_ns v = (if v = 0 then Infinite else AfterNs v)"

fun timeout_to_wire_ns :: "timeout \<Rightarrow> u64" where
  "timeout_to_wire_ns Infinite = 0"
| "timeout_to_wire_ns (AfterNs v) = v"

record 'b binding_ref =
  bf_slot :: u32
  bf_buffer :: 'b
  bf_range :: buffer_range
  bf_access :: access_mode

text \<open>\<open>windows_all P xs\<close> is \<open>xs.windows(2).all(P)\<close>.\<close>

fun windows_all :: "('a \<Rightarrow> 'a \<Rightarrow> bool) \<Rightarrow> 'a list \<Rightarrow> bool" where
  "windows_all P (x # y # zs) \<longleftrightarrow> P x y \<and> windows_all P (y # zs)"
| "windows_all P _ \<longleftrightarrow> True"

fun unique_slots :: "'b binding_ref list \<Rightarrow> 'b binding_ref list \<Rightarrow> backend_error + unit" where
  "unique_slots prior [] = Inr ()"
| "unique_slots prior (b # bs) =
     (if list_ex (\<lambda>p. bf_slot p = bf_slot b) prior then Inl BE_InvalidArgument
      else unique_slots (prior @ [b]) bs)"

definition validate_bindings :: "'b binding_ref list \<Rightarrow> u32 \<Rightarrow> backend_error + unit" where
  "validate_bindings bindings max_bindings =
     (if bindings = [] \<or> unat max_bindings < length bindings then Inl BE_ResourceLimit
      else if windows_all (\<lambda>a b. bf_slot a < bf_slot b) bindings then Inr ()
      else unique_slots [] bindings)"

fun access_allowed :: "'b binding_ref list \<Rightarrow> buffer_desc list \<Rightarrow> backend_error + unit" where
  "access_allowed (b # bs) (d # ds) =
     (if \<not> allows_access d (bf_access b) then Inl BE_PermissionDenied else access_allowed bs ds)"
| "access_allowed _ _ = Inr ()"

definition validate_for_submit ::
  "'b binding_ref list \<Rightarrow> buffer_desc list \<Rightarrow> u32 \<Rightarrow> backend_error + unit" where
  "validate_for_submit bindings descs max_bindings =
     and_then (validate_bindings bindings max_bindings)
       (\<lambda>_. if length bindings \<noteq> length descs then Inl BE_InvalidArgument
            else access_allowed bindings descs)"

datatype event_state = ES_Pending | ES_Complete | ES_Failed backend_error | ES_Cancelled

datatype 'e submit_failure = SF_Rejected backend_error | SF_Indeterminate backend_error 'e

datatype 'r release_failure = RF_Rejected backend_error 'r | RF_Indeterminate backend_error

fun release_failure_error :: "'r release_failure \<Rightarrow> backend_error" where
  "release_failure_error (RF_Rejected e r) = e"
| "release_failure_error (RF_Indeterminate e) = e"

section \<open>Facts about descriptors, ranges and bindings\<close>

text \<open>What a constructed buffer descriptor guarantees.\<close>

definition buffer_desc_ok :: "buffer_desc \<Rightarrow> bool" where
  "buffer_desc_ok d \<longleftrightarrow> bd_bytes d \<noteq> 0 \<and> is_power_of_two (bd_alignment d) \<and> bd_usage d \<noteq> 0
     \<and> flags_contain BUFFER_USAGE_ALL (bd_usage d)"

lemma buffer_desc_new_ok: "buffer_desc_new b a d u = Inr x \<Longrightarrow> buffer_desc_ok x"
  by (auto simp: buffer_desc_new_def buffer_desc_ok_def split: if_splits)

lemma buffer_desc_new_fields:
  "buffer_desc_new b a d u = Inr x \<Longrightarrow>
   x = \<lparr>bd_bytes = b, bd_alignment = a, bd_domain = d, bd_usage = u\<rparr>"
  by (auto simp: buffer_desc_new_def split: if_splits)

lemma buffer_info_new_fields:
  "buffer_info_new d n a p = Inr i \<Longrightarrow>
   i = \<lparr>bi_desc = d, bi_allocation_bytes = n, bi_alignment = a, bi_properties = p\<rparr>"
  by (auto simp: buffer_info_new_def split: if_splits)

lemma buffer_range_new_Inr:
  "buffer_range_new off n = Inr r \<longleftrightarrow>
   n \<noteq> 0 \<and> unat off + unat n < 2 ^ 64 \<and> r = \<lparr>br_offset = off, br_bytes = n\<rparr>"
  by (auto simp: buffer_range_new_def checked_add_def)

definition buffer_range_ok :: "buffer_range \<Rightarrow> bool" where
  "buffer_range_ok r \<longleftrightarrow> br_bytes r \<noteq> 0 \<and> unat (br_offset r) + unat (br_bytes r) < 2 ^ 64"

lemma buffer_range_new_ok: "buffer_range_new off n = Inr r \<Longrightarrow> buffer_range_ok r"
  by (auto simp: buffer_range_new_Inr buffer_range_ok_def)

lemma unat_buffer_range_end:
  "buffer_range_ok r \<Longrightarrow> unat (buffer_range_end r) = unat (br_offset r) + unat (br_bytes r)"
  by (simp add: buffer_range_ok_def buffer_range_end_def unat_add_no_overflow)

text \<open>The linear fast path and the quadratic scan accept the same binding lists.\<close>

lemma windows_all_sorted: "windows_all (\<lambda>a b. f a < f b) xs \<Longrightarrow> sorted_wrt (\<lambda>a b. f a < (f b :: 'k::order)) xs"
proof (induction "\<lambda>a b. f a < f b" xs rule: windows_all.induct)
  case (1 x y zs)
  then have "sorted_wrt (\<lambda>a b. f a < f b) (y # zs)" and "f x < f y"
    by auto
  then show ?case
    by (auto dest: less_trans)
qed auto

lemma windows_all_distinct:
  assumes "windows_all (\<lambda>a b. f a < (f b :: 'k::order)) xs"
  shows "distinct (map f xs)"
proof -
  from windows_all_sorted [OF assms] show ?thesis
    by (induction xs) (force simp: less_le)+
qed

lemma unique_slots_Inr:
  "unique_slots prior bs = Inr () \<longleftrightarrow>
   distinct (map bf_slot bs) \<and> bf_slot ` set prior \<inter> bf_slot ` set bs = {}"
  by (induction prior bs rule: unique_slots.induct) (auto simp: list_ex_iff image_iff, metis)

lemma unique_slots_cases: "unique_slots prior bs = Inr () \<or> unique_slots prior bs = Inl BE_InvalidArgument"
  by (induction prior bs rule: unique_slots.induct) auto

lemma access_allowed_Inr:
  "length bs = length ds \<Longrightarrow>
   access_allowed bs ds = Inr () \<longleftrightarrow> list_all2 (\<lambda>b d. allows_access d (bf_access b)) bs ds"
  by (induction bs ds rule: list_induct2) auto

lemma validate_bindings_eq:
  "validate_bindings bs m =
     (if bs = [] \<or> unat m < length bs then Inl BE_ResourceLimit
      else if distinct (map bf_slot bs) then Inr () else Inl BE_InvalidArgument)"
  using windows_all_distinct [of bf_slot bs] unique_slots_Inr [of "[]" bs] unique_slots_cases [of "[]" bs]
  by (auto simp: validate_bindings_def)

section \<open>Properties\<close>

text \<open>C32: Binding validation is exact: the slot-ordered fast path and the quadratic fallback together
  accept precisely the nonempty binding lists within the limit whose slots are pairwise
  distinct; an empty or oversized list is a resource-limit error and a repeated slot an
  invalid-argument error.\<close>

theorem validate_bindings_exact:
  "validate_bindings bs m =
     (if bs = [] \<or> unat m < length bs then Inl BE_ResourceLimit
      else if distinct (map bf_slot bs) then Inr () else Inl BE_InvalidArgument)"
  by (rule validate_bindings_eq)


text \<open>C34: Verified allocations are exactly the suitable ones. For a descriptor its constructor accepted,
  the metadata of an allocation is accepted precisely when the allocation covers the requested bytes,
  its alignment is a power of two that the requested alignment divides, no unknown property bit is set,
  the properties of the memory domain are present (bit 0, host visible, for host memory; bit 1, device
  local, for device memory; bits 0 and 2, host visible and directly bindable, for shared memory), and a
  buffer that a program may see (usage bits 2, 3 or 4) is directly bindable. The metadata is kept
  unchanged.\<close>

theorem buffer_info_new_exact:
  assumes "buffer_desc_new bytes alignment domain usage = Inr d"
  shows "buffer_info_new d n a p = Inr i \<longleftrightarrow>
     i = \<lparr>bi_desc = d, bi_allocation_bytes = n, bi_alignment = a, bi_properties = p\<rparr>
     \<and> unat bytes \<le> unat n \<and> (\<exists>e. unat a = 2 ^ e) \<and> unat alignment dvd unat a
     \<and> {j. bit p j} \<subseteq> {0, 1, 2}
     \<and> (case domain of Host \<Rightarrow> bit p 0 | Device \<Rightarrow> bit p 1 | Shared \<Rightarrow> bit p 0 \<and> bit p 2)
     \<and> (bit usage 2 \<or> bit usage 3 \<or> bit usage 4 \<longrightarrow> bit p 2)"
proof -
  have d: "d = \<lparr>bd_bytes = bytes, bd_alignment = alignment, bd_domain = domain, bd_usage = usage\<rparr>"
    and pos: "bytes \<noteq> 0" "is_power_of_two alignment"
    using assms by (auto simp: buffer_desc_new_def split: if_splits)
  have big: "bytes \<le> n \<Longrightarrow> n \<noteq> 0" "is_power_of_two a \<Longrightarrow> a \<noteq> 0"
    using pos(1) is_power_of_two_nonzero [of a] by auto
  have bits: "bit HOST_VISIBLE j \<longleftrightarrow> j = 0" "bit DEVICE_LOCAL j \<longleftrightarrow> j = 1" "bit DIRECT_BINDING j \<longleftrightarrow> j = 2"
    "bit PROGRAM_INPUT j \<longleftrightarrow> j = 2" "bit PROGRAM_OUTPUT j \<longleftrightarrow> j = 3" "bit MUTABLE_STATE j \<longleftrightarrow> j = 4" for j
    using bit_word_exp [of 0 j, where ?'a = 32] bit_word_exp [of 1 j, where ?'a = 32] bit_word_exp [of 2 j, where ?'a = 32]
      bit_word_exp [of 3 j, where ?'a = 32] bit_word_exp [of 4 j, where ?'a = 32]
    by (simp_all add: core_consts)
  have all: "flags_contain BUFFER_PROPERTIES_ALL p \<longleftrightarrow> {j. bit p j} \<subseteq> {0, 1, 2}"
    by (auto simp: flags_contain_bits BUFFER_PROPERTIES_ALL_def bit_or_iff bits)
  have dom: "flags_contain p (required_properties domain)
      \<longleftrightarrow> (case domain of Host \<Rightarrow> bit p 0 | Device \<Rightarrow> bit p 1 | Shared \<Rightarrow> bit p 0 \<and> bit p 2)"
    by (cases domain) (auto simp: flags_contain_bits bit_or_iff bits)
  have vis: "is_program_visible d \<longleftrightarrow> bit usage 2 \<or> bit usage 3 \<or> bit usage 4" "flags_contain p DIRECT_BINDING \<longleftrightarrow> bit p 2"
    by (auto simp: d is_program_visible_def flags_intersect_bits flags_contain_bits bit_or_iff bits)
  have dvd: "unat alignment dvd unat a \<longleftrightarrow> alignment \<le> a" if "is_power_of_two a"
    using exp_dvd_iff [OF pos(2) that] .
  have fields: "bd_bytes d = bytes" "bd_alignment d = alignment" "bd_domain d = domain"
    by (simp_all add: d)
  show ?thesis
    using big dvd
    by (auto simp: buffer_info_new_def fields all dom vis is_power_of_two_iff [symmetric] word_le_nat_alt [symmetric] not_less)
qed

theorem buffer_info_new_exact_witness:
  "\<exists>i. buffer_info_new \<lparr>bd_bytes = 64, bd_alignment = 16, bd_domain = Shared, bd_usage = 4\<rparr> 128 32 5 = Inr i
     \<and> unat (16 :: u64) dvd unat (32 :: u64) \<and> bit (5 :: buffer_properties) 0 \<and> bit (5 :: buffer_properties) 2"
proof -
  let ?d = "\<lparr>bd_bytes = 64, bd_alignment = 16, bd_domain = Shared, bd_usage = 4\<rparr>"
  have desc: "buffer_desc_new 64 16 Shared 4 = Inr ?d"
    by code_simp
  have new: "buffer_info_new ?d 128 32 5 = Inr \<lparr>bi_desc = ?d, bi_allocation_bytes = 128, bi_alignment = 32, bi_properties = 5\<rparr>"
    by code_simp
  from new show ?thesis
    using iffD1 [OF buffer_info_new_exact [OF desc] new] by simp
qed

end
