(* ===== verification/Transport.thy ===== *)
theory Transport
  imports Accel_Prelude
begin

text \<open>
  The transport vocabulary of \<open>virtio-accel-transport\<close>: flattened chain metadata and its
  validation (\<open>regions.rs\<close>), transport-owned slices (\<open>bytes.rs\<close>), and the queue lifecycle
  types with their validating constructors (\<open>queue.rs\<close>). Chain validation is proved equal
  to a declarative description of a well-formed chain: a readable prefix and a writable
  suffix, both nonempty, of nonzero regions whose totals fit a \<open>u64\<close>.
\<close>

section \<open>Chain metadata\<close>

datatype region_direction = DeviceReadable | DeviceWritable

record chain_region =
  cr_direction :: region_direction
  cr_bytes :: u64

definition region_readable :: "u64 \<Rightarrow> chain_region" where
  "region_readable n = \<lparr>cr_direction = DeviceReadable, cr_bytes = n\<rparr>"

definition region_writable :: "u64 \<Rightarrow> chain_region" where
  "region_writable n = \<lparr>cr_direction = DeviceWritable, cr_bytes = n\<rparr>"

datatype chain_layout_error =
    CLE_DescriptorCount | CLE_ZeroLength | CLE_Direction | CLE_LengthOverflow | CLE_PortLengthMismatch

record chain_layout =
  cl_descriptor_count :: u16
  cl_readable_descriptors :: u16
  cl_writable_descriptors :: u16
  cl_readable_bytes :: u64
  cl_writable_bytes :: u64

definition validate_port_lengths :: "chain_layout \<Rightarrow> u64 \<Rightarrow> u64 \<Rightarrow> chain_layout_error + unit" where
  "validate_port_lengths l request_bytes response_bytes =
     (if request_bytes \<noteq> cl_readable_bytes l \<or> response_bytes \<noteq> cl_writable_bytes l
      then Inl CLE_PortLengthMismatch else Inr ())"

text \<open>The loop's five locals, in the order the code declares them.\<close>

record layout_acc =
  la_readable_descriptors :: u16
  la_writable_descriptors :: u16
  la_readable_bytes :: u64
  la_writable_bytes :: u64
  la_saw_writable :: bool

definition layout_acc_init :: layout_acc where
  "layout_acc_init = \<lparr>la_readable_descriptors = 0, la_writable_descriptors = 0,
     la_readable_bytes = 0, la_writable_bytes = 0, la_saw_writable = False\<rparr>"

definition layout_step :: "layout_acc \<Rightarrow> chain_region \<Rightarrow> chain_layout_error + layout_acc" where
  "layout_step a r =
     (if cr_bytes r = 0 then Inl CLE_ZeroLength
      else case cr_direction r of
        DeviceReadable \<Rightarrow>
          (if la_saw_writable a then Inl CLE_Direction
           else case checked_add (la_readable_bytes a) (cr_bytes r) of
                  None \<Rightarrow> Inl CLE_LengthOverflow
                | Some n \<Rightarrow> Inr (a\<lparr>la_readable_descriptors := la_readable_descriptors a + 1,
                                  la_readable_bytes := n\<rparr>))
      | DeviceWritable \<Rightarrow>
          (case checked_add (la_writable_bytes a) (cr_bytes r) of
             None \<Rightarrow> Inl CLE_LengthOverflow
           | Some n \<Rightarrow> Inr (a\<lparr>la_saw_writable := True,
                             la_writable_descriptors := la_writable_descriptors a + 1,
                             la_writable_bytes := n\<rparr>)))"

fun layout_loop :: "layout_acc \<Rightarrow> chain_region list \<Rightarrow> chain_layout_error + layout_acc" where
  "layout_loop a [] = Inr a"
| "layout_loop a (r # rs) = and_then (layout_step a r) (\<lambda>a'. layout_loop a' rs)"

definition layout_result :: "nat \<Rightarrow> layout_acc \<Rightarrow> chain_layout_error + chain_layout" where
  "layout_result count a =
     (if la_readable_descriptors a = 0 \<or> la_writable_descriptors a = 0 then Inl CLE_Direction
      else Inr \<lparr>cl_descriptor_count = of_nat count,
                cl_readable_descriptors = la_readable_descriptors a,
                cl_writable_descriptors = la_writable_descriptors a,
                cl_readable_bytes = la_readable_bytes a,
                cl_writable_bytes = la_writable_bytes a\<rparr>)"

definition validate_chain_layout :: "chain_region list \<Rightarrow> u16 \<Rightarrow> chain_layout_error + chain_layout" where
  "validate_chain_layout regions max_descriptors =
     (if length regions < 2 \<or> unat max_descriptors < length regions then Inl CLE_DescriptorCount
      else and_then (layout_loop layout_acc_init regions) (layout_result (length regions)))"

section \<open>Transport byte access\<close>

datatype byte_access_error = BAE_OutOfBounds | BAE_Busy | BAE_Reset | BAE_Access

text \<open>\<open>read_at\<close> and \<open>write_at\<close> of a plain slice; the addition is on \<open>usize\<close>.\<close>

definition readable_slice_read_at :: "u8 list \<Rightarrow> u64 \<Rightarrow> nat \<Rightarrow> byte_access_error + u8 list" where
  "readable_slice_read_at bs offset n =
     (if unat offset + n < 2 ^ 64 then ok_or BAE_OutOfBounds (slice_get bs (unat offset) n)
      else Inl BAE_OutOfBounds)"

definition writable_slice_write_at ::
  "u8 list \<Rightarrow> u64 \<Rightarrow> u8 list \<Rightarrow> (byte_access_error + unit) \<times> u8 list" where
  "writable_slice_write_at bs offset src =
     (if unat offset + length src < 2 ^ 64 \<and> unat offset + length src \<le> length bs
      then (Inr (), overwrite bs (unat offset) src)
      else (Inl BAE_OutOfBounds, bs))"

section \<open>Queue lifecycle\<close>

type_synonym queue_size = u16
type_synonym queue_epoch = u64
type_synonym used_length = u32

definition MAX_SPLIT_QUEUE_SIZE :: u16 where "MAX_SPLIT_QUEUE_SIZE = 32768"

definition queue_size_new :: "u16 \<Rightarrow> queue_size option" where
  "queue_size_new v =
     (if is_power_of_two v \<and> v \<le> MAX_SPLIT_QUEUE_SIZE
      then (if v = 0 then None else Some v) else None)"

definition EPOCH_INITIAL :: queue_epoch where "EPOCH_INITIAL = 1"

definition queue_epoch_new :: "u64 \<Rightarrow> queue_epoch option" where
  "queue_epoch_new v = (if v = 0 then None else Some v)"

definition queue_epoch_checked_next :: "queue_epoch \<Rightarrow> queue_epoch option" where
  "queue_epoch_checked_next e =
     (case checked_add e 1 of Some v \<Rightarrow> queue_epoch_new v | None \<Rightarrow> None)"

record chain_id =
  ci_epoch :: queue_epoch
  ci_token :: u64

record queue_state =
  qs_max_size :: queue_size
  qs_size :: "queue_size option"
  qs_ready :: bool
  qs_epoch :: queue_epoch

datatype queue_config_error = QCE_SizeExceedsMaximum | QCE_ReadyWithoutSize | QCE_NonIncreasingEpoch

datatype 'e queue_error =
    QE_NotReady
  | QE_InvalidConfiguration queue_config_error
  | QE_ResetRace queue_epoch queue_epoch
  | QE_UsedLengthExceeded used_length u64
  | QE_Transport 'e

datatype malformed_chain =
    MC_DescriptorLoop | MC_DescriptorIndex | MC_DescriptorFlags | MC_DescriptorCount | MC_ZeroLength
  | MC_Direction | MC_LengthOverflow | MC_PortLengthMismatch | MC_IndirectUnsupported
  | MC_IndirectMalformed | MC_Address

fun malformed_from_layout :: "chain_layout_error \<Rightarrow> malformed_chain" where
  "malformed_from_layout CLE_DescriptorCount = MC_DescriptorCount"
| "malformed_from_layout CLE_ZeroLength = MC_ZeroLength"
| "malformed_from_layout CLE_Direction = MC_Direction"
| "malformed_from_layout CLE_LengthOverflow = MC_LengthOverflow"
| "malformed_from_layout CLE_PortLengthMismatch = MC_PortLengthMismatch"

datatype 'e chain_error =
    CHE_Malformed malformed_chain
  | CHE_ResetRace queue_epoch queue_epoch
  | CHE_Transport 'e

datatype 'e publish_error_kind =
    PEK_NotReady
  | PEK_QueueFull
  | PEK_InsufficientDescriptors
  | PEK_ResetRace queue_epoch queue_epoch
  | PEK_Transport 'e

datatype notification_hint = NH_Suppressed | NH_Notify
datatype notification_recheck = NR_Idle | NR_WorkPending

record published_chain =
  pc_id :: chain_id
  pc_notification :: notification_hint

definition queue_state_unconfigured :: "queue_size \<Rightarrow> queue_epoch \<Rightarrow> queue_state" where
  "queue_state_unconfigured max_size epoch =
     \<lparr>qs_max_size = max_size, qs_size = None, qs_ready = False, qs_epoch = epoch\<rparr>"

definition queue_state_new ::
  "queue_size \<Rightarrow> queue_size option \<Rightarrow> bool \<Rightarrow> queue_epoch \<Rightarrow> queue_config_error + queue_state" where
  "queue_state_new max_size sz ready epoch =
     (if (case sz of Some s \<Rightarrow> max_size < s | None \<Rightarrow> False) then Inl QCE_SizeExceedsMaximum
      else if ready \<and> sz = None then Inl QCE_ReadyWithoutSize
      else Inr \<lparr>qs_max_size = max_size, qs_size = sz, qs_ready = ready, qs_epoch = epoch\<rparr>)"

section \<open>Well-formed chains\<close>

definition region_total :: "chain_region list \<Rightarrow> nat" where
  "region_total rs = sum_list (map (unat \<circ> cr_bytes) rs)"

text \<open>
  What the validation decides: a split into readable regions \<open>R\<close> then writable regions
  \<open>W\<close>, and the layout that split determines.
\<close>

definition chain_split :: "chain_region list \<Rightarrow> chain_region list \<Rightarrow> chain_region list \<Rightarrow> bool" where
  "chain_split rs R W \<longleftrightarrow> rs = R @ W
     \<and> (\<forall>r\<in>set R. cr_direction r = DeviceReadable) \<and> (\<forall>r\<in>set W. cr_direction r = DeviceWritable)
     \<and> (\<forall>r\<in>set rs. cr_bytes r \<noteq> 0) \<and> region_total R < 2 ^ 64 \<and> region_total W < 2 ^ 64"

definition split_layout :: "chain_region list \<Rightarrow> chain_region list \<Rightarrow> chain_layout" where
  "split_layout R W =
     \<lparr>cl_descriptor_count = of_nat (length R + length W),
      cl_readable_descriptors = of_nat (length R), cl_writable_descriptors = of_nat (length W),
      cl_readable_bytes = of_nat (region_total R), cl_writable_bytes = of_nat (region_total W)\<rparr>"

definition split_acc :: "chain_region list \<Rightarrow> chain_region list \<Rightarrow> layout_acc" where
  "split_acc R W =
     \<lparr>la_readable_descriptors = of_nat (length R), la_writable_descriptors = of_nat (length W),
      la_readable_bytes = of_nat (region_total R), la_writable_bytes = of_nat (region_total W),
      la_saw_writable = (W \<noteq> [])\<rparr>"

lemma region_total_simps [simp]:
  "region_total [] = 0"
  "region_total (r # rs) = unat (cr_bytes r) + region_total rs"
  "region_total (rs @ ss) = region_total rs + region_total ss"
  by (simp_all add: region_total_def)

lemma chain_split_Nil: "chain_split [] R W \<longleftrightarrow> R = [] \<and> W = []"
  by (auto simp: chain_split_def)

lemma chain_split_snoc:
  "chain_split (rs @ [r]) R W \<longleftrightarrow> cr_bytes r \<noteq> 0 \<and>
     (case cr_direction r of
        DeviceReadable \<Rightarrow> (\<exists>R'. R = R' @ [r] \<and> W = [] \<and> chain_split rs R' [] \<and> region_total R < 2 ^ 64)
      | DeviceWritable \<Rightarrow> (\<exists>W'. W = W' @ [r] \<and> chain_split rs R W' \<and> region_total W < 2 ^ 64))"
  by (cases W rule: rev_cases; cases R rule: rev_cases)
     (auto simp: chain_split_def split: region_direction.splits)

lemma of_nat_add_checked:
  assumes "m < 2 ^ 64"
  shows "checked_add (of_nat m) (b :: u64) =
     (if m + unat b < 2 ^ 64 then Some (of_nat (m + unat b)) else None)"
  using assms by (simp add: checked_add_def unat_of_nat)

lemma chain_split_parts:
  assumes "chain_split rs R W"
  shows "R = filter (\<lambda>r. cr_direction r = DeviceReadable) rs"
    and "W = filter (\<lambda>r. cr_direction r = DeviceWritable) rs"
  using assms by (auto simp: chain_split_def filter_id_conv filter_empty_conv)

text \<open>One step of the loop extends the split it has built, or fails when no extension exists.\<close>

lemma layout_step_split:
  assumes "chain_split rs R W"
  shows "layout_step (split_acc R W) r = Inr a \<longleftrightarrow>
     (\<exists>R' W'. chain_split (rs @ [r]) R' W' \<and> a = split_acc R' W')"
proof -
  have tR: "region_total R < 2 ^ 64" and tW: "region_total W < 2 ^ 64"
    using assms by (auto simp: chain_split_def)
  have iff: "chain_split rs R' W' \<longleftrightarrow> R' = R \<and> W' = W" for R' W'
    using chain_split_parts [OF assms] chain_split_parts [of rs R' W'] assms by auto
  show ?thesis
  proof (cases "cr_direction r")
    case DeviceReadable
    have "layout_step (split_acc R W) r = Inr a \<longleftrightarrow>
        cr_bytes r \<noteq> 0 \<and> W = [] \<and> region_total (R @ [r]) < 2 ^ 64 \<and> a = split_acc (R @ [r]) []"
      using DeviceReadable
      by (auto simp: layout_step_def split_acc_def of_nat_add_checked [OF tR])
    then show ?thesis
      using DeviceReadable by (auto simp: chain_split_snoc iff)
  next
    case DeviceWritable
    have "layout_step (split_acc R W) r = Inr a \<longleftrightarrow>
        cr_bytes r \<noteq> 0 \<and> region_total (W @ [r]) < 2 ^ 64 \<and> a = split_acc R (W @ [r])"
      using DeviceWritable
      by (auto simp: layout_step_def split_acc_def of_nat_add_checked [OF tW])
    then show ?thesis
      using DeviceWritable by (auto simp: chain_split_snoc iff)
  qed
qed

lemma layout_loop_snoc:
  "layout_loop a (rs @ [r]) = and_then (layout_loop a rs) (\<lambda>a'. layout_step a' r)"
  by (induction a rs rule: layout_loop.induct) (auto simp: and_then_def split: sum.splits)

lemma layout_loop_split:
  "layout_loop layout_acc_init rs = Inr a \<longleftrightarrow> (\<exists>R W. chain_split rs R W \<and> a = split_acc R W)"
proof (induction rs arbitrary: a rule: rev_induct)
  case Nil
  have "layout_acc_init = split_acc [] []"
    by (simp add: layout_acc_init_def split_acc_def)
  then show ?case
    by (auto simp: chain_split_Nil)
next
  case (snoc r rs)
  have prefix: "chain_split (rs @ [r]) R W \<Longrightarrow> \<exists>R' W'. chain_split rs R' W'" for R W
    by (auto simp: chain_split_snoc split: region_direction.splits)
  have "layout_loop layout_acc_init (rs @ [r]) = Inr a \<longleftrightarrow>
      (\<exists>R W. chain_split rs R W \<and> layout_step (split_acc R W) r = Inr a)"
    by (auto simp: layout_loop_snoc snoc.IH)
  also have "\<dots> \<longleftrightarrow> (\<exists>R W. chain_split (rs @ [r]) R W \<and> a = split_acc R W)"
    using layout_step_split [of rs _ _ r a] prefix by (metis (no_types))
  finally show ?case .
qed

lemma validate_chain_layout_Inr:
  "validate_chain_layout rs m = Inr l \<longleftrightarrow>
     length rs \<le> unat m \<and> (\<exists>R W. chain_split rs R W \<and> R \<noteq> [] \<and> W \<noteq> [] \<and> l = split_layout R W)"
proof -
  have count: "(of_nat (length xs) :: u16) = 0 \<longleftrightarrow> xs = []"
    if "length rs \<le> unat m" "length xs \<le> length rs" for xs :: "chain_region list"
  proof -
    have "length xs < 2 ^ 16"
      using that unsigned_less [of m, where ?'a = nat] by simp
    then show ?thesis
      by (auto simp: word_of_nat_eq_0_iff dest: nat_dvd_not_less [rotated])
  qed
  show ?thesis
  proof (cases "length rs \<le> unat m")
    case True
    have accept: "layout_result (length rs) (split_acc R W) = Inr l \<longleftrightarrow>
        R \<noteq> [] \<and> W \<noteq> [] \<and> l = split_layout R W" if "chain_split rs R W" for R W
      using count [OF True, of R] count [OF True, of W] that
      by (auto simp: layout_result_def split_acc_def split_layout_def chain_split_def)
    have "validate_chain_layout rs m = Inr l \<longleftrightarrow> 2 \<le> length rs \<and>
        (\<exists>a. layout_loop layout_acc_init rs = Inr a \<and> layout_result (length rs) a = Inr l)"
      using True by (simp add: validate_chain_layout_def not_less)
    also have "\<dots> \<longleftrightarrow> 2 \<le> length rs \<and>
        (\<exists>R W. chain_split rs R W \<and> R \<noteq> [] \<and> W \<noteq> [] \<and> l = split_layout R W)"
      unfolding layout_loop_split using accept by blast
    finally have "validate_chain_layout rs m = Inr l \<longleftrightarrow> 2 \<le> length rs \<and>
        (\<exists>R W. chain_split rs R W \<and> R \<noteq> [] \<and> W \<noteq> [] \<and> l = split_layout R W)" .
    moreover have "chain_split rs R W \<Longrightarrow> R \<noteq> [] \<Longrightarrow> W \<noteq> [] \<Longrightarrow> 2 \<le> length rs" for R W
      by (cases R; cases W) (auto simp: chain_split_def)
    ultimately show ?thesis
      using True by blast
  qed (auto simp: validate_chain_layout_def)
qed

lemma region_total_bound: "chain_split rs R W \<Longrightarrow> region_total R < 2 ^ 64 \<and> region_total W < 2 ^ 64"
  by (simp add: chain_split_def)

section \<open>Properties\<close>

text \<open>C29: Chain validation is exact. A list of regions validates to a layout precisely when it fits the
  descriptor limit and splits into a nonempty readable prefix and a nonempty writable
  suffix of nonzero regions whose byte totals fit a \<open>u64\<close>; the layout then carries
  exactly the counts and totals of that split, so no counter wraps.\<close>

theorem validate_chain_layout_exact:
  "validate_chain_layout rs m = Inr l \<longleftrightarrow>
     length rs \<le> unat m \<and>
     (\<exists>R W. rs = R @ W \<and> R \<noteq> [] \<and> W \<noteq> []
        \<and> (\<forall>r\<in>set R. cr_direction r = DeviceReadable) \<and> (\<forall>r\<in>set W. cr_direction r = DeviceWritable)
        \<and> (\<forall>r\<in>set rs. cr_bytes r \<noteq> 0)
        \<and> (\<Sum>r\<leftarrow>R. unat (cr_bytes r)) < 2 ^ 64 \<and> (\<Sum>r\<leftarrow>W. unat (cr_bytes r)) < 2 ^ 64
        \<and> l = \<lparr>cl_descriptor_count = of_nat (length R + length W),
               cl_readable_descriptors = of_nat (length R), cl_writable_descriptors = of_nat (length W),
               cl_readable_bytes = of_nat (\<Sum>r\<leftarrow>R. unat (cr_bytes r)),
               cl_writable_bytes = of_nat (\<Sum>r\<leftarrow>W. unat (cr_bytes r))\<rparr>)"
proof -
  have total: "region_total rs = (\<Sum>r\<leftarrow>rs. unat (cr_bytes r))" for rs
    by (induction rs) auto
  show ?thesis
    unfolding validate_chain_layout_Inr chain_split_def split_layout_def total
    by (rule arg_cong2 [where f = "(\<and>)"], rule refl, (rule ex_cong1)+) blast
qed

theorem validate_chain_layout_exact_witness:
  "validate_chain_layout [region_readable 16, region_readable 8, region_writable 24] 8
     = Inr \<lparr>cl_descriptor_count = 3, cl_readable_descriptors = 2, cl_writable_descriptors = 1,
            cl_readable_bytes = 24, cl_writable_bytes = 24\<rparr>"
  by (subst validate_chain_layout_exact)
     (rule conjI, simp, rule exI [of _ "[region_readable 16, region_readable 8]"],
      rule exI [of _ "[region_writable 24]"], simp add: region_readable_def region_writable_def)

end
