(* ===== verification/Byte_Ports.thy ===== *)
theory Byte_Ports
  imports Accel_Core Transport
begin

text \<open>
  Byte ports: the \<open>ByteSource\<close> and \<open>ByteSink\<close> traits of \<open>virtio-accel-core\<close>, their slice
  implementations, the adapters over transport-owned ports, and the segmented and
  subregion ports of \<open>virtio-accel-device\<close> (\<open>regions.rs\<close>). A source is the record of its
  trait methods over a fixed content; a sink is a record of methods over a state that
  \<open>write_at\<close> updates. The locales \<open>byte_source_port\<close> and \<open>byte_sink_port\<close> state what a
  port promises its clients: exact ranges inside the content, \<open>OutOfBounds\<close> and no effect
  outside. Every implementation is an interpretation of one of them. The
  \<open>as_contiguous_mut\<close> fast path of sinks is not modelled: no code of the device layer
  calls it.
\<close>

section \<open>Sources\<close>

record byte_source =
  bs_len :: u64
  bs_read_at :: "u64 \<Rightarrow> nat \<Rightarrow> backend_error + u8 list"
  bs_as_contiguous :: "u8 list option"

definition bs_is_empty :: "byte_source \<Rightarrow> bool" where
  "bs_is_empty s \<longleftrightarrow> bs_len s = 0"

text \<open>\<open>impl ByteSource for [u8]\<close>.\<close>

definition slice_read_at :: "u8 list \<Rightarrow> u64 \<Rightarrow> nat \<Rightarrow> backend_error + u8 list" where
  "slice_read_at bs offset n =
     (if unat offset + n < 2 ^ 64 \<and> unat offset + n \<le> length bs
      then Inr (take n (drop (unat offset) bs)) else Inl BE_OutOfBounds)"

definition slice_source :: "u8 list \<Rightarrow> byte_source" where
  "slice_source bs =
     \<lparr>bs_len = of_nat (length bs), bs_read_at = slice_read_at bs, bs_as_contiguous = Some bs\<rparr>"

text \<open>\<open>checked_range\<close> and \<open>checked_range_u64\<close> of \<open>regions.rs\<close>.\<close>

definition checked_range_u64 :: "u64 \<Rightarrow> u64 \<Rightarrow> u64 \<Rightarrow> backend_error + unit" where
  "checked_range_u64 offset bytes len =
     (case checked_add offset bytes of
        None \<Rightarrow> Inl BE_OutOfBounds
      | Some e \<Rightarrow> if len < e then Inl BE_OutOfBounds else Inr ())"

definition checked_range :: "u64 \<Rightarrow> nat \<Rightarrow> u64 \<Rightarrow> backend_error + unit" where
  "checked_range offset n len =
     (if n < 2 ^ 64 then checked_range_u64 offset (of_nat n) len else Inl BE_OutOfBounds)"

datatype segmented_region_error = SRE_Empty | SRE_ZeroLength | SRE_LengthOverflow

fun segment_len_loop :: "nat \<Rightarrow> u64 \<Rightarrow> nat list \<Rightarrow> segmented_region_error + (nat \<times> u64)" where
  "segment_len_loop count bytes [] = Inr (count, bytes)"
| "segment_len_loop count bytes (n # ns) =
     (if n = 0 then Inl SRE_ZeroLength
      else case checked_add bytes (of_nat n) of
             None \<Rightarrow> Inl SRE_LengthOverflow
           | Some t \<Rightarrow> segment_len_loop (Suc count) t ns)"

definition checked_segment_len :: "nat list \<Rightarrow> segmented_region_error + u64" where
  "checked_segment_len lengths =
     and_then (segment_len_loop 0 0 lengths)
       (\<lambda>(count, bytes). if count = 0 then Inl SRE_Empty else Inr bytes)"

fun segmented_read_loop :: "u8 list list \<Rightarrow> nat \<Rightarrow> nat \<Rightarrow> u8 list \<Rightarrow> backend_error + u8 list" where
  "segmented_read_loop [] skip n written = Inl BE_OutOfBounds"
| "segmented_read_loop (seg # segs) skip n written =
     (if length seg \<le> skip then segmented_read_loop segs (skip - length seg) n written
      else let count = min (length seg - skip) (n - length written);
               written' = written @ take count (drop skip seg)
           in if length written' = n then Inr written' else segmented_read_loop segs 0 n written')"

record segmented_source =
  ss_segments :: "u8 list list"
  ss_len :: u64

definition segmented_source_new :: "u8 list list \<Rightarrow> segmented_region_error + segmented_source" where
  "segmented_source_new segments =
     and_then (checked_segment_len (map length segments))
       (\<lambda>len. Inr \<lparr>ss_segments = segments, ss_len = len\<rparr>)"

definition segmented_read_at :: "segmented_source \<Rightarrow> u64 \<Rightarrow> nat \<Rightarrow> backend_error + u8 list" where
  "segmented_read_at s offset n =
     and_then (checked_range offset n (ss_len s))
       (\<lambda>_. if n = 0 then Inr [] else segmented_read_loop (ss_segments s) (unat offset) n [])"

definition segmented_port :: "segmented_source \<Rightarrow> byte_source" where
  "segmented_port s =
     \<lparr>bs_len = ss_len s, bs_read_at = segmented_read_at s,
      bs_as_contiguous = (if length (ss_segments s) = 1 then Some (hd (ss_segments s)) else None)\<rparr>"

record readable_region =
  rr_source :: byte_source
  rr_offset :: u64
  rr_len :: u64

definition readable_region_new :: "byte_source \<Rightarrow> u64 \<Rightarrow> u64 \<Rightarrow> backend_error + readable_region" where
  "readable_region_new source offset len =
     and_then (checked_range_u64 offset len (bs_len source))
       (\<lambda>_. Inr \<lparr>rr_source = source, rr_offset = offset, rr_len = len\<rparr>)"

definition readable_region_read_at :: "readable_region \<Rightarrow> u64 \<Rightarrow> nat \<Rightarrow> backend_error + u8 list" where
  "readable_region_read_at r offset n =
     and_then (checked_range offset n (rr_len r))
       (\<lambda>_. case checked_add (rr_offset r) offset of
              None \<Rightarrow> Inl BE_OutOfBounds
            | Some source_offset \<Rightarrow> bs_read_at (rr_source r) source_offset n)"

definition readable_region_contiguous :: "readable_region \<Rightarrow> u8 list option" where
  "readable_region_contiguous r =
     (let start = unat (rr_offset r); len = unat (rr_len r) in
      if start + len < 2 ^ 64
      then (case bs_as_contiguous (rr_source r) of
              None \<Rightarrow> None | Some bs \<Rightarrow> slice_get bs start len)
      else None)"

definition readable_region_port :: "readable_region \<Rightarrow> byte_source" where
  "readable_region_port r =
     \<lparr>bs_len = rr_len r, bs_read_at = readable_region_read_at r,
      bs_as_contiguous = readable_region_contiguous r\<rparr>"

text \<open>Transport-owned readable ports and their zero-copy adapter.\<close>

record readable_bytes =
  rb_len :: u64
  rb_read_at :: "u64 \<Rightarrow> nat \<Rightarrow> byte_access_error + u8 list"
  rb_as_contiguous :: "u8 list option"

definition readable_slice :: "u8 list \<Rightarrow> readable_bytes" where
  "readable_slice bs =
     \<lparr>rb_len = of_nat (length bs), rb_read_at = readable_slice_read_at bs, rb_as_contiguous = Some bs\<rparr>"

fun backend_error_from_byte_access :: "byte_access_error \<Rightarrow> backend_error" where
  "backend_error_from_byte_access BAE_OutOfBounds = BE_OutOfBounds"
| "backend_error_from_byte_access BAE_Busy = BE_Busy"
| "backend_error_from_byte_access BAE_Reset = BE_Busy"
| "backend_error_from_byte_access BAE_Access = BE_DeviceLost"

definition transport_byte_source :: "readable_bytes \<Rightarrow> byte_source" where
  "transport_byte_source t =
     \<lparr>bs_len = rb_len t,
      bs_read_at = (\<lambda>offset n. map_err backend_error_from_byte_access (rb_read_at t offset n)),
      bs_as_contiguous = rb_as_contiguous t\<rparr>"

section \<open>Sinks\<close>

record 'k byte_sink =
  sk_len :: "'k \<Rightarrow> u64"
  sk_write_at :: "'k \<Rightarrow> u64 \<Rightarrow> u8 list \<Rightarrow> (backend_error + unit) \<times> 'k"

definition slice_write_at :: "u8 list \<Rightarrow> u64 \<Rightarrow> u8 list \<Rightarrow> (backend_error + unit) \<times> u8 list" where
  "slice_write_at bs offset src =
     (if unat offset + length src < 2 ^ 64 \<and> unat offset + length src \<le> length bs
      then (Inr (), overwrite bs (unat offset) src) else (Inl BE_OutOfBounds, bs))"

definition slice_sink :: "u8 list byte_sink" where
  "slice_sink = \<lparr>sk_len = (\<lambda>bs. of_nat (length bs)), sk_write_at = slice_write_at\<rparr>"

text \<open>Transport-owned writable ports and their zero-copy adapter.\<close>

record 'k writable_bytes =
  wr_len :: "'k \<Rightarrow> u64"
  wr_write_at :: "'k \<Rightarrow> u64 \<Rightarrow> u8 list \<Rightarrow> (byte_access_error + unit) \<times> 'k"

definition writable_slice :: "u8 list writable_bytes" where
  "writable_slice = \<lparr>wr_len = (\<lambda>bs. of_nat (length bs)), wr_write_at = writable_slice_write_at\<rparr>"

definition transport_byte_sink :: "'k writable_bytes \<Rightarrow> 'k byte_sink" where
  "transport_byte_sink t =
     \<lparr>sk_len = wr_len t,
      sk_write_at = (\<lambda>k offset src. apfst (map_err backend_error_from_byte_access) (wr_write_at t k offset src))\<rparr>"

fun segmented_write_loop ::
  "u8 list list \<Rightarrow> nat \<Rightarrow> u8 list \<Rightarrow> (backend_error + unit) \<times> u8 list list" where
  "segmented_write_loop [] skip src = (Inl BE_OutOfBounds, [])"
| "segmented_write_loop (seg # segs) skip src =
     (if length seg \<le> skip
      then let (r, segs') = segmented_write_loop segs (skip - length seg) src in (r, seg # segs')
      else let count = min (length seg - skip) (length src);
               seg' = overwrite seg skip (take count src)
           in if count = length src then (Inr (), seg' # segs)
              else let (r, segs') = segmented_write_loop segs 0 (drop count src) in (r, seg' # segs'))"

text \<open>A segmented sink keeps the byte total it computed at construction.\<close>

record segmented_sink =
  sg_segments :: "u8 list list"
  sg_len :: u64

definition segmented_sink_new :: "u8 list list \<Rightarrow> segmented_region_error + segmented_sink" where
  "segmented_sink_new segments =
     and_then (checked_segment_len (map length segments))
       (\<lambda>len. Inr \<lparr>sg_segments = segments, sg_len = len\<rparr>)"

definition segmented_write_at ::
  "segmented_sink \<Rightarrow> u64 \<Rightarrow> u8 list \<Rightarrow> (backend_error + unit) \<times> segmented_sink" where
  "segmented_write_at s offset src =
     (case checked_range offset (length src) (sg_len s) of
        Inl e \<Rightarrow> (Inl e, s)
      | Inr _ \<Rightarrow>
          if src = [] then (Inr (), s)
          else let (r, segs) = segmented_write_loop (sg_segments s) (unat offset) src
               in (r, s\<lparr>sg_segments := segs\<rparr>))"

definition segmented_sink_port :: "segmented_sink byte_sink" where
  "segmented_sink_port = \<lparr>sk_len = sg_len, sk_write_at = segmented_write_at\<rparr>"

text \<open>A writable subregion at \<open>offset\<close> of \<open>len\<close> bytes of another sink.\<close>

definition writable_region_new :: "'k byte_sink \<Rightarrow> 'k \<Rightarrow> u64 \<Rightarrow> u64 \<Rightarrow> backend_error + unit" where
  "writable_region_new sink k offset len = checked_range_u64 offset len (sk_len sink k)"

definition writable_region_write_at ::
  "'k byte_sink \<Rightarrow> u64 \<Rightarrow> u64 \<Rightarrow> 'k \<Rightarrow> u64 \<Rightarrow> u8 list \<Rightarrow> (backend_error + unit) \<times> 'k" where
  "writable_region_write_at sink region_offset region_len k offset src =
     (case checked_range offset (length src) region_len of
        Inl e \<Rightarrow> (Inl e, k)
      | Inr _ \<Rightarrow>
          (case checked_add region_offset offset of
             None \<Rightarrow> (Inl BE_OutOfBounds, k)
           | Some sink_offset \<Rightarrow> sk_write_at sink k sink_offset src))"

definition writable_region_port :: "'k byte_sink \<Rightarrow> u64 \<Rightarrow> u64 \<Rightarrow> 'k byte_sink" where
  "writable_region_port sink region_offset region_len =
     \<lparr>sk_len = (\<lambda>_. region_len), sk_write_at = writable_region_write_at sink region_offset region_len\<rparr>"

section \<open>What a port promises\<close>

text \<open>The content of a source is what reading all of it returns.\<close>

definition source_content :: "byte_source \<Rightarrow> u8 list" where
  "source_content s = (case bs_read_at s 0 (unat (bs_len s)) of Inl _ \<Rightarrow> [] | Inr c \<Rightarrow> c)"

text \<open>
  The documented contract of a source: every range inside \<open>0..len()\<close> is readable, and a
  contiguous view is the whole content.
\<close>

locale byte_source_port =
  fixes port :: "'r \<Rightarrow> byte_source" and content :: "'r \<Rightarrow> u8 list" and valid :: "'r \<Rightarrow> bool"
  assumes port_len: "valid r \<Longrightarrow> unat (bs_len (port r)) = length (content r)"
    and port_read: "valid r \<Longrightarrow> unat offset + n \<le> length (content r) \<Longrightarrow>
      bs_read_at (port r) offset n = Inr (take n (drop (unat offset) (content r)))"
    and port_contiguous: "valid r \<Longrightarrow> bs_as_contiguous (port r) = Some bs \<Longrightarrow> bs = content r"
begin

lemma port_content: "valid r \<Longrightarrow> source_content (port r) = content r"
  by (simp add: source_content_def port_len port_read)

lemma port_read_byte_ranges:
  assumes "valid r" "unat offset + n + m \<le> length (content r)"
  shows "\<exists>xs ys. bs_read_at (port r) offset n = Inr xs
    \<and> bs_read_at (port r) (offset + of_nat n) m = Inr ys
    \<and> bs_read_at (port r) offset (n + m) = Inr (xs @ ys)"
proof -
  have len: "length (content r) < 2 ^ 64"
    using port_len [OF assms(1)] unat_u64_less [of "bs_len (port r)"] by simp
  have "unat (offset + of_nat n) = unat offset + n"
    using assms(2) len by (simp add: unat_word_ariths unat_of_nat take_bit_eq_mod)
  then show ?thesis
    using assms by (simp add: port_read take_add add.commute [of n "unat offset"])
qed

end

text \<open>The implementations also refuse every other range, with \<open>OutOfBounds\<close>.\<close>

locale checked_byte_source_port = byte_source_port +
  assumes port_refuse: "valid r \<Longrightarrow> length (content r) < unat offset + n \<Longrightarrow>
      bs_read_at (port r) offset n = Inl BE_OutOfBounds"
begin

lemma port_read_exact:
  "valid r \<Longrightarrow> bs_read_at (port r) offset n =
     (if unat offset + n \<le> length (content r)
      then Inr (take n (drop (unat offset) (content r))) else Inl BE_OutOfBounds)"
  by (simp add: port_read port_refuse)

end

text \<open>The contract as a predicate on one source, for the sources a client is given.\<close>

definition source_ok :: "byte_source \<Rightarrow> bool" where
  "source_ok s \<longleftrightarrow> byte_source_port (\<lambda>_ :: unit. s) (\<lambda>_. source_content s) (\<lambda>_. True)"

context byte_source_port
begin

lemma port_source_ok: "valid r \<Longrightarrow> source_ok (port r)"
  unfolding source_ok_def byte_source_port_def
  using port_len port_read port_contiguous by (simp add: port_content)

end

locale byte_sink_port =
  fixes sink :: "'k byte_sink" and content :: "'k \<Rightarrow> u8 list" and valid :: "'k \<Rightarrow> bool"
  assumes sink_len: "valid k \<Longrightarrow> unat (sk_len sink k) = length (content k)"
    and sink_write: "valid k \<Longrightarrow> unat offset + length src \<le> length (content k) \<Longrightarrow>
      \<exists>k'. sk_write_at sink k offset src = (Inr (), k') \<and> valid k'
        \<and> content k' = overwrite (content k) (unat offset) src"
    and sink_refuse: "valid k \<Longrightarrow> length (content k) < unat offset + length src \<Longrightarrow>
      sk_write_at sink k offset src = (Inl BE_OutOfBounds, k)"
begin

lemma sink_bound: "valid k \<Longrightarrow> length (content k) < 2 ^ 64"
  using sink_len [of k] unat_u64_less [of "sk_len sink k"] by simp

lemma sink_write_valid:
  "valid k \<Longrightarrow> valid (snd (sk_write_at sink k offset src))
     \<and> length (content (snd (sk_write_at sink k offset src))) = length (content k)"
  by (cases "unat offset + length src \<le> length (content k)")
    (use sink_write [of k offset src] sink_refuse [of k offset src] in \<open>auto\<close>)

lemma sink_write_Inr_iff:
  "valid k \<Longrightarrow> fst (sk_write_at sink k offset src) = Inr ()
     \<longleftrightarrow> unat offset + length src \<le> length (content k)"
  by (cases "unat offset + length src \<le> length (content k)")
    (use sink_write [of k offset src] sink_refuse [of k offset src] in \<open>auto\<close>)

end

section \<open>The ports keep the contract\<close>

lemma checked_range_u64_eq:
  "checked_range_u64 offset bytes len =
     (if unat offset + unat bytes \<le> unat len then Inr () else Inl BE_OutOfBounds)"
  using unat_u64_less [of len]
  by (auto simp: checked_range_u64_def checked_add_def word_less_nat_alt unat_add_no_overflow)

lemma checked_range_eq:
  "checked_range offset n len =
     (if unat offset + n \<le> unat len then Inr () else Inl BE_OutOfBounds)"
  using unat_u64_less [of len]
  by (auto simp: checked_range_def checked_range_u64_eq unat_of_nat take_bit_eq_mod)

lemma segment_len_loop_Inr:
  assumes "segment_len_loop count bytes ns = Inr (c, t)" "\<forall>n \<in> set ns. n < 2 ^ 64"
  shows "0 \<notin> set ns \<and> c = count + length ns \<and> unat t = unat bytes + sum_list ns"
  using assms
proof (induction count bytes ns rule: segment_len_loop.induct)
  case (2 count bytes n ns)
  then have "unat (of_nat n :: u64) = n"
    by (simp add: unat_of_nat take_bit_eq_mod)
  with 2 show ?case
    by (auto split: if_splits option.splits simp: checked_add_def unat_add_no_overflow)
qed simp

lemma checked_segment_len_Inr:
  assumes "checked_segment_len ns = Inr t" "\<forall>n \<in> set ns. n < 2 ^ 64"
  shows "ns \<noteq> [] \<and> 0 \<notin> set ns \<and> unat t = sum_list ns"
  using assms segment_len_loop_Inr [of 0 0 ns]
  by (fastforce simp: checked_segment_len_def and_then_eq_Inr split: if_splits)

lemma segmented_read_loop_eq:
  "length written < n \<Longrightarrow>
   segmented_read_loop segs skip n written =
     (if skip + (n - length written) \<le> length (concat segs)
      then Inr (written @ take (n - length written) (drop skip (concat segs)))
      else Inl BE_OutOfBounds)"
proof (induction segs arbitrary: skip written)
  case (Cons seg segs)
  consider "length seg \<le> skip"
    | "skip < length seg" "n - length written \<le> length seg - skip"
    | "skip < length seg" "length seg - skip < n - length written"
    by linarith
  then show ?case
  proof cases
    case 1
    then show ?thesis
      using Cons.IH [OF Cons.prems, of "skip - length seg"] by auto
  next
    case 2
    then show ?thesis
      using Cons.prems by (simp add: Let_def min_absorb2)
  next
    case 3
    then have more: "length (written @ drop skip seg) < n"
      by simp
    with 3 have "segmented_read_loop (seg # segs) skip n written
        = segmented_read_loop segs 0 n (written @ drop skip seg)"
      by (simp add: Let_def min_absorb1 del: length_append)
    with 3 show ?thesis
      using Cons.IH [OF more, of 0] by (auto simp del: segmented_read_loop.simps)
  qed
qed simp

lemma overwrite_append_right:
  "length xs \<le> i \<Longrightarrow> overwrite (xs @ ys) i zs = xs @ overwrite ys (i - length xs) zs"
  by (simp add: overwrite_def)

lemma overwrite_append_left:
  "i + length zs \<le> length xs \<Longrightarrow> overwrite (xs @ ys) i zs = overwrite xs i zs @ ys"
  by (simp add: overwrite_def)

lemma overwrite_append_both:
  assumes "i \<le> length xs" "length xs - i \<le> length zs"
  shows "overwrite (xs @ ys) i zs
    = overwrite xs i (take (length xs - i) zs) @ overwrite ys 0 (drop (length xs - i) zs)"
  using assms by (simp add: overwrite_def add.commute)

lemma segmented_write_loop_ok:
  "src \<noteq> [] \<Longrightarrow> skip + length src \<le> length (concat segs) \<Longrightarrow>
   \<exists>segs'. segmented_write_loop segs skip src = (Inr (), segs')
     \<and> map length segs' = map length segs \<and> concat segs' = overwrite (concat segs) skip src"
proof (induction segs arbitrary: skip src)
  case (Cons seg segs)
  consider "length seg \<le> skip"
    | "skip < length seg" "length src \<le> length seg - skip"
    | "skip < length seg" "length seg - skip < length src"
    by linarith
  then show ?case
  proof cases
    case 1
    with Cons.prems have "skip - length seg + length src \<le> length (concat segs)"
      by simp
    from Cons.IH [OF Cons.prems(1) this] 1 show ?thesis
      by (auto simp: overwrite_append_right)
  next
    case 2
    then show ?thesis
      by (simp add: Let_def min_absorb2 overwrite_append_left)
  next
    case 3
    define rest where "rest = drop (length seg - skip) src"
    have "rest \<noteq> []" "0 + length rest \<le> length (concat segs)"
      using 3 Cons.prems by (auto simp: rest_def)
    from Cons.IH [OF this] 3 show ?thesis
      by (auto simp: Let_def min_absorb1 rest_def overwrite_append_both)
  qed
qed simp

lemma unat_of_nat_u64: "n < 2 ^ 64 \<Longrightarrow> unat (of_nat n :: u64) = n"
  by (simp add: unat_of_nat take_bit_eq_mod)

text \<open>Rust bounds every slice by \<open>isize::MAX\<close>; below \<open>2 ^ 64\<close> is all the ports need.\<close>

definition slice_fits :: "u8 list \<Rightarrow> bool" where
  "slice_fits bs \<longleftrightarrow> length bs < 2 ^ 64"

definition segmented_source_wf :: "segmented_source \<Rightarrow> bool" where
  "segmented_source_wf s \<longleftrightarrow> unat (ss_len s) = length (concat (ss_segments s))"

definition segmented_sink_wf :: "segmented_sink \<Rightarrow> bool" where
  "segmented_sink_wf s \<longleftrightarrow> unat (sg_len s) = length (concat (sg_segments s))"

definition readable_region_content :: "readable_region \<Rightarrow> u8 list" where
  "readable_region_content r =
     take (unat (rr_len r)) (drop (unat (rr_offset r)) (source_content (rr_source r)))"

definition readable_region_wf :: "readable_region \<Rightarrow> bool" where
  "readable_region_wf r \<longleftrightarrow> source_ok (rr_source r)
     \<and> unat (rr_offset r) + unat (rr_len r) \<le> unat (bs_len (rr_source r))"

interpretation slice_in: checked_byte_source_port slice_source "\<lambda>bs. bs" slice_fits
  by unfold_locales
    (simp_all add: slice_source_def slice_fits_def slice_read_at_def unat_of_nat_u64)

interpretation transport_in:
  checked_byte_source_port "\<lambda>bs. transport_byte_source (readable_slice bs)" "\<lambda>bs. bs" slice_fits
  by unfold_locales
    (simp_all add: transport_byte_source_def readable_slice_def readable_slice_read_at_def
      slice_fits_def slice_get_def unat_of_nat_u64)

lemma segmented_read_at_eq:
  "segmented_source_wf s \<Longrightarrow> segmented_read_at s offset n =
     (if unat offset + n \<le> length (concat (ss_segments s))
      then Inr (take n (drop (unat offset) (concat (ss_segments s)))) else Inl BE_OutOfBounds)"
  by (simp add: segmented_read_at_def checked_range_eq segmented_source_wf_def
      segmented_read_loop_eq del: length_concat)

interpretation segmented_in:
  checked_byte_source_port segmented_port "\<lambda>s. concat (ss_segments s)" segmented_source_wf
proof unfold_locales
  fix r and bs :: "u8 list"
  assume "bs_as_contiguous (segmented_port r) = Some bs"
  then show "bs = concat (ss_segments r)"
    by (cases "ss_segments r") (auto simp: segmented_port_def split: if_splits)
qed (simp_all add: segmented_port_def segmented_read_at_eq segmented_source_wf_def)

lemma source_ok_len: "source_ok s \<Longrightarrow> length (source_content s) = unat (bs_len s)"
  unfolding source_ok_def byte_source_port_def by metis

lemma source_ok_read:
  "source_ok s \<Longrightarrow> unat offset + n \<le> unat (bs_len s) \<Longrightarrow>
     bs_read_at s offset n = Inr (take n (drop (unat offset) (source_content s)))"
  unfolding source_ok_def byte_source_port_def by metis

lemma source_ok_contiguous:
  "source_ok s \<Longrightarrow> bs_as_contiguous s = Some bs \<Longrightarrow> bs = source_content s"
  unfolding source_ok_def byte_source_port_def by metis

lemma take_drop_window: "i + n \<le> m \<Longrightarrow> take n (drop i (take m xs)) = take n (drop i xs)"
  by (simp add: drop_take min_absorb1)

lemma readable_region_read:
  assumes "readable_region_wf r" "unat offset + n \<le> unat (rr_len r)"
  shows "readable_region_read_at r offset n = Inr (take n (drop (unat offset) (readable_region_content r)))"
proof -
  have fits: "unat (rr_offset r) + unat offset < 2 ^ 64"
    using assms unat_u64_less [of "bs_len (rr_source r)"] by (simp add: readable_region_wf_def)
  have "readable_region_read_at r offset n = bs_read_at (rr_source r) (rr_offset r + offset) n"
    using assms(2) fits by (simp add: readable_region_read_at_def checked_range_eq checked_add_def)
  also have "\<dots> = Inr (take n (drop (unat (rr_offset r) + unat offset) (source_content (rr_source r))))"
    using assms fits source_ok_read [of "rr_source r" "rr_offset r + offset" n]
    by (simp add: readable_region_wf_def unat_add_no_overflow)
  finally show ?thesis
    using assms(2) by (simp add: readable_region_content_def take_drop_window add.commute)
qed

interpretation region_in:
  byte_source_port readable_region_port readable_region_content readable_region_wf
proof unfold_locales
  fix r bs
  assume "readable_region_wf r" "bs_as_contiguous (readable_region_port r) = Some bs"
  then show "bs = readable_region_content r"
    by (auto simp: readable_region_port_def readable_region_content_def readable_region_wf_def
        readable_region_contiguous_def slice_get_def Let_def
        dest: source_ok_contiguous split: option.splits if_splits)
next
  fix r
  assume wf: "readable_region_wf r"
  then show len: "unat (bs_len (readable_region_port r)) = length (readable_region_content r)"
    by (auto simp: readable_region_port_def readable_region_content_def readable_region_wf_def
        source_ok_len min_def)
  fix offset :: u64 and n
  assume "unat offset + n \<le> length (readable_region_content r)"
  with wf len show "bs_read_at (readable_region_port r) offset n
      = Inr (take n (drop (unat offset) (readable_region_content r)))"
    by (simp add: readable_region_port_def readable_region_read)
qed

interpretation slice_out: byte_sink_port slice_sink "\<lambda>bs. bs" slice_fits
  by unfold_locales (simp_all add: slice_sink_def slice_fits_def slice_write_at_def unat_of_nat_u64)

interpretation transport_out: byte_sink_port "transport_byte_sink writable_slice" "\<lambda>bs. bs" slice_fits
  by unfold_locales
    (simp_all add: transport_byte_sink_def writable_slice_def slice_fits_def
      writable_slice_write_at_def unat_of_nat_u64)

lemma segmented_write_at_ok:
  assumes "segmented_sink_wf s" "unat offset + length src \<le> length (concat (sg_segments s))"
  shows "\<exists>s'. segmented_write_at s offset src = (Inr (), s') \<and> segmented_sink_wf s'
    \<and> map length (sg_segments s') = map length (sg_segments s)
    \<and> concat (sg_segments s') = overwrite (concat (sg_segments s)) (unat offset) src"
proof (cases "src = []")
  case True
  with assms show ?thesis
    by (simp add: segmented_write_at_def checked_range_eq segmented_sink_wf_def del: length_concat)
next
  case False
  from segmented_write_loop_ok [OF this assms(2)] obtain segs where
    "segmented_write_loop (sg_segments s) (unat offset) src = (Inr (), segs)"
    "map length segs = map length (sg_segments s)"
    "concat segs = overwrite (concat (sg_segments s)) (unat offset) src"
    by blast
  with False assms show ?thesis
    by (simp add: segmented_write_at_def checked_range_eq segmented_sink_wf_def del: length_concat)
qed

lemma segmented_write_at_refuse:
  "segmented_sink_wf s \<Longrightarrow> length (concat (sg_segments s)) < unat offset + length src \<Longrightarrow>
     segmented_write_at s offset src = (Inl BE_OutOfBounds, s)"
  by (simp add: segmented_write_at_def checked_range_eq segmented_sink_wf_def del: length_concat)

interpretation segmented_out:
  byte_sink_port segmented_sink_port "\<lambda>s. concat (sg_segments s)" segmented_sink_wf
proof unfold_locales
  fix k and offset :: u64 and src :: "u8 list"
  assume "segmented_sink_wf k" "unat offset + length src \<le> length (concat (sg_segments k))"
  from segmented_write_at_ok [OF this]
  show "\<exists>k'. sk_write_at segmented_sink_port k offset src = (Inr (), k') \<and> segmented_sink_wf k'
      \<and> concat (sg_segments k') = overwrite (concat (sg_segments k)) (unat offset) src"
    by (auto simp: segmented_sink_port_def)
qed (simp_all add: segmented_sink_port_def segmented_write_at_refuse segmented_sink_wf_def)

text \<open>A subregion of a sink is again a sink: the window is written, the rest is kept.\<close>

locale byte_sink_region = byte_sink_port +
  fixes region_offset region_len :: u64
begin

definition region_content :: "'a \<Rightarrow> u8 list" where
  "region_content k = take (unat region_len) (drop (unat region_offset) (content k))"

definition region_valid :: "'a \<Rightarrow> bool" where
  "region_valid k \<longleftrightarrow> valid k \<and> unat region_offset + unat region_len \<le> length (content k)"

lemma region_write:
  assumes "region_valid k" "unat offset + length src \<le> unat region_len"
  shows "\<exists>k'. writable_region_write_at sink region_offset region_len k offset src = (Inr (), k')
    \<and> valid k' \<and> content k' = overwrite (content k) (unat region_offset + unat offset) src"
proof -
  have k: "valid k" "unat region_offset + unat region_len \<le> length (content k)"
    using assms(1) by (simp_all add: region_valid_def)
  have fits: "unat region_offset + unat offset < 2 ^ 64"
    using k assms(2) sink_bound [OF k(1)] by simp
  have "writable_region_write_at sink region_offset region_len k offset src
      = sk_write_at sink k (region_offset + offset) src"
    using assms(2) fits
    by (simp add: writable_region_write_at_def checked_range_eq checked_add_def)
  then show ?thesis
    using sink_write [OF k(1), of "region_offset + offset" src] k assms(2) fits
    by (simp add: unat_add_no_overflow)
qed

end

lemma overwrite_window:
  assumes "i + n \<le> length xs" "j + length ys \<le> n"
  shows "take n (drop i (overwrite xs (i + j) ys)) = overwrite (take n (drop i xs)) j ys"
  using assms by (auto intro!: nth_equalityI simp: nth_overwrite)

sublocale byte_sink_region \<subseteq> region:
  byte_sink_port "writable_region_port sink region_offset region_len" region_content region_valid
proof unfold_locales
  fix k
  assume k: "region_valid k"
  then show len: "unat (sk_len (writable_region_port sink region_offset region_len) k)
      = length (region_content k)"
    by (auto simp: writable_region_port_def region_content_def region_valid_def min_def)
  fix offset :: u64 and src :: "u8 list"
  {
    assume "unat offset + length src \<le> length (region_content k)"
    then have "unat offset + length src \<le> unat region_len"
      using len by (simp add: writable_region_port_def)
    from region_write [OF k this] k this
    show "\<exists>k'. sk_write_at (writable_region_port sink region_offset region_len) k offset src = (Inr (), k')
        \<and> region_valid k' \<and> region_content k' = overwrite (region_content k) (unat offset) src"
      by (auto simp: writable_region_port_def region_content_def region_valid_def overwrite_window)
  }
  assume "length (region_content k) < unat offset + length src"
  then show "sk_write_at (writable_region_port sink region_offset region_len) k offset src
      = (Inl BE_OutOfBounds, k)"
    using len by (simp add: writable_region_port_def writable_region_write_at_def checked_range_eq)
qed

interpretation slice_region: byte_sink_region slice_sink "\<lambda>bs. bs" slice_fits region_offset region_len
  for region_offset region_len ..

interpretation segmented_region:
  byte_sink_region segmented_sink_port "\<lambda>s. concat (sg_segments s)" segmented_sink_wf region_offset region_len
  for region_offset region_len ..

section \<open>Properties\<close>

lemma segmented_source_new_wf:
  assumes "segmented_source_new segments = Inr s" "\<forall>seg \<in> set segments. length seg < 2 ^ 64"
  shows "segmented_source_wf s \<and> ss_segments s = segments"
proof -
  from assms(1) obtain len where len: "checked_segment_len (map length segments) = Inr len"
      "s = \<lparr>ss_segments = segments, ss_len = len\<rparr>"
    by (auto simp: segmented_source_new_def)
  with checked_segment_len_Inr [OF len(1)] assms(2) show ?thesis
    by (simp add: segmented_source_wf_def length_concat)
qed

lemma segmented_sink_new_wf:
  assumes "segmented_sink_new segments = Inr s" "\<forall>seg \<in> set segments. length seg < 2 ^ 64"
  shows "segmented_sink_wf s \<and> sg_segments s = segments"
proof -
  from assms(1) obtain len where len: "checked_segment_len (map length segments) = Inr len"
      "s = \<lparr>sg_segments = segments, sg_len = len\<rparr>"
    by (auto simp: segmented_sink_new_def)
  with checked_segment_len_Inr [OF len(1)] assms(2) show ?thesis
    by (simp add: segmented_sink_wf_def length_concat)
qed

text \<open>C30: the segmented ports behave as the one contiguous slice their segments spell. A read
  from a segmented source returns what the same read of the concatenation returns, in range or
  not; a write to a segmented sink succeeds exactly when the write to the concatenation does,
  has the same effect on the bytes, and keeps every segment boundary.\<close>

theorem segmented_ports_as_contiguous:
  assumes "segmented_source_new segments = Inr s" "segmented_sink_new segments = Inr k"
    and "\<forall>seg \<in> set segments. length seg < 2 ^ 64"
  shows "bs_read_at (segmented_port s) offset n = slice_read_at (concat segments) offset n
    \<and> apsnd (\<lambda>k'. concat (sg_segments k')) (segmented_write_at k offset src)
      = slice_write_at (concat segments) offset src
    \<and> map length (sg_segments (snd (segmented_write_at k offset src))) = map length segments"
proof (intro conjI)
  have s: "segmented_source_wf s" "ss_segments s = segments"
    and k: "segmented_sink_wf k" "sg_segments k = segments"
    using segmented_source_new_wf segmented_sink_new_wf assms by blast+
  have fits: "length (concat segments) < 2 ^ 64"
    using segmented_out.sink_bound [OF k(1)] k(2) by simp
  show "bs_read_at (segmented_port s) offset n = slice_read_at (concat segments) offset n"
    using segmented_in.port_read_exact [OF s(1)] fits by (simp add: slice_read_at_def s(2))
  show "apsnd (\<lambda>k'. concat (sg_segments k')) (segmented_write_at k offset src)
      = slice_write_at (concat segments) offset src"
    using segmented_write_at_ok [OF k(1), of offset src]
      segmented_write_at_refuse [OF k(1), of offset src] fits
    by (cases "unat offset + length src \<le> length (concat segments)")
      (auto simp: slice_write_at_def k(2))
  show "map length (sg_segments (snd (segmented_write_at k offset src))) = map length segments"
    using segmented_write_at_ok [OF k(1), of offset src]
      segmented_write_at_refuse [OF k(1), of offset src]
    by (cases "unat offset + length src \<le> length (concat segments)") (auto simp: k(2))
qed

theorem segmented_ports_as_contiguous_witness:
  "bs_read_at (segmented_port \<lparr>ss_segments = [[1, 2], [3]], ss_len = 3\<rparr>) 1 2
     = slice_read_at [1, 2, 3] 1 2"
  using segmented_ports_as_contiguous [of "[[1, 2], [3]]" "\<lparr>ss_segments = [[1, 2], [3]], ss_len = 3\<rparr>"
      "\<lparr>sg_segments = [[1, 2], [3]], sg_len = 3\<rparr>" 1 2]
  by (simp add: segmented_source_new_def segmented_sink_new_def checked_segment_len_def checked_add_def)



end
