(* ===== verification/Accel_Backend.thy ===== *)
theory Accel_Backend
  imports Byte_Ports
begin

text \<open>
  The provider interface of \<open>virtio-accel-core\<close>: the trait \<open>Accelerator\<close> as a record of its
  methods. A provider is code behind this interface, so every method is an arbitrary function. The
  methods take \<open>&self\<close> and act on the world of the provider, of type \<open>'w\<close>, which they return
  updated. A method that borrows a handle mutably returns the handle as it left it, and a method
  that borrows a sink returns the state of the sink.
\<close>

record 'b allocated_buffer =
  al_buffer :: 'b
  al_info :: buffer_info

definition allocated_buffer_into_parts :: "'b allocated_buffer \<Rightarrow> 'b \<times> buffer_info" where
  "allocated_buffer_into_parts a = (al_buffer a, al_info a)"

record artifact_ref =
  ar_format :: u32
  ar_target :: "u32 list"
  ar_payload :: byte_source
  ar_resident_bytes :: u64

record ('c, 'b, 'p, 'q, 'e, 'k, 'w) accelerator =
  ac_device_info :: "'w \<Rightarrow> (backend_error + device_info) \<times> 'w"
  ac_create_context :: "context_desc \<Rightarrow> 'w \<Rightarrow> (backend_error + 'c) \<times> 'w"
  ac_destroy_context :: "'c \<Rightarrow> 'w \<Rightarrow> ('c release_failure + unit) \<times> 'w"
  ac_allocate_buffer :: "'c \<Rightarrow> buffer_desc \<Rightarrow> 'w \<Rightarrow> (backend_error + 'b allocated_buffer) \<times> 'w"
  ac_write_buffer :: "'b \<Rightarrow> u64 \<Rightarrow> byte_source \<Rightarrow> 'w \<Rightarrow> (backend_error + unit) \<times> 'b \<times> 'w"
  ac_read_buffer :: "'b \<Rightarrow> u64 \<Rightarrow> 'k byte_sink \<Rightarrow> 'k \<Rightarrow> 'w \<Rightarrow> (backend_error + unit) \<times> 'k \<times> 'w"
  ac_free_buffer :: "'b \<Rightarrow> 'w \<Rightarrow> ('b release_failure + unit) \<times> 'w"
  ac_load_program :: "'c \<Rightarrow> artifact_ref \<Rightarrow> 'w \<Rightarrow> (backend_error + 'p) \<times> 'w"
  ac_unload_program :: "'p \<Rightarrow> 'w \<Rightarrow> ('p release_failure + unit) \<times> 'w"
  ac_create_queue :: "'c \<Rightarrow> queue_desc \<Rightarrow> 'w \<Rightarrow> (backend_error + 'q) \<times> 'w"
  ac_destroy_queue :: "'q \<Rightarrow> 'w \<Rightarrow> ('q release_failure + unit) \<times> 'w"
  ac_submit :: "'q \<Rightarrow> 'p \<Rightarrow> 'b binding_ref list \<Rightarrow> timeout \<Rightarrow> 'w \<Rightarrow> ('e submit_failure + 'e) \<times> 'w"
  ac_poll_event :: "'e \<Rightarrow> 'w \<Rightarrow> (backend_error + event_state) \<times> 'w"
  ac_cancel_event :: "'e \<Rightarrow> 'w \<Rightarrow> (backend_error + unit) \<times> 'w"
  ac_destroy_event :: "'e \<Rightarrow> 'w \<Rightarrow> ('e release_failure + unit) \<times> 'w"

text \<open>The provided method \<open>cancel_event\<close> of a backend that does not implement cancellation.\<close>

definition cancel_event_unsupported :: "'e \<Rightarrow> 'w \<Rightarrow> (backend_error + unit) \<times> 'w" where
  "cancel_event_unsupported event w = (Inl BE_Unsupported, w)"

end
