(* ===== verification/Accel_Proto.thy ===== *)
theory Accel_Proto
  imports Accel_Core
begin

text \<open>
  The wire contract of \<open>virtio-accel-proto\<close>: protocol limits, opcodes, status codes, event
  states, configuration validation, and the pointer-free little-endian structures with
  their encoders and decoders. A structure is a record of host-order words; its
  \<open>encode\<close> function is \<open>as_bytes\<close> and its \<open>decode\<close> function is \<open>read_exact\<close> at that
  type. The locale \<open>wire_codec\<close> states what a fixed layout promises, and every structure
  is an interpretation of it.
\<close>

named_theorems proto_consts "protocol constants"
named_theorems wire_layout "slicing rules for fixed layouts"
named_theorems abi_layout "field tables of the published layout"

section \<open>Constants\<close>

definition PROTOCOL_MAJOR :: u16 where [proto_consts]: "PROTOCOL_MAJOR = 1"
definition PROTOCOL_MINOR :: u16 where [proto_consts]: "PROTOCOL_MINOR = 0"
definition BASELINE_COMMAND_QUEUES :: u16 where [proto_consts]: "BASELINE_COMMAND_QUEUES = 1"
definition HARD_MAX_CHAIN_DESCRIPTORS :: u16 where [proto_consts]: "HARD_MAX_CHAIN_DESCRIPTORS = 256"
definition HARD_MAX_REQUEST_BYTES :: u32 where [proto_consts]: "HARD_MAX_REQUEST_BYTES = 16777216"
definition HARD_MAX_RESPONSE_BYTES :: u32 where [proto_consts]: "HARD_MAX_RESPONSE_BYTES = 16777216"
definition HARD_MAX_BINDINGS :: u32 where [proto_consts]: "HARD_MAX_BINDINGS = 4096"
definition MIN_MAX_REQUEST_BYTES :: u32 where [proto_consts]: "MIN_MAX_REQUEST_BYTES = 97"
definition MIN_MAX_RESPONSE_BYTES :: u32 where [proto_consts]: "MIN_MAX_RESPONSE_BYTES = 92"

section \<open>Opcodes, status codes and event states\<close>

datatype known_opcode =
    Op_GetDeviceInfo
  | Op_CreateContext
  | Op_DestroyContext
  | Op_AllocateBuffer
  | Op_FreeBuffer
  | Op_WriteBuffer
  | Op_ReadBuffer
  | Op_LoadProgram
  | Op_UnloadProgram
  | Op_CreateQueue
  | Op_DestroyQueue
  | Op_Submit
  | Op_PollEvent
  | Op_CancelEvent
  | Op_DestroyEvent

fun opcode_code :: "known_opcode \<Rightarrow> u16" where
  "opcode_code Op_GetDeviceInfo = 0x0001"
| "opcode_code Op_CreateContext = 0x0100"
| "opcode_code Op_DestroyContext = 0x0101"
| "opcode_code Op_AllocateBuffer = 0x0200"
| "opcode_code Op_FreeBuffer = 0x0201"
| "opcode_code Op_WriteBuffer = 0x0202"
| "opcode_code Op_ReadBuffer = 0x0203"
| "opcode_code Op_LoadProgram = 0x0300"
| "opcode_code Op_UnloadProgram = 0x0301"
| "opcode_code Op_CreateQueue = 0x0400"
| "opcode_code Op_DestroyQueue = 0x0401"
| "opcode_code Op_Submit = 0x0500"
| "opcode_code Op_PollEvent = 0x0501"
| "opcode_code Op_CancelEvent = 0x0502"
| "opcode_code Op_DestroyEvent = 0x0503"

datatype unknown_opcode = UnknownOpcode u16

definition opcode_try_from :: "u16 \<Rightarrow> unknown_opcode + known_opcode" where
  "opcode_try_from v =
     (if v = 0x0001 then Inr Op_GetDeviceInfo
      else if v = 0x0100 then Inr Op_CreateContext
      else if v = 0x0101 then Inr Op_DestroyContext
      else if v = 0x0200 then Inr Op_AllocateBuffer
      else if v = 0x0201 then Inr Op_FreeBuffer
      else if v = 0x0202 then Inr Op_WriteBuffer
      else if v = 0x0203 then Inr Op_ReadBuffer
      else if v = 0x0300 then Inr Op_LoadProgram
      else if v = 0x0301 then Inr Op_UnloadProgram
      else if v = 0x0400 then Inr Op_CreateQueue
      else if v = 0x0401 then Inr Op_DestroyQueue
      else if v = 0x0500 then Inr Op_Submit
      else if v = 0x0501 then Inr Op_PollEvent
      else if v = 0x0502 then Inr Op_CancelEvent
      else if v = 0x0503 then Inr Op_DestroyEvent
      else Inl (UnknownOpcode v))"

type_synonym status_code = u16

definition STATUS_OK :: status_code where [proto_consts]: "STATUS_OK = 0"
definition STATUS_UNSUPPORTED :: status_code where [proto_consts]: "STATUS_UNSUPPORTED = 1"
definition STATUS_INCOMPATIBLE :: status_code where [proto_consts]: "STATUS_INCOMPATIBLE = 2"
definition STATUS_INVALID_ARGUMENT :: status_code where [proto_consts]: "STATUS_INVALID_ARGUMENT = 3"
definition STATUS_OUT_OF_BOUNDS :: status_code where [proto_consts]: "STATUS_OUT_OF_BOUNDS = 4"
definition STATUS_BUSY :: status_code where [proto_consts]: "STATUS_BUSY = 5"
definition STATUS_OUT_OF_MEMORY :: status_code where [proto_consts]: "STATUS_OUT_OF_MEMORY = 6"
definition STATUS_RESOURCE_LIMIT :: status_code where [proto_consts]: "STATUS_RESOURCE_LIMIT = 7"
definition STATUS_DEADLINE_EXPIRED :: status_code where [proto_consts]: "STATUS_DEADLINE_EXPIRED = 8"
definition STATUS_DEVICE_LOST :: status_code where [proto_consts]: "STATUS_DEVICE_LOST = 9"
definition STATUS_PERMISSION_DENIED :: status_code where [proto_consts]: "STATUS_PERMISSION_DENIED = 10"
definition STATUS_STALE_OBJECT :: status_code where [proto_consts]: "STATUS_STALE_OBJECT = 11"
definition STATUS_INTERNAL_ERROR :: status_code where [proto_consts]: "STATUS_INTERNAL_ERROR = 0xffff"

definition status_is_known :: "status_code \<Rightarrow> bool" where
  "status_is_known s \<longleftrightarrow> s \<le> 11 \<or> s = 0xffff"

definition status_is_success :: "status_code \<Rightarrow> bool" where
  "status_is_success s \<longleftrightarrow> s = STATUS_OK"

datatype known_event_state = KE_Pending | KE_Complete | KE_Failed | KE_Cancelled

fun event_state_code :: "known_event_state \<Rightarrow> u16" where
  "event_state_code KE_Pending = 0"
| "event_state_code KE_Complete = 1"
| "event_state_code KE_Failed = 2"
| "event_state_code KE_Cancelled = 3"

datatype unknown_event_state = UnknownEventState u16

definition event_state_try_from :: "u16 \<Rightarrow> unknown_event_state + known_event_state" where
  "event_state_try_from v =
     (if v = 0 then Inr KE_Pending else if v = 1 then Inr KE_Complete
      else if v = 2 then Inr KE_Failed else if v = 3 then Inr KE_Cancelled
      else Inl (UnknownEventState v))"

section \<open>Wire structures\<close>

datatype decode_error = DE_Size | DE_CountOverflow

text \<open>Field access at a byte offset: an integer, a byte array, an array of \<open>Le32\<close>.\<close>

definition le_at :: "nat \<Rightarrow> nat \<Rightarrow> u8 list \<Rightarrow> 'a::len word" where
  "le_at off n bs = from_le (take n (drop off bs))"

definition bytes_at :: "nat \<Rightarrow> nat \<Rightarrow> u8 list \<Rightarrow> u8 list" where
  "bytes_at off n bs = take n (drop off bs)"

primrec le32s :: "nat \<Rightarrow> u8 list \<Rightarrow> u32 list" where
  "le32s 0 bs = []"
| "le32s (Suc n) bs = from_le (take 4 bs) # le32s n (drop 4 bs)"

definition le32s_bytes :: "u32 list \<Rightarrow> u8 list" where
  "le32s_bytes ws = concat (map (to_le 4) ws)"

record wire_config =
  wc_protocol_major :: u16
  wc_protocol_minor :: u16
  wc_command_queue_count :: u16
  wc_max_chain_descriptors :: u16
  wc_max_request_bytes :: u32
  wc_max_response_bytes :: u32

record request_header =
  rq_opcode :: u16
  rq_flags :: u16
  rq_payload_bytes :: u32
  rq_request_id :: u64

record response_header =
  rs_status :: u16
  rs_flags :: u16
  rs_payload_bytes :: u32
  rs_request_id :: u64

record wire_device_info =
  wd_uuid :: "u8 list"
  wd_class :: u16
  wd_reserved :: u16
  wd_vendor_id :: u32
  wd_device_id :: u32
  wd_capabilities :: u64
  wd_max_contexts :: u32
  wd_max_buffers_per_context :: u32
  wd_max_programs_per_context :: u32
  wd_max_queues_per_context :: u32
  wd_max_events_per_context :: u32
  wd_max_bindings_per_submission :: u32
  wd_max_buffer_bytes :: u64
  wd_max_artifact_bytes :: u64

record create_context_request =
  cc_flags :: u32
  cc_reserved :: u32

record object_payload =
  op_object_id :: u64

record allocate_buffer_request =
  ab_context_id :: u64
  ab_bytes :: u64
  ab_alignment :: u64
  ab_memory_domain :: u8
  ab_reserved0 :: "u8 list"
  ab_usage :: u32
  ab_reserved1 :: u32

record transfer_buffer_request =
  tb_buffer_id :: u64
  tb_offset :: u64
  tb_bytes :: u64

record load_program_request =
  lp_context_id :: u64
  lp_format :: u32
  lp_flags :: u32
  lp_target :: "u32 list"
  lp_payload_bytes :: u64
  lp_resident_bytes :: u64

record create_queue_request =
  cq_context_id :: u64
  cq_flags :: u32
  cq_reserved :: u32

record submit_request =
  sq_queue_id :: u64
  sq_program_id :: u64
  sq_binding_count :: u32
  sq_flags :: u32
  sq_timeout_ns :: u64

record wire_binding =
  wb_buffer_id :: u64
  wb_offset :: u64
  wb_bytes :: u64
  wb_slot :: u32
  wb_access :: u8
  wb_reserved :: "u8 list"

record submit_response =
  sr_event_id :: u64

record wire_event_state =
  we_state :: u16
  we_error :: u16
  we_reserved :: u32

definition size_wire_config :: nat where [wire_simps]: "size_wire_config = 16"

definition encode_wire_config :: "wire_config \<Rightarrow> u8 list" where
  [wire_simps]: "encode_wire_config x =
     to_le 2 (wc_protocol_major x) @ to_le 2 (wc_protocol_minor x) @
     to_le 2 (wc_command_queue_count x) @ to_le 2 (wc_max_chain_descriptors x) @
     to_le 4 (wc_max_request_bytes x) @ to_le 4 (wc_max_response_bytes x)"

definition decode_wire_config :: "u8 list \<Rightarrow> decode_error + wire_config" where
  [wire_simps]: "decode_wire_config bs =
     (if length bs = 16
      then Inr \<lparr>wc_protocol_major = le_at 0 2 bs, wc_protocol_minor = le_at 2 2 bs,
                wc_command_queue_count = le_at 4 2 bs, wc_max_chain_descriptors = le_at 6 2 bs,
                wc_max_request_bytes = le_at 8 4 bs, wc_max_response_bytes = le_at 12 4 bs\<rparr>
      else Inl DE_Size)"

definition size_request_header :: nat where [wire_simps]: "size_request_header = 16"

definition encode_request_header :: "request_header \<Rightarrow> u8 list" where
  [wire_simps]: "encode_request_header x =
     to_le 2 (rq_opcode x) @ to_le 2 (rq_flags x) @ to_le 4 (rq_payload_bytes x) @
     to_le 8 (rq_request_id x)"

definition decode_request_header :: "u8 list \<Rightarrow> decode_error + request_header" where
  [wire_simps]: "decode_request_header bs =
     (if length bs = 16
      then Inr \<lparr>rq_opcode = le_at 0 2 bs, rq_flags = le_at 2 2 bs, rq_payload_bytes = le_at 4 4 bs,
                rq_request_id = le_at 8 8 bs\<rparr>
      else Inl DE_Size)"

definition size_response_header :: nat where [wire_simps]: "size_response_header = 16"

definition encode_response_header :: "response_header \<Rightarrow> u8 list" where
  [wire_simps]: "encode_response_header x =
     to_le 2 (rs_status x) @ to_le 2 (rs_flags x) @ to_le 4 (rs_payload_bytes x) @
     to_le 8 (rs_request_id x)"

definition decode_response_header :: "u8 list \<Rightarrow> decode_error + response_header" where
  [wire_simps]: "decode_response_header bs =
     (if length bs = 16
      then Inr \<lparr>rs_status = le_at 0 2 bs, rs_flags = le_at 2 2 bs, rs_payload_bytes = le_at 4 4 bs,
                rs_request_id = le_at 8 8 bs\<rparr>
      else Inl DE_Size)"

definition size_wire_device_info :: nat where [wire_simps]: "size_wire_device_info = 76"

definition encode_wire_device_info :: "wire_device_info \<Rightarrow> u8 list" where
  [wire_simps]: "encode_wire_device_info x =
     wd_uuid x @ to_le 2 (wd_class x) @ to_le 2 (wd_reserved x) @
     to_le 4 (wd_vendor_id x) @ to_le 4 (wd_device_id x) @ to_le 8 (wd_capabilities x) @
     to_le 4 (wd_max_contexts x) @ to_le 4 (wd_max_buffers_per_context x) @
     to_le 4 (wd_max_programs_per_context x) @ to_le 4 (wd_max_queues_per_context x) @
     to_le 4 (wd_max_events_per_context x) @
     to_le 4 (wd_max_bindings_per_submission x) @ to_le 8 (wd_max_buffer_bytes x) @
     to_le 8 (wd_max_artifact_bytes x)"

definition decode_wire_device_info :: "u8 list \<Rightarrow> decode_error + wire_device_info" where
  [wire_simps]: "decode_wire_device_info bs =
     (if length bs = 76
      then Inr \<lparr>wd_uuid = bytes_at 0 16 bs, wd_class = le_at 16 2 bs, wd_reserved = le_at 18 2 bs,
                wd_vendor_id = le_at 20 4 bs, wd_device_id = le_at 24 4 bs,
                wd_capabilities = le_at 28 8 bs, wd_max_contexts = le_at 36 4 bs,
                wd_max_buffers_per_context = le_at 40 4 bs,
                wd_max_programs_per_context = le_at 44 4 bs,
                wd_max_queues_per_context = le_at 48 4 bs,
                wd_max_events_per_context = le_at 52 4 bs,
                wd_max_bindings_per_submission = le_at 56 4 bs,
                wd_max_buffer_bytes = le_at 60 8 bs, wd_max_artifact_bytes = le_at 68 8 bs\<rparr>
      else Inl DE_Size)"

definition valid_wire_device_info :: "wire_device_info \<Rightarrow> bool" where
  [wire_simps]: "valid_wire_device_info x \<longleftrightarrow> length (wd_uuid x) = 16"

definition size_create_context_request :: nat where [wire_simps]: "size_create_context_request = 8"

definition encode_create_context_request :: "create_context_request \<Rightarrow> u8 list" where
  [wire_simps]: "encode_create_context_request x =
     to_le 4 (cc_flags x) @ to_le 4 (cc_reserved x)"

definition decode_create_context_request :: "u8 list \<Rightarrow> decode_error + create_context_request" where
  [wire_simps]: "decode_create_context_request bs =
     (if length bs = 8
      then Inr \<lparr>cc_flags = le_at 0 4 bs, cc_reserved = le_at 4 4 bs\<rparr>
      else Inl DE_Size)"

definition size_object_payload :: nat where [wire_simps]: "size_object_payload = 8"

definition encode_object_payload :: "object_payload \<Rightarrow> u8 list" where
  [wire_simps]: "encode_object_payload x =
     to_le 8 (op_object_id x)"

definition decode_object_payload :: "u8 list \<Rightarrow> decode_error + object_payload" where
  [wire_simps]: "decode_object_payload bs =
     (if length bs = 8
      then Inr \<lparr>op_object_id = le_at 0 8 bs\<rparr>
      else Inl DE_Size)"

definition size_allocate_buffer_request :: nat where [wire_simps]: "size_allocate_buffer_request = 40"

definition encode_allocate_buffer_request :: "allocate_buffer_request \<Rightarrow> u8 list" where
  [wire_simps]: "encode_allocate_buffer_request x =
     to_le 8 (ab_context_id x) @ to_le 8 (ab_bytes x) @ to_le 8 (ab_alignment x) @
     [ab_memory_domain x] @ ab_reserved0 x @ to_le 4 (ab_usage x) @
     to_le 4 (ab_reserved1 x)"

definition decode_allocate_buffer_request :: "u8 list \<Rightarrow> decode_error + allocate_buffer_request" where
  [wire_simps]: "decode_allocate_buffer_request bs =
     (if length bs = 40
      then Inr \<lparr>ab_context_id = le_at 0 8 bs, ab_bytes = le_at 8 8 bs,
                ab_alignment = le_at 16 8 bs, ab_memory_domain = bs ! 24,
                ab_reserved0 = bytes_at 25 7 bs, ab_usage = le_at 32 4 bs,
                ab_reserved1 = le_at 36 4 bs\<rparr>
      else Inl DE_Size)"

definition valid_allocate_buffer_request :: "allocate_buffer_request \<Rightarrow> bool" where
  [wire_simps]: "valid_allocate_buffer_request x \<longleftrightarrow> length (ab_reserved0 x) = 7"

definition size_transfer_buffer_request :: nat where [wire_simps]: "size_transfer_buffer_request = 24"

definition encode_transfer_buffer_request :: "transfer_buffer_request \<Rightarrow> u8 list" where
  [wire_simps]: "encode_transfer_buffer_request x =
     to_le 8 (tb_buffer_id x) @ to_le 8 (tb_offset x) @ to_le 8 (tb_bytes x)"

definition decode_transfer_buffer_request :: "u8 list \<Rightarrow> decode_error + transfer_buffer_request" where
  [wire_simps]: "decode_transfer_buffer_request bs =
     (if length bs = 24
      then Inr \<lparr>tb_buffer_id = le_at 0 8 bs, tb_offset = le_at 8 8 bs, tb_bytes = le_at 16 8 bs\<rparr>
      else Inl DE_Size)"

definition size_load_program_request :: nat where [wire_simps]: "size_load_program_request = 80"

definition encode_load_program_request :: "load_program_request \<Rightarrow> u8 list" where
  [wire_simps]: "encode_load_program_request x =
     to_le 8 (lp_context_id x) @ to_le 4 (lp_format x) @ to_le 4 (lp_flags x) @
     le32s_bytes (lp_target x) @ to_le 8 (lp_payload_bytes x) @
     to_le 8 (lp_resident_bytes x)"

definition decode_load_program_request :: "u8 list \<Rightarrow> decode_error + load_program_request" where
  [wire_simps]: "decode_load_program_request bs =
     (if length bs = 80
      then Inr \<lparr>lp_context_id = le_at 0 8 bs, lp_format = le_at 8 4 bs, lp_flags = le_at 12 4 bs,
                lp_target = le32s 12 (bytes_at 16 48 bs), lp_payload_bytes = le_at 64 8 bs,
                lp_resident_bytes = le_at 72 8 bs\<rparr>
      else Inl DE_Size)"

definition valid_load_program_request :: "load_program_request \<Rightarrow> bool" where
  [wire_simps]: "valid_load_program_request x \<longleftrightarrow> length (lp_target x) = 12"

definition size_create_queue_request :: nat where [wire_simps]: "size_create_queue_request = 16"

definition encode_create_queue_request :: "create_queue_request \<Rightarrow> u8 list" where
  [wire_simps]: "encode_create_queue_request x =
     to_le 8 (cq_context_id x) @ to_le 4 (cq_flags x) @ to_le 4 (cq_reserved x)"

definition decode_create_queue_request :: "u8 list \<Rightarrow> decode_error + create_queue_request" where
  [wire_simps]: "decode_create_queue_request bs =
     (if length bs = 16
      then Inr \<lparr>cq_context_id = le_at 0 8 bs, cq_flags = le_at 8 4 bs, cq_reserved = le_at 12 4 bs\<rparr>
      else Inl DE_Size)"

definition size_submit_request :: nat where [wire_simps]: "size_submit_request = 32"

definition encode_submit_request :: "submit_request \<Rightarrow> u8 list" where
  [wire_simps]: "encode_submit_request x =
     to_le 8 (sq_queue_id x) @ to_le 8 (sq_program_id x) @
     to_le 4 (sq_binding_count x) @ to_le 4 (sq_flags x) @ to_le 8 (sq_timeout_ns x)"

definition decode_submit_request :: "u8 list \<Rightarrow> decode_error + submit_request" where
  [wire_simps]: "decode_submit_request bs =
     (if length bs = 32
      then Inr \<lparr>sq_queue_id = le_at 0 8 bs, sq_program_id = le_at 8 8 bs,
                sq_binding_count = le_at 16 4 bs, sq_flags = le_at 20 4 bs,
                sq_timeout_ns = le_at 24 8 bs\<rparr>
      else Inl DE_Size)"

definition size_wire_binding :: nat where [wire_simps]: "size_wire_binding = 32"

definition encode_wire_binding :: "wire_binding \<Rightarrow> u8 list" where
  [wire_simps]: "encode_wire_binding x =
     to_le 8 (wb_buffer_id x) @ to_le 8 (wb_offset x) @ to_le 8 (wb_bytes x) @
     to_le 4 (wb_slot x) @ [wb_access x] @ wb_reserved x"

definition decode_wire_binding :: "u8 list \<Rightarrow> decode_error + wire_binding" where
  [wire_simps]: "decode_wire_binding bs =
     (if length bs = 32
      then Inr \<lparr>wb_buffer_id = le_at 0 8 bs, wb_offset = le_at 8 8 bs, wb_bytes = le_at 16 8 bs,
                wb_slot = le_at 24 4 bs, wb_access = bs ! 28, wb_reserved = bytes_at 29 3 bs\<rparr>
      else Inl DE_Size)"

definition valid_wire_binding :: "wire_binding \<Rightarrow> bool" where
  [wire_simps]: "valid_wire_binding x \<longleftrightarrow> length (wb_reserved x) = 3"

definition size_submit_response :: nat where [wire_simps]: "size_submit_response = 8"

definition encode_submit_response :: "submit_response \<Rightarrow> u8 list" where
  [wire_simps]: "encode_submit_response x =
     to_le 8 (sr_event_id x)"

definition decode_submit_response :: "u8 list \<Rightarrow> decode_error + submit_response" where
  [wire_simps]: "decode_submit_response bs =
     (if length bs = 8
      then Inr \<lparr>sr_event_id = le_at 0 8 bs\<rparr>
      else Inl DE_Size)"

definition size_wire_event_state :: nat where [wire_simps]: "size_wire_event_state = 8"

definition encode_wire_event_state :: "wire_event_state \<Rightarrow> u8 list" where
  [wire_simps]: "encode_wire_event_state x =
     to_le 2 (we_state x) @ to_le 2 (we_error x) @ to_le 4 (we_reserved x)"

definition decode_wire_event_state :: "u8 list \<Rightarrow> decode_error + wire_event_state" where
  [wire_simps]: "decode_wire_event_state bs =
     (if length bs = 8
      then Inr \<lparr>we_state = le_at 0 2 bs, we_error = le_at 2 2 bs, we_reserved = le_at 4 4 bs\<rparr>
      else Inl DE_Size)"

section \<open>Configuration and headers\<close>

datatype config_error =
    CE_Version | CE_CommandQueueCount | CE_ChainDescriptorLimit | CE_RequestByteLimit | CE_ResponseByteLimit

definition wire_config_validate :: "wire_config \<Rightarrow> config_error + unit" where
  "wire_config_validate c =
     (if wc_protocol_major c \<noteq> PROTOCOL_MAJOR then Inl CE_Version
      else if wc_command_queue_count c \<noteq> BASELINE_COMMAND_QUEUES then Inl CE_CommandQueueCount
      else if \<not> (2 \<le> wc_max_chain_descriptors c \<and> wc_max_chain_descriptors c \<le> HARD_MAX_CHAIN_DESCRIPTORS)
      then Inl CE_ChainDescriptorLimit
      else if \<not> (MIN_MAX_REQUEST_BYTES \<le> wc_max_request_bytes c \<and> wc_max_request_bytes c \<le> HARD_MAX_REQUEST_BYTES)
      then Inl CE_RequestByteLimit
      else if \<not> (MIN_MAX_RESPONSE_BYTES \<le> wc_max_response_bytes c \<and> wc_max_response_bytes c \<le> HARD_MAX_RESPONSE_BYTES)
      then Inl CE_ResponseByteLimit
      else Inr ())"

definition request_header_new :: "known_opcode \<Rightarrow> u16 \<Rightarrow> u32 \<Rightarrow> u64 \<Rightarrow> request_header" where
  "request_header_new opcode flags payload_bytes request_id =
     \<lparr>rq_opcode = opcode_code opcode, rq_flags = flags, rq_payload_bytes = payload_bytes,
      rq_request_id = request_id\<rparr>"

definition request_header_known_opcode :: "request_header \<Rightarrow> unknown_opcode + known_opcode" where
  "request_header_known_opcode h = opcode_try_from (rq_opcode h)"

definition response_header_new :: "status_code \<Rightarrow> u32 \<Rightarrow> u64 \<Rightarrow> response_header" where
  "response_header_new status payload_bytes request_id =
     \<lparr>rs_status = status, rs_flags = 0, rs_payload_bytes = payload_bytes, rs_request_id = request_id\<rparr>"

definition wire_event_known_state :: "wire_event_state \<Rightarrow> unknown_event_state + known_event_state" where
  "wire_event_known_state w = event_state_try_from (we_state w)"

definition checked_array_bytes :: "nat \<Rightarrow> u32 \<Rightarrow> decode_error + u64" where
  "checked_array_bytes elem_bytes count = ok_or DE_CountOverflow (checked_mul (of_nat elem_bytes) (ucast count))"

section \<open>The codec contract\<close>

locale wire_codec =
  fixes width :: nat
    and encode :: "'a \<Rightarrow> u8 list"
    and decode :: "u8 list \<Rightarrow> decode_error + 'a"
    and valid :: "'a \<Rightarrow> bool"
  assumes length_encode: "valid x \<Longrightarrow> length (encode x) = width"
    and decode_encode: "valid x \<Longrightarrow> decode (encode x) = Inr x"
    and encode_decode: "decode bs = Inr x \<Longrightarrow> valid x \<and> encode x = bs"
    and decode_short: "length bs \<noteq> width \<Longrightarrow> decode bs = Inl DE_Size"
    and decode_full: "length bs = width \<Longrightarrow> is_ok (decode bs)"
begin

text \<open>Distinct values never share a byte string, and a decoder accepts exactly its width.\<close>

lemma encode_inject: "valid x \<Longrightarrow> valid y \<Longrightarrow> encode x = encode y \<longleftrightarrow> x = y"
  by (metis decode_encode sum.inject(2))

lemma decode_ok_iff: "is_ok (decode bs) \<longleftrightarrow> length bs = width"
  using decode_short [of bs] decode_full [of bs] by (cases "length bs = width") auto

lemma decode_iff: "decode bs = Inr x \<longleftrightarrow> valid x \<and> bs = encode x"
  using encode_decode decode_encode by blast

text \<open>A structure is read back from the front of a longer frame.\<close>

lemma decode_prefix: "valid x \<Longrightarrow> decode (take width (encode x @ rest)) = Inr x"
  by (simp add: length_encode decode_encode)

lemma decode_at:
  "valid x \<Longrightarrow> length pre = off \<Longrightarrow> decode (take width (drop off (pre @ encode x @ rest))) = Inr x"
  by (simp add: length_encode decode_encode)

end

lemma le_at_simps [wire_layout]: "le_at off n bs = from_le (take n (drop off bs))"
  by (simp add: le_at_def)

lemma bytes_at_simps [wire_layout]: "bytes_at off n bs = take n (drop off bs)"
  by (simp add: bytes_at_def)

lemma from_le_to_le_widths [wire_layout]:
  "from_le (to_le 2 (a :: u16)) = a"
  "from_le (to_le 4 (b :: u32)) = b"
  "from_le (to_le 8 (c :: u64)) = c"
  by (simp_all add: from_le_to_le_full)

lemma to_le_field [wire_layout]:
  "length xs = n \<Longrightarrow> 8 * n \<le> LENGTH('a) \<Longrightarrow> to_le n (from_le xs :: 'a::len word) = xs"
  using to_le_from_le [of xs, where 'a = 'a] by simp

lemma segment_append [wire_layout]:
  "j = k + n \<Longrightarrow> take n (drop k bs) @ drop j bs = drop k bs"
  by (metis append_take_drop_id drop_drop add.commute)

lemma segment_append_Cons [wire_layout]:
  "k < length bs \<Longrightarrow> j = Suc k \<Longrightarrow> bs ! k # drop j bs = drop k bs"
  by (simp add: Cons_nth_drop_Suc)

lemma length_le32s [simp]: "length (le32s n bs) = n"
  by (induction n arbitrary: bs) auto

lemma length_le32s_bytes [simp]: "length (le32s_bytes ws) = 4 * length ws"
  by (induction ws) (auto simp: le32s_bytes_def)

lemma le32s_le32s_bytes [wire_layout]: "length ws = n \<Longrightarrow> le32s n (le32s_bytes ws) = ws"
  by (induction ws arbitrary: n) (auto simp: le32s_bytes_def from_le_to_le_widths)

lemma le32s_bytes_le32s [wire_layout]: "length bs = 4 * n \<Longrightarrow> le32s_bytes (le32s n bs) = bs"
proof (induction n arbitrary: bs)
  case 0
  then show ?case by (simp add: le32s_bytes_def)
next
  case (Suc n)
  have "to_le 4 (from_le (take 4 bs) :: u32) = take 4 bs"
    using Suc.prems by (intro to_le_field) simp_all
  moreover have "le32s_bytes (le32s n (drop 4 bs)) = drop 4 bs"
    using Suc.prems by (intro Suc.IH) simp
  ultimately show ?case
    by (simp add: le32s_bytes_def)
qed

lemma wire_codecI:
  assumes "\<And>x. valid x \<Longrightarrow> length (encode x) = width"
    and "\<And>x. valid x \<Longrightarrow> decode (encode x) = Inr x"
    and "\<And>bs. length bs = width \<Longrightarrow> \<exists>x. decode bs = Inr x \<and> valid x \<and> encode x = bs"
    and "\<And>bs. length bs \<noteq> width \<Longrightarrow> decode bs = Inl DE_Size"
  shows "wire_codec width encode decode valid"
proof
  fix bs :: "u8 list" and x assume "decode bs = Inr x"
  then show "valid x \<and> encode x = bs"
    using assms(3,4) by (cases "length bs = width") fastforce+
next
  fix bs :: "u8 list" assume "length bs = width"
  then show "is_ok (decode bs)"
    using assms(3) by fastforce
qed (use assms in auto)

interpretation wc: wire_codec size_wire_config encode_wire_config decode_wire_config "\<lambda>_. True"
  by (rule wire_codecI) (auto simp: wire_simps wire_layout nth_append)

interpretation rq: wire_codec size_request_header encode_request_header decode_request_header "\<lambda>_. True"
  by (rule wire_codecI) (auto simp: wire_simps wire_layout nth_append)

interpretation rs: wire_codec size_response_header encode_response_header decode_response_header "\<lambda>_. True"
  by (rule wire_codecI) (auto simp: wire_simps wire_layout nth_append)

interpretation wd: wire_codec size_wire_device_info encode_wire_device_info decode_wire_device_info valid_wire_device_info
  by (rule wire_codecI) (auto simp: wire_simps wire_layout nth_append)

interpretation cc: wire_codec size_create_context_request encode_create_context_request decode_create_context_request "\<lambda>_. True"
  by (rule wire_codecI) (auto simp: wire_simps wire_layout nth_append)

interpretation op: wire_codec size_object_payload encode_object_payload decode_object_payload "\<lambda>_. True"
  by (rule wire_codecI) (auto simp: wire_simps wire_layout nth_append)

interpretation ab: wire_codec size_allocate_buffer_request encode_allocate_buffer_request decode_allocate_buffer_request valid_allocate_buffer_request
  by (rule wire_codecI) (auto simp: wire_simps wire_layout nth_append)

interpretation tb: wire_codec size_transfer_buffer_request encode_transfer_buffer_request decode_transfer_buffer_request "\<lambda>_. True"
  by (rule wire_codecI) (auto simp: wire_simps wire_layout nth_append)

interpretation lp: wire_codec size_load_program_request encode_load_program_request decode_load_program_request valid_load_program_request
  by (rule wire_codecI) (auto simp: wire_simps wire_layout nth_append)

interpretation cq: wire_codec size_create_queue_request encode_create_queue_request decode_create_queue_request "\<lambda>_. True"
  by (rule wire_codecI) (auto simp: wire_simps wire_layout nth_append)

interpretation sq: wire_codec size_submit_request encode_submit_request decode_submit_request "\<lambda>_. True"
  by (rule wire_codecI) (auto simp: wire_simps wire_layout nth_append)

interpretation wb: wire_codec size_wire_binding encode_wire_binding decode_wire_binding valid_wire_binding
  by (rule wire_codecI) (auto simp: wire_simps wire_layout nth_append)

interpretation sr: wire_codec size_submit_response encode_submit_response decode_submit_response "\<lambda>_. True"
  by (rule wire_codecI) (auto simp: wire_simps wire_layout nth_append)

interpretation we: wire_codec size_wire_event_state encode_wire_event_state decode_wire_event_state "\<lambda>_. True"
  by (rule wire_codecI) (auto simp: wire_simps wire_layout nth_append)

section \<open>The published layout\<close>

text \<open>
  The layout that other implementations rely on (\<open>docs/wire-abi.md\<close> and the manifest
  \<open>conformance/v1.0/layout.json\<close>): a table of offset, width and number for the fields of each structure,
  without padding. \<open>laid_out\<close> reads the numbers out of a byte string, independently of the codecs.
\<close>

definition le_number :: "u8 list \<Rightarrow> nat \<Rightarrow> nat \<Rightarrow> nat" where
  "le_number bs off n = (\<Sum>i<n. unat (bs ! (off + i)) * 256 ^ i)"

definition laid_out :: "u8 list \<Rightarrow> (nat \<times> nat \<times> nat) list \<Rightarrow> bool" where
  "laid_out bs table \<longleftrightarrow> list_all (\<lambda>(off, n, v). v = le_number bs off n) table"

lemma field_number:
  assumes "8 * n = LENGTH('a)" "off + n \<le> length bs"
  shows "w = (le_at off n bs :: 'a::len word) \<longleftrightarrow> unat w = le_number bs off n"
proof -
  have "unat (le_at off n bs :: 'a word) = le_number bs off n"
    using unat_from_le [of "take n (drop off bs)", where 'a = 'a] assms by (simp add: le_at_def le_number_def)
  then show ?thesis
    by (simp add: unat_eq_iff)
qed

definition octets :: "nat \<Rightarrow> u8 list \<Rightarrow> (nat \<times> nat \<times> nat) list" where
  "octets off xs = map (\<lambda>i. (off + i, 1, unat (xs ! i))) [0..<length xs]"

definition le32_array :: "nat \<Rightarrow> u32 list \<Rightarrow> (nat \<times> nat \<times> nat) list" where
  "le32_array off ws = map (\<lambda>i. (off + 4 * i, 4, unat (ws ! i))) [0..<length ws]"

lemma laid_out_append [simp]: "laid_out bs (xs @ ys) \<longleftrightarrow> laid_out bs xs \<and> laid_out bs ys"
  by (simp add: laid_out_def)

lemma laid_out_Nil [simp]: "laid_out bs []"
  by (simp add: laid_out_def)

lemma laid_out_Cons [simp]: "laid_out bs ((off, n, v) # xs) \<longleftrightarrow> v = le_number bs off n \<and> laid_out bs xs"
  by (simp add: laid_out_def)

lemma le_number_1: "le_number bs off (Suc 0) = unat (bs ! off)"
  by (simp add: le_number_def)

lemma octets_laid_out:
  assumes "off + n \<le> length bs"
  shows "xs = bytes_at off n bs \<longleftrightarrow> length xs = n \<and> laid_out bs (octets off xs)"
proof -
  have "xs = bytes_at off n bs \<longleftrightarrow> length xs = n \<and> (\<forall>i<n. unat (xs ! i) = unat (bs ! (off + i)))"
    using assms by (auto simp: bytes_at_def list_eq_iff_nth_eq [of xs] unat_eq_iff)
  then show ?thesis
    by (auto simp: laid_out_def octets_def le_number_1 list_all_iff)
qed

lemma nth_le32s: "i < n \<Longrightarrow> 4 * n \<le> length bs \<Longrightarrow> le32s n bs ! i = le_at (4 * i) 4 bs"
proof (induction n arbitrary: bs i)
  case (Suc n)
  then show ?case
    by (cases i) (auto simp: le_at_def add.commute)
qed simp

lemma le32_array_laid_out:
  assumes "off + 4 * n \<le> length bs"
  shows "ws = le32s n (bytes_at off (4 * n) bs) \<longleftrightarrow> length ws = n \<and> laid_out bs (le32_array off ws)"
proof -
  have "le32s n (bytes_at off (4 * n) bs) ! i = le_at (off + 4 * i) 4 bs" if "i < n" for i
  proof -
    have "take 4 (drop (4 * i) (take (4 * n) (drop off bs))) = take 4 (drop (off + 4 * i) bs)"
      using that by (simp add: drop_take add.commute)
    then show ?thesis
      using that assms by (simp add: nth_le32s bytes_at_def le_at_def)
  qed
  then have "ws = le32s n (bytes_at off (4 * n) bs) \<longleftrightarrow> length ws = n \<and> (\<forall>i<n. ws ! i = le_at (off + 4 * i) 4 bs)"
    by (auto simp: list_eq_iff_nth_eq)
  also have "\<dots> \<longleftrightarrow> length ws = n \<and> (\<forall>i<n. unat (ws ! i) = le_number bs (off + 4 * i) 4)"
    using assms by (intro conj_cong refl all_cong field_number) simp_all
  finally show ?thesis
    by (auto simp: laid_out_def le32_array_def list_all_iff)
qed

definition abi_codec ::
  "nat \<Rightarrow> ('a \<Rightarrow> (nat \<times> nat \<times> nat) list) \<Rightarrow> ('a \<Rightarrow> bool) \<Rightarrow> ('a \<Rightarrow> u8 list) \<Rightarrow> (u8 list \<Rightarrow> decode_error + 'a) \<Rightarrow> bool" where
  "abi_codec width layout valid encode decode \<longleftrightarrow>
     (\<forall>bs. decode bs = Inl DE_Size \<longleftrightarrow> length bs \<noteq> width)
   \<and> (\<forall>bs x. decode bs = Inr x \<longleftrightarrow> length bs = width \<and> valid x \<and> laid_out bs (layout x))
   \<and> (\<forall>bs x. decode bs = Inr x \<longleftrightarrow> valid x \<and> bs = encode x)"

lemma abi_codecI:
  assumes "wire_codec width encode decode valid"
    and "\<And>bs x. length bs = width \<Longrightarrow> decode bs = Inr x \<longleftrightarrow> valid x \<and> laid_out bs (layout x)"
  shows "abi_codec width layout valid encode decode"
proof -
  have "decode bs = Inl DE_Size \<longleftrightarrow> length bs \<noteq> width" for bs
    using wire_codec.decode_short [OF assms(1)] wire_codec.decode_full [OF assms(1), of bs] by (auto simp: is_ok_iff)
  moreover have "decode bs = Inr x \<longleftrightarrow> length bs = width \<and> valid x \<and> laid_out bs (layout x)" for bs x
    using wire_codec.decode_short [OF assms(1)] assms(2) by (cases "length bs = width") auto
  ultimately show ?thesis
    by (simp add: abi_codec_def wire_codec.decode_iff [OF assms(1)])
qed

lemma swap_field: "le_at off n bs = w \<longleftrightarrow> w = le_at off n bs" "bytes_at off n bs = xs \<longleftrightarrow> xs = bytes_at off n bs"
  "le32s m (bytes_at off n bs) = ws \<longleftrightarrow> ws = le32s m (bytes_at off n bs)"
  by auto

lemmas abi_fields = field_number [where 'a = 16] field_number [where 'a = 32] field_number [where 'a = 64]
  le_number_1 unat_eq_iff [symmetric] octets_laid_out le32_array_laid_out [of _ 12, simplified] swap_field

definition layout_wire_config :: "wire_config \<Rightarrow> (nat \<times> nat \<times> nat) list" where
  [abi_layout]: "layout_wire_config x =
     [(0, 2, unat (wc_protocol_major x)), (2, 2, unat (wc_protocol_minor x)),
     (4, 2, unat (wc_command_queue_count x)), (6, 2, unat (wc_max_chain_descriptors x)),
     (8, 4, unat (wc_max_request_bytes x)), (12, 4, unat (wc_max_response_bytes x))]"

definition layout_request_header :: "request_header \<Rightarrow> (nat \<times> nat \<times> nat) list" where
  [abi_layout]: "layout_request_header x =
     [(0, 2, unat (rq_opcode x)), (2, 2, unat (rq_flags x)), (4, 4, unat (rq_payload_bytes x)),
     (8, 8, unat (rq_request_id x))]"

definition layout_response_header :: "response_header \<Rightarrow> (nat \<times> nat \<times> nat) list" where
  [abi_layout]: "layout_response_header x =
     [(0, 2, unat (rs_status x)), (2, 2, unat (rs_flags x)), (4, 4, unat (rs_payload_bytes x)),
     (8, 8, unat (rs_request_id x))]"

definition layout_wire_device_info :: "wire_device_info \<Rightarrow> (nat \<times> nat \<times> nat) list" where
  [abi_layout]: "layout_wire_device_info x =
     octets 0 (wd_uuid x) @ [(16, 2, unat (wd_class x)), (18, 2, unat (wd_reserved x)),
     (20, 4, unat (wd_vendor_id x)), (24, 4, unat (wd_device_id x)), (28, 8, unat (wd_capabilities x)),
     (36, 4, unat (wd_max_contexts x)), (40, 4, unat (wd_max_buffers_per_context x)),
     (44, 4, unat (wd_max_programs_per_context x)), (48, 4, unat (wd_max_queues_per_context x)),
     (52, 4, unat (wd_max_events_per_context x)), (56, 4, unat (wd_max_bindings_per_submission x)),
     (60, 8, unat (wd_max_buffer_bytes x)), (68, 8, unat (wd_max_artifact_bytes x))]"

definition layout_create_context_request :: "create_context_request \<Rightarrow> (nat \<times> nat \<times> nat) list" where
  [abi_layout]: "layout_create_context_request x =
     [(0, 4, unat (cc_flags x)), (4, 4, unat (cc_reserved x))]"

definition layout_object_payload :: "object_payload \<Rightarrow> (nat \<times> nat \<times> nat) list" where
  [abi_layout]: "layout_object_payload x =
     [(0, 8, unat (op_object_id x))]"

definition layout_allocate_buffer_request :: "allocate_buffer_request \<Rightarrow> (nat \<times> nat \<times> nat) list" where
  [abi_layout]: "layout_allocate_buffer_request x =
     [(0, 8, unat (ab_context_id x)), (8, 8, unat (ab_bytes x)), (16, 8, unat (ab_alignment x)),
     (24, 1, unat (ab_memory_domain x))] @ octets 25 (ab_reserved0 x) @ [(32, 4, unat (ab_usage x)),
     (36, 4, unat (ab_reserved1 x))]"

definition layout_transfer_buffer_request :: "transfer_buffer_request \<Rightarrow> (nat \<times> nat \<times> nat) list" where
  [abi_layout]: "layout_transfer_buffer_request x =
     [(0, 8, unat (tb_buffer_id x)), (8, 8, unat (tb_offset x)), (16, 8, unat (tb_bytes x))]"

definition layout_load_program_request :: "load_program_request \<Rightarrow> (nat \<times> nat \<times> nat) list" where
  [abi_layout]: "layout_load_program_request x =
     [(0, 8, unat (lp_context_id x)), (8, 4, unat (lp_format x)), (12, 4, unat (lp_flags x))] @
     le32_array 16 (lp_target x) @ [(64, 8, unat (lp_payload_bytes x)), (72, 8, unat (lp_resident_bytes x))]"

definition layout_create_queue_request :: "create_queue_request \<Rightarrow> (nat \<times> nat \<times> nat) list" where
  [abi_layout]: "layout_create_queue_request x =
     [(0, 8, unat (cq_context_id x)), (8, 4, unat (cq_flags x)), (12, 4, unat (cq_reserved x))]"

definition layout_submit_request :: "submit_request \<Rightarrow> (nat \<times> nat \<times> nat) list" where
  [abi_layout]: "layout_submit_request x =
     [(0, 8, unat (sq_queue_id x)), (8, 8, unat (sq_program_id x)), (16, 4, unat (sq_binding_count x)),
     (20, 4, unat (sq_flags x)), (24, 8, unat (sq_timeout_ns x))]"

definition layout_wire_binding :: "wire_binding \<Rightarrow> (nat \<times> nat \<times> nat) list" where
  [abi_layout]: "layout_wire_binding x =
     [(0, 8, unat (wb_buffer_id x)), (8, 8, unat (wb_offset x)), (16, 8, unat (wb_bytes x)),
     (24, 4, unat (wb_slot x)), (28, 1, unat (wb_access x))] @ octets 29 (wb_reserved x)"

definition layout_submit_response :: "submit_response \<Rightarrow> (nat \<times> nat \<times> nat) list" where
  [abi_layout]: "layout_submit_response x =
     [(0, 8, unat (sr_event_id x))]"

definition layout_wire_event_state :: "wire_event_state \<Rightarrow> (nat \<times> nat \<times> nat) list" where
  [abi_layout]: "layout_wire_event_state x =
     [(0, 2, unat (we_state x)), (2, 2, unat (we_error x)), (4, 4, unat (we_reserved x))]"

lemma abi_codecs:
  "abi_codec 16 layout_wire_config (\<lambda>_. True) encode_wire_config decode_wire_config"
  "abi_codec 16 layout_request_header (\<lambda>_. True) encode_request_header decode_request_header"
  "abi_codec 16 layout_response_header (\<lambda>_. True) encode_response_header decode_response_header"
  "abi_codec 76 layout_wire_device_info valid_wire_device_info encode_wire_device_info decode_wire_device_info"
  "abi_codec 8 layout_create_context_request (\<lambda>_. True) encode_create_context_request decode_create_context_request"
  "abi_codec 8 layout_object_payload (\<lambda>_. True) encode_object_payload decode_object_payload"
  "abi_codec 40 layout_allocate_buffer_request valid_allocate_buffer_request encode_allocate_buffer_request decode_allocate_buffer_request"
  "abi_codec 24 layout_transfer_buffer_request (\<lambda>_. True) encode_transfer_buffer_request decode_transfer_buffer_request"
  "abi_codec 80 layout_load_program_request valid_load_program_request encode_load_program_request decode_load_program_request"
  "abi_codec 16 layout_create_queue_request (\<lambda>_. True) encode_create_queue_request decode_create_queue_request"
  "abi_codec 32 layout_submit_request (\<lambda>_. True) encode_submit_request decode_submit_request"
  "abi_codec 32 layout_wire_binding valid_wire_binding encode_wire_binding decode_wire_binding"
  "abi_codec 8 layout_submit_response (\<lambda>_. True) encode_submit_response decode_submit_response"
  "abi_codec 8 layout_wire_event_state (\<lambda>_. True) encode_wire_event_state decode_wire_event_state"
proof -
  show "abi_codec 16 layout_wire_config (\<lambda>_. True) encode_wire_config decode_wire_config"
    by (rule abi_codecI [OF wc.wire_codec_axioms [unfolded size_wire_config_def]])
      (case_tac x, auto simp: wire_simps abi_layout abi_fields)
  show "abi_codec 16 layout_request_header (\<lambda>_. True) encode_request_header decode_request_header"
    by (rule abi_codecI [OF rq.wire_codec_axioms [unfolded size_request_header_def]])
      (case_tac x, auto simp: wire_simps abi_layout abi_fields)
  show "abi_codec 16 layout_response_header (\<lambda>_. True) encode_response_header decode_response_header"
    by (rule abi_codecI [OF rs.wire_codec_axioms [unfolded size_response_header_def]])
      (case_tac x, auto simp: wire_simps abi_layout abi_fields)
  show "abi_codec 76 layout_wire_device_info valid_wire_device_info encode_wire_device_info decode_wire_device_info"
    by (rule abi_codecI [OF wd.wire_codec_axioms [unfolded size_wire_device_info_def]])
      (case_tac x, auto simp: wire_simps abi_layout abi_fields)
  show "abi_codec 8 layout_create_context_request (\<lambda>_. True) encode_create_context_request decode_create_context_request"
    by (rule abi_codecI [OF cc.wire_codec_axioms [unfolded size_create_context_request_def]])
      (case_tac x, auto simp: wire_simps abi_layout abi_fields)
  show "abi_codec 8 layout_object_payload (\<lambda>_. True) encode_object_payload decode_object_payload"
    by (rule abi_codecI [OF op.wire_codec_axioms [unfolded size_object_payload_def]])
      (case_tac x, auto simp: wire_simps abi_layout abi_fields)
  show "abi_codec 40 layout_allocate_buffer_request valid_allocate_buffer_request encode_allocate_buffer_request decode_allocate_buffer_request"
    by (rule abi_codecI [OF ab.wire_codec_axioms [unfolded size_allocate_buffer_request_def]])
      (case_tac x, auto simp: wire_simps abi_layout abi_fields)
  show "abi_codec 24 layout_transfer_buffer_request (\<lambda>_. True) encode_transfer_buffer_request decode_transfer_buffer_request"
    by (rule abi_codecI [OF tb.wire_codec_axioms [unfolded size_transfer_buffer_request_def]])
      (case_tac x, auto simp: wire_simps abi_layout abi_fields)
  show "abi_codec 80 layout_load_program_request valid_load_program_request encode_load_program_request decode_load_program_request"
    by (rule abi_codecI [OF lp.wire_codec_axioms [unfolded size_load_program_request_def]])
      (case_tac x, auto simp: wire_simps abi_layout abi_fields)
  show "abi_codec 16 layout_create_queue_request (\<lambda>_. True) encode_create_queue_request decode_create_queue_request"
    by (rule abi_codecI [OF cq.wire_codec_axioms [unfolded size_create_queue_request_def]])
      (case_tac x, auto simp: wire_simps abi_layout abi_fields)
  show "abi_codec 32 layout_submit_request (\<lambda>_. True) encode_submit_request decode_submit_request"
    by (rule abi_codecI [OF sq.wire_codec_axioms [unfolded size_submit_request_def]])
      (case_tac x, auto simp: wire_simps abi_layout abi_fields)
  show "abi_codec 32 layout_wire_binding valid_wire_binding encode_wire_binding decode_wire_binding"
    by (rule abi_codecI [OF wb.wire_codec_axioms [unfolded size_wire_binding_def]])
      (case_tac x, auto simp: wire_simps abi_layout abi_fields)
  show "abi_codec 8 layout_submit_response (\<lambda>_. True) encode_submit_response decode_submit_response"
    by (rule abi_codecI [OF sr.wire_codec_axioms [unfolded size_submit_response_def]])
      (case_tac x, auto simp: wire_simps abi_layout abi_fields)
  show "abi_codec 8 layout_wire_event_state (\<lambda>_. True) encode_wire_event_state decode_wire_event_state"
    by (rule abi_codecI [OF we.wire_codec_axioms [unfolded size_wire_event_state_def]])
      (case_tac x, auto simp: wire_simps abi_layout abi_fields)
qed

text \<open>The numbers the manifest assigns.\<close>

definition abi_opcodes :: "(u16 \<times> known_opcode) list" where
  "abi_opcodes =
     [(0x0001, Op_GetDeviceInfo), (0x0100, Op_CreateContext), (0x0101, Op_DestroyContext),
      (0x0200, Op_AllocateBuffer), (0x0201, Op_FreeBuffer), (0x0202, Op_WriteBuffer),
      (0x0203, Op_ReadBuffer), (0x0300, Op_LoadProgram), (0x0301, Op_UnloadProgram),
      (0x0400, Op_CreateQueue), (0x0401, Op_DestroyQueue), (0x0500, Op_Submit), (0x0501, Op_PollEvent),
      (0x0502, Op_CancelEvent), (0x0503, Op_DestroyEvent)]"

definition abi_event_states :: "(u16 \<times> known_event_state) list" where
  "abi_event_states = [(0, KE_Pending), (1, KE_Complete), (2, KE_Failed), (3, KE_Cancelled)]"

section \<open>Properties\<close>

lemma opcode_try_from_code [simp]: "opcode_try_from (opcode_code op) = Inr op"
  by (cases op) (simp_all add: opcode_try_from_def)

lemma opcode_try_from_Inr: "opcode_try_from v = Inr op \<longleftrightarrow> v = opcode_code op"
proof
  assume "opcode_try_from v = Inr op"
  then show "v = opcode_code op"
    by (auto simp: opcode_try_from_def split: if_splits)
qed simp

lemma wire_config_validate_Inr:
  "wire_config_validate c = Inr () \<longleftrightarrow>
     wc_protocol_major c = 1 \<and> wc_command_queue_count c = 1
     \<and> wc_max_chain_descriptors c \<in> {2..256}
     \<and> wc_max_request_bytes c \<in> {97..16777216} \<and> wc_max_response_bytes c \<in> {92..16777216}"
  by (auto simp: wire_config_validate_def proto_consts split: if_splits)

text \<open>C35: Every wire structure has exactly its published size and layout. A byte string is refused as of the
  wrong size precisely when its length is not that of the structure; otherwise it decodes to the value
  whose fields are the little-endian numbers at the published offsets; and it decodes to a value
  precisely when it is that value's encoding.\<close>

theorem wire_structures_exact:
  "abi_codec 16 layout_wire_config (\<lambda>_. True) encode_wire_config decode_wire_config
   \<and> abi_codec 16 layout_request_header (\<lambda>_. True) encode_request_header decode_request_header
   \<and> abi_codec 16 layout_response_header (\<lambda>_. True) encode_response_header decode_response_header
   \<and> abi_codec 76 layout_wire_device_info valid_wire_device_info encode_wire_device_info decode_wire_device_info
   \<and> abi_codec 8 layout_create_context_request (\<lambda>_. True) encode_create_context_request decode_create_context_request
   \<and> abi_codec 8 layout_object_payload (\<lambda>_. True) encode_object_payload decode_object_payload
   \<and> abi_codec 40 layout_allocate_buffer_request valid_allocate_buffer_request encode_allocate_buffer_request decode_allocate_buffer_request
   \<and> abi_codec 24 layout_transfer_buffer_request (\<lambda>_. True) encode_transfer_buffer_request decode_transfer_buffer_request
   \<and> abi_codec 80 layout_load_program_request valid_load_program_request encode_load_program_request decode_load_program_request
   \<and> abi_codec 16 layout_create_queue_request (\<lambda>_. True) encode_create_queue_request decode_create_queue_request
   \<and> abi_codec 32 layout_submit_request (\<lambda>_. True) encode_submit_request decode_submit_request
   \<and> abi_codec 32 layout_wire_binding valid_wire_binding encode_wire_binding decode_wire_binding
   \<and> abi_codec 8 layout_submit_response (\<lambda>_. True) encode_submit_response decode_submit_response
   \<and> abi_codec 8 layout_wire_event_state (\<lambda>_. True) encode_wire_event_state decode_wire_event_state"
  by (intro conjI abi_codecs)

text \<open>C36: The opcode and event-state namespaces are exactly the published ones. A number of the table is
  recognised as the constructor it is assigned to, every other number is refused and returned in the
  error, and each constructor is sent as its number of the table.\<close>

theorem opcode_and_event_codes_exact:
  "opcode_try_from v = (case map_of abi_opcodes v of None \<Rightarrow> Inl (UnknownOpcode v) | Some op \<Rightarrow> Inr op)
   \<and> event_state_try_from v = (case map_of abi_event_states v of None \<Rightarrow> Inl (UnknownEventState v) | Some es \<Rightarrow> Inr es)
   \<and> (opcode_code op = v \<longleftrightarrow> (v, op) \<in> set abi_opcodes)
   \<and> (event_state_code es = v \<longleftrightarrow> (v, es) \<in> set abi_event_states)"
  by (cases op; cases es) (auto simp: opcode_try_from_def event_state_try_from_def abi_opcodes_def abi_event_states_def)

end
