(* ===== verification/Response_Writer.thy ===== *)
theory Response_Writer
  imports Byte_Ports Accel_Proto
begin

text \<open>
  Response framing (\<open>virtio-accel-device/src/response.rs\<close>): a frame is preflighted against the
  negotiated limit and the capacity of the sink, its payload is written behind the place of the
  header, and the 16-byte header is committed last.
\<close>

section \<open>The writer\<close>

definition RESPONSE_HEADER_BYTES :: u64 where "RESPONSE_HEADER_BYTES = of_nat size_response_header"

datatype response_write_error =
    RWE_FrameTooLarge | RWE_InsufficientCapacity | RWE_SourceAccess | RWE_SinkAccess

text \<open>A writer borrows its sink: the port, and the state of the port that every write updates.\<close>

record 'k response_writer =
  rw_sink :: "'k byte_sink"
  rw_max_response_bytes :: u32

definition response_writer_new :: "'k byte_sink \<Rightarrow> u32 \<Rightarrow> 'k response_writer" where
  "response_writer_new sink max_response_bytes =
     \<lparr>rw_sink = sink, rw_max_response_bytes = max_response_bytes\<rparr>"

definition response_preflight :: "'k response_writer \<Rightarrow> 'k \<Rightarrow> u64 \<Rightarrow> response_write_error + u32" where
  "response_preflight writer k payload_bytes =
     and_then (ok_or RWE_FrameTooLarge (checked_add RESPONSE_HEADER_BYTES payload_bytes)) (\<lambda>frame.
       if ucast (rw_max_response_bytes writer) < frame \<or> 0xffffffff < frame then Inl RWE_FrameTooLarge
       else if sk_len (rw_sink writer) k < frame then Inl RWE_InsufficientCapacity
       else Inr (ucast frame))"

definition write_header ::
  "'k byte_sink \<Rightarrow> 'k \<Rightarrow> status_code \<Rightarrow> u64 \<Rightarrow> u32 \<Rightarrow> (response_write_error + unit) \<times> 'k" where
  "write_header sink k status request_id payload_bytes =
     apfst (map_err (\<lambda>_. RWE_SinkAccess))
       (sk_write_at sink k 0 (encode_response_header (response_header_new status payload_bytes request_id)))"

text \<open>The payload destination: its length and frame size were fixed by the preflight.\<close>

record 'k response_payload =
  rp_sink :: "'k byte_sink"
  rp_payload_bytes :: u32
  rp_used :: u32

definition response_payload_of ::
  "'k response_writer \<Rightarrow> 'k \<Rightarrow> u64 \<Rightarrow> response_write_error + 'k response_payload" where
  "response_payload_of writer k payload_bytes =
     and_then (response_preflight writer k payload_bytes) (\<lambda>used.
       if unat payload_bytes < 2 ^ 32
       then Inr \<lparr>rp_sink = rw_sink writer, rp_payload_bytes = ucast payload_bytes, rp_used = used\<rparr>
       else Inl RWE_FrameTooLarge)"

definition payload_commit ::
  "'k response_payload \<Rightarrow> 'k \<Rightarrow> status_code \<Rightarrow> u64 \<Rightarrow> (response_write_error + u32) \<times> 'k" where
  "payload_commit payload k status request_id =
     apfst (\<lambda>r. and_then r (\<lambda>_. Inr (rp_used payload)))
       (write_header (rp_sink payload) k status request_id (rp_payload_bytes payload))"

definition payload_len :: "'k response_payload \<Rightarrow> u64" where
  "payload_len payload = ucast (rp_payload_bytes payload)"

definition payload_write_at ::
  "'k response_payload \<Rightarrow> 'k \<Rightarrow> u64 \<Rightarrow> u8 list \<Rightarrow> (backend_error + unit) \<times> 'k" where
  "payload_write_at payload k offset source =
     (if length source < 2 ^ 64
      then case checked_add offset (of_nat (length source)) of
             None \<Rightarrow> (Inl BE_OutOfBounds, k)
           | Some e \<Rightarrow>
               if payload_len payload < e then (Inl BE_OutOfBounds, k)
               else sk_write_at (rp_sink payload) k (RESPONSE_HEADER_BYTES + offset) source
      else (Inl BE_OutOfBounds, k))"

definition payload_port :: "'k response_payload \<Rightarrow> 'k byte_sink" where
  "payload_port payload = \<lparr>sk_len = (\<lambda>_. payload_len payload), sk_write_at = payload_write_at payload\<rparr>"

text \<open>The copy loop over the 4 KiB scratch buffer.\<close>

definition SCRATCH_BYTES :: u64 where "SCRATCH_BYTES = 4096"

function stream_payload ::
  "'k byte_sink \<Rightarrow> byte_source \<Rightarrow> u64 \<Rightarrow> 'k \<Rightarrow> u64 \<Rightarrow> (response_write_error + unit) \<times> 'k" where
  "stream_payload destination payload payload_bytes k offset =
     (if offset < payload_bytes
      then let count = unat (min (payload_bytes - offset) SCRATCH_BYTES) in
        case bs_read_at payload offset count of
          Inl _ \<Rightarrow> (Inl RWE_SourceAccess, k)
        | Inr chunk \<Rightarrow>
            case sk_write_at destination k offset chunk of
              (Inl _, k') \<Rightarrow> (Inl RWE_SinkAccess, k')
            | (Inr _, k') \<Rightarrow> stream_payload destination payload payload_bytes k' (offset + of_nat count)
      else (Inr (), k))"
  by pat_completeness auto

lemma scratch_chunk:
  assumes "offset < payload_bytes"
  shows "0 < unat (min (payload_bytes - offset) SCRATCH_BYTES)"
    "unat (min (payload_bytes - offset) SCRATCH_BYTES) = min (unat payload_bytes - unat offset) 4096"
    "unat (offset + of_nat (min (unat payload_bytes - unat offset) 4096))
      = unat offset + min (unat payload_bytes - unat offset) 4096"
proof -
  have sub: "unat (payload_bytes - offset) = unat payload_bytes - unat offset" "unat offset < unat payload_bytes"
    using assms by (simp_all add: unat_sub word_le_nat_alt word_less_nat_alt)
  then show "unat (min (payload_bytes - offset) SCRATCH_BYTES) = min (unat payload_bytes - unat offset) 4096"
    by (auto simp: min_def SCRATCH_BYTES_def word_le_nat_alt)
  then show "0 < unat (min (payload_bytes - offset) SCRATCH_BYTES)"
    using sub by simp
  have "unat offset + min (unat payload_bytes - unat offset) 4096 < 2 ^ 64"
    using unat_u64_less [of payload_bytes] sub by linarith
  then show "unat (offset + of_nat (min (unat payload_bytes - unat offset) 4096))
      = unat offset + min (unat payload_bytes - unat offset) 4096"
    by (simp add: unat_add_no_overflow unat_of_nat_u64)
qed

termination stream_payload
  by (relation "measure (\<lambda>(destination, payload, payload_bytes, k, offset). unat payload_bytes - unat offset)")
    (use scratch_chunk in \<open>auto simp: word_less_nat_alt\<close>)

declare stream_payload.simps [simp del]

definition write_response ::
  "'k response_writer \<Rightarrow> 'k \<Rightarrow> status_code \<Rightarrow> u64 \<Rightarrow> byte_source \<Rightarrow> (response_write_error + u32) \<times> 'k" where
  "write_response writer k status request_id payload =
     (case response_payload_of writer k (bs_len payload) of
        Inl e \<Rightarrow> (Inl e, k)
      | Inr destination \<Rightarrow>
          case (case bs_as_contiguous payload of
                  Some contiguous \<Rightarrow>
                    apfst (map_err (\<lambda>_. RWE_SinkAccess)) (payload_write_at destination k 0 contiguous)
                | None \<Rightarrow> stream_payload (payload_port destination) payload (bs_len payload) k 0) of
            (Inl e, k') \<Rightarrow> (Inl e, k')
          | (Inr _, k') \<Rightarrow> payload_commit destination k' status request_id)"

definition write_empty ::
  "'k response_writer \<Rightarrow> 'k \<Rightarrow> status_code \<Rightarrow> u64 \<Rightarrow> (response_write_error + u32) \<times> 'k" where
  "write_empty writer k status request_id =
     (case response_preflight writer k 0 of
        Inl e \<Rightarrow> (Inl e, k)
      | Inr used \<Rightarrow> apfst (\<lambda>r. and_then r (\<lambda>_. Inr used)) (write_header (rw_sink writer) k status request_id 0))"

section \<open>What is written\<close>

lemma header_bytes [simp]: "RESPONSE_HEADER_BYTES = 16"
  by (simp add: RESPONSE_HEADER_BYTES_def size_response_header_def)

lemma length_response_header [simp]: "length (encode_response_header h) = 16"
  by (simp add: encode_response_header_def)

lemma unat_ucast_u32 [simp]: "unat (ucast (w :: u32) :: u64) = unat w"
  using unat_u32_less [of w] by (simp add: unsigned_ucast_eq take_bit_eq_mod)

lemma narrow_u64:
  assumes "unat (w :: u64) < 2 ^ 32"
  shows "ucast (ucast w :: u32) = w"
proof -
  have "unat (ucast w :: u32) = unat w"
    using assms by (simp add: unsigned_ucast_eq take_bit_eq_mod)
  then show ?thesis
    unfolding unat_eq_iff unat_ucast_u32 .
qed

text \<open>The size of a frame, and the exact outcome of the preflight.\<close>

definition frame_bytes :: "u64 \<Rightarrow> nat" where
  "frame_bytes payload_bytes = 16 + unat payload_bytes"

definition frame_fits :: "u32 \<Rightarrow> u64 \<Rightarrow> bool" where
  "frame_fits max_response_bytes payload_bytes \<longleftrightarrow> frame_bytes payload_bytes \<le> unat max_response_bytes"

lemma frame_fits_small: "frame_fits max_response_bytes payload_bytes \<Longrightarrow> frame_bytes payload_bytes < 2 ^ 32"
  using unat_u32_less [of max_response_bytes] by (simp add: frame_fits_def)

lemma response_preflight_eq:
  "response_preflight writer k payload_bytes =
     (if \<not> frame_fits (rw_max_response_bytes writer) payload_bytes then Inl RWE_FrameTooLarge
      else if unat (sk_len (rw_sink writer) k) < frame_bytes payload_bytes then Inl RWE_InsufficientCapacity
      else Inr (of_nat (frame_bytes payload_bytes)))"
proof (cases "frame_bytes payload_bytes < 2 ^ 64")
  case False
  then show ?thesis
    using frame_fits_small [of "rw_max_response_bytes writer" payload_bytes]
    by (auto simp: response_preflight_def checked_add_def frame_bytes_def)
next
  case True
  then have add: "checked_add 16 payload_bytes = Some (16 + payload_bytes)"
      "unat (16 + payload_bytes) = frame_bytes payload_bytes"
    by (simp_all add: checked_add_def frame_bytes_def unat_add_no_overflow)
  have "(0xffffffff < 16 + payload_bytes) \<longleftrightarrow> \<not> frame_bytes payload_bytes < 2 ^ 32"
    by (auto simp: word_less_nat_alt add(2))
  moreover have "(ucast (rw_max_response_bytes writer) < 16 + payload_bytes)
      \<longleftrightarrow> \<not> frame_fits (rw_max_response_bytes writer) payload_bytes"
    by (simp add: word_less_nat_alt add(2) frame_fits_def not_le unat_ucast_u32)
  moreover have "(ucast (16 + payload_bytes) :: u32) = of_nat (frame_bytes payload_bytes)"
    unfolding add(2) [symmetric] by simp
  ultimately show ?thesis
    using frame_fits_small [of "rw_max_response_bytes writer" payload_bytes]
    by (auto simp: response_preflight_def add word_less_nat_alt)
qed

lemma payload_write_at_region:
  "payload_write_at payload k offset source
     = writable_region_write_at (rp_sink payload) 16 (payload_len payload) k offset source"
proof (cases "unat offset + length source \<le> unat (payload_len payload)")
  case True
  have small: "unat (payload_len payload) < 2 ^ 32"
    using unat_u32_less [of "rp_payload_bytes payload"] by (simp add: payload_len_def unat_ucast_u32)
  have src: "unat (of_nat (length source) :: u64) = length source"
    using True small by (intro unat_of_nat_u64) simp
  have "unat (offset + of_nat (length source)) = unat offset + length source"
    using True small src by (subst unat_add_no_overflow) simp_all
  then show ?thesis
    using True small src
    by (simp add: payload_write_at_def writable_region_write_at_def checked_range_eq checked_add_def
        word_less_nat_alt)
next
  case False
  then show ?thesis
    by (auto simp: payload_write_at_def writable_region_write_at_def checked_range_eq checked_add_def
        unat_of_nat_u64 word_less_nat_alt unat_add_no_overflow)
qed

lemma payload_port_region:
  "payload_port payload = writable_region_port (rp_sink payload) 16 (payload_len payload)"
  by (simp add: payload_port_def writable_region_port_def payload_write_at_region fun_eq_iff)

context byte_sink_region
begin

text \<open>The copy loop fills the region with the payload, whatever the shape of the source.\<close>

lemma stream_region:
  assumes "source_ok payload" "bs_len payload = region_len" "region_valid k" "offset \<le> region_len"
    and "content k = overwrite base (unat region_offset) (take (unat offset) (source_content payload))"
    and "unat region_offset + unat region_len \<le> length base"
  shows "\<exists>k'. stream_payload (writable_region_port sink region_offset region_len) payload region_len k offset
      = (Inr (), k') \<and> valid k' \<and> content k' = overwrite base (unat region_offset) (source_content payload)"
  using assms
proof (induction "unat region_len - unat offset" arbitrary: k offset rule: less_induct)
  case less
  note len = source_ok_len [OF less.prems(1)] less.prems(2)
  show ?case
  proof (cases "offset < region_len")
    case False
    with less.prems(4) have "offset = region_len"
      by simp
    with less.prems len show ?thesis
      by (subst stream_payload.simps) (simp add: region_valid_def)
  next
    case True
    let ?n = "min (unat region_len - unat offset) 4096"
    let ?chunk = "take ?n (drop (unat offset) (source_content payload))"
    note chunk = scratch_chunk [OF True]
    have bound: "unat offset + ?n \<le> unat region_len"
      using True by (simp add: word_less_nat_alt)
    have read: "bs_read_at payload offset ?n = Inr ?chunk"
      using source_ok_read [OF less.prems(1), of offset ?n] bound less.prems(2) by simp
    have size: "length ?chunk = ?n"
      using bound len by simp
    obtain k1 where k1: "writable_region_write_at sink region_offset region_len k offset ?chunk = (Inr (), k1)"
        "valid k1" "content k1 = overwrite (content k) (unat region_offset + unat offset) ?chunk"
      using region_write [OF less.prems(3), of offset ?chunk] bound size by auto
    let ?next = "offset + of_nat ?n"
    have next_offset: "unat ?next = unat offset + ?n"
      by (rule chunk(3))
    have written: "length (take (unat offset) (source_content payload)) = unat offset"
      using bound len by simp
    have "content k1 = overwrite base (unat region_offset)
        (take (unat offset) (source_content payload) @ ?chunk)"
      unfolding k1(3) less.prems(5)
      using overwrite_overwrite_adjacent [of "unat region_offset" "take (unat offset) (source_content payload)"
          ?chunk base] written size bound less.prems(6) by simp
    then have content: "content k1 = overwrite base (unat region_offset) (take (unat ?next) (source_content payload))"
      by (simp add: next_offset take_add)
    have "region_valid k1"
      using k1(2,3) less.prems(3) size bound by (auto simp: region_valid_def)
    moreover have "?next \<le> region_len" "unat region_len - unat ?next < unat region_len - unat offset"
      using bound chunk(1,2) by (simp_all add: next_offset word_le_nat_alt)
    ultimately have "\<exists>k'. stream_payload (writable_region_port sink region_offset region_len) payload region_len k1 ?next
        = (Inr (), k') \<and> valid k' \<and> content k' = overwrite base (unat region_offset) (source_content payload)"
      using less.hyps [of ?next k1] less.prems content by blast
    then show ?thesis
      using True read k1(1) by (subst stream_payload.simps) (simp add: chunk(2) Let_def writable_region_port_def)
  qed
qed

end

text \<open>The bytes of one response frame.\<close>

definition response_frame :: "status_code \<Rightarrow> u64 \<Rightarrow> u8 list \<Rightarrow> u8 list" where
  "response_frame status request_id payload =
     encode_response_header (response_header_new status (of_nat (length payload)) request_id) @ payload"

lemma length_response_frame [simp]: "length (response_frame status request_id payload) = 16 + length payload"
  by (simp add: response_frame_def)

lemma overwrite_frame:
  assumes "length header = 16" "16 + length payload \<le> length xs"
  shows "overwrite (overwrite xs 16 payload) 0 header = header @ payload @ drop (16 + length payload) xs"
  using assms by (simp add: overwrite_def)

context byte_sink_port
begin

lemma write_header_law:
  assumes "valid k" "16 \<le> length (content k)"
  obtains k' where "write_header sink k status request_id payload_bytes = (Inr (), k')" "valid k'"
    "content k' = overwrite (content k) 0
       (encode_response_header (response_header_new status payload_bytes request_id))"
  using sink_write [OF assms(1), of 0 "encode_response_header (response_header_new status payload_bytes request_id)"]
    assms(2) by (auto simp: write_header_def)

lemma write_empty_law:
  assumes "valid k"
  shows "(\<not> frame_fits m 0 \<longrightarrow> write_empty (response_writer_new sink m) k status request_id = (Inl RWE_FrameTooLarge, k))
   \<and> (frame_fits m 0 \<longrightarrow> length (content k) < 16 \<longrightarrow>
        write_empty (response_writer_new sink m) k status request_id = (Inl RWE_InsufficientCapacity, k))
   \<and> (frame_fits m 0 \<longrightarrow> 16 \<le> length (content k) \<longrightarrow>
        (\<exists>k'. write_empty (response_writer_new sink m) k status request_id = (Inr 16, k') \<and> valid k'
           \<and> content k' = response_frame status request_id [] @ drop 16 (content k)))"
proof -
  have pre: "response_preflight (response_writer_new sink m) k 0 =
      (if \<not> frame_fits m 0 then Inl RWE_FrameTooLarge
       else if length (content k) < 16 then Inl RWE_InsufficientCapacity else Inr 16)"
    using sink_len [OF assms] by (simp add: response_preflight_eq response_writer_new_def frame_bytes_def)
  have "\<exists>k'. write_empty (response_writer_new sink m) k status request_id = (Inr 16, k') \<and> valid k'
      \<and> content k' = response_frame status request_id [] @ drop 16 (content k)"
    if fits: "frame_fits m 0" "16 \<le> length (content k)"
  proof -
    obtain k' where "write_header sink k status request_id 0 = (Inr (), k')" "valid k'"
        "content k' = overwrite (content k) 0 (encode_response_header (response_header_new status 0 request_id))"
      using write_header_law [OF assms fits(2)] .
    with pre fits show ?thesis
      by (auto simp: write_empty_def response_writer_new_def overwrite_def response_frame_def)
  qed
  then show ?thesis
    using pre by (auto simp: write_empty_def)
qed

text \<open>Filling the payload destination and committing gives the frame in front of untouched bytes.\<close>

lemma payload_commit_law:
  assumes "valid k" "content k = overwrite base 16 payload" "16 + length payload \<le> length base"
    and "rp_sink p = sink" "rp_payload_bytes p = of_nat (length payload)"
  obtains k' where "payload_commit p k status request_id = (Inr (rp_used p), k')" "valid k'"
    "content k' = response_frame status request_id payload @ drop (16 + length payload) base"
proof -
  have "16 \<le> length (content k)"
    using assms(2,3) by simp
  then obtain k' where k': "write_header sink k status request_id (rp_payload_bytes p) = (Inr (), k')" "valid k'"
      "content k' = overwrite (content k) 0
        (encode_response_header (response_header_new status (rp_payload_bytes p) request_id))"
    using write_header_law [OF assms(1)] by blast
  have "content k' = response_frame status request_id payload @ drop (16 + length payload) base"
    using assms(3,5) by (simp add: k'(3) assms(2) overwrite_frame response_frame_def)
  with that k'(1,2) assms(4) show ?thesis
    by (simp add: payload_commit_def)
qed

lemma response_payload_of_eq:
  assumes "valid k"
  shows "response_payload_of (response_writer_new sink m) k n =
    (if \<not> frame_fits m n then Inl RWE_FrameTooLarge
     else if length (content k) < frame_bytes n then Inl RWE_InsufficientCapacity
     else Inr \<lparr>rp_sink = sink, rp_payload_bytes = ucast n, rp_used = of_nat (frame_bytes n)\<rparr>)"
  using sink_len [OF assms] frame_fits_small [of m n]
  by (auto simp: response_payload_of_def response_preflight_eq response_writer_new_def frame_bytes_def)

lemma write_response_law:
  assumes k: "valid k" and src: "source_ok payload"
  shows "(\<not> frame_fits m (bs_len payload) \<longrightarrow>
        write_response (response_writer_new sink m) k status request_id payload = (Inl RWE_FrameTooLarge, k))
   \<and> (frame_fits m (bs_len payload) \<longrightarrow> length (content k) < frame_bytes (bs_len payload) \<longrightarrow>
        write_response (response_writer_new sink m) k status request_id payload = (Inl RWE_InsufficientCapacity, k))
   \<and> (frame_fits m (bs_len payload) \<longrightarrow> frame_bytes (bs_len payload) \<le> length (content k) \<longrightarrow>
        (\<exists>k'. write_response (response_writer_new sink m) k status request_id payload
              = (Inr (of_nat (frame_bytes (bs_len payload))), k')
           \<and> valid k' \<and> content k' = response_frame status request_id (source_content payload)
               @ drop (frame_bytes (bs_len payload)) (content k)))"
proof (intro conjI impI)
  let ?n = "bs_len payload"
  assume fits: "frame_fits m ?n" "frame_bytes ?n \<le> length (content k)"
  let ?p = "\<lparr>rp_sink = sink, rp_payload_bytes = ucast ?n, rp_used = of_nat (frame_bytes ?n)\<rparr>"
  have dest: "response_payload_of (response_writer_new sink m) k ?n = Inr ?p"
    using fits by (simp add: response_payload_of_eq [OF k])
  have n: "unat ?n < 2 ^ 32"
    using frame_fits_small [OF fits(1)] by (simp add: frame_bytes_def)
  have plen: "payload_len ?p = ?n"
    unfolding payload_len_def by (simp only: response_payload.simps narrow_u64 [OF n])
  have size: "length (source_content payload) = unat ?n" "16 + unat ?n \<le> length (content k)"
    using source_ok_len [OF src] fits(2) by (simp_all add: frame_bytes_def)
  have region: "byte_sink_region sink content valid"
    by (rule byte_sink_region.intro) (rule byte_sink_port_axioms)
  note R = byte_sink_region.region_valid_def [OF region, of 16 ?n]
  have valid: "byte_sink_region.region_valid content valid 16 ?n k"
    using k size by (simp add: R)
  obtain k1 where k1: "(case bs_as_contiguous payload of
        Some contiguous \<Rightarrow> apfst (map_err (\<lambda>_. RWE_SinkAccess)) (payload_write_at ?p k 0 contiguous)
      | None \<Rightarrow> stream_payload (payload_port ?p) payload ?n k 0) = (Inr (), k1)"
      "valid k1" "content k1 = overwrite (content k) 16 (source_content payload)"
  proof (cases "bs_as_contiguous payload")
    case None
    then show ?thesis
      using byte_sink_region.stream_region [OF region src refl valid, of 0 "content k"] size that
      by (auto simp: payload_port_region plen)
  next
    case (Some bs)
    then have "bs = source_content payload"
      by (rule source_ok_contiguous [OF src])
    then show ?thesis
      using byte_sink_region.region_write [OF region valid, of 0 bs] size that Some
      by (auto simp: payload_write_at_region plen)
  qed
  have frame: "16 + length (source_content payload) = frame_bytes ?n"
    using size by (simp add: frame_bytes_def)
  obtain k' where k': "payload_commit ?p k1 status request_id = (Inr (rp_used ?p), k')" "valid k'"
      "content k' = response_frame status request_id (source_content payload)
        @ drop (16 + length (source_content payload)) (content k)"
    by (rule payload_commit_law [OF k1(2,3), of ?p]) (use size in simp_all)
  then show "\<exists>k'. write_response (response_writer_new sink m) k status request_id payload
        = (Inr (of_nat (frame_bytes ?n)), k')
      \<and> valid k' \<and> content k' = response_frame status request_id (source_content payload)
          @ drop (frame_bytes ?n) (content k)"
    using dest k1(1) k' by (simp add: write_response_def frame)
qed (simp_all add: write_response_def response_payload_of_eq [OF k])

end

section \<open>Property\<close>

text \<open>C21: writing a response is exact. Over any sink that keeps the contract of \<open>ByteSink\<close> and any
payload source that keeps the contract of \<open>ByteSource\<close>, contiguous or segmented: a frame larger than the
negotiated limit or than the sink is refused with the sink untouched; otherwise the writer returns the
frame size and the sink holds the header, the whole payload, and then its old bytes. The copy loop
terminates and never fails.\<close>
theorem write_response_exact:
  assumes "byte_sink_port sink content valid" "valid k" "source_ok payload"
  shows "(\<not> frame_fits m (bs_len payload) \<longrightarrow>
        write_response (response_writer_new sink m) k status request_id payload = (Inl RWE_FrameTooLarge, k))
   \<and> (frame_fits m (bs_len payload) \<longrightarrow> length (content k) < frame_bytes (bs_len payload) \<longrightarrow>
        write_response (response_writer_new sink m) k status request_id payload = (Inl RWE_InsufficientCapacity, k))
   \<and> (frame_fits m (bs_len payload) \<longrightarrow> frame_bytes (bs_len payload) \<le> length (content k) \<longrightarrow>
        (\<exists>k'. write_response (response_writer_new sink m) k status request_id payload
              = (Inr (of_nat (frame_bytes (bs_len payload))), k')
           \<and> valid k' \<and> content k' = response_frame status request_id (source_content payload)
               @ drop (frame_bytes (bs_len payload)) (content k)))"
  by (rule byte_sink_port.write_response_law [OF assms])

theorem write_response_exact_witness:
  "\<exists>k'. write_response (response_writer_new slice_sink 64) (replicate 24 0) 0 7
       (segmented_port \<lparr>ss_segments = [[1, 2], [3]], ss_len = 3\<rparr>) = (Inr 19, k')
     \<and> k' = response_frame 0 7 [1, 2, 3] @ replicate 5 0"
proof -
  let ?payload = "segmented_port \<lparr>ss_segments = [[1, 2], [3]], ss_len = 3\<rparr>"
  have wf: "segmented_source_wf \<lparr>ss_segments = [[1, 2], [3]], ss_len = 3\<rparr>"
    by (simp add: segmented_source_wf_def)
  have src: "source_ok ?payload" "source_content ?payload = [1, 2, 3]" "bs_len ?payload = 3"
    using segmented_in.port_source_ok [OF wf] segmented_in.port_content [OF wf] by (simp_all add: segmented_port_def)
  have "slice_fits (replicate 24 0)"
    by (simp add: slice_fits_def)
  from write_response_exact [OF slice_out.byte_sink_port_axioms this src(1), of 64 0 7]
  show ?thesis
    by (auto simp: src frame_fits_def frame_bytes_def)
qed

end
