(* ===== verification/Object_Table.thy ===== *)
theory Object_Table
  imports Accel_Prelude
begin

text \<open>
  The generational object table of \<open>virtio-accel-device\<close> (\<open>object_table.rs\<close>): object
  identifiers that carry slot, generation, kind and namespace, and the slot table with its
  free list. The allocator's answer to \<open>try_reserve\<close> is an argument of the operations that
  ask for memory. The invariant \<open>table_wf\<close> makes the indices that the code takes from the
  free list valid, the live count exact and the generation below its field width; the
  locale \<open>object_store\<close> is what the device state relies on.
\<close>

unbundle bit_operations_syntax

section \<open>Identifiers\<close>

datatype object_kind = OK_Context | OK_Buffer | OK_Program | OK_Queue | OK_Event

fun kind_tag :: "object_kind \<Rightarrow> u32" where
  "kind_tag OK_Context = 1"
| "kind_tag OK_Buffer = 2"
| "kind_tag OK_Program = 3"
| "kind_tag OK_Queue = 4"
| "kind_tag OK_Event = 5"

definition KIND_MASK :: u32 where "KIND_MASK = 7"
definition GENERATION_BITS :: nat where "GENERATION_BITS = 13"
definition GENERATION_MASK :: u16 where "GENERATION_MASK = push_bit GENERATION_BITS 1 - 1"
definition GENERATION_SHIFT :: nat where "GENERATION_SHIFT = 3"
definition NAMESPACE_SHIFT :: nat where "NAMESPACE_SHIFT = GENERATION_SHIFT + GENERATION_BITS"

lemmas id_consts = KIND_MASK_def GENERATION_BITS_def GENERATION_MASK_def GENERATION_SHIFT_def
  NAMESPACE_SHIFT_def

type_synonym object_namespace = u16
type_synonym object_id = u64

definition object_namespace_new :: "u16 \<Rightarrow> object_namespace option" where
  "object_namespace_new value = (if value = 0 then None else Some value)"

definition object_id_from_raw :: "u64 \<Rightarrow> object_id option" where
  "object_id_from_raw raw = (if raw = 0 then None else Some raw)"

definition object_id_new :: "u32 \<Rightarrow> u16 \<Rightarrow> u16 \<Rightarrow> object_kind \<Rightarrow> object_id" where
  "object_id_new index namespace generation kind =
     (let token = push_bit NAMESPACE_SHIFT (ucast namespace)
            OR push_bit GENERATION_SHIFT (ucast generation) OR kind_tag kind
      in push_bit 32 (ucast (token :: u32)) OR (ucast index + 1))"

text \<open>The fields as \<open>locate\<close> takes them apart.\<close>

definition id_slot_number :: "object_id \<Rightarrow> u32" where
  "id_slot_number raw = ucast raw"

definition id_token :: "object_id \<Rightarrow> u32" where
  "id_token raw = ucast (drop_bit 32 raw)"

definition token_namespace :: "u32 \<Rightarrow> u16" where
  "token_namespace token = ucast (drop_bit NAMESPACE_SHIFT token)"

definition token_generation :: "u32 \<Rightarrow> u16" where
  "token_generation token = ucast (drop_bit GENERATION_SHIFT token) AND GENERATION_MASK"

section \<open>The table\<close>

datatype object_table_error =
  OTE_InvalidId | OTE_WrongKind | OTE_StaleId | OTE_Full | OTE_AllocationFailed

record 'a slot =
  sl_generation :: u16
  sl_value :: "'a option"
  sl_retired :: bool

record 'a object_table =
  ot_kind :: object_kind
  ot_namespace :: u16
  ot_max_slots :: u32
  ot_live :: u32
  ot_slots :: "'a slot list"
  ot_free :: "u32 list"

definition table_new :: "object_kind \<Rightarrow> u32 \<Rightarrow> 'a object_table" where
  "table_new kind max_slots =
     \<lparr>ot_kind = kind, ot_namespace = 0, ot_max_slots = max_slots, ot_live = 0,
      ot_slots = [], ot_free = []\<rparr>"

definition table_with_namespace :: "object_kind \<Rightarrow> u32 \<Rightarrow> object_namespace \<Rightarrow> 'a object_table" where
  "table_with_namespace kind max_slots namespace =
     \<lparr>ot_kind = kind, ot_namespace = namespace, ot_max_slots = max_slots, ot_live = 0,
      ot_slots = [], ot_free = []\<rparr>"

definition table_len :: "'a object_table \<Rightarrow> u32" where
  "table_len t = ot_live t"

definition table_is_empty :: "'a object_table \<Rightarrow> bool" where
  "table_is_empty t \<longleftrightarrow> ot_live t = 0"

definition table_id_at :: "'a object_table \<Rightarrow> nat \<Rightarrow> object_id" where
  "table_id_at t i =
     object_id_new (of_nat i) (ot_namespace t) (sl_generation (ot_slots t ! i)) (ot_kind t)"

definition table_ids :: "'a object_table \<Rightarrow> object_id list" where
  "table_ids t = map (table_id_at t) (filter (\<lambda>i. sl_value (ot_slots t ! i) \<noteq> None) [0..<length (ot_slots t)])"

text \<open>\<open>alloc\<close> says whether both \<open>try_reserve\<close> calls are granted.\<close>

definition table_try_reserve_insert :: "bool \<Rightarrow> 'a object_table \<Rightarrow> object_table_error + unit" where
  "table_try_reserve_insert alloc t =
     (if ot_free t \<noteq> [] then Inr ()
      else if unat (ot_max_slots t) \<le> length (ot_slots t) then Inl OTE_Full
      else if \<not> alloc then Inl OTE_AllocationFailed
      else Inr ())"

definition table_insert_prepared :: "'a \<Rightarrow> 'a object_table \<Rightarrow> object_id \<times> 'a object_table" where
  "table_insert_prepared value t =
     (if ot_free t \<noteq> []
      then let index = last (ot_free t); slot = ot_slots t ! unat index
           in (object_id_new index (ot_namespace t) (sl_generation slot) (ot_kind t),
               t\<lparr>ot_free := butlast (ot_free t),
                 ot_slots := (ot_slots t)[unat index := slot\<lparr>sl_value := Some value\<rparr>],
                 ot_live := ot_live t + 1\<rparr>)
      else let index = of_nat (length (ot_slots t))
           in (object_id_new index (ot_namespace t) 0 (ot_kind t),
               t\<lparr>ot_slots := ot_slots t @ [\<lparr>sl_generation = 0, sl_value = Some value, sl_retired = False\<rparr>],
                 ot_live := ot_live t + 1\<rparr>))"

definition table_insert ::
  "bool \<Rightarrow> 'a \<Rightarrow> 'a object_table \<Rightarrow> (object_table_error + object_id) \<times> 'a object_table" where
  "table_insert alloc value t =
     (case table_try_reserve_insert alloc t of
        Inl e \<Rightarrow> (Inl e, t)
      | Inr _ \<Rightarrow> apfst Inr (table_insert_prepared value t))"

definition table_locate :: "'a object_table \<Rightarrow> object_id \<Rightarrow> object_table_error + nat" where
  "table_locate t oid =
     (let slot_number = id_slot_number oid; token = id_token oid in
      if slot_number = 0 then Inl OTE_InvalidId
      else if token AND KIND_MASK \<noteq> kind_tag (ot_kind t) then Inl OTE_WrongKind
      else if token_namespace token \<noteq> ot_namespace t then Inl OTE_StaleId
      else let generation = token_generation token; index = unat (slot_number - 1) in
        if length (ot_slots t) \<le> index then Inl OTE_StaleId
        else let slot = ot_slots t ! index in
          if sl_generation slot \<noteq> generation \<or> sl_retired slot \<or> sl_value slot = None
          then Inl OTE_StaleId else Inr index)"

definition table_get :: "'a object_table \<Rightarrow> object_id \<Rightarrow> object_table_error + 'a" where
  "table_get t oid =
     and_then (table_locate t oid) (\<lambda>index. ok_or OTE_StaleId (sl_value (ot_slots t ! index)))"

text \<open>\<open>get_mut\<close> hands out the value with the assignment that the borrower may make through it.\<close>

definition table_get_mut ::
  "'a object_table \<Rightarrow> object_id \<Rightarrow> object_table_error + ('a \<times> ('a \<Rightarrow> 'a object_table))" where
  "table_get_mut t oid =
     and_then (table_locate t oid) (\<lambda>index.
       case sl_value (ot_slots t ! index) of
         None \<Rightarrow> Inl OTE_StaleId
       | Some v \<Rightarrow> Inr (v, \<lambda>v'. t\<lparr>ot_slots :=
           (ot_slots t)[index := (ot_slots t ! index)\<lparr>sl_value := Some v'\<rparr>]\<rparr>))"

definition table_modify ::
  "'a object_table \<Rightarrow> object_id \<Rightarrow> ('a \<Rightarrow> 'a) \<Rightarrow> object_table_error + 'a object_table" where
  "table_modify t oid f = and_then (table_get_mut t oid) (\<lambda>(v, assign). Inr (assign (f v)))"

definition table_remove ::
  "'a object_table \<Rightarrow> object_id \<Rightarrow> (object_table_error + 'a) \<times> 'a object_table" where
  "table_remove t oid =
     (case table_locate t oid of
        Inl e \<Rightarrow> (Inl e, t)
      | Inr index \<Rightarrow>
          let slot = ot_slots t ! index in
          case sl_value slot of
            None \<Rightarrow> (Inl OTE_StaleId, t)
          | Some value \<Rightarrow>
              if sl_generation slot = GENERATION_MASK
              then (Inr value,
                t\<lparr>ot_slots := (ot_slots t)[index := slot\<lparr>sl_value := None, sl_retired := True\<rparr>],
                  ot_live := ot_live t - 1\<rparr>)
              else (Inr value,
                t\<lparr>ot_slots := (ot_slots t)[index := slot\<lparr>sl_value := None,
                    sl_generation := sl_generation slot + 1\<rparr>],
                  ot_live := ot_live t - 1,
                  ot_free := ot_free t @ [of_nat index]\<rparr>))"

definition slot_present :: "'a slot \<Rightarrow> bool" where
  "slot_present s \<longleftrightarrow> \<not> sl_retired s \<and> sl_value s \<noteq> None"

definition table_next_id_from :: "'a object_table \<Rightarrow> nat \<Rightarrow> (nat \<times> object_id) option" where
  "table_next_id_from t start =
     map_option (\<lambda>i. (i + 1, table_id_at t i))
       (find (\<lambda>i. slot_present (ot_slots t ! i)) [start..<length (ot_slots t)])"

section \<open>The identifier encoding\<close>

lemma GENERATION_MASK_eq: "GENERATION_MASK = mask 13"
  by (simp add: id_consts mask_eq_exp_minus_1)

lemma KIND_MASK_eq: "KIND_MASK = mask 3"
  by (simp add: id_consts mask_eq_exp_minus_1)

lemma kind_tag_mask: "kind_tag kind AND 7 = kind_tag kind"
  by (cases kind) simp_all

lemma kind_tag_bit_high: "3 \<le> n \<Longrightarrow> \<not> bit (kind_tag kind) n"
proof -
  assume "3 \<le> n"
  have "bit (kind_tag kind) n = bit (kind_tag kind AND mask 3) n"
    by (simp add: mask_eq_exp_minus_1 kind_tag_mask)
  with \<open>3 \<le> n\<close> show ?thesis
    by (simp add: bit_simps)
qed

lemma kind_tag_inject: "kind_tag k = kind_tag k' \<longleftrightarrow> k = k'"
  by (cases k; cases k') simp_all

lemma index_plus_one: "index \<noteq> - 1 \<Longrightarrow> (ucast index :: u64) + 1 = ucast (index + (1 :: u32))"
proof -
  assume "index \<noteq> - 1"
  then have "unat (index + 1) = unat index + 1"
    by (metis Suc_eq_plus1 add.commute add_eq_0_iff unatSuc)
  moreover have "unat index < 2 ^ 32"
    using unsigned_less [of index] by simp
  ultimately show ?thesis
    by (simp add: unat_eq_iff unsigned_ucast_eq unat_word_ariths take_bit_eq_mod)
qed

lemma id_bits:
  assumes "index \<noteq> - 1"
  shows "bit (object_id_new index namespace generation kind) n \<longleftrightarrow>
    (if n < 32 then bit (index + 1) n
     else if n < 35 then bit (kind_tag kind) (n - 32)
     else if n < 48 then bit generation (n - 35)
     else n < 64 \<and> (bit namespace (n - 48) \<or> bit generation (n - 35)))"
  using assms
  by (auto simp: object_id_new_def index_plus_one id_consts bit_simps kind_tag_bit_high Let_def
      dest: bit_imp_le_length)

lemma id_slot_number_new: "index \<noteq> - 1 \<Longrightarrow>
    id_slot_number (object_id_new index namespace generation kind) = index + 1"
  by (rule bit_word_eqI) (simp add: id_slot_number_def bit_simps id_bits)

lemma generation_bit_high:
  assumes "generation \<le> GENERATION_MASK" "13 \<le> n"
  shows "\<not> bit generation n"
proof -
  have "unat generation < 2 ^ 13"
    using assms(1) by (simp add: id_consts word_le_nat_alt)
  then have "take_bit 13 (unat generation) = unat generation"
    by (rule take_bit_nat_eq_self)
  then have "\<not> bit (unat generation) n"
    using assms(2) by (metis bit_take_bit_iff not_le)
  then show ?thesis
    by (simp add: bit_simps)
qed

lemma id_token_bit: "index \<noteq> - 1 \<Longrightarrow> generation \<le> GENERATION_MASK \<Longrightarrow>
    bit (id_token (object_id_new index namespace generation kind)) n \<longleftrightarrow>
    (if n < 3 then bit (kind_tag kind) n
     else if n < 16 then bit generation (n - 3) else n < 32 \<and> bit namespace (n - 16))"
  using generation_bit_high [of generation "n - 3"]
  by (auto simp: id_token_def bit_simps id_bits)

lemma id_token_kind: "index \<noteq> - 1 \<Longrightarrow> generation \<le> GENERATION_MASK \<Longrightarrow>
    id_token (object_id_new index namespace generation kind) AND KIND_MASK = kind_tag kind"
proof (rule bit_word_eqI)
  fix n
  assume "index \<noteq> - 1" "generation \<le> GENERATION_MASK" "n < LENGTH(32)"
  then show "bit (id_token (object_id_new index namespace generation kind) AND KIND_MASK) n
      = bit (kind_tag kind) n"
    using kind_tag_bit_high [of n kind] by (simp add: bit_simps id_token_bit KIND_MASK_eq)
qed

lemma id_token_namespace: "index \<noteq> - 1 \<Longrightarrow> generation \<le> GENERATION_MASK \<Longrightarrow>
    token_namespace (id_token (object_id_new index namespace generation kind)) = namespace"
  by (rule bit_word_eqI) (simp add: token_namespace_def id_consts bit_simps id_token_bit)

lemma id_token_generation: "index \<noteq> - 1 \<Longrightarrow> generation \<le> GENERATION_MASK \<Longrightarrow>
    token_generation (id_token (object_id_new index namespace generation kind)) = generation"
  by (rule bit_word_eqI)
    (use generation_bit_high [of generation] in \<open>auto simp: token_generation_def GENERATION_MASK_eq
      GENERATION_SHIFT_def bit_simps id_token_bit\<close>)

text \<open>The fields determine the identifier.\<close>

lemma object_id_of_fields:
  assumes "id_slot_number raw \<noteq> 0" "id_token raw AND KIND_MASK = kind_tag kind"
  shows "raw = object_id_new (id_slot_number raw - 1) (token_namespace (id_token raw))
    (token_generation (id_token raw)) kind"
proof -
  have index: "id_slot_number raw - 1 \<noteq> - 1"
    using assms(1) by simp
  have kind: "bit (kind_tag kind) n \<longleftrightarrow> n < 3 \<and> bit raw (n + 32)" for n
    using bit_imp_le_length [of "kind_tag kind" n]
    by (auto simp: assms(2) [symmetric] KIND_MASK_eq id_token_def bit_simps ac_simps)
  have slot: "bit (id_slot_number raw) n \<longleftrightarrow> n < 32 \<and> bit raw n" for n
    by (simp add: id_slot_number_def bit_simps)
  have namespace: "bit (token_namespace (id_token raw)) n \<longleftrightarrow> n < 16 \<and> bit raw (n + 48)" for n
    by (auto simp: token_namespace_def id_token_def id_consts bit_simps ac_simps)
  have generation: "bit (token_generation (id_token raw)) n \<longleftrightarrow> n < 13 \<and> bit raw (n + 35)" for n
    by (auto simp: token_generation_def id_token_def GENERATION_MASK_eq GENERATION_SHIFT_def
        bit_simps ac_simps)
  show ?thesis
    by (rule bit_word_eqI) (simp add: id_bits [OF index] slot kind namespace generation, arith)
qed

section \<open>The table invariant\<close>

definition table_wf :: "'a object_table \<Rightarrow> bool" where
  "table_wf t \<longleftrightarrow>
     length (ot_slots t) \<le> unat (ot_max_slots t)
   \<and> unat (ot_live t) = length (filter (\<lambda>s. sl_value s \<noteq> None) (ot_slots t))
   \<and> distinct (ot_free t)
   \<and> (\<forall>x \<in> set (ot_free t). unat x < length (ot_slots t))
   \<and> (\<forall>i < length (ot_slots t).
        (of_nat i \<in> set (ot_free t) \<longleftrightarrow> sl_value (ot_slots t ! i) = None \<and> \<not> sl_retired (ot_slots t ! i))
      \<and> sl_generation (ot_slots t ! i) \<le> GENERATION_MASK
      \<and> (sl_retired (ot_slots t ! i) \<longrightarrow>
           sl_value (ot_slots t ! i) = None \<and> sl_generation (ot_slots t ! i) = GENERATION_MASK))"

text \<open>The abstract view: which identifiers resolve, and to what.\<close>

definition table_lookup :: "'a object_table \<Rightarrow> object_id \<Rightarrow> 'a option" where
  "table_lookup t oid = (case table_get t oid of Inl _ \<Rightarrow> None | Inr v \<Rightarrow> Some v)"

lemma table_wf_index:
  assumes "table_wf t" "i < length (ot_slots t)"
  shows "unat (of_nat i :: u32) = i" "(of_nat i :: u32) \<noteq> - 1"
proof -
  have bound: "i < 2 ^ 32 - 1"
    using assms unat_u32_less [of "ot_max_slots t"] by (simp add: table_wf_def)
  then show i: "unat (of_nat i :: u32) = i"
    by (simp add: unat_of_nat take_bit_eq_mod)
  show "(of_nat i :: u32) \<noteq> - 1"
    using bound i by (auto simp: unat_eq_iff unsigned_minus_1_eq_mask mask_eq_exp_minus_1)
qed

lemma table_wf_slot:
  assumes "table_wf t" "i < length (ot_slots t)"
  shows "sl_generation (ot_slots t ! i) \<le> GENERATION_MASK"
    "sl_retired (ot_slots t ! i) \<Longrightarrow> sl_value (ot_slots t ! i) = None"
    "sl_retired (ot_slots t ! i) \<Longrightarrow> sl_generation (ot_slots t ! i) = GENERATION_MASK"
    "of_nat i \<in> set (ot_free t) \<longleftrightarrow> sl_value (ot_slots t ! i) = None \<and> \<not> sl_retired (ot_slots t ! i)"
  using assms by (simp_all add: table_wf_def)

lemma table_locate_fields:
  assumes "table_locate t oid = Inr i"
  shows "id_slot_number oid \<noteq> 0 \<and> id_token oid AND KIND_MASK = kind_tag (ot_kind t)
    \<and> token_namespace (id_token oid) = ot_namespace t \<and> i = unat (id_slot_number oid - 1)
    \<and> i < length (ot_slots t) \<and> sl_generation (ot_slots t ! i) = token_generation (id_token oid)
    \<and> sl_value (ot_slots t ! i) \<noteq> None"
  using assms unfolding table_locate_def Let_def
  by (simp only: sum.inject sum.distinct not_le de_Morgan_disj not_not split: if_splits) simp

lemma table_locate_Inr:
  assumes "table_wf t"
  shows "table_locate t oid = Inr i \<longleftrightarrow>
    i < length (ot_slots t) \<and> oid = table_id_at t i \<and> sl_value (ot_slots t ! i) \<noteq> None"
proof
  assume "table_locate t oid = Inr i"
  note fields = table_locate_fields [OF this]
  have "of_nat i = id_slot_number oid - 1"
    using fields by simp
  then have "oid = table_id_at t i"
    using object_id_of_fields [of oid "ot_kind t"] fields unfolding table_id_at_def by metis
  with fields show "i < length (ot_slots t) \<and> oid = table_id_at t i \<and> sl_value (ot_slots t ! i) \<noteq> None"
    by blast
next
  assume i: "i < length (ot_slots t) \<and> oid = table_id_at t i \<and> sl_value (ot_slots t ! i) \<noteq> None"
  then have index: "(of_nat i :: u32) \<noteq> - 1" "unat (of_nat i :: u32) = i"
    and slot: "sl_generation (ot_slots t ! i) \<le> GENERATION_MASK" "\<not> sl_retired (ot_slots t ! i)"
    using table_wf_index [OF assms, of i] table_wf_slot [OF assms, of i] by auto
  have "id_slot_number oid = of_nat i + 1" "id_token oid AND KIND_MASK = kind_tag (ot_kind t)"
      "token_namespace (id_token oid) = ot_namespace t"
      "token_generation (id_token oid) = sl_generation (ot_slots t ! i)"
    using i index(1) slot(1)
    by (simp_all add: table_id_at_def id_slot_number_new id_token_kind id_token_namespace
        id_token_generation)
  moreover have "of_nat i + 1 \<noteq> (0 :: u32)"
    using index(1) by (simp add: add_eq_0_iff2)
  ultimately show "table_locate t oid = Inr i"
    using i index(2) slot(2) by (simp add: table_locate_def)
qed

lemma table_lookup_locate:
  "table_lookup t oid = Some v \<longleftrightarrow>
     (\<exists>i. table_locate t oid = Inr i \<and> sl_value (ot_slots t ! i) = Some v)"
  by (cases "table_locate t oid")
    (auto simp: table_lookup_def table_get_def ok_or_def split: option.splits)

lemma table_lookup_Some:
  "table_wf t \<Longrightarrow> table_lookup t oid = Some v \<longleftrightarrow>
     (\<exists>i < length (ot_slots t). oid = table_id_at t i \<and> sl_value (ot_slots t ! i) = Some v)"
  by (auto simp: table_lookup_locate table_locate_Inr)

lemma table_id_at_inject:
  assumes "table_wf t" "i < length (ot_slots t)" "j < length (ot_slots t)"
    and "object_id_new (of_nat i) n g k = object_id_new (of_nat j) n' g' k'"
  shows "i = j"
proof -
  have "(of_nat i :: u32) + 1 = of_nat j + 1"
    using assms(4) table_wf_index(2) assms(1-3) by (metis id_slot_number_new)
  then show ?thesis
    using table_wf_index(1) assms(1-3) by (metis add_right_cancel)
qed

lemma length_filter_update:
  "i < length xs \<Longrightarrow>
   length (filter P (xs[i := y])) + (if P (xs ! i) then 1 else 0)
     = length (filter P xs) + (if P y then 1 else 0)"
proof (induction xs arbitrary: i)
  case (Cons x xs)
  then show ?case
    by (cases i) auto
qed simp

section \<open>What the operations do to the lookups\<close>

text \<open>One slot is written and every other slot is kept; a slot's generation never goes back.\<close>

definition slot_written :: "'a object_table \<Rightarrow> 'a object_table \<Rightarrow> nat \<Rightarrow> bool" where
  "slot_written t t' i \<longleftrightarrow>
     ot_kind t' = ot_kind t \<and> ot_namespace t' = ot_namespace t \<and> ot_max_slots t' = ot_max_slots t
   \<and> i < length (ot_slots t') \<and> length (ot_slots t) \<le> length (ot_slots t')
   \<and> (\<forall>j < length (ot_slots t'). j \<noteq> i \<longrightarrow> j < length (ot_slots t) \<and> ot_slots t' ! j = ot_slots t ! j)
   \<and> (i < length (ot_slots t) \<longrightarrow>
        sl_generation (ot_slots t ! i) < sl_generation (ot_slots t' ! i)
      \<or> sl_generation (ot_slots t ! i) = sl_generation (ot_slots t' ! i)
        \<and> (sl_retired (ot_slots t ! i) \<longrightarrow> sl_retired (ot_slots t' ! i)))"

lemma slot_written_id: "slot_written t t' i \<Longrightarrow> j < length (ot_slots t') \<Longrightarrow> j \<noteq> i \<Longrightarrow>
    table_id_at t' j = table_id_at t j"
  by (simp add: slot_written_def table_id_at_def)

lemma slot_written_lookup:
  assumes "table_wf t" "table_wf t'" "slot_written t t' i"
  shows "table_lookup t' x =
    (if x = table_id_at t' i then sl_value (ot_slots t' ! i)
     else if i < length (ot_slots t) \<and> x = table_id_at t i then None
     else table_lookup t x)"
proof -
  have i: "i < length (ot_slots t')"
    using assms(3) by (simp add: slot_written_def)
  have same: "table_id_at t' j = table_id_at t j" "ot_slots t' ! j = ot_slots t ! j"
      "j < length (ot_slots t)" if "j < length (ot_slots t')" "j \<noteq> i" for j
    using assms(3) slot_written_id that by (auto simp: slot_written_def)
  have len: "length (ot_slots t) \<le> length (ot_slots t')"
    using assms(3) by (simp add: slot_written_def)
  have inj: "j = k" if "j < length (ot_slots t')" "k < length (ot_slots t')"
      "table_id_at t' j = table_id_at t' k" for j k
    using table_id_at_inject [OF assms(2) that(1,2)] that(3) by (simp add: table_id_at_def)
  have inj2: "j = i" if "j < length (ot_slots t)" "i < length (ot_slots t)"
      "table_id_at t j = table_id_at t i" for j
    using table_id_at_inject [OF assms(1) that(1,2)] that(3) by (simp add: table_id_at_def)
  have "table_lookup t' x = Some w \<longleftrightarrow>
      (if x = table_id_at t' i then sl_value (ot_slots t' ! i)
       else if i < length (ot_slots t) \<and> x = table_id_at t i then None
       else table_lookup t x) = Some w" for w
  proof (cases "x = table_id_at t' i")
    case True
    then show ?thesis
      using i inj by (auto simp: table_lookup_Some [OF assms(2)])
  next
    case False
    then have "table_lookup t' x = Some w \<longleftrightarrow>
        (\<exists>j < length (ot_slots t'). j \<noteq> i \<and> x = table_id_at t j \<and> sl_value (ot_slots t ! j) = Some w)"
      unfolding table_lookup_Some [OF assms(2)] using same(1,2) by metis
    also have "\<dots> \<longleftrightarrow>
        (\<exists>j < length (ot_slots t). j \<noteq> i \<and> x = table_id_at t j \<and> sl_value (ot_slots t ! j) = Some w)"
      using same(3) len by (metis order_less_le_trans)
    finally show ?thesis
      using False inj2 by (auto simp: table_lookup_Some [OF assms(1)])
  qed
  then show ?thesis
    by (metis not_None_eq)
qed

definition table_has_room :: "'a object_table \<Rightarrow> bool" where
  "table_has_room t \<longleftrightarrow> ot_free t \<noteq> [] \<or> length (ot_slots t) < unat (ot_max_slots t)"

lemma table_reserve_Inr:
  "table_try_reserve_insert alloc t = Inr () \<longleftrightarrow>
     ot_free t \<noteq> [] \<or> length (ot_slots t) < unat (ot_max_slots t) \<and> alloc"
  by (auto simp: table_try_reserve_insert_def)

lemma occupied_less:
  "i < length xs \<Longrightarrow> sl_value (xs ! i) = None \<Longrightarrow>
     length (filter (\<lambda>s. sl_value s \<noteq> None) xs) < length xs"
  by (rule length_filter_less [of "xs ! i"]) simp_all

lemma last_notin_butlast: "distinct xs \<Longrightarrow> xs \<noteq> [] \<Longrightarrow> x \<in> set (butlast xs) \<longleftrightarrow> x \<in> set xs \<and> x \<noteq> last xs"
  by (cases xs rule: rev_cases) auto

lemma table_wf_of_nat_inject:
  "table_wf t \<Longrightarrow> i < length (ot_slots t) \<Longrightarrow> j < length (ot_slots t) \<Longrightarrow>
     (of_nat i :: u32) = of_nat j \<longleftrightarrow> i = j"
  using table_wf_index(1) by metis

lemma table_wf_reuse:
  assumes "table_wf t" "ot_free t \<noteq> []" "i < length (ot_slots t)" "of_nat i = last (ot_free t)"
    and "unat (ot_live t + 1) = Suc (unat (ot_live t))"
  shows "table_wf (t\<lparr>ot_free := butlast (ot_free t),
    ot_slots := (ot_slots t)[i := (ot_slots t ! i)\<lparr>sl_value := Some value\<rparr>], ot_live := ot_live t + 1\<rparr>)"
    (is "table_wf ?t'")
proof -
  have vacant: "sl_value (ot_slots t ! i) = None" "\<not> sl_retired (ot_slots t ! i)"
    using table_wf_slot(4) [OF assms(1,3)] assms(2,4) by auto
  have "unat (ot_live ?t') = length (filter (\<lambda>s. sl_value s \<noteq> None) (ot_slots ?t'))"
    using length_filter_update [of i "ot_slots t" "\<lambda>s. sl_value s \<noteq> None"
        "(ot_slots t ! i)\<lparr>sl_value := Some value\<rparr>"] assms(1,3,5) vacant
    by (simp add: table_wf_def)
  moreover have "\<forall>x \<in> set (butlast (ot_free t)). unat x < length (ot_slots t)" "distinct (butlast (ot_free t))"
    using assms(1) by (auto simp: table_wf_def distinct_butlast dest: in_set_butlastD)
  moreover have "of_nat j \<in> set (butlast (ot_free t)) \<longleftrightarrow>
      sl_value (ot_slots ?t' ! j) = None \<and> \<not> sl_retired (ot_slots ?t' ! j)"
    if "j < length (ot_slots t)" for j
    using that assms table_wf_slot(4) [OF assms(1) that] table_wf_of_nat_inject [OF assms(1) assms(3) that]
    by (auto simp: last_notin_butlast nth_list_update table_wf_def)
  moreover have "sl_generation (ot_slots ?t' ! j) \<le> GENERATION_MASK \<and> (sl_retired (ot_slots ?t' ! j) \<longrightarrow>
      sl_value (ot_slots ?t' ! j) = None \<and> sl_generation (ot_slots ?t' ! j) = GENERATION_MASK)"
    if "j < length (ot_slots t)" for j
    using that vacant assms(3) table_wf_slot(1-3) [OF assms(1) that] by (auto simp: nth_list_update)
  ultimately show ?thesis
    using assms(1) by (simp add: table_wf_def)
qed

lemma table_wf_push:
  assumes "table_wf t" "ot_free t = []" "length (ot_slots t) < unat (ot_max_slots t)"
    and "unat (ot_live t + 1) = Suc (unat (ot_live t))"
  shows "table_wf (t\<lparr>ot_slots := ot_slots t @ [\<lparr>sl_generation = 0, sl_value = Some value, sl_retired = False\<rparr>],
    ot_live := ot_live t + 1\<rparr>)"
  using assms by (auto simp: table_wf_def nth_append less_Suc_eq)

lemma table_insert_prepared_written:
  assumes "table_wf t" "table_has_room t" "table_insert_prepared value t = (oid, t')"
  shows "\<exists>i. slot_written t t' i \<and> oid = table_id_at t' i \<and> sl_value (ot_slots t' ! i) = Some value
    \<and> (i < length (ot_slots t) \<longrightarrow> sl_value (ot_slots t ! i) = None \<and> table_id_at t i = oid)
    \<and> table_wf t' \<and> unat (ot_live t') = Suc (unat (ot_live t))"
proof (cases "ot_free t = []")
  case False
  define i where "i = unat (last (ot_free t))"
  have i: "i < length (ot_slots t)" "of_nat i = last (ot_free t)"
    using assms(1) False by (auto simp: table_wf_def i_def)
  then have vacant: "sl_value (ot_slots t ! i) = None"
    using table_wf_slot(4) [OF assms(1) i(1)] False by auto
  have "unat (ot_live t) + 1 < 2 ^ 32"
    using assms(1) occupied_less [OF i(1) vacant] unat_u32_less [of "ot_max_slots t"]
    by (simp add: table_wf_def)
  then have live: "unat (ot_live t + 1) = Suc (unat (ot_live t))"
    using unat_add_no_overflow [of "ot_live t" 1] by simp
  have t': "t' = t\<lparr>ot_free := butlast (ot_free t),
      ot_slots := (ot_slots t)[i := (ot_slots t ! i)\<lparr>sl_value := Some value\<rparr>], ot_live := ot_live t + 1\<rparr>"
    and oid: "oid = table_id_at t i"
    using assms(3) False i(2) by (auto simp: table_insert_prepared_def Let_def i_def table_id_at_def)
  have "table_wf t'"
    unfolding t' by (rule table_wf_reuse [OF assms(1) False i live])
  with i vacant oid live show ?thesis
    by (intro exI [of _ i]) (auto simp: slot_written_def t' table_id_at_def)
next
  case True
  then have room: "length (ot_slots t) < unat (ot_max_slots t)"
    using assms(2) by (simp add: table_has_room_def)
  have "unat (ot_live t) \<le> length (ot_slots t)"
    using assms(1) by (simp add: table_wf_def)
  then have "unat (ot_live t) + 1 < 2 ^ 32"
    using room unat_u32_less [of "ot_max_slots t"] by simp
  then have live: "unat (ot_live t + 1) = Suc (unat (ot_live t))"
    using unat_add_no_overflow [of "ot_live t" 1] by simp
  have t': "t' = t\<lparr>ot_slots := ot_slots t @ [\<lparr>sl_generation = 0, sl_value = Some value, sl_retired = False\<rparr>],
      ot_live := ot_live t + 1\<rparr>"
    and oid: "oid = object_id_new (of_nat (length (ot_slots t))) (ot_namespace t) 0 (ot_kind t)"
    using assms(3) True by (auto simp: table_insert_prepared_def Let_def)
  have "table_wf t'"
    unfolding t' by (rule table_wf_push [OF assms(1) True room live])
  with oid live show ?thesis
    by (intro exI [of _ "length (ot_slots t)"])
      (auto simp: slot_written_def t' table_id_at_def nth_append less_Suc_eq)
qed

lemma table_modify_written:
  assumes "table_wf t" "table_lookup t oid = Some v"
  shows "\<exists>i t'. table_modify t oid f = Inr t' \<and> slot_written t t' i \<and> oid = table_id_at t' i
    \<and> i < length (ot_slots t) \<and> oid = table_id_at t i \<and> sl_value (ot_slots t' ! i) = Some (f v)
    \<and> table_wf t' \<and> ot_live t' = ot_live t"
proof -
  from assms obtain i where i: "table_locate t oid = Inr i" "sl_value (ot_slots t ! i) = Some v"
    by (auto simp: table_lookup_locate)
  then have at: "i < length (ot_slots t)" "oid = table_id_at t i"
    using assms(1) by (simp_all add: table_locate_Inr)
  define t' where "t' = t\<lparr>ot_slots := (ot_slots t)[i := (ot_slots t ! i)\<lparr>sl_value := Some (f v)\<rparr>]\<rparr>"
  have "table_modify t oid f = Inr t'"
    using i by (simp add: table_modify_def table_get_mut_def t'_def)
  moreover have "table_wf t'"
    using assms(1) at(1) i(2) length_filter_update [OF at(1), of "\<lambda>s. sl_value s \<noteq> None"
        "(ot_slots t ! i)\<lparr>sl_value := Some (f v)\<rparr>"]
    by (auto simp: table_wf_def t'_def nth_list_update)
  ultimately show ?thesis
    using at by (intro exI [of _ i] exI [of _ t'])
      (auto simp: slot_written_def t'_def table_id_at_def)
qed

lemma generation_inc:
  assumes "g \<le> GENERATION_MASK" "g \<noteq> GENERATION_MASK"
  shows "g + 1 \<le> GENERATION_MASK" "g < g + 1"
proof -
  have "unat g < 8191"
    using assms by (simp add: id_consts word_le_nat_alt unat_eq_iff)
  moreover from this have "unat (g + 1) = unat g + 1"
    using unat_add_no_overflow [of g 1] by simp
  ultimately show "g + 1 \<le> GENERATION_MASK" "g < g + 1"
    by (simp_all add: id_consts word_le_nat_alt word_less_nat_alt)
qed

lemma table_wf_vacate:
  fixes new :: "'a slot" and i :: nat
  defines "t' \<equiv> \<lambda>t. t\<lparr>ot_slots := (ot_slots t)[i := new], ot_live := ot_live t - 1,
    ot_free := (if sl_retired new then ot_free t else ot_free t @ [of_nat i])\<rparr>"
  assumes "table_wf t" "i < length (ot_slots t)" "sl_value (ot_slots t ! i) \<noteq> None"
    and new: "sl_value new = None" "sl_generation new \<le> GENERATION_MASK"
      "sl_retired new \<longrightarrow> sl_generation new = GENERATION_MASK"
  shows "table_wf (t' t) \<and> unat (ot_live t) = Suc (unat (ot_live (t' t)))"
proof -
  note wf = assms(2) and at = assms(3)
  have vacant: "of_nat i \<notin> set (ot_free t)"
    using table_wf_slot(4) [OF wf at] assms(4) by simp
  have "unat (ot_live t) = Suc (length (filter (\<lambda>s. sl_value s \<noteq> None) ((ot_slots t)[i := new])))"
    using length_filter_update [OF at, of "\<lambda>s. sl_value s \<noteq> None" new] wf assms(4) new(1)
    by (simp add: table_wf_def)
  moreover from this have "ot_live t \<noteq> 0"
    by auto
  ultimately have live: "unat (ot_live (t' t)) = length (filter (\<lambda>s. sl_value s \<noteq> None) (ot_slots (t' t)))"
      "unat (ot_live t) = Suc (unat (ot_live (t' t)))"
    using unat_dec [of "ot_live t"] by (simp_all add: t'_def)
  have "of_nat j \<in> set (ot_free (t' t)) \<longleftrightarrow>
      sl_value (ot_slots (t' t) ! j) = None \<and> \<not> sl_retired (ot_slots (t' t) ! j)"
    if "j < length (ot_slots t)" for j
    using that vacant new(1) table_wf_slot(4) [OF wf that] table_wf_of_nat_inject [OF wf at that]
    by (auto simp: t'_def nth_list_update at)
  moreover have "sl_generation (ot_slots (t' t) ! j) \<le> GENERATION_MASK \<and> (sl_retired (ot_slots (t' t) ! j) \<longrightarrow>
      sl_value (ot_slots (t' t) ! j) = None \<and> sl_generation (ot_slots (t' t) ! j) = GENERATION_MASK)"
    if "j < length (ot_slots t)" for j
    using that new table_wf_slot(1-3) [OF wf that] by (auto simp: t'_def nth_list_update at)
  moreover have "distinct (ot_free (t' t))" "\<forall>x \<in> set (ot_free (t' t)). unat x < length (ot_slots (t' t))"
    using wf vacant table_wf_index(1) [OF wf at] at by (auto simp: t'_def table_wf_def)
  moreover have "length (ot_slots (t' t)) = length (ot_slots t)"
      "length (ot_slots (t' t)) \<le> unat (ot_max_slots (t' t))"
    using wf by (simp_all add: t'_def table_wf_def)
  ultimately show ?thesis
    using live by (simp only: table_wf_def) blast
qed

lemma table_remove_written:
  assumes "table_wf t" "table_lookup t oid = Some v"
  shows "\<exists>i t'. table_remove t oid = (Inr v, t') \<and> slot_written t t' i
    \<and> i < length (ot_slots t) \<and> oid = table_id_at t i \<and> sl_value (ot_slots t' ! i) = None
    \<and> (sl_retired (ot_slots t' ! i) \<or> sl_generation (ot_slots t ! i) < sl_generation (ot_slots t' ! i))
    \<and> table_wf t' \<and> unat (ot_live t) = Suc (unat (ot_live t'))"
proof -
  from assms obtain i where i: "table_locate t oid = Inr i" "sl_value (ot_slots t ! i) = Some v"
    by (auto simp: table_lookup_locate)
  then have at: "i < length (ot_slots t)" "oid = table_id_at t i"
    using assms(1) by (simp_all add: table_locate_Inr)
  define slot where "slot = ot_slots t ! i"
  define new where "new = (if sl_generation slot = GENERATION_MASK
    then slot\<lparr>sl_value := None, sl_retired := True\<rparr>
    else slot\<lparr>sl_value := None, sl_generation := sl_generation slot + 1\<rparr>)"
  have kept: "sl_generation slot \<le> GENERATION_MASK" "\<not> sl_retired slot"
    using table_wf_slot [OF assms(1) at(1)] i(2) by (auto simp: slot_def)
  have new: "sl_value new = None" "sl_generation new \<le> GENERATION_MASK"
      "sl_retired new \<longrightarrow> sl_generation new = GENERATION_MASK"
      "sl_generation slot < sl_generation new \<or> sl_retired new \<and> sl_generation slot = sl_generation new"
    using kept generation_inc [OF kept(1)] by (auto simp: new_def)
  define t' where "t' = t\<lparr>ot_slots := (ot_slots t)[i := new], ot_live := ot_live t - 1,
      ot_free := (if sl_retired new then ot_free t else ot_free t @ [of_nat i])\<rparr>"
  have "table_remove t oid = (Inr v, t')"
    using i kept(2) by (auto simp: t'_def table_remove_def slot_def new_def Let_def)
  moreover have "table_wf t'" "unat (ot_live t) = Suc (unat (ot_live t'))"
    using table_wf_vacate [OF assms(1) at(1) _ new(1-3)] i(2) by (simp_all add: t'_def)
  ultimately show ?thesis
    using at new(1,4) by (intro exI [of _ i] exI [of _ t']) (auto simp: slot_written_def t'_def slot_def)
qed

section \<open>The store contract\<close>

text \<open>
  An identifier is spent once the slot it names has moved past its generation, or has been
  retired at it.
\<close>

definition table_spent :: "'a object_table \<Rightarrow> object_id \<Rightarrow> bool" where
  "table_spent t oid \<longleftrightarrow>
     (\<exists>i g. i < length (ot_slots t) \<and> g \<le> GENERATION_MASK
        \<and> oid = object_id_new (of_nat i) (ot_namespace t) g (ot_kind t)
        \<and> (g < sl_generation (ot_slots t ! i)
           \<or> g = sl_generation (ot_slots t ! i) \<and> sl_retired (ot_slots t ! i)))"

lemma table_spent_lookup:
  assumes "table_wf t" "table_spent t oid"
  shows "table_lookup t oid = None"
proof (rule ccontr)
  assume "table_lookup t oid \<noteq> None"
  then obtain v j where j: "j < length (ot_slots t)" "oid = table_id_at t j" "sl_value (ot_slots t ! j) = Some v"
    by (auto simp: table_lookup_Some [OF assms(1)])
  from assms(2) obtain i g where i: "i < length (ot_slots t)" "g \<le> GENERATION_MASK"
      "oid = object_id_new (of_nat i) (ot_namespace t) g (ot_kind t)"
      "g < sl_generation (ot_slots t ! i) \<or> g = sl_generation (ot_slots t ! i) \<and> sl_retired (ot_slots t ! i)"
    unfolding table_spent_def by blast
  have "i = j"
    using table_id_at_inject [OF assms(1) i(1) j(1)] i(3) j(2) unfolding table_id_at_def by metis
  moreover have "token_generation (id_token oid) = g"
    using i(2) table_wf_index(2) [OF assms(1) i(1)] by (simp add: i(3) id_token_generation)
  moreover have "token_generation (id_token oid) = sl_generation (ot_slots t ! j)"
    using table_wf_slot(1) [OF assms(1) j(1)] table_wf_index(2) [OF assms(1) j(1)]
    by (simp add: j(2) table_id_at_def id_token_generation)
  ultimately have "g = sl_generation (ot_slots t ! j)"
    by simp
  with i(4) \<open>i = j\<close> j(3) table_wf_slot(2) [OF assms(1) i(1)] show False
    by auto
qed

lemma slot_written_spent:
  assumes "slot_written t t' i" "table_spent t oid"
  shows "table_spent t' oid"
proof -
  from assms(2) obtain j g where j: "j < length (ot_slots t)" "g \<le> GENERATION_MASK"
      "oid = object_id_new (of_nat j) (ot_namespace t) g (ot_kind t)"
      "g < sl_generation (ot_slots t ! j) \<or> g = sl_generation (ot_slots t ! j) \<and> sl_retired (ot_slots t ! j)"
    unfolding table_spent_def by blast
  have "j < length (ot_slots t')" "ot_namespace t' = ot_namespace t" "ot_kind t' = ot_kind t"
    using assms(1) j(1) by (auto simp: slot_written_def)
  moreover have "g < sl_generation (ot_slots t' ! j) \<or>
      g = sl_generation (ot_slots t' ! j) \<and> sl_retired (ot_slots t' ! j)"
    using assms(1) j(1,4) \<open>j < length (ot_slots t')\<close> by (cases "j = i") (auto simp: slot_written_def)
  ultimately show ?thesis
    using j(2,3) by (auto simp: table_spent_def)
qed

text \<open>What a generational store promises to the code that keeps its objects in it.\<close>

locale object_store =
  fixes wf :: "'s \<Rightarrow> bool"
    and lookup :: "'s \<Rightarrow> object_id \<Rightarrow> 'a option"
    and count :: "'s \<Rightarrow> nat"
    and room :: "'s \<Rightarrow> bool"
    and spent :: "'s \<Rightarrow> object_id \<Rightarrow> bool"
    and insert :: "'a \<Rightarrow> 's \<Rightarrow> object_id \<times> 's"
    and modify :: "'s \<Rightarrow> object_id \<Rightarrow> ('a \<Rightarrow> 'a) \<Rightarrow> object_table_error + 's"
    and remove :: "'s \<Rightarrow> object_id \<Rightarrow> (object_table_error + 'a) \<times> 's"
  assumes count_lookups: "wf s \<Longrightarrow> finite (dom (lookup s)) \<and> count s = card (dom (lookup s))"
    and spent_lookup: "wf s \<Longrightarrow> spent s oid \<Longrightarrow> lookup s oid = None"
    and insert_new: "wf s \<Longrightarrow> room s \<Longrightarrow> \<exists>oid s'. insert v s = (oid, s') \<and> wf s' \<and> lookup s oid = None
      \<and> lookup s' = (lookup s)(oid \<mapsto> v) \<and> (\<forall>x. spent s x \<longrightarrow> spent s' x)"
    and modify_live: "wf s \<Longrightarrow> lookup s oid = Some v \<Longrightarrow> \<exists>s'. modify s oid f = Inr s' \<and> wf s'
      \<and> lookup s' = (lookup s)(oid \<mapsto> f v) \<and> (\<forall>x. spent s x \<longrightarrow> spent s' x)"
    and modify_absent: "wf s \<Longrightarrow> lookup s oid = None \<Longrightarrow> \<exists>e. modify s oid f = Inl e"
    and remove_live: "wf s \<Longrightarrow> lookup s oid = Some v \<Longrightarrow> \<exists>s'. remove s oid = (Inr v, s') \<and> wf s'
      \<and> lookup s' = (lookup s)(oid := None) \<and> spent s' oid \<and> (\<forall>x. spent s x \<longrightarrow> spent s' x)"
    and remove_absent: "wf s \<Longrightarrow> lookup s oid = None \<Longrightarrow> \<exists>e. remove s oid = (Inl e, s)"
begin

lemma insert_fresh:
  assumes "wf s" "room s"
  shows "\<not> spent s (fst (insert v s)) \<and> lookup s (fst (insert v s)) = None"
proof -
  obtain oid s' where "insert v s = (oid, s')" "wf s'" "lookup s oid = None"
      "lookup s' = (lookup s)(oid \<mapsto> v)" "spent s oid \<longrightarrow> spent s' oid"
    using insert_new [OF assms, of v] by blast
  then show ?thesis
    using spent_lookup [of s' oid] by auto
qed

lemma insert_count:
  assumes "wf s" "room s"
  shows "count (snd (insert v s)) = Suc (count s)"
proof -
  obtain oid s' where "insert v s = (oid, s')" "wf s'" "lookup s oid = None"
      "lookup s' = (lookup s)(oid \<mapsto> v)"
    using insert_new [OF assms, of v] by blast
  then show ?thesis
    using count_lookups [OF assms(1)] count_lookups [of s'] by (simp add: domIff)
qed

lemma remove_count:
  assumes "wf s" "lookup s oid = Some v"
  shows "count s = Suc (count (snd (remove s oid)))"
proof -
  obtain s' where "remove s oid = (Inr v, s')" "wf s'" "lookup s' = (lookup s)(oid := None)"
    using remove_live [OF assms] by blast
  then show ?thesis
    using count_lookups [OF assms(1)] count_lookups [of s'] assms(2)
      card_Suc_Diff1 [of "dom (lookup s)" oid] by (simp add: domI)
qed

lemma count_zero: "wf s \<Longrightarrow> count s = 0 \<longleftrightarrow> lookup s = Map.empty"
  using count_lookups [of s] by auto

end

lemma table_dom:
  "table_wf t \<Longrightarrow> dom (table_lookup t) =
     table_id_at t ` {i. i < length (ot_slots t) \<and> sl_value (ot_slots t ! i) \<noteq> None}"
  by (auto simp: dom_def table_lookup_Some)

lemma table_count:
  assumes "table_wf t"
  shows "finite (dom (table_lookup t)) \<and> unat (ot_live t) = card (dom (table_lookup t))"
proof -
  have "inj_on (table_id_at t) {i. i < length (ot_slots t) \<and> sl_value (ot_slots t ! i) \<noteq> None}"
    using table_id_at_inject [OF assms] unfolding table_id_at_def by (intro inj_onI) blast
  then have "card (dom (table_lookup t)) = card {i. i < length (ot_slots t) \<and> sl_value (ot_slots t ! i) \<noteq> None}"
    unfolding table_dom [OF assms] by (rule card_image)
  also have "\<dots> = unat (ot_live t)"
    using assms by (simp add: table_wf_def length_filter_conv_card)
  finally show ?thesis
    unfolding table_dom [OF assms] by simp
qed

lemma table_insert_prepared_law:
  assumes "table_wf t" "table_has_room t"
  shows "\<exists>oid t'. table_insert_prepared v t = (oid, t') \<and> table_wf t' \<and> table_lookup t oid = None
    \<and> table_lookup t' = (table_lookup t)(oid \<mapsto> v) \<and> (\<forall>x. table_spent t x \<longrightarrow> table_spent t' x)"
proof -
  obtain oid t' where run: "table_insert_prepared v t = (oid, t')"
    by fastforce
  obtain i where i: "slot_written t t' i" "oid = table_id_at t' i" "sl_value (ot_slots t' ! i) = Some v"
      "i < length (ot_slots t) \<longrightarrow> sl_value (ot_slots t ! i) = None \<and> table_id_at t i = oid" "table_wf t'"
    using table_insert_prepared_written [OF assms run] by blast
  have "table_lookup t oid = None"
  proof (rule ccontr)
    assume "table_lookup t oid \<noteq> None"
    then obtain j w where j: "j < length (ot_slots t)" "oid = table_id_at t j" "sl_value (ot_slots t ! j) = Some w"
      by (auto simp: table_lookup_Some [OF assms(1)])
    moreover have "j < length (ot_slots t')" "i < length (ot_slots t')"
      using i(1) j(1) by (auto simp: slot_written_def)
    then have "j = i"
      using table_id_at_inject [OF i(5)] i(2) j(2) unfolding table_id_at_def by metis
    ultimately show False
      using i(4) by simp
  qed
  moreover have "table_lookup t' x = ((table_lookup t)(oid \<mapsto> v)) x" for x
    using slot_written_lookup [OF assms(1) i(5,1), of x] i(2,3,4) by auto
  ultimately show ?thesis
    using run i(1,5) slot_written_spent by blast
qed

lemma table_absent: "table_lookup t oid = None \<Longrightarrow> \<exists>e. table_locate t oid = Inl e"
  by (cases "table_locate t oid")
    (auto simp: table_lookup_def table_get_def dest!: table_locate_fields)

lemma table_modify_law:
  assumes "table_wf t" "table_lookup t oid = Some v"
  shows "\<exists>t'. table_modify t oid f = Inr t' \<and> table_wf t'
    \<and> table_lookup t' = (table_lookup t)(oid \<mapsto> f v) \<and> (\<forall>x. table_spent t x \<longrightarrow> table_spent t' x)"
proof -
  obtain i t' where i: "table_modify t oid f = Inr t'" "slot_written t t' i" "oid = table_id_at t' i"
      "oid = table_id_at t i" "sl_value (ot_slots t' ! i) = Some (f v)" "table_wf t'"
    using table_modify_written [OF assms, of f] by blast
  then have "table_lookup t' x = ((table_lookup t)(oid \<mapsto> f v)) x" for x
    using slot_written_lookup [OF assms(1) i(6,2), of x] by auto
  with i(1,2,6) slot_written_spent show ?thesis
    by blast
qed

lemma table_remove_law:
  assumes "table_wf t" "table_lookup t oid = Some v"
  shows "\<exists>t'. table_remove t oid = (Inr v, t') \<and> table_wf t' \<and> table_lookup t' = (table_lookup t)(oid := None)
    \<and> table_spent t' oid \<and> (\<forall>x. table_spent t x \<longrightarrow> table_spent t' x)"
proof -
  obtain i t' where i: "table_remove t oid = (Inr v, t')" "slot_written t t' i" "i < length (ot_slots t)"
      "oid = table_id_at t i" "sl_value (ot_slots t' ! i) = None"
      "sl_retired (ot_slots t' ! i) \<or> sl_generation (ot_slots t ! i) < sl_generation (ot_slots t' ! i)"
      "table_wf t'"
    using table_remove_written [OF assms] by blast
  have kept: "ot_namespace t' = ot_namespace t" "ot_kind t' = ot_kind t" "i < length (ot_slots t')"
      "sl_generation (ot_slots t ! i) < sl_generation (ot_slots t' ! i)
       \<or> sl_generation (ot_slots t ! i) = sl_generation (ot_slots t' ! i)"
    using i(2,3) by (auto simp: slot_written_def)
  have spent: "table_spent t' oid"
    unfolding table_spent_def i(4) table_id_at_def kept(1,2)
    using kept(3,4) i(6) table_wf_slot(1) [OF assms(1) i(3)] by blast
  moreover have "table_lookup t' x = ((table_lookup t)(oid := None)) x" for x
  proof (cases "x = table_id_at t' i \<and> x \<noteq> oid")
    case True
    have "table_lookup t x = None"
    proof (rule ccontr)
      assume "table_lookup t x \<noteq> None"
      then obtain j where "j < length (ot_slots t)" "x = table_id_at t j"
        by (auto simp: table_lookup_Some [OF assms(1)])
      moreover from this True have "j = i"
        using table_id_at_inject [OF assms(1) _ i(3)] unfolding table_id_at_def by metis
      ultimately show False
        using True i(4) by simp
    qed
    with True show ?thesis
      using slot_written_lookup [OF assms(1) i(7,2), of x] i(5) by simp
  next
    case False
    then show ?thesis
      using slot_written_lookup [OF assms(1) i(7,2), of x] i(3,4,5) by auto
  qed
  ultimately show ?thesis
    using i(1,2,7) slot_written_spent by blast
qed

interpretation tbl: object_store table_wf table_lookup "\<lambda>t. unat (ot_live t)" table_has_room table_spent
  table_insert_prepared table_modify table_remove
proof unfold_locales
  fix t :: "'a object_table" and oid f
  assume t: "table_wf t" "table_lookup t oid = None"
  then obtain e where "table_locate t oid = Inl e"
    using table_absent by blast
  then show "\<exists>e. table_modify t oid f = Inl e" "\<exists>e. table_remove t oid = (Inl e, t)"
    by (simp_all add: table_modify_def table_get_mut_def table_remove_def)
qed (rule table_count table_spent_lookup table_insert_prepared_law table_modify_law table_remove_law; assumption)+

section \<open>Further facts for the users of a table\<close>

lemma table_get_Inr [simp]: "table_get t oid = Inr v \<longleftrightarrow> table_lookup t oid = Some v"
  by (cases "table_get t oid") (simp_all add: table_lookup_def)

lemma table_get_Inl: "table_get t oid = Inl e \<Longrightarrow> table_lookup t oid = None"
  by (simp add: table_lookup_def)

lemma table_get_error:
  "table_get t oid = Inl e \<Longrightarrow>
     e = (if id_slot_number oid = 0 then OTE_InvalidId
          else if id_token oid AND KIND_MASK \<noteq> kind_tag (ot_kind t) then OTE_WrongKind else OTE_StaleId)"
  by (auto simp: table_get_def and_then_eq_Inl table_locate_def Let_def ok_or_def split: if_splits option.splits)

lemma table_modify_get: "table_modify t oid f = Inl e \<Longrightarrow> table_get t oid = Inl e"
  by (cases "table_locate t oid")
    (auto simp: table_modify_def table_get_mut_def table_get_def and_then_eq_Inl ok_or_def
      split: option.splits)

lemma table_remove_get: "table_remove t oid = (Inl e, t') \<Longrightarrow> table_get t oid = Inl e \<and> t' = t"
  by (cases "table_locate t oid")
    (auto simp: table_remove_def table_get_def Let_def split: option.splits if_splits)

definition table_frame :: "'a object_table \<Rightarrow> 'a object_table \<Rightarrow> bool" where
  "table_frame t t' \<longleftrightarrow> ot_kind t' = ot_kind t \<and> ot_namespace t' = ot_namespace t
     \<and> ot_max_slots t' = ot_max_slots t"

lemma table_frame_refl [simp]: "table_frame t t"
  by (simp add: table_frame_def)

lemma table_frame_trans: "table_frame t t' \<Longrightarrow> table_frame t' t'' \<Longrightarrow> table_frame t t''"
  by (simp add: table_frame_def)

lemma table_insert_prepared_frame: "table_frame t (snd (table_insert_prepared v t))"
  by (simp add: table_frame_def table_insert_prepared_def Let_def)

lemma table_modify_frame: "table_modify t oid f = Inr t' \<Longrightarrow> table_frame t t'"
  by (auto simp: table_frame_def table_modify_def table_get_mut_def split: option.splits)

lemma table_remove_frame: "table_frame t (snd (table_remove t oid))"
  by (auto simp: table_frame_def table_remove_def Let_def split: sum.splits option.splits)

lemma table_wf_new: "table_wf (table_new kind max_slots)"
  "table_wf (table_with_namespace kind max_slots namespace)"
  by (simp_all add: table_wf_def table_new_def table_with_namespace_def)

lemma table_lookup_new: "table_lookup (table_new kind max_slots) oid = None"
  "table_lookup (table_with_namespace kind max_slots namespace) oid = None"
  by (auto simp: table_lookup_def table_get_def table_locate_def Let_def table_new_def
      table_with_namespace_def)

lemma table_lookup_token:
  assumes "table_wf t" "table_lookup t oid = Some v"
  shows "token_namespace (id_token oid) = ot_namespace t"
    "id_token oid AND KIND_MASK = kind_tag (ot_kind t)" "oid \<noteq> 0"
proof -
  obtain i where loc: "table_locate t oid = Inr i"
    using assms(2) by (auto simp: table_lookup_locate)
  then show "token_namespace (id_token oid) = ot_namespace t"
      "id_token oid AND KIND_MASK = kind_tag (ot_kind t)"
    using table_locate_fields by blast+
  show "oid \<noteq> 0"
    using table_locate_fields [OF loc] by (auto simp: id_slot_number_def)
qed

lemma table_ids_lookup:
  assumes "table_wf t"
  shows "distinct (table_ids t) \<and> set (table_ids t) = dom (table_lookup t)"
proof -
  have "inj_on (table_id_at t) {i. i < length (ot_slots t)}"
    using table_id_at_inject [OF assms] unfolding table_id_at_def by (intro inj_onI) blast
  then show ?thesis
    unfolding table_ids_def table_dom [OF assms]
    by (auto simp: distinct_map elim: inj_on_subset)
qed

lemma table_next_id_from_Some:
  assumes "table_wf t" "table_next_id_from t start = Some (next, oid)"
  shows "start < next \<and> next \<le> length (ot_slots t) \<and> oid = table_id_at t (next - 1)
    \<and> (\<exists>v. table_lookup t oid = Some v \<and> sl_value (ot_slots t ! (next - 1)) = Some v)"
proof -
  from assms(2) obtain i where i: "find (\<lambda>i. slot_present (ot_slots t ! i)) [start..<length (ot_slots t)] = Some i"
      "next = i + 1" "oid = table_id_at t i"
    by (auto simp: table_next_id_from_def)
  then have "slot_present (ot_slots t ! i)" "start \<le> i" "i < length (ot_slots t)"
    by (auto simp: find_Some_iff)
  then show ?thesis
    using i(2,3) by (auto simp: slot_present_def table_lookup_Some [OF assms(1)])
qed

lemma table_next_id_from_None:
  assumes "table_wf t" "table_next_id_from t start = None" "start \<le> i" "i < length (ot_slots t)"
  shows "sl_value (ot_slots t ! i) = None"
  using assms table_wf_slot(2) [OF assms(1,4)]
  by (auto simp: table_next_id_from_def find_None_iff slot_present_def)

section \<open>Histories of a table\<close>

inductive table_step :: "'a object_table \<Rightarrow> 'a object_table \<Rightarrow> bool" where
  step_insert: "table_insert alloc v t = (r, t') \<Longrightarrow> table_step t t'"
| step_modify: "table_modify t oid f = Inr t' \<Longrightarrow> table_step t t'"
| step_remove: "table_remove t oid = (r, t') \<Longrightarrow> table_step t t'"

lemma table_insert_cases:
  assumes "table_wf t" "table_insert alloc v t = (r, t')"
  shows "(\<exists>e. r = Inl e \<and> t' = t) \<or>
    (\<exists>oid. r = Inr oid \<and> table_has_room t \<and> table_insert_prepared v t = (oid, t'))"
  using assms
  by (cases "table_insert_prepared v t")
    (auto simp: table_insert_def table_try_reserve_insert_def table_has_room_def not_le
      split: if_splits)

lemma table_step_wf_spent:
  assumes "table_step t t'" "table_wf t"
  shows "table_wf t' \<and> (\<forall>x. table_spent t x \<longrightarrow> table_spent t' x)"
  using assms(1)
proof (cases rule: table_step.cases)
  case (step_insert alloc v r)
  then show ?thesis
    using table_insert_cases [OF assms(2) step_insert] tbl.insert_new [OF assms(2), of v] assms(2)
    by fastforce
next
  case (step_modify oid f)
  then show ?thesis
    using tbl.modify_live [OF assms(2), of oid _ f] tbl.modify_absent [OF assms(2), of oid f]
    by (cases "table_lookup t oid") force+
next
  case (step_remove oid r)
  then show ?thesis
    using tbl.remove_live [OF assms(2), of oid] tbl.remove_absent [OF assms(2), of oid] assms(2)
    by (cases "table_lookup t oid") force+
qed

lemma table_steps_wf_spent:
  "table_step\<^sup>*\<^sup>* t t' \<Longrightarrow> table_wf t \<Longrightarrow> table_wf t' \<and> (\<forall>x. table_spent t x \<longrightarrow> table_spent t' x)"
  by (induction rule: rtranclp_induct) (use table_step_wf_spent in \<open>blast\<close>)+

section \<open>Properties\<close>

text \<open>C16: an identifier is never reused. Once an object has been removed from a well-formed
  table, its identifier does not resolve in any later state of the table, and no later insertion
  hands it out again, whatever insertions, updates and removals happen in between: slots are
  retired before their 13-bit generation would wrap around.\<close>

theorem removed_ids_never_return:
  assumes "table_wf t" "table_remove t oid = (Inr v, t1)" "table_step\<^sup>*\<^sup>* t1 t2"
  shows "table_lookup t2 oid = None
    \<and> (\<forall>alloc w fresh t3. table_insert alloc w t2 = (Inr fresh, t3) \<longrightarrow> fresh \<noteq> oid)"
proof -
  have "table_lookup t oid = Some v"
    using assms(1,2) tbl.remove_absent [OF assms(1), of oid] tbl.remove_live [OF assms(1), of oid]
    by (cases "table_lookup t oid") auto
  then have "table_wf t1 \<and> table_spent t1 oid"
    using tbl.remove_live [OF assms(1), of oid v] assms(2) by auto
  then have t2: "table_wf t2" "table_spent t2 oid"
    using table_steps_wf_spent [OF assms(3)] by auto
  moreover have "fresh \<noteq> oid" if "table_insert alloc w t2 = (Inr fresh, t3)" for alloc w fresh t3
    using table_insert_cases [OF t2(1) that] tbl.insert_fresh [OF t2(1), of w] t2(2) by auto
  ultimately show ?thesis
    using table_spent_lookup by blast
qed

theorem removed_ids_never_return_witness:
  "let t = snd (table_insert True (7 :: nat) (table_with_namespace OK_Buffer 2 1));
       oid = object_id_new 0 1 0 OK_Buffer;
       t1 = snd (table_remove t oid)
   in table_wf t \<and> fst (table_remove t oid) = Inr 7
      \<and> table_lookup (snd (table_insert True 9 t1)) oid = None"
proof -
  define t where "t = snd (table_insert True (7 :: nat) (table_with_namespace OK_Buffer 2 1))"
  define oid where "oid = object_id_new 0 1 0 OK_Buffer"
  define t1 where "t1 = snd (table_remove t oid)"
  have wf: "table_wf t"
    unfolding t_def by code_simp
  have removed: "fst (table_remove t oid) = Inr 7"
    unfolding t_def oid_def by code_simp
  have "table_step\<^sup>*\<^sup>* t1 (snd (table_insert True 9 t1))"
    by (rule r_into_rtranclp, rule table_step.step_insert [of True 9]) (rule prod.collapse [symmetric])
  then have "table_lookup (snd (table_insert True 9 t1)) oid = None"
    using removed_ids_never_return [OF wf, of oid 7 t1] removed by (auto simp: t1_def prod_eq_iff)
  with wf removed show ?thesis
    unfolding Let_def t_def [symmetric] oid_def [symmetric] t1_def [symmetric] by blast
qed

text \<open>C17: the table implements a finite map from identifiers to objects. From a well-formed table,
  an insertion that is granted returns an identifier that did not resolve and adds exactly that
  binding, an insertion that is refused changes nothing, an update changes exactly its binding,
  a removal returns the object and deletes exactly its binding, the live count is the number of
  bindings, and every failing access changes nothing.\<close>

theorem table_implements_map:
  assumes "table_wf t"
  shows "unat (table_len t) = card (dom (table_lookup t))
    \<and> (case table_insert alloc v t of
         (Inr oid, t') \<Rightarrow> table_wf t' \<and> table_lookup t oid = None \<and> table_lookup t' = (table_lookup t)(oid \<mapsto> v)
       | (Inl e, t') \<Rightarrow> t' = t \<and> (e = OTE_Full \<or> e = OTE_AllocationFailed \<and> \<not> alloc))
    \<and> (case table_modify t oid f of
         Inr t' \<Rightarrow> \<exists>w. table_lookup t oid = Some w \<and> table_wf t' \<and> table_lookup t' = (table_lookup t)(oid \<mapsto> f w)
       | Inl e \<Rightarrow> table_lookup t oid = None)
    \<and> (case table_remove t oid of
         (Inr w, t') \<Rightarrow> table_lookup t oid = Some w \<and> table_wf t' \<and> table_lookup t' = (table_lookup t)(oid := None)
       | (Inl e, t') \<Rightarrow> table_lookup t oid = None \<and> t' = t)"
proof (intro conjI)
  show "unat (table_len t) = card (dom (table_lookup t))"
    using tbl.count_lookups [OF assms] by (simp add: table_len_def)
next
  show "case table_insert alloc v t of
         (Inr oid, t') \<Rightarrow> table_wf t' \<and> table_lookup t oid = None \<and> table_lookup t' = (table_lookup t)(oid \<mapsto> v)
       | (Inl e, t') \<Rightarrow> t' = t \<and> (e = OTE_Full \<or> e = OTE_AllocationFailed \<and> \<not> alloc)"
  proof (cases "table_try_reserve_insert alloc t")
    case (Inl e)
    then show ?thesis
      by (auto simp: table_insert_def table_try_reserve_insert_def split: if_splits)
  next
    case (Inr u)
    then have "table_has_room t"
      by (auto simp: table_try_reserve_insert_def table_has_room_def split: if_splits)
    with Inr tbl.insert_new [OF assms, of v] show ?thesis
      by (auto simp: table_insert_def)
  qed
next
  show "case table_modify t oid f of
         Inr t' \<Rightarrow> \<exists>w. table_lookup t oid = Some w \<and> table_wf t' \<and> table_lookup t' = (table_lookup t)(oid \<mapsto> f w)
       | Inl e \<Rightarrow> table_lookup t oid = None"
    using tbl.modify_live [OF assms, of oid _ f] tbl.modify_absent [OF assms, of oid f]
    by (cases "table_lookup t oid") fastforce+
next
  show "case table_remove t oid of
         (Inr w, t') \<Rightarrow> table_lookup t oid = Some w \<and> table_wf t' \<and> table_lookup t' = (table_lookup t)(oid := None)
       | (Inl e, t') \<Rightarrow> table_lookup t oid = None \<and> t' = t"
    using tbl.remove_live [OF assms, of oid] tbl.remove_absent [OF assms, of oid]
    by (cases "table_lookup t oid") fastforce+
qed

theorem table_implements_map_witness:
  "\<exists>oid t'. table_insert True (5 :: nat) (table_with_namespace OK_Context 4 1) = (Inr oid, t')
     \<and> table_wf t' \<and> table_lookup t' oid = Some 5"
proof -
  let ?t = "table_with_namespace OK_Context 4 1 :: nat object_table"
  obtain oid t' where run: "table_insert True (5 :: nat) ?t = (Inr oid, t')"
    by (simp add: table_insert_def table_try_reserve_insert_def table_with_namespace_def
        table_insert_prepared_def Let_def)
  have "table_wf t' \<and> table_lookup t' oid = Some 5"
    using table_implements_map [OF table_wf_new(2) [of OK_Context 4 1], of True "5 :: nat" 0 "\<lambda>x. x"] run
    by simp
  with run show ?thesis
    by blast
qed

text \<open>C18: the identifier encoding is exact. Every identifier that the table builds (slot index
  below the u32 maximum, generation within its 13 bits) is nonzero and yields back its slot,
  kind, namespace and generation, so identifiers of different slots, kinds, namespaces or
  generations differ; and an identifier whose fields are accepted is the one built from them.\<close>

theorem object_id_roundtrip:
  assumes "index \<noteq> - 1" "generation \<le> GENERATION_MASK"
  shows "(let oid = object_id_new index namespace generation kind in
      object_id_from_raw oid = Some oid \<and> id_slot_number oid = index + 1
    \<and> id_token oid AND KIND_MASK = kind_tag kind
    \<and> token_namespace (id_token oid) = namespace
    \<and> token_generation (id_token oid) = generation)
    \<and> (id_slot_number raw \<noteq> 0 \<and> id_token raw AND KIND_MASK = kind_tag kind \<longrightarrow>
      raw = object_id_new (id_slot_number raw - 1) (token_namespace (id_token raw))
        (token_generation (id_token raw)) kind)"
proof -
  have "id_slot_number (object_id_new index namespace generation kind) \<noteq> 0"
    using assms(1) by (simp add: id_slot_number_new add_eq_0_iff2)
  then have "object_id_new index namespace generation kind \<noteq> 0"
    by (auto simp: id_slot_number_def)
  with assms object_id_of_fields show ?thesis
    by (simp add: object_id_from_raw_def id_slot_number_new id_token_kind id_token_namespace
        id_token_generation Let_def)
qed

theorem object_id_roundtrip_witness:
  "id_slot_number (object_id_new 4 9 8191 OK_Event) = 5
   \<and> token_generation (id_token (object_id_new 4 9 8191 OK_Event)) = 8191"
  using object_id_roundtrip [of 4 8191 9 OK_Event] by (simp add: Let_def id_consts)

end
