(* ===== verification/Device_State.thy ===== *)
theory Device_State
  imports Object_Table Accel_Proto
begin

text \<open>
  The object graph of one device (\<open>virtio-accel-device\<close>, \<open>state.rs\<close>): contexts own buffers,
  programs, queues and events; an event retains its queue, its programs and its buffers.
  Each operation is a function on the state record; provider closures are functions that
  thread the provider's world \<open>'w\<close>, and the answer of the allocator is an argument
  \<open>alloc\<close>. Counters are machine words; the invariant of \<open>Device_Graph\<close> shows that none of
  their increments and decrements wraps.
\<close>

section \<open>Errors and records\<close>

datatype device_state_config_error =
  DCE_ZeroLimit | DCE_BindingLimit | DCE_CountOverflow | DCE_ReferenceCountOverflow

datatype device_state_error =
  DSE_InvalidArgument | DSE_InvalidObject | DSE_StaleObject | DSE_ContextMismatch | DSE_Busy
| DSE_ResourceLimit | DSE_OutOfMemory | DSE_Releasing | DSE_InvalidTransition
| DSE_ReferenceCountOverflow

datatype 'x create_error = CE_State device_state_error | CE_Provider 'x

datatype buffer_create_outcome =
  BCO_Admitted object_id | BCO_CleanupRequired object_id backend_error

datatype release_state = Live | Releasing

record 'r resource_slot =
  rs_resource :: "'r option"
  rs_release :: release_state

definition resource_slot_new :: "'r \<Rightarrow> 'r resource_slot" where
  "resource_slot_new resource = \<lparr>rs_resource = Some resource, rs_release = Live\<rparr>"

definition resource_slot_get :: "'r resource_slot \<Rightarrow> device_state_error + 'r" where
  "resource_slot_get slot = ok_or DSE_Releasing (rs_resource slot)"

definition resource_slot_begin_release ::
  "'r resource_slot \<Rightarrow> device_state_error + ('r \<times> 'r resource_slot)" where
  "resource_slot_begin_release slot =
     (if rs_release slot \<noteq> Live then Inl DSE_Releasing
      else case rs_resource slot of
             None \<Rightarrow> Inl DSE_Releasing
           | Some resource \<Rightarrow> Inr (resource, slot\<lparr>rs_resource := None, rs_release := Releasing\<rparr>))"

definition resource_slot_restore ::
  "'r resource_slot \<Rightarrow> 'r \<Rightarrow> (device_state_error \<times> 'r) + 'r resource_slot" where
  "resource_slot_restore slot resource =
     (if rs_release slot \<noteq> Releasing \<or> rs_resource slot \<noteq> None
      then Inl (DSE_InvalidTransition, resource)
      else Inr (slot\<lparr>rs_resource := Some resource, rs_release := Live\<rparr>))"

record child_counts =
  ch_buffers :: u32
  ch_programs :: u32
  ch_queues :: u32
  ch_events :: u32

definition child_counts_default :: child_counts where
  "child_counts_default = \<lparr>ch_buffers = 0, ch_programs = 0, ch_queues = 0, ch_events = 0\<rparr>"

definition child_counts_is_empty :: "child_counts \<Rightarrow> bool" where
  "child_counts_is_empty c \<longleftrightarrow>
     ch_buffers c = 0 \<and> ch_programs c = 0 \<and> ch_queues c = 0 \<and> ch_events c = 0"

record resource_counts =
  rc_contexts :: u64
  rc_buffers :: u64
  rc_programs :: u64
  rc_queues :: u64
  rc_events :: u64

definition resource_counts_is_empty :: "resource_counts \<Rightarrow> bool" where
  "resource_counts_is_empty c \<longleftrightarrow>
     rc_contexts c = 0 \<and> rc_buffers c = 0 \<and> rc_programs c = 0 \<and> rc_queues c = 0 \<and> rc_events c = 0"

definition resource_counts_total :: "resource_counts \<Rightarrow> u64" where
  "resource_counts_total c =
     saturating_add (saturating_add (saturating_add (saturating_add
       (rc_contexts c) (rc_buffers c)) (rc_programs c)) (rc_queues c)) (rc_events c)"

definition resource_counts_saturating_add :: "resource_counts \<Rightarrow> resource_counts \<Rightarrow> resource_counts" where
  "resource_counts_saturating_add a b =
     \<lparr>rc_contexts = saturating_add (rc_contexts a) (rc_contexts b),
      rc_buffers = saturating_add (rc_buffers a) (rc_buffers b),
      rc_programs = saturating_add (rc_programs a) (rc_programs b),
      rc_queues = saturating_add (rc_queues a) (rc_queues b),
      rc_events = saturating_add (rc_events a) (rc_events b)\<rparr>"

record resource_policy =
  po_max_buffer_backing_bytes :: u64
  po_max_program_resident_bytes :: u64

definition resource_policy_new :: "u64 \<Rightarrow> u64 \<Rightarrow> resource_policy option" where
  "resource_policy_new buffers programs =
     (if buffers \<noteq> 0 \<and> programs \<noteq> 0
      then Some \<lparr>po_max_buffer_backing_bytes = buffers, po_max_program_resident_bytes = programs\<rparr>
      else None)"

record retained_bytes =
  rt_buffer_backing :: u128
  rt_program_resident :: u128

definition retained_bytes_default :: retained_bytes where
  "retained_bytes_default = \<lparr>rt_buffer_backing = 0, rt_program_resident = 0\<rparr>"

definition retained_bytes_is_empty :: "retained_bytes \<Rightarrow> bool" where
  "retained_bytes_is_empty r \<longleftrightarrow> rt_buffer_backing r = 0 \<and> rt_program_resident r = 0"

definition retained_bytes_saturating_add :: "retained_bytes \<Rightarrow> retained_bytes \<Rightarrow> retained_bytes" where
  "retained_bytes_saturating_add a b =
     \<lparr>rt_buffer_backing = saturating_add (rt_buffer_backing a) (rt_buffer_backing b),
      rt_program_resident = saturating_add (rt_program_resident a) (rt_program_resident b)\<rparr>"

record 'c context_record =
  cx_resource :: "'c resource_slot"
  cx_children :: child_counts

record 'b buffer_record =
  bu_resource :: "'b resource_slot"
  bu_context_id :: object_id
  bu_info :: buffer_info
  bu_in_flight :: u32

record 'p program_record =
  pr_resource :: "'p resource_slot"
  pr_context_id :: object_id
  pr_resident_bytes :: u64
  pr_in_flight :: u32

record 'q queue_record =
  qu_resource :: "'q resource_slot"
  qu_context_id :: object_id
  qu_in_flight :: u32

record 'e event_record =
  ev_resource :: "'e resource_slot"
  ev_context_id :: object_id
  ev_queue_id :: object_id
  ev_program_id :: object_id
  ev_sequence_program_ids :: "object_id list option"
  ev_buffer_ids :: "object_id list"

definition event_program_ids :: "'e event_record \<Rightarrow> object_id list" where
  "event_program_ids e =
     (case ev_sequence_program_ids e of None \<Rightarrow> [ev_program_id e] | Some ids \<Rightarrow> ids)"

record ('c, 'b, 'p, 'q, 'e) device_state =
  ds_namespace :: object_namespace
  ds_limits :: device_limits
  ds_policy :: resource_policy
  ds_retained :: retained_bytes
  ds_contexts :: "'c context_record object_table"
  ds_buffers :: "'b buffer_record object_table"
  ds_programs :: "'p program_record object_table"
  ds_queues :: "'q queue_record object_table"
  ds_events :: "'e event_record object_table"

type_synonym ('c, 'b, 'p, 'q, 'e) ds = "('c, 'b, 'p, 'q, 'e) device_state"

section \<open>Construction and accessors\<close>

fun map_table_error :: "object_table_error \<Rightarrow> device_state_error" where
  "map_table_error OTE_InvalidId = DSE_InvalidObject"
| "map_table_error OTE_WrongKind = DSE_StaleObject"
| "map_table_error OTE_StaleId = DSE_StaleObject"
| "map_table_error OTE_Full = DSE_ResourceLimit"
| "map_table_error OTE_AllocationFailed = DSE_OutOfMemory"

definition aggregate_slots :: "u32 \<Rightarrow> u32 \<Rightarrow> device_state_config_error + u32" where
  "aggregate_slots contexts per_context = ok_or DCE_CountOverflow (checked_mul contexts per_context)"

definition device_state_new ::
  "object_namespace \<Rightarrow> device_limits \<Rightarrow> resource_policy
    \<Rightarrow> device_state_config_error + ('c, 'b, 'p, 'q, 'e) ds" where
  "device_state_new namespace limits policy =
     (if max_contexts limits = 0 \<or> max_buffers_per_context limits = 0
         \<or> max_programs_per_context limits = 0 \<or> max_queues_per_context limits = 0
         \<or> max_events_per_context limits = 0 \<or> max_buffer_bytes limits = 0
         \<or> max_artifact_bytes limits = 0
      then Inl DCE_ZeroLimit
      else if \<not> (1 \<le> max_bindings_per_submission limits
                 \<and> max_bindings_per_submission limits \<le> HARD_MAX_BINDINGS)
      then Inl DCE_BindingLimit
      else
        and_then (ok_or DCE_ReferenceCountOverflow
            (checked_mul (max_events_per_context limits) (max_bindings_per_submission limits))) (\<lambda>_.
        and_then (aggregate_slots (max_contexts limits) (max_buffers_per_context limits)) (\<lambda>buffers.
        and_then (aggregate_slots (max_contexts limits) (max_programs_per_context limits)) (\<lambda>programs.
        and_then (aggregate_slots (max_contexts limits) (max_queues_per_context limits)) (\<lambda>queues.
        and_then (aggregate_slots (max_contexts limits) (max_events_per_context limits)) (\<lambda>events.
        Inr \<lparr>ds_namespace = namespace, ds_limits = limits, ds_policy = policy,
             ds_retained = retained_bytes_default,
             ds_contexts = table_with_namespace OK_Context (max_contexts limits) namespace,
             ds_buffers = table_with_namespace OK_Buffer buffers namespace,
             ds_programs = table_with_namespace OK_Program programs namespace,
             ds_queues = table_with_namespace OK_Queue queues namespace,
             ds_events = table_with_namespace OK_Event events namespace\<rparr>))))))"

definition ds_resource_counts :: "('c, 'b, 'p, 'q, 'e) ds \<Rightarrow> resource_counts" where
  "ds_resource_counts s =
     \<lparr>rc_contexts = ucast (table_len (ds_contexts s)), rc_buffers = ucast (table_len (ds_buffers s)),
      rc_programs = ucast (table_len (ds_programs s)), rc_queues = ucast (table_len (ds_queues s)),
      rc_events = ucast (table_len (ds_events s))\<rparr>"

definition ds_is_empty :: "('c, 'b, 'p, 'q, 'e) ds \<Rightarrow> bool" where
  "ds_is_empty s \<longleftrightarrow> table_is_empty (ds_contexts s) \<and> table_is_empty (ds_buffers s)
     \<and> table_is_empty (ds_programs s) \<and> table_is_empty (ds_queues s) \<and> table_is_empty (ds_events s)"

definition ds_context_record ::
  "('c, 'b, 'p, 'q, 'e) ds \<Rightarrow> object_id \<Rightarrow> device_state_error + 'c context_record" where
  "ds_context_record s oid = map_err map_table_error (table_get (ds_contexts s) oid)"

definition ds_buffer_record ::
  "('c, 'b, 'p, 'q, 'e) ds \<Rightarrow> object_id \<Rightarrow> device_state_error + 'b buffer_record" where
  "ds_buffer_record s oid = map_err map_table_error (table_get (ds_buffers s) oid)"

text \<open>\<open>buffer_record_mut\<close> with the assignment that its borrower may make.\<close>

definition ds_buffer_record_mut ::
  "('c, 'b, 'p, 'q, 'e) ds \<Rightarrow> object_id
    \<Rightarrow> device_state_error + ('b buffer_record \<times> ('b buffer_record \<Rightarrow> ('c, 'b, 'p, 'q, 'e) ds))" where
  "ds_buffer_record_mut s oid =
     and_then (map_err map_table_error (table_get_mut (ds_buffers s) oid))
       (\<lambda>(record, assign). Inr (record, \<lambda>record'. s\<lparr>ds_buffers := assign record'\<rparr>))"

definition ds_program_record ::
  "('c, 'b, 'p, 'q, 'e) ds \<Rightarrow> object_id \<Rightarrow> device_state_error + 'p program_record" where
  "ds_program_record s oid = map_err map_table_error (table_get (ds_programs s) oid)"

definition ds_queue_record ::
  "('c, 'b, 'p, 'q, 'e) ds \<Rightarrow> object_id \<Rightarrow> device_state_error + 'q queue_record" where
  "ds_queue_record s oid = map_err map_table_error (table_get (ds_queues s) oid)"

definition ds_event_record ::
  "('c, 'b, 'p, 'q, 'e) ds \<Rightarrow> object_id \<Rightarrow> device_state_error + 'e event_record" where
  "ds_event_record s oid = map_err map_table_error (table_get (ds_events s) oid)"

section \<open>Creating contexts, buffers, programs and queues\<close>

definition create_context_with ::
  "bool \<Rightarrow> ('w \<Rightarrow> ('x + 'c) \<times> 'w) \<Rightarrow> ('c, 'b, 'p, 'q, 'e) ds \<Rightarrow> 'w
    \<Rightarrow> ('x create_error + object_id) \<times> ('c, 'b, 'p, 'q, 'e) ds \<times> 'w" where
  "create_context_with alloc create s w =
     (if max_contexts (ds_limits s) \<le> table_len (ds_contexts s)
      then (Inl (CE_State DSE_ResourceLimit), s, w)
      else case table_try_reserve_insert alloc (ds_contexts s) of
        Inl e \<Rightarrow> (Inl (CE_State (map_table_error e)), s, w)
      | Inr _ \<Rightarrow>
          case create w of
            (Inl x, w') \<Rightarrow> (Inl (CE_Provider x), s, w')
          | (Inr resource, w') \<Rightarrow>
              let (oid, contexts) = table_insert_prepared
                    \<lparr>cx_resource = resource_slot_new resource, cx_children = child_counts_default\<rparr>
                    (ds_contexts s)
              in (Inr oid, s\<lparr>ds_contexts := contexts\<rparr>, w'))"

datatype child_kind = CK_Buffer | CK_Program | CK_Queue

fun child_count :: "child_kind \<Rightarrow> child_counts \<Rightarrow> u32" where
  "child_count CK_Buffer c = ch_buffers c"
| "child_count CK_Program c = ch_programs c"
| "child_count CK_Queue c = ch_queues c"

definition check_child_admission ::
  "('c, 'b, 'p, 'q, 'e) ds \<Rightarrow> object_id \<Rightarrow> child_kind \<Rightarrow> u32 \<Rightarrow> device_state_error + unit" where
  "check_child_admission s context_id child limit =
     and_then (ds_context_record s context_id) (\<lambda>context.
     and_then (resource_slot_get (cx_resource context)) (\<lambda>_.
       if limit \<le> child_count child (cx_children context) then Inl DSE_ResourceLimit else Inr ()))"

text \<open>The context that a child is created in, with its provider handle and the assignment to it.\<close>

definition context_for_child ::
  "('c, 'b, 'p, 'q, 'e) ds \<Rightarrow> object_id
    \<Rightarrow> device_state_error + ('c \<times> 'c context_record \<times> ('c context_record \<Rightarrow> 'c context_record object_table))" where
  "context_for_child s context_id =
     and_then (map_err map_table_error (table_get_mut (ds_contexts s) context_id)) (\<lambda>(context, assign).
     and_then (resource_slot_get (cx_resource context)) (\<lambda>resource. Inr (resource, context, assign)))"

definition create_buffer_with ::
  "bool \<Rightarrow> object_id \<Rightarrow> buffer_desc \<Rightarrow> ('c \<Rightarrow> buffer_desc \<Rightarrow> 'w \<Rightarrow> ('x + ('b \<times> buffer_info)) \<times> 'w)
    \<Rightarrow> ('c, 'b, 'p, 'q, 'e) ds \<Rightarrow> 'w
    \<Rightarrow> ('x create_error + buffer_create_outcome) \<times> ('c, 'b, 'p, 'q, 'e) ds \<times> 'w" where
  "create_buffer_with alloc context_id desc create s w =
     (let limit = ucast (po_max_buffer_backing_bytes (ds_policy s)) in
      if max_buffer_bytes (ds_limits s) < bd_bytes desc then (Inl (CE_State DSE_ResourceLimit), s, w)
      else if limit < saturating_add (rt_buffer_backing (ds_retained s)) (ucast (bd_bytes desc))
      then (Inl (CE_State DSE_ResourceLimit), s, w)
      else case and_then (check_child_admission s context_id CK_Buffer
                    (max_buffers_per_context (ds_limits s))) (\<lambda>_.
                and_then (map_err map_table_error (table_try_reserve_insert alloc (ds_buffers s))) (\<lambda>_.
                  context_for_child s context_id)) of
        Inl e \<Rightarrow> (Inl (CE_State e), s, w)
      | Inr (handle, context, assign) \<Rightarrow>
          case create handle desc w of
            (Inl x, w') \<Rightarrow> (Inl (CE_Provider x), s, w')
          | (Inr (resource, info), w') \<Rightarrow>
              let retained = saturating_add (rt_buffer_backing (ds_retained s))
                    (ucast (bi_allocation_bytes info));
                  cleanup_error = (if bi_desc info \<noteq> desc then Some BE_Incompatible
                    else if limit < retained then Some BE_ResourceLimit else None);
                  (oid, buffers) = table_insert_prepared
                    \<lparr>bu_resource = resource_slot_new resource, bu_context_id = context_id,
                     bu_info = info, bu_in_flight = 0\<rparr> (ds_buffers s);
                  children = (cx_children context)\<lparr>ch_buffers := ch_buffers (cx_children context) + 1\<rparr>
              in (Inr (case cleanup_error of
                         Some error \<Rightarrow> BCO_CleanupRequired oid error
                       | None \<Rightarrow> BCO_Admitted oid),
                  s\<lparr>ds_buffers := buffers,
                    ds_retained := (ds_retained s)\<lparr>rt_buffer_backing := retained\<rparr>,
                    ds_contexts := assign (context\<lparr>cx_children := children\<rparr>)\<rparr>, w'))"

definition create_program_with ::
  "bool \<Rightarrow> object_id \<Rightarrow> u64 \<Rightarrow> u64 \<Rightarrow> ('c \<Rightarrow> 'w \<Rightarrow> ('x + 'p) \<times> 'w)
    \<Rightarrow> ('c, 'b, 'p, 'q, 'e) ds \<Rightarrow> 'w
    \<Rightarrow> ('x create_error + object_id) \<times> ('c, 'b, 'p, 'q, 'e) ds \<times> 'w" where
  "create_program_with alloc context_id artifact_bytes resident_bytes create s w =
     (let retained = saturating_add (rt_program_resident (ds_retained s)) (ucast resident_bytes) in
      if artifact_bytes = 0 \<or> resident_bytes = 0 then (Inl (CE_State DSE_InvalidArgument), s, w)
      else if max_artifact_bytes (ds_limits s) < artifact_bytes
      then (Inl (CE_State DSE_ResourceLimit), s, w)
      else if ucast (po_max_program_resident_bytes (ds_policy s)) < retained
      then (Inl (CE_State DSE_ResourceLimit), s, w)
      else case and_then (check_child_admission s context_id CK_Program
                    (max_programs_per_context (ds_limits s))) (\<lambda>_.
                and_then (map_err map_table_error (table_try_reserve_insert alloc (ds_programs s))) (\<lambda>_.
                  context_for_child s context_id)) of
        Inl e \<Rightarrow> (Inl (CE_State e), s, w)
      | Inr (handle, context, assign) \<Rightarrow>
          case create handle w of
            (Inl x, w') \<Rightarrow> (Inl (CE_Provider x), s, w')
          | (Inr resource, w') \<Rightarrow>
              let (oid, programs) = table_insert_prepared
                    \<lparr>pr_resource = resource_slot_new resource, pr_context_id = context_id,
                     pr_resident_bytes = resident_bytes, pr_in_flight = 0\<rparr> (ds_programs s);
                  children = (cx_children context)\<lparr>ch_programs := ch_programs (cx_children context) + 1\<rparr>
              in (Inr oid,
                  s\<lparr>ds_programs := programs,
                    ds_retained := (ds_retained s)\<lparr>rt_program_resident := retained\<rparr>,
                    ds_contexts := assign (context\<lparr>cx_children := children\<rparr>)\<rparr>, w'))"

definition create_queue_with ::
  "bool \<Rightarrow> object_id \<Rightarrow> ('c \<Rightarrow> 'w \<Rightarrow> ('x + 'q) \<times> 'w) \<Rightarrow> ('c, 'b, 'p, 'q, 'e) ds \<Rightarrow> 'w
    \<Rightarrow> ('x create_error + object_id) \<times> ('c, 'b, 'p, 'q, 'e) ds \<times> 'w" where
  "create_queue_with alloc context_id create s w =
     (case and_then (check_child_admission s context_id CK_Queue
               (max_queues_per_context (ds_limits s))) (\<lambda>_.
           and_then (map_err map_table_error (table_try_reserve_insert alloc (ds_queues s))) (\<lambda>_.
             context_for_child s context_id)) of
        Inl e \<Rightarrow> (Inl (CE_State e), s, w)
      | Inr (handle, context, assign) \<Rightarrow>
          case create handle w of
            (Inl x, w') \<Rightarrow> (Inl (CE_Provider x), s, w')
          | (Inr resource, w') \<Rightarrow>
              let (oid, queues) = table_insert_prepared
                    \<lparr>qu_resource = resource_slot_new resource, qu_context_id = context_id,
                     qu_in_flight = 0\<rparr> (ds_queues s);
                  children = (cx_children context)\<lparr>ch_queues := ch_queues (cx_children context) + 1\<rparr>
              in (Inr oid,
                  s\<lparr>ds_queues := queues, ds_contexts := assign (context\<lparr>cx_children := children\<rparr>)\<rparr>, w'))"

section \<open>Creating events\<close>

fun validate_buffer_ids ::
  "('c, 'b, 'p, 'q, 'e) ds \<Rightarrow> object_id \<Rightarrow> object_id list \<Rightarrow> device_state_error + unit" where
  "validate_buffer_ids s context_id [] = Inr ()"
| "validate_buffer_ids s context_id (oid # oids) =
     and_then (ds_buffer_record s oid) (\<lambda>buffer.
     and_then (resource_slot_get (bu_resource buffer)) (\<lambda>_.
       if bu_context_id buffer \<noteq> context_id then Inl DSE_ContextMismatch
       else validate_buffer_ids s context_id oids))"

definition validate_submission ::
  "('c, 'b, 'p, 'q, 'e) ds \<Rightarrow> object_id \<Rightarrow> object_id \<Rightarrow> object_id list
    \<Rightarrow> device_state_error + object_id" where
  "validate_submission s queue_id program_id buffer_ids =
     and_then (ds_queue_record s queue_id) (\<lambda>queue.
     and_then (resource_slot_get (qu_resource queue)) (\<lambda>_.
     and_then (ds_program_record s program_id) (\<lambda>program.
     and_then (resource_slot_get (pr_resource program)) (\<lambda>_.
       if pr_context_id program \<noteq> qu_context_id queue then Inl DSE_ContextMismatch
       else and_then (validate_buffer_ids s (qu_context_id queue) buffer_ids)
              (\<lambda>_. Inr (qu_context_id queue))))))"

fun validate_program_ids ::
  "('c, 'b, 'p, 'q, 'e) ds \<Rightarrow> object_id \<Rightarrow> object_id list \<Rightarrow> device_state_error + unit" where
  "validate_program_ids s context_id [] = Inr ()"
| "validate_program_ids s context_id (oid # oids) =
     and_then (ds_program_record s oid) (\<lambda>program.
     and_then (resource_slot_get (pr_resource program)) (\<lambda>_.
       if pr_context_id program \<noteq> context_id then Inl DSE_ContextMismatch
       else validate_program_ids s context_id oids))"

fun validate_submission_sequence ::
  "('c, 'b, 'p, 'q, 'e) ds \<Rightarrow> object_id \<Rightarrow> object_id list \<Rightarrow> object_id list
    \<Rightarrow> device_state_error + object_id" where
  "validate_submission_sequence s queue_id [] buffer_ids = Inl DSE_InvalidArgument"
| "validate_submission_sequence s queue_id (first # rest) buffer_ids =
     and_then (validate_submission s queue_id first buffer_ids) (\<lambda>context_id.
     and_then (validate_program_ids s context_id rest) (\<lambda>_. Inr context_id))"

definition check_increment :: "u32 \<Rightarrow> nat \<Rightarrow> device_state_error + unit" where
  "check_increment in_flight count =
     (if count < 2 ^ 32
      then (case checked_add in_flight (of_nat count) of
              None \<Rightarrow> Inl DSE_ReferenceCountOverflow | Some _ \<Rightarrow> Inr ())
      else Inl DSE_ReferenceCountOverflow)"

lemma check_increment_code [code]:
  "check_increment in_flight count =
     (if int count < 2 ^ 32
      then (case checked_add in_flight (of_nat count) of
              None \<Rightarrow> Inl DSE_ReferenceCountOverflow | Some _ \<Rightarrow> Inr ())
      else Inl DSE_ReferenceCountOverflow)"
  using of_nat_less_iff [of count "2 ^ 32", where ?'a = int] by (simp add: check_increment_def)

text \<open>The first argument list is \<open>program_ids[..index]\<close>, the second \<open>program_ids[index..]\<close>.\<close>

fun check_program_increments ::
  "('c, 'b, 'p, 'q, 'e) ds \<Rightarrow> object_id list \<Rightarrow> object_id list \<Rightarrow> device_state_error + unit" where
  "check_program_increments s before [] = Inr ()"
| "check_program_increments s before (oid # oids) =
     (if oid \<in> set before then check_program_increments s (before @ [oid]) oids
      else and_then (ds_program_record s oid) (\<lambda>program.
           and_then (check_increment (pr_in_flight program) (count_list (oid # oids) oid)) (\<lambda>_.
             check_program_increments s (before @ [oid]) oids)))"

text \<open>Each round takes the run of equal identifiers at the front of the sorted list.\<close>

function check_buffer_increments ::
  "('c, 'b, 'p, 'q, 'e) ds \<Rightarrow> object_id list \<Rightarrow> device_state_error + unit" where
  "check_buffer_increments s [] = Inr ()"
| "check_buffer_increments s (oid # oids) =
     and_then (ds_buffer_record s oid) (\<lambda>buffer.
     and_then (check_increment (bu_in_flight buffer) (Suc (length (takeWhile (\<lambda>x. x = oid) oids)))) (\<lambda>_.
       check_buffer_increments s (dropWhile (\<lambda>x. x = oid) oids)))"
  by pat_completeness auto
termination
  by (relation "measure (\<lambda>(s, oids). length oids)") (auto simp: le_imp_less_Suc length_dropWhile_le)

definition check_reference_increments ::
  "('c, 'b, 'p, 'q, 'e) ds \<Rightarrow> object_id \<Rightarrow> object_id list \<Rightarrow> object_id list
    \<Rightarrow> device_state_error + unit" where
  "check_reference_increments s queue_id program_ids sorted_buffer_ids =
     and_then (ds_queue_record s queue_id) (\<lambda>queue.
     and_then (ok_or DSE_ReferenceCountOverflow (checked_add (qu_in_flight queue) 1)) (\<lambda>_.
     and_then (check_program_increments s [] program_ids) (\<lambda>_.
       check_buffer_increments s sorted_buffer_ids)))"

text \<open>A loop that updates the record of every identifier in turn, and stops at the first that fails.\<close>

fun modify_each ::
  "('a \<Rightarrow> 'a) \<Rightarrow> object_id list \<Rightarrow> 'a object_table \<Rightarrow> (device_state_error + unit) \<times> 'a object_table" where
  "modify_each f [] t = (Inr (), t)"
| "modify_each f (oid # oids) t =
     (case table_modify t oid f of
        Inl e \<Rightarrow> (Inl (map_table_error e), t)
      | Inr t' \<Rightarrow> modify_each f oids t')"

definition adjust_references ::
  "(u32 \<Rightarrow> u32) \<Rightarrow> object_id \<Rightarrow> object_id \<Rightarrow> object_id list \<Rightarrow> object_id list
    \<Rightarrow> ('c, 'b, 'p, 'q, 'e) ds \<Rightarrow> (device_state_error + unit) \<times> ('c, 'b, 'p, 'q, 'e) ds" where
  "adjust_references f context_id queue_id program_ids buffer_ids s =
     (case modify_each (qu_in_flight_update f) [queue_id] (ds_queues s) of
        (Inl e, queues) \<Rightarrow> (Inl e, s\<lparr>ds_queues := queues\<rparr>)
      | (Inr _, queues) \<Rightarrow>
      case modify_each (pr_in_flight_update f) program_ids (ds_programs s) of
        (Inl e, programs) \<Rightarrow> (Inl e, s\<lparr>ds_queues := queues, ds_programs := programs\<rparr>)
      | (Inr _, programs) \<Rightarrow>
      case modify_each (bu_in_flight_update f) buffer_ids (ds_buffers s) of
        (Inl e, buffers) \<Rightarrow>
          (Inl e, s\<lparr>ds_queues := queues, ds_programs := programs, ds_buffers := buffers\<rparr>)
      | (Inr _, buffers) \<Rightarrow>
      case modify_each (cx_children_update (ch_events_update f)) [context_id] (ds_contexts s) of
        (r, contexts) \<Rightarrow>
          (r, s\<lparr>ds_queues := queues, ds_programs := programs, ds_buffers := buffers,
                ds_contexts := contexts\<rparr>))"

definition increment_event_references ::
  "object_id \<Rightarrow> object_id \<Rightarrow> object_id list \<Rightarrow> object_id list
    \<Rightarrow> ('c, 'b, 'p, 'q, 'e) ds \<Rightarrow> (device_state_error + unit) \<times> ('c, 'b, 'p, 'q, 'e) ds" where
  "increment_event_references = adjust_references (\<lambda>n. n + 1)"

definition decrement_event_references ::
  "object_id \<Rightarrow> object_id \<Rightarrow> object_id list \<Rightarrow> object_id list
    \<Rightarrow> ('c, 'b, 'p, 'q, 'e) ds \<Rightarrow> (device_state_error + unit) \<times> ('c, 'b, 'p, 'q, 'e) ds" where
  "decrement_event_references = adjust_references (\<lambda>n. n - 1)"

text \<open>
  What a submission closure is given. \<open>binary_search\<close> is the search of the standard library
  on the half-open window \<open>lo..hi\<close>.
\<close>

function binary_search :: "object_id list \<Rightarrow> object_id \<Rightarrow> nat \<Rightarrow> nat \<Rightarrow> bool" where
  "binary_search xs key lo hi =
     (if lo < hi
      then let mid = lo + (hi - lo) div 2 in
        if xs ! mid = key then True
        else if xs ! mid < key then binary_search xs key (mid + 1) hi
        else binary_search xs key lo mid
      else False)"
  by pat_completeness auto
termination
  by (relation "measure (\<lambda>(xs, key, lo, hi). hi - lo)") auto

record ('b, 'p, 'q) submission_resources =
  sub_context_id :: object_id
  sub_queue :: 'q
  sub_program :: 'p
  sub_buffers :: "'b buffer_record object_table"
  sub_buffer_ids :: "object_id list"

definition buffer_with_info_by_id ::
  "('b, 'p, 'q) submission_resources \<Rightarrow> object_id \<Rightarrow> device_state_error + ('b \<times> buffer_info)" where
  "buffer_with_info_by_id r oid =
     (if binary_search (sub_buffer_ids r) oid 0 (length (sub_buffer_ids r))
      then and_then (map_err map_table_error (table_get (sub_buffers r) oid)) (\<lambda>record.
           and_then (resource_slot_get (bu_resource record)) (\<lambda>resource.
             Inr (resource, bu_info record)))
      else Inl DSE_InvalidArgument)"

definition buffer_by_id ::
  "('b, 'p, 'q) submission_resources \<Rightarrow> object_id \<Rightarrow> device_state_error + 'b" where
  "buffer_by_id r oid = and_then (buffer_with_info_by_id r oid) (\<lambda>(buffer, _). Inr buffer)"

record ('b, 'p, 'q) submission_sequence_resources =
  seq_context_id :: object_id
  seq_queue :: 'q
  seq_programs :: "'p program_record object_table"
  seq_program_ids :: "object_id list"
  seq_buffers :: "'b buffer_record object_table"
  seq_buffer_ids :: "object_id list"

definition seq_program :: "('b, 'p, 'q) submission_sequence_resources \<Rightarrow> nat \<Rightarrow> device_state_error + 'p" where
  "seq_program r index =
     (if index < length (seq_program_ids r)
      then and_then (map_err map_table_error (table_get (seq_programs r) (seq_program_ids r ! index)))
             (\<lambda>record. resource_slot_get (pr_resource record))
      else Inl DSE_InvalidArgument)"

definition seq_buffer_by_id ::
  "('b, 'p, 'q) submission_sequence_resources \<Rightarrow> object_id \<Rightarrow> device_state_error + 'b" where
  "seq_buffer_by_id r oid =
     (if binary_search (seq_buffer_ids r) oid 0 (length (seq_buffer_ids r))
      then and_then (map_err map_table_error (table_get (seq_buffers r) oid))
             (\<lambda>record. resource_slot_get (bu_resource record))
      else Inl DSE_InvalidArgument)"

text \<open>
  The checks of a submission before its first effect: they end with the context of the queue.
\<close>

definition admit_event ::
  "bool \<Rightarrow> object_id \<Rightarrow> object_id list \<Rightarrow> object_id list \<Rightarrow> device_state_error + object_id
    \<Rightarrow> ('c, 'b, 'p, 'q, 'e) ds \<Rightarrow> device_state_error + object_id" where
  "admit_event alloc queue_id program_ids sorted_buffer_ids validated s =
     and_then validated (\<lambda>context_id.
     and_then (ds_context_record s context_id) (\<lambda>context.
       if max_events_per_context (ds_limits s) \<le> ch_events (cx_children context)
       then Inl DSE_ResourceLimit
       else and_then (map_err map_table_error (table_try_reserve_insert alloc (ds_events s))) (\<lambda>_.
            and_then (check_reference_increments s queue_id program_ids sorted_buffer_ids) (\<lambda>_.
              Inr context_id))))"

text \<open>
  The effects of a submission: references are taken, the provider is called with what
  \<open>resources\<close> selects from the state, and either the references are given back or the
  event is inserted.
\<close>

definition commit_event ::
  "(('c, 'b, 'p, 'q, 'e) ds \<Rightarrow> device_state_error + 'r) \<Rightarrow> ('r \<Rightarrow> 'w \<Rightarrow> ('x + 'e) \<times> 'w)
    \<Rightarrow> object_id \<Rightarrow> object_id \<Rightarrow> object_id list \<Rightarrow> object_id list option \<Rightarrow> object_id list
    \<Rightarrow> ('c, 'b, 'p, 'q, 'e) ds \<Rightarrow> 'w
    \<Rightarrow> ('x create_error + object_id) \<times> ('c, 'b, 'p, 'q, 'e) ds \<times> 'w" where
  "commit_event resources create context_id queue_id program_ids sequence buffer_ids s w =
     (case increment_event_references context_id queue_id program_ids buffer_ids s of
        (Inl e, s1) \<Rightarrow> (Inl (CE_State e), s1, w)
      | (Inr _, s1) \<Rightarrow>
          case resources s1 of
            Inl e \<Rightarrow> (Inl (CE_State e), s1, w)
          | Inr r \<Rightarrow>
              case create r w of
                (Inl x, w') \<Rightarrow>
                  (case decrement_event_references context_id queue_id program_ids buffer_ids s1 of
                     (Inl e, s2) \<Rightarrow> (Inl (CE_State e), s2, w')
                   | (Inr _, s2) \<Rightarrow> (Inl (CE_Provider x), s2, w'))
              | (Inr event, w') \<Rightarrow>
                  let (oid, events) = table_insert_prepared
                        \<lparr>ev_resource = resource_slot_new event, ev_context_id = context_id,
                         ev_queue_id = queue_id, ev_program_id = hd program_ids,
                         ev_sequence_program_ids = sequence, ev_buffer_ids = buffer_ids\<rparr> (ds_events s1)
                  in (Inr oid, s1\<lparr>ds_events := events\<rparr>, w'))"

definition submission_resources_of ::
  "object_id \<Rightarrow> object_id \<Rightarrow> object_id \<Rightarrow> object_id list \<Rightarrow> ('c, 'b, 'p, 'q, 'e) ds
    \<Rightarrow> device_state_error + ('b, 'p, 'q) submission_resources" where
  "submission_resources_of context_id queue_id program_id buffer_ids s =
     and_then (ds_queue_record s queue_id) (\<lambda>queue.
     and_then (resource_slot_get (qu_resource queue)) (\<lambda>q.
     and_then (ds_program_record s program_id) (\<lambda>program.
     and_then (resource_slot_get (pr_resource program)) (\<lambda>p.
       Inr \<lparr>sub_context_id = context_id, sub_queue = q, sub_program = p,
            sub_buffers = ds_buffers s, sub_buffer_ids = buffer_ids\<rparr>))))"

definition create_event_with ::
  "bool \<Rightarrow> object_id \<Rightarrow> object_id \<Rightarrow> object_id list
    \<Rightarrow> (('b, 'p, 'q) submission_resources \<Rightarrow> 'w \<Rightarrow> ('x + 'e) \<times> 'w) \<Rightarrow> ('c, 'b, 'p, 'q, 'e) ds \<Rightarrow> 'w
    \<Rightarrow> ('x create_error + object_id) \<times> ('c, 'b, 'p, 'q, 'e) ds \<times> 'w" where
  "create_event_with alloc queue_id program_id buffer_ids create s w =
     (if buffer_ids = [] then (Inl (CE_State DSE_InvalidArgument), s, w)
      else if unat (max_bindings_per_submission (ds_limits s)) < length buffer_ids
      then (Inl (CE_State DSE_ResourceLimit), s, w)
      else case admit_event alloc queue_id [program_id] (sort buffer_ids)
                  (validate_submission s queue_id program_id buffer_ids) s of
        Inl e \<Rightarrow> (Inl (CE_State e), s, w)
      | Inr context_id \<Rightarrow>
          commit_event (submission_resources_of context_id queue_id program_id (sort buffer_ids)) create
            context_id queue_id [program_id] None (sort buffer_ids) s w)"

definition sequence_resources_of ::
  "object_id \<Rightarrow> object_id \<Rightarrow> object_id list \<Rightarrow> object_id list \<Rightarrow> ('c, 'b, 'p, 'q, 'e) ds
    \<Rightarrow> device_state_error + ('b, 'p, 'q) submission_sequence_resources" where
  "sequence_resources_of context_id queue_id program_ids buffer_ids s =
     and_then (ds_queue_record s queue_id) (\<lambda>queue.
     and_then (resource_slot_get (qu_resource queue)) (\<lambda>q.
       Inr \<lparr>seq_context_id = context_id, seq_queue = q, seq_programs = ds_programs s,
            seq_program_ids = program_ids, seq_buffers = ds_buffers s, seq_buffer_ids = buffer_ids\<rparr>))"

definition create_event_sequence_with ::
  "bool \<Rightarrow> object_id \<Rightarrow> object_id list \<Rightarrow> object_id list
    \<Rightarrow> (('b, 'p, 'q) submission_sequence_resources \<Rightarrow> 'w \<Rightarrow> ('x + 'e) \<times> 'w)
    \<Rightarrow> ('c, 'b, 'p, 'q, 'e) ds \<Rightarrow> 'w
    \<Rightarrow> ('x create_error + object_id) \<times> ('c, 'b, 'p, 'q, 'e) ds \<times> 'w" where
  "create_event_sequence_with alloc queue_id program_ids buffer_ids create s w =
     (if program_ids = [] \<or> buffer_ids = [] then (Inl (CE_State DSE_InvalidArgument), s, w)
      else case admit_event alloc queue_id program_ids (sort buffer_ids)
                  (validate_submission_sequence s queue_id program_ids buffer_ids) s of
        Inl e \<Rightarrow> (Inl (CE_State e), s, w)
      | Inr context_id \<Rightarrow>
          commit_event (sequence_resources_of context_id queue_id program_ids (sort buffer_ids)) create
            context_id queue_id program_ids (Some program_ids) (sort buffer_ids) s w)"

section \<open>Releasing objects\<close>

text \<open>
  Release of a resource of a record, over the accessor and the update of its resource slot
  (the traits \<open>ReleasableRecord\<close> and \<open>ResourceRecord\<close>).
\<close>

definition begin_resource_release ::
  "('rec \<Rightarrow> 'r resource_slot) \<Rightarrow> (('r resource_slot \<Rightarrow> 'r resource_slot) \<Rightarrow> 'rec \<Rightarrow> 'rec)
    \<Rightarrow> ('rec \<Rightarrow> bool) \<Rightarrow> 'rec object_table \<Rightarrow> object_id
    \<Rightarrow> (device_state_error + 'r) \<times> 'rec object_table" where
  "begin_resource_release slot_of slot_update busy t oid =
     (case table_get_mut t oid of
        Inl e \<Rightarrow> (Inl (map_table_error e), t)
      | Inr (record, assign) \<Rightarrow>
          if busy record then (Inl DSE_Busy, t)
          else case resource_slot_begin_release (slot_of record) of
                 Inl e \<Rightarrow> (Inl e, t)
               | Inr (resource, slot) \<Rightarrow> (Inr resource, assign (slot_update (\<lambda>_. slot) record)))"

definition restore_resource ::
  "('rec \<Rightarrow> 'r resource_slot) \<Rightarrow> (('r resource_slot \<Rightarrow> 'r resource_slot) \<Rightarrow> 'rec \<Rightarrow> 'rec)
    \<Rightarrow> 'rec object_table \<Rightarrow> object_id \<Rightarrow> 'r
    \<Rightarrow> ((device_state_error \<times> 'r) + unit) \<times> 'rec object_table" where
  "restore_resource slot_of slot_update t oid resource =
     (case table_get_mut t oid of
        Inl e \<Rightarrow> (Inl (map_table_error e, resource), t)
      | Inr (record, assign) \<Rightarrow>
          case resource_slot_restore (slot_of record) resource of
            Inl e \<Rightarrow> (Inl e, t)
          | Inr slot \<Rightarrow> (Inr (), assign (slot_update (\<lambda>_. slot) record)))"

definition ensure_releasing :: "('rec \<Rightarrow> 'r resource_slot) \<Rightarrow> 'rec \<Rightarrow> device_state_error + unit" where
  "ensure_releasing slot_of record =
     (if rs_release (slot_of record) \<noteq> Releasing then Inl DSE_InvalidTransition else Inr ())"

definition begin_context_release ::
  "('c, 'b, 'p, 'q, 'e) ds \<Rightarrow> object_id \<Rightarrow> (device_state_error + 'c) \<times> ('c, 'b, 'p, 'q, 'e) ds" where
  "begin_context_release s oid =
     apsnd (\<lambda>t. s\<lparr>ds_contexts := t\<rparr>) (begin_resource_release cx_resource cx_resource_update
       (\<lambda>record. \<not> child_counts_is_empty (cx_children record)) (ds_contexts s) oid)"

definition restore_context_release ::
  "('c, 'b, 'p, 'q, 'e) ds \<Rightarrow> object_id \<Rightarrow> 'c
    \<Rightarrow> ((device_state_error \<times> 'c) + unit) \<times> ('c, 'b, 'p, 'q, 'e) ds" where
  "restore_context_release s oid resource =
     apsnd (\<lambda>t. s\<lparr>ds_contexts := t\<rparr>)
       (restore_resource cx_resource cx_resource_update (ds_contexts s) oid resource)"

definition commit_context_release ::
  "('c, 'b, 'p, 'q, 'e) ds \<Rightarrow> object_id \<Rightarrow> (device_state_error + unit) \<times> ('c, 'b, 'p, 'q, 'e) ds" where
  "commit_context_release s oid =
     (case and_then (ds_context_record s oid) (ensure_releasing cx_resource) of
        Inl e \<Rightarrow> (Inl e, s)
      | Inr _ \<Rightarrow>
          case table_remove (ds_contexts s) oid of
            (Inl e, t) \<Rightarrow> (Inl (map_table_error e), s\<lparr>ds_contexts := t\<rparr>)
          | (Inr _, t) \<Rightarrow> (Inr (), s\<lparr>ds_contexts := t\<rparr>))"

text \<open>The child count of the owner after a child is gone.\<close>

definition forget_child ::
  "(child_counts \<Rightarrow> child_counts) \<Rightarrow> object_id \<Rightarrow> ('c, 'b, 'p, 'q, 'e) ds
    \<Rightarrow> (device_state_error + unit) \<times> ('c, 'b, 'p, 'q, 'e) ds" where
  "forget_child f context_id s =
     apsnd (\<lambda>t. s\<lparr>ds_contexts := t\<rparr>) (modify_each (cx_children_update f) [context_id] (ds_contexts s))"

definition begin_buffer_release ::
  "('c, 'b, 'p, 'q, 'e) ds \<Rightarrow> object_id \<Rightarrow> (device_state_error + 'b) \<times> ('c, 'b, 'p, 'q, 'e) ds" where
  "begin_buffer_release s oid =
     apsnd (\<lambda>t. s\<lparr>ds_buffers := t\<rparr>) (begin_resource_release bu_resource bu_resource_update
       (\<lambda>record. bu_in_flight record \<noteq> 0) (ds_buffers s) oid)"

definition restore_buffer_release ::
  "('c, 'b, 'p, 'q, 'e) ds \<Rightarrow> object_id \<Rightarrow> 'b
    \<Rightarrow> ((device_state_error \<times> 'b) + unit) \<times> ('c, 'b, 'p, 'q, 'e) ds" where
  "restore_buffer_release s oid resource =
     apsnd (\<lambda>t. s\<lparr>ds_buffers := t\<rparr>)
       (restore_resource bu_resource bu_resource_update (ds_buffers s) oid resource)"

definition commit_buffer_release ::
  "('c, 'b, 'p, 'q, 'e) ds \<Rightarrow> object_id \<Rightarrow> (device_state_error + unit) \<times> ('c, 'b, 'p, 'q, 'e) ds" where
  "commit_buffer_release s oid =
     (case and_then (ds_buffer_record s oid) (\<lambda>record.
            and_then (ensure_releasing bu_resource record) (\<lambda>_.
              Inr (bu_context_id record, bi_allocation_bytes (bu_info record)))) of
        Inl e \<Rightarrow> (Inl e, s)
      | Inr (context_id, allocation_bytes) \<Rightarrow>
          case table_remove (ds_buffers s) oid of
            (Inl e, t) \<Rightarrow> (Inl (map_table_error e), s\<lparr>ds_buffers := t\<rparr>)
          | (Inr _, t) \<Rightarrow>
              forget_child (ch_buffers_update (\<lambda>n. n - 1)) context_id
                (s\<lparr>ds_buffers := t, ds_retained := (ds_retained s)\<lparr>rt_buffer_backing :=
                  rt_buffer_backing (ds_retained s) - ucast allocation_bytes\<rparr>\<rparr>))"

definition begin_program_release ::
  "('c, 'b, 'p, 'q, 'e) ds \<Rightarrow> object_id \<Rightarrow> (device_state_error + 'p) \<times> ('c, 'b, 'p, 'q, 'e) ds" where
  "begin_program_release s oid =
     apsnd (\<lambda>t. s\<lparr>ds_programs := t\<rparr>) (begin_resource_release pr_resource pr_resource_update
       (\<lambda>record. pr_in_flight record \<noteq> 0) (ds_programs s) oid)"

definition restore_program_release ::
  "('c, 'b, 'p, 'q, 'e) ds \<Rightarrow> object_id \<Rightarrow> 'p
    \<Rightarrow> ((device_state_error \<times> 'p) + unit) \<times> ('c, 'b, 'p, 'q, 'e) ds" where
  "restore_program_release s oid resource =
     apsnd (\<lambda>t. s\<lparr>ds_programs := t\<rparr>)
       (restore_resource pr_resource pr_resource_update (ds_programs s) oid resource)"

definition commit_program_release ::
  "('c, 'b, 'p, 'q, 'e) ds \<Rightarrow> object_id \<Rightarrow> (device_state_error + unit) \<times> ('c, 'b, 'p, 'q, 'e) ds" where
  "commit_program_release s oid =
     (case and_then (ds_program_record s oid) (\<lambda>record.
            and_then (ensure_releasing pr_resource record) (\<lambda>_.
              Inr (pr_context_id record, pr_resident_bytes record))) of
        Inl e \<Rightarrow> (Inl e, s)
      | Inr (context_id, resident_bytes) \<Rightarrow>
          case table_remove (ds_programs s) oid of
            (Inl e, t) \<Rightarrow> (Inl (map_table_error e), s\<lparr>ds_programs := t\<rparr>)
          | (Inr _, t) \<Rightarrow>
              forget_child (ch_programs_update (\<lambda>n. n - 1)) context_id
                (s\<lparr>ds_programs := t, ds_retained := (ds_retained s)\<lparr>rt_program_resident :=
                  rt_program_resident (ds_retained s) - ucast resident_bytes\<rparr>\<rparr>))"

definition begin_queue_release ::
  "('c, 'b, 'p, 'q, 'e) ds \<Rightarrow> object_id \<Rightarrow> (device_state_error + 'q) \<times> ('c, 'b, 'p, 'q, 'e) ds" where
  "begin_queue_release s oid =
     apsnd (\<lambda>t. s\<lparr>ds_queues := t\<rparr>) (begin_resource_release qu_resource qu_resource_update
       (\<lambda>record. qu_in_flight record \<noteq> 0) (ds_queues s) oid)"

definition restore_queue_release ::
  "('c, 'b, 'p, 'q, 'e) ds \<Rightarrow> object_id \<Rightarrow> 'q
    \<Rightarrow> ((device_state_error \<times> 'q) + unit) \<times> ('c, 'b, 'p, 'q, 'e) ds" where
  "restore_queue_release s oid resource =
     apsnd (\<lambda>t. s\<lparr>ds_queues := t\<rparr>)
       (restore_resource qu_resource qu_resource_update (ds_queues s) oid resource)"

definition commit_queue_release ::
  "('c, 'b, 'p, 'q, 'e) ds \<Rightarrow> object_id \<Rightarrow> (device_state_error + unit) \<times> ('c, 'b, 'p, 'q, 'e) ds" where
  "commit_queue_release s oid =
     (case and_then (ds_queue_record s oid) (\<lambda>record.
            and_then (ensure_releasing qu_resource record) (\<lambda>_. Inr (qu_context_id record))) of
        Inl e \<Rightarrow> (Inl e, s)
      | Inr context_id \<Rightarrow>
          case table_remove (ds_queues s) oid of
            (Inl e, t) \<Rightarrow> (Inl (map_table_error e), s\<lparr>ds_queues := t\<rparr>)
          | (Inr _, t) \<Rightarrow>
              forget_child (ch_queues_update (\<lambda>n. n - 1)) context_id (s\<lparr>ds_queues := t\<rparr>))"

definition begin_event_release ::
  "('c, 'b, 'p, 'q, 'e) ds \<Rightarrow> object_id \<Rightarrow> (device_state_error + 'e) \<times> ('c, 'b, 'p, 'q, 'e) ds" where
  "begin_event_release s oid =
     apsnd (\<lambda>t. s\<lparr>ds_events := t\<rparr>) (begin_resource_release ev_resource ev_resource_update
       (\<lambda>_. False) (ds_events s) oid)"

definition restore_event_release ::
  "('c, 'b, 'p, 'q, 'e) ds \<Rightarrow> object_id \<Rightarrow> 'e
    \<Rightarrow> ((device_state_error \<times> 'e) + unit) \<times> ('c, 'b, 'p, 'q, 'e) ds" where
  "restore_event_release s oid resource =
     apsnd (\<lambda>t. s\<lparr>ds_events := t\<rparr>)
       (restore_resource ev_resource ev_resource_update (ds_events s) oid resource)"

definition commit_event_release ::
  "('c, 'b, 'p, 'q, 'e) ds \<Rightarrow> object_id \<Rightarrow> (device_state_error + unit) \<times> ('c, 'b, 'p, 'q, 'e) ds" where
  "commit_event_release s oid =
     (case and_then (ds_event_record s oid) (\<lambda>record.
            and_then (ensure_releasing ev_resource record) (\<lambda>_.
              validate_submission_sequence s (ev_queue_id record) (event_program_ids record)
                (ev_buffer_ids record))) of
        Inl e \<Rightarrow> (Inl e, s)
      | Inr _ \<Rightarrow>
          case table_remove (ds_events s) oid of
            (Inl e, t) \<Rightarrow> (Inl (map_table_error e), s\<lparr>ds_events := t\<rparr>)
          | (Inr record, t) \<Rightarrow>
              decrement_event_references (ev_context_id record) (ev_queue_id record)
                (event_program_ids record) (ev_buffer_ids record) (s\<lparr>ds_events := t\<rparr>))"

end
