(* ===== verification/Frame_Decoder.thy ===== *)
theory Frame_Decoder
  imports Response_Writer Device_State
begin

text \<open>
  Validation of one untrusted command frame (\<open>decoder.rs\<close>, \<open>frame.rs\<close> and the status maps of
  \<open>lib.rs\<close> in \<open>virtio-accel-device/src\<close>): the header, every fixed field, every binding and the
  room for the largest response are checked before a request reaches semantic dispatch.
\<close>

section \<open>Status codes of errors\<close>

fun status_from_backend_error :: "backend_error \<Rightarrow> status_code" where
  "status_from_backend_error BE_Unsupported = STATUS_UNSUPPORTED"
| "status_from_backend_error BE_Incompatible = STATUS_INCOMPATIBLE"
| "status_from_backend_error BE_InvalidArgument = STATUS_INVALID_ARGUMENT"
| "status_from_backend_error BE_OutOfBounds = STATUS_OUT_OF_BOUNDS"
| "status_from_backend_error BE_Busy = STATUS_BUSY"
| "status_from_backend_error BE_OutOfMemory = STATUS_OUT_OF_MEMORY"
| "status_from_backend_error BE_ResourceLimit = STATUS_RESOURCE_LIMIT"
| "status_from_backend_error BE_DeadlineExpired = STATUS_DEADLINE_EXPIRED"
| "status_from_backend_error BE_DeviceLost = STATUS_DEVICE_LOST"
| "status_from_backend_error BE_PermissionDenied = STATUS_PERMISSION_DENIED"
| "status_from_backend_error (BE_External _ _) = STATUS_INTERNAL_ERROR"

fun status_from_object_table_error :: "object_table_error \<Rightarrow> status_code" where
  "status_from_object_table_error OTE_InvalidId = STATUS_INVALID_ARGUMENT"
| "status_from_object_table_error OTE_WrongKind = STATUS_STALE_OBJECT"
| "status_from_object_table_error OTE_StaleId = STATUS_STALE_OBJECT"
| "status_from_object_table_error OTE_Full = STATUS_RESOURCE_LIMIT"
| "status_from_object_table_error OTE_AllocationFailed = STATUS_OUT_OF_MEMORY"

fun status_from_device_state_error :: "device_state_error \<Rightarrow> status_code" where
  "status_from_device_state_error DSE_InvalidArgument = STATUS_INVALID_ARGUMENT"
| "status_from_device_state_error DSE_InvalidObject = STATUS_INVALID_ARGUMENT"
| "status_from_device_state_error DSE_StaleObject = STATUS_STALE_OBJECT"
| "status_from_device_state_error DSE_ContextMismatch = STATUS_STALE_OBJECT"
| "status_from_device_state_error DSE_Busy = STATUS_BUSY"
| "status_from_device_state_error DSE_Releasing = STATUS_BUSY"
| "status_from_device_state_error DSE_ResourceLimit = STATUS_RESOURCE_LIMIT"
| "status_from_device_state_error DSE_ReferenceCountOverflow = STATUS_RESOURCE_LIMIT"
| "status_from_device_state_error DSE_OutOfMemory = STATUS_OUT_OF_MEMORY"
| "status_from_device_state_error DSE_InvalidTransition = STATUS_INTERNAL_ERROR"

section \<open>Limits\<close>

definition REQUEST_HEADER_BYTES :: u64 where "REQUEST_HEADER_BYTES = of_nat size_request_header"
definition MAX_FIXED_PREFIX_BYTES :: nat where "MAX_FIXED_PREFIX_BYTES = size_load_program_request"

datatype decoder_limits_error = DLE_Config config_error | DLE_BindingLimit | DLE_BufferLimit | DLE_ArtifactLimit

record decoder_limits =
  dl_max_chain_descriptors :: u16
  dl_max_request_bytes :: u32
  dl_max_response_bytes :: u32
  dl_max_bindings :: u32
  dl_max_buffer_bytes :: u64
  dl_max_artifact_bytes :: u64
  dl_capabilities :: capabilities

definition decoder_limits_new :: "wire_config \<Rightarrow> device_info \<Rightarrow> decoder_limits_error + decoder_limits" where
  "decoder_limits_new config info =
     and_then (map_err DLE_Config (wire_config_validate config)) (\<lambda>_.
       if \<not> (1 \<le> max_bindings_per_submission (di_limits info)
              \<and> max_bindings_per_submission (di_limits info) \<le> HARD_MAX_BINDINGS)
       then Inl DLE_BindingLimit
       else if max_buffer_bytes (di_limits info) = 0 then Inl DLE_BufferLimit
       else if max_artifact_bytes (di_limits info) = 0 then Inl DLE_ArtifactLimit
       else Inr \<lparr>dl_max_chain_descriptors = wc_max_chain_descriptors config,
                 dl_max_request_bytes = wc_max_request_bytes config,
                 dl_max_response_bytes = wc_max_response_bytes config,
                 dl_max_bindings = max_bindings_per_submission (di_limits info),
                 dl_max_buffer_bytes = max_buffer_bytes (di_limits info),
                 dl_max_artifact_bytes = max_artifact_bytes (di_limits info),
                 dl_capabilities = di_capabilities info\<rparr>)"

section \<open>Decoded requests\<close>

datatype unrecoverable_decode_error = UDE_RequestHeader | UDE_RequestAccess | UDE_ResponseHeader

datatype frame_decode_error =
    FDE_Unrecoverable unrecoverable_decode_error
  | FDE_Protocol u64 status_code
  | FDE_InsufficientResponse u64 u64 u64

record decoded_binding =
  db_buffer_id :: object_id
  db_range :: buffer_range
  db_slot :: u32
  db_access :: access_mode

datatype decoded_request_body =
    DR_GetDeviceInfo
  | DR_CreateContext context_desc
  | DR_DestroyContext object_id
  | DR_AllocateBuffer object_id buffer_desc
  | DR_FreeBuffer object_id
  | DR_WriteBuffer object_id buffer_range readable_region
  | DR_ReadBuffer object_id buffer_range
  | DR_LoadProgram object_id u32 "u32 list" readable_region u64
  | DR_UnloadProgram object_id
  | DR_CreateQueue object_id queue_desc
  | DR_DestroyQueue object_id
  | DR_Submit object_id object_id "decoded_binding list" timeout
  | DR_PollEvent object_id
  | DR_CancelEvent object_id
  | DR_DestroyEvent object_id

fun body_opcode :: "decoded_request_body \<Rightarrow> known_opcode" where
  "body_opcode DR_GetDeviceInfo = Op_GetDeviceInfo"
| "body_opcode (DR_CreateContext _) = Op_CreateContext"
| "body_opcode (DR_DestroyContext _) = Op_DestroyContext"
| "body_opcode (DR_AllocateBuffer _ _) = Op_AllocateBuffer"
| "body_opcode (DR_FreeBuffer _) = Op_FreeBuffer"
| "body_opcode (DR_WriteBuffer _ _ _) = Op_WriteBuffer"
| "body_opcode (DR_ReadBuffer _ _) = Op_ReadBuffer"
| "body_opcode (DR_LoadProgram _ _ _ _ _) = Op_LoadProgram"
| "body_opcode (DR_UnloadProgram _) = Op_UnloadProgram"
| "body_opcode (DR_CreateQueue _ _) = Op_CreateQueue"
| "body_opcode (DR_DestroyQueue _) = Op_DestroyQueue"
| "body_opcode (DR_Submit _ _ _ _) = Op_Submit"
| "body_opcode (DR_PollEvent _) = Op_PollEvent"
| "body_opcode (DR_CancelEvent _) = Op_CancelEvent"
| "body_opcode (DR_DestroyEvent _) = Op_DestroyEvent"

record decoded_request =
  dq_request_id :: u64
  dq_required_response_bytes :: u32
  dq_body :: decoded_request_body

datatype body_decode_error = BDE_Protocol status_code | BDE_Access

definition bde_invalid :: body_decode_error where "bde_invalid = BDE_Protocol STATUS_INVALID_ARGUMENT"
definition bde_resource_limit :: body_decode_error where "bde_resource_limit = BDE_Protocol STATUS_RESOURCE_LIMIT"

section \<open>Reading wire structures\<close>

definition expect_payload_bytes :: "u32 \<Rightarrow> nat \<Rightarrow> body_decode_error + unit" where
  "expect_payload_bytes payload_bytes expected =
     (if (ucast payload_bytes :: u64) \<noteq> of_nat expected then Inl bde_invalid else Inr ())"

definition read_wire ::
  "byte_source \<Rightarrow> u64 \<Rightarrow> nat \<Rightarrow> (u8 list \<Rightarrow> decode_error + 'a) \<Rightarrow> body_decode_error + 'a" where
  "read_wire source offset bytes decode_fixed =
     (if MAX_FIXED_PREFIX_BYTES < bytes then Inl (BDE_Protocol STATUS_INTERNAL_ERROR)
      else and_then (map_err (\<lambda>_. BDE_Access) (bs_read_at source offset bytes)) (\<lambda>scratch.
             map_err (\<lambda>_. bde_invalid) (decode_fixed scratch)))"

definition read_payload ::
  "byte_source \<Rightarrow> nat \<Rightarrow> (u8 list \<Rightarrow> decode_error + 'a) \<Rightarrow> body_decode_error + 'a" where
  "read_payload request bytes decode_fixed = read_wire request REQUEST_HEADER_BYTES bytes decode_fixed"

definition decode_object_id :: "u64 \<Rightarrow> body_decode_error + object_id" where
  "decode_object_id raw = ok_or bde_invalid (object_id_from_raw raw)"

definition decode_object :: "byte_source \<Rightarrow> u32 \<Rightarrow> body_decode_error + object_id" where
  "decode_object request payload_bytes =
     and_then (expect_payload_bytes payload_bytes size_object_payload) (\<lambda>_.
     and_then (read_payload request size_object_payload decode_object_payload) (\<lambda>value.
       decode_object_id (op_object_id value)))"

definition decode_transfer ::
  "byte_source \<Rightarrow> u32 \<Rightarrow> bool \<Rightarrow> body_decode_error + (object_id \<times> buffer_range)" where
  "decode_transfer request payload_bytes has_data =
     (if (ucast payload_bytes :: u64) < of_nat size_transfer_buffer_request then Inl bde_invalid
      else and_then (read_payload request size_transfer_buffer_request decode_transfer_buffer_request) (\<lambda>value.
        if tb_bytes value = 0 \<or> checked_add (tb_offset value) (tb_bytes value) = None then Inl bde_invalid
        else and_then (if has_data
                       then ok_or bde_resource_limit
                              (checked_add (of_nat size_transfer_buffer_request) (tb_bytes value))
                       else Inr (of_nat size_transfer_buffer_request)) (\<lambda>expected.
          if expected \<noteq> (ucast payload_bytes :: u64) then Inl bde_invalid
          else and_then (decode_object_id (tb_buffer_id value)) (\<lambda>buffer_id.
               and_then (map_err (\<lambda>_. bde_invalid) (buffer_range_new (tb_offset value) (tb_bytes value))) (\<lambda>range.
                 Inr (buffer_id, range))))))"

text \<open>The loop over the wire bindings at \<open>offset\<close>.\<close>

definition decode_binding :: "byte_source \<Rightarrow> u64 \<Rightarrow> body_decode_error + decoded_binding" where
  "decode_binding request offset =
     and_then (read_wire request offset size_wire_binding decode_wire_binding) (\<lambda>binding.
       if wb_reserved binding \<noteq> [0, 0, 0] then Inl bde_invalid
       else if wb_bytes binding = 0 \<or> checked_add (wb_offset binding) (wb_bytes binding) = None
       then Inl bde_invalid
       else and_then (map_err (\<lambda>_. bde_invalid) (buffer_range_new (wb_offset binding) (wb_bytes binding))) (\<lambda>range.
            and_then (map_err (\<lambda>_. bde_invalid) (access_mode_try_from (wb_access binding))) (\<lambda>access.
            and_then (decode_object_id (wb_buffer_id binding)) (\<lambda>buffer_id.
              Inr \<lparr>db_buffer_id = buffer_id, db_range = range, db_slot = wb_slot binding, db_access = access\<rparr>))))"

fun decode_bindings :: "byte_source \<Rightarrow> u64 \<Rightarrow> nat list \<Rightarrow> body_decode_error + decoded_binding list" where
  "decode_bindings request binding_base [] = Inr []"
| "decode_bindings request binding_base (index # indices) =
     and_then (decode_binding request (binding_base + of_nat (index * size_wire_binding))) (\<lambda>binding.
     and_then (decode_bindings request binding_base indices) (\<lambda>bindings. Inr (binding # bindings)))"

text \<open>
  \<open>alloc\<close> is the outcome of the fallible reservation. The unstable sort orders bindings with the
  same slot arbitrarily, but then the request is refused, so the stable sort gives the same result.
\<close>

definition decode_submit ::
  "decoder_limits \<Rightarrow> bool \<Rightarrow> byte_source \<Rightarrow> u32
    \<Rightarrow> body_decode_error + (object_id \<times> object_id \<times> decoded_binding list \<times> timeout)" where
  "decode_submit limits alloc request payload_bytes =
     (if (ucast payload_bytes :: u64) < of_nat size_submit_request then Inl bde_invalid
      else and_then (read_payload request size_submit_request decode_submit_request) (\<lambda>value.
        if sq_flags value \<noteq> 0 then Inl (BDE_Protocol STATUS_UNSUPPORTED)
        else if sq_binding_count value = 0 then Inl bde_invalid
        else if dl_max_bindings limits < sq_binding_count value \<or> HARD_MAX_BINDINGS < sq_binding_count value
        then Inl bde_resource_limit
        else and_then (ok_or bde_resource_limit
               (checked_mul (ucast (sq_binding_count value)) (of_nat size_wire_binding :: u64))) (\<lambda>binding_bytes.
             and_then (ok_or bde_resource_limit
               (checked_add (of_nat size_submit_request) binding_bytes)) (\<lambda>expected.
          if expected \<noteq> (ucast payload_bytes :: u64) then Inl bde_invalid
          else if \<not> alloc then Inl (BDE_Protocol STATUS_OUT_OF_MEMORY)
          else and_then (decode_bindings request (REQUEST_HEADER_BYTES + of_nat size_submit_request)
                 [0..<unat (sq_binding_count value)]) (\<lambda>bindings.
            let bindings = sort_key db_slot bindings in
            if \<not> windows_all (\<lambda>a b. db_slot a \<noteq> db_slot b) bindings then Inl bde_invalid
            else and_then (decode_object_id (sq_queue_id value)) (\<lambda>queue_id.
                 and_then (decode_object_id (sq_program_id value)) (\<lambda>program_id.
                   Inr (queue_id, program_id, bindings, timeout_from_wire_ns (sq_timeout_ns value)))))))))"

section \<open>Bodies and frames\<close>

text \<open>The arms of \<open>decode_body\<close> that read more than an object payload.\<close>

definition decode_create_context :: "byte_source \<Rightarrow> u32 \<Rightarrow> body_decode_error + decoded_request_body" where
  "decode_create_context request payload_bytes =
     and_then (expect_payload_bytes payload_bytes size_create_context_request) (\<lambda>_.
     and_then (read_payload request size_create_context_request decode_create_context_request) (\<lambda>value.
       if cc_flags value \<noteq> 0 then Inl (BDE_Protocol STATUS_UNSUPPORTED)
       else if cc_reserved value \<noteq> 0 then Inl bde_invalid
       else Inr (DR_CreateContext 0)))"

definition decode_allocate_buffer ::
  "decoder_limits \<Rightarrow> byte_source \<Rightarrow> u32 \<Rightarrow> body_decode_error + decoded_request_body" where
  "decode_allocate_buffer limits request payload_bytes =
     and_then (expect_payload_bytes payload_bytes size_allocate_buffer_request) (\<lambda>_.
     and_then (read_payload request size_allocate_buffer_request decode_allocate_buffer_request) (\<lambda>value.
     and_then (decode_object_id (ab_context_id value)) (\<lambda>context_id.
       if ab_reserved0 value \<noteq> replicate 7 0 \<or> ab_reserved1 value \<noteq> 0 then Inl bde_invalid
       else and_then (map_err (\<lambda>_. bde_invalid) (memory_domain_try_from (ab_memory_domain value))) (\<lambda>domain.
            and_then (ok_or (BDE_Protocol STATUS_UNSUPPORTED) (buffer_usage_from_bits (ab_usage value))) (\<lambda>usage.
              if usage = 0 then Inl bde_invalid
              else and_then (map_err (\<lambda>_. bde_invalid)
                     (buffer_desc_new (ab_bytes value) (ab_alignment value) domain usage)) (\<lambda>desc.
                if dl_max_buffer_bytes limits < bd_bytes desc then Inl bde_resource_limit
                else if \<not> supports_memory_domain (dl_capabilities limits) domain
                then Inl (BDE_Protocol STATUS_UNSUPPORTED)
                else Inr (DR_AllocateBuffer context_id desc)))))))"

definition decode_write_buffer :: "byte_source \<Rightarrow> u32 \<Rightarrow> body_decode_error + decoded_request_body" where
  "decode_write_buffer request payload_bytes =
     and_then (decode_transfer request payload_bytes True) (\<lambda>(buffer_id, range).
     and_then (map_err (\<lambda>_. BDE_Access)
         (readable_region_new request (REQUEST_HEADER_BYTES + of_nat size_transfer_buffer_request)
           (br_bytes range))) (\<lambda>data.
       Inr (DR_WriteBuffer buffer_id range data)))"

definition decode_load_program ::
  "decoder_limits \<Rightarrow> byte_source \<Rightarrow> u32 \<Rightarrow> body_decode_error + decoded_request_body" where
  "decode_load_program limits request payload_bytes =
     (if (ucast payload_bytes :: u64) < of_nat size_load_program_request then Inl bde_invalid
      else and_then (read_payload request size_load_program_request decode_load_program_request) (\<lambda>value.
        if lp_flags value \<noteq> 0 then Inl (BDE_Protocol STATUS_UNSUPPORTED)
        else and_then (decode_object_id (lp_context_id value)) (\<lambda>context_id.
             and_then (ok_or bde_invalid (artifact_format_new (lp_format value))) (\<lambda>format.
               if lp_payload_bytes value = 0 \<or> lp_resident_bytes value = 0 then Inl bde_invalid
               else and_then (ok_or bde_resource_limit
                      (checked_add (of_nat size_load_program_request) (lp_payload_bytes value))) (\<lambda>expected.
                 if expected \<noteq> (ucast payload_bytes :: u64) then Inl bde_invalid
                 else if dl_max_artifact_bytes limits < lp_payload_bytes value then Inl bde_resource_limit
                 else and_then (map_err (\<lambda>_. BDE_Access)
                        (readable_region_new request (REQUEST_HEADER_BYTES + of_nat size_load_program_request)
                          (lp_payload_bytes value))) (\<lambda>payload.
                   Inr (DR_LoadProgram context_id format (lp_target value) payload (lp_resident_bytes value))))))))"

definition decode_create_queue :: "byte_source \<Rightarrow> u32 \<Rightarrow> body_decode_error + decoded_request_body" where
  "decode_create_queue request payload_bytes =
     and_then (expect_payload_bytes payload_bytes size_create_queue_request) (\<lambda>_.
     and_then (read_payload request size_create_queue_request decode_create_queue_request) (\<lambda>value.
       if cq_flags value \<noteq> 0 then Inl (BDE_Protocol STATUS_UNSUPPORTED)
       else if cq_reserved value \<noteq> 0 then Inl bde_invalid
       else and_then (decode_object_id (cq_context_id value)) (\<lambda>context_id.
              Inr (DR_CreateQueue context_id 0))))"

text \<open>A body together with the bytes of its largest success response.\<close>

definition with_response ::
  "nat \<Rightarrow> body_decode_error + decoded_request_body \<Rightarrow> body_decode_error + (decoded_request_body \<times> u64)" where
  "with_response payload r = and_then r (\<lambda>body. Inr (body, RESPONSE_HEADER_BYTES + of_nat payload))"

fun decode_body ::
  "decoder_limits \<Rightarrow> bool \<Rightarrow> byte_source \<Rightarrow> u32 \<Rightarrow> known_opcode
    \<Rightarrow> body_decode_error + (decoded_request_body \<times> u64)" where
  "decode_body limits alloc request n Op_GetDeviceInfo =
     with_response size_wire_device_info
       (and_then (expect_payload_bytes n 0) (\<lambda>_. Inr DR_GetDeviceInfo))"
| "decode_body limits alloc request n Op_CreateContext =
     with_response size_object_payload (decode_create_context request n)"
| "decode_body limits alloc request n Op_DestroyContext =
     with_response 0 (and_then (decode_object request n) (\<lambda>oid. Inr (DR_DestroyContext oid)))"
| "decode_body limits alloc request n Op_AllocateBuffer =
     with_response size_object_payload (decode_allocate_buffer limits request n)"
| "decode_body limits alloc request n Op_FreeBuffer =
     with_response 0 (and_then (decode_object request n) (\<lambda>oid. Inr (DR_FreeBuffer oid)))"
| "decode_body limits alloc request n Op_WriteBuffer =
     with_response 0 (decode_write_buffer request n)"
| "decode_body limits alloc request n Op_ReadBuffer =
     and_then (decode_transfer request n False) (\<lambda>(buffer_id, range).
     and_then (ok_or bde_resource_limit (checked_add RESPONSE_HEADER_BYTES (br_bytes range))) (\<lambda>required.
       Inr (DR_ReadBuffer buffer_id range, required)))"
| "decode_body limits alloc request n Op_LoadProgram =
     with_response size_object_payload (decode_load_program limits request n)"
| "decode_body limits alloc request n Op_UnloadProgram =
     with_response 0 (and_then (decode_object request n) (\<lambda>oid. Inr (DR_UnloadProgram oid)))"
| "decode_body limits alloc request n Op_CreateQueue =
     with_response size_object_payload (decode_create_queue request n)"
| "decode_body limits alloc request n Op_DestroyQueue =
     with_response 0 (and_then (decode_object request n) (\<lambda>oid. Inr (DR_DestroyQueue oid)))"
| "decode_body limits alloc request n Op_Submit =
     with_response size_submit_response
       (and_then (decode_submit limits alloc request n) (\<lambda>(queue_id, program_id, bindings, timeout).
          Inr (DR_Submit queue_id program_id bindings timeout)))"
| "decode_body limits alloc request n Op_PollEvent =
     with_response size_wire_event_state (and_then (decode_object request n) (\<lambda>oid. Inr (DR_PollEvent oid)))"
| "decode_body limits alloc request n Op_CancelEvent =
     with_response 0 (and_then (decode_object request n) (\<lambda>oid. Inr (DR_CancelEvent oid)))"
| "decode_body limits alloc request n Op_DestroyEvent =
     with_response 0 (and_then (decode_object request n) (\<lambda>oid. Inr (DR_DestroyEvent oid)))"

fun map_body_error :: "u64 \<Rightarrow> body_decode_error \<Rightarrow> frame_decode_error" where
  "map_body_error request_id (BDE_Protocol status) = FDE_Protocol request_id status"
| "map_body_error request_id BDE_Access = FDE_Unrecoverable UDE_RequestAccess"

definition decode_frame ::
  "decoder_limits \<Rightarrow> bool \<Rightarrow> byte_source \<Rightarrow> u64 \<Rightarrow> frame_decode_error + decoded_request" where
  "decode_frame limits alloc request response_capacity =
     (if response_capacity < RESPONSE_HEADER_BYTES then Inl (FDE_Unrecoverable UDE_ResponseHeader)
      else if bs_len request < REQUEST_HEADER_BYTES then Inl (FDE_Unrecoverable UDE_RequestHeader)
      else and_then (map_err (\<lambda>_. FDE_Unrecoverable UDE_RequestAccess)
             (read_wire request 0 size_request_header decode_request_header)) (\<lambda>header.
        let request_id = rq_request_id header;
            expected_frame_bytes = REQUEST_HEADER_BYTES + ucast (rq_payload_bytes header)
        in if ucast (dl_max_request_bytes limits) < bs_len request
           then Inl (FDE_Protocol request_id STATUS_RESOURCE_LIMIT)
           else if bs_len request \<noteq> expected_frame_bytes
           then Inl (FDE_Protocol request_id STATUS_INVALID_ARGUMENT)
           else if request_id = 0 then Inl (FDE_Protocol request_id STATUS_INVALID_ARGUMENT)
           else if rq_flags header \<noteq> 0 then Inl (FDE_Protocol request_id STATUS_UNSUPPORTED)
           else and_then (map_err (\<lambda>_. FDE_Protocol request_id STATUS_UNSUPPORTED)
                  (request_header_known_opcode header)) (\<lambda>opcode.
                and_then (map_err (map_body_error request_id)
                  (decode_body limits alloc request (rq_payload_bytes header) opcode))
                  (\<lambda>(body, required_response_bytes).
             if ucast (dl_max_response_bytes limits) < required_response_bytes
             then Inl (FDE_Protocol request_id STATUS_RESOURCE_LIMIT)
             else if response_capacity < required_response_bytes
             then Inl (FDE_InsufficientResponse request_id required_response_bytes response_capacity)
             else Inr \<lparr>dq_request_id = request_id,
                       dq_required_response_bytes = ucast required_response_bytes,
                       dq_body = body\<rparr>))))"

section \<open>Preflight of a chain\<close>

datatype unusable_frame =
    UF_ChainLayout chain_layout_error
  | UF_Request unrecoverable_decode_error
  | UF_InsufficientResponse u64 u64 u64

datatype frame_preflight =
    FP_Ready decoded_request
  | FP_Rejected u64 status_code u32
  | FP_Unusable unusable_frame

datatype frame_preflight_error = FPE_ResponseWrite response_write_error

definition preflight_command_frame ::
  "decoder_limits \<Rightarrow> bool \<Rightarrow> chain_region list \<Rightarrow> byte_source \<Rightarrow> 'k byte_sink \<Rightarrow> 'k
    \<Rightarrow> (frame_preflight_error + frame_preflight) \<times> 'k" where
  "preflight_command_frame limits alloc regions request response k =
     (case and_then (validate_chain_layout regions (dl_max_chain_descriptors limits)) (\<lambda>layout.
             validate_port_lengths layout (bs_len request) (sk_len response k)) of
        Inl error \<Rightarrow> (Inr (FP_Unusable (UF_ChainLayout error)), k)
      | Inr _ \<Rightarrow>
          case decode_frame limits alloc request (sk_len response k) of
            Inr decoded \<Rightarrow> (Inr (FP_Ready decoded), k)
          | Inl (FDE_Protocol request_id status) \<Rightarrow>
              (case write_empty (response_writer_new response (dl_max_response_bytes limits)) k status request_id of
                 (Inl e, k') \<Rightarrow> (Inl (FPE_ResponseWrite e), k')
               | (Inr used, k') \<Rightarrow> (Inr (FP_Rejected request_id status used), k'))
          | Inl (FDE_Unrecoverable error) \<Rightarrow> (Inr (FP_Unusable (UF_Request error)), k)
          | Inl (FDE_InsufficientResponse request_id required available) \<Rightarrow>
              (Inr (FP_Unusable (UF_InsufficientResponse request_id required available)), k))"


end
