(* ===== verification/Command_Engine.thy ===== *)
theory Command_Engine
  imports Accel_Backend Frame_Decoder
begin

text \<open>
  The command engine (\<open>virtio-accel-device/src/engine.rs\<close>): one backend, one object graph, and
  the handlers that turn a decoded request into operations on both and one response. A handler is
  a function of the processor, the state of the response sink and the world of the backend, and
  returns all three with its result. The outcome of every fallible reservation is a parameter.
  Resetting is in \<open>Engine_Reset\<close>.
\<close>

section \<open>Types\<close>

datatype device_health = Running | NeedsReset | BackendDiscardRequired

datatype reset_disposition = RD_BackendReusable | RD_BackendDiscardRequired

record reset_report =
  re_disposition :: reset_disposition
  re_released :: resource_counts
  re_quarantined :: resource_counts
  re_released_bytes :: retained_bytes
  re_quarantined_bytes :: retained_bytes

datatype reset_error = RE_NamespaceReuse | RE_State device_state_config_error

datatype command_processor_init_error =
    PIE_Backend backend_error
  | PIE_DeviceInfo device_info_error
  | PIE_Decoder decoder_limits_error
  | PIE_State device_state_config_error

datatype command_process_error =
    CPE_Preflight frame_preflight_error
  | CPE_ResponseWrite response_write_error

datatype command_outcome =
    CO_Response u64 status_code u32
  | CO_Unusable unusable_frame

datatype submit_create_error =
    SCE_State device_state_error
  | SCE_OutOfMemory
  | SCE_Rejected backend_error
  | SCE_Validation status_code

record ('c, 'b, 'p, 'q, 'e, 'k, 'w) command_processor =
  cp_state :: "('c, 'b, 'p, 'q, 'e) ds"
  cp_accelerator :: "('c, 'b, 'p, 'q, 'e, 'k, 'w) accelerator"
  cp_info :: device_info
  cp_policy :: resource_policy
  cp_decoder :: decoder_limits
  cp_health :: device_health
  cp_quarantined :: resource_counts
  cp_quarantined_bytes :: retained_bytes
  cp_last_reset :: "reset_report option"

type_synonym ('c, 'b, 'p, 'q, 'e, 'k, 'w) cp = "('c, 'b, 'p, 'q, 'e, 'k, 'w) command_processor"

text \<open>What a handler that answers the guest returns, and one that also called the backend.\<close>

type_synonym ('s, 'k) answer = "(command_process_error + command_outcome) \<times> 's \<times> 'k"
type_synonym ('s, 'k, 'w) handled = "(command_process_error + command_outcome) \<times> 's \<times> 'k \<times> 'w"

definition in_world :: "'w \<Rightarrow> ('s, 'k) answer \<Rightarrow> ('s, 'k, 'w) handled" where
  "in_world w a = (fst a, fst (snd a), snd (snd a), w)"

text \<open>The places of the device layer that reserve memory fallibly while a command is processed.\<close>

datatype reservation = Reserve_Decoded | Reserve_Table | Reserve_BufferIds | Reserve_Bindings

definition resource_counts_default :: resource_counts where
  "resource_counts_default =
     \<lparr>rc_contexts = 0, rc_buffers = 0, rc_programs = 0, rc_queues = 0, rc_events = 0\<rparr>"

definition processor_new ::
  "('c, 'b, 'p, 'q, 'e, 'k, 'w) accelerator \<Rightarrow> wire_config \<Rightarrow> object_namespace \<Rightarrow> resource_policy \<Rightarrow> 'w
    \<Rightarrow> (command_processor_init_error + ('c, 'b, 'p, 'q, 'e, 'k, 'w) cp) \<times> 'w" where
  "processor_new accelerator config namespace policy w =
     (case wire_config_validate config of
        Inl e \<Rightarrow> (Inl (PIE_Decoder (DLE_Config e)), w)
      | Inr _ \<Rightarrow>
      case ac_device_info accelerator w of
        (Inl e, w') \<Rightarrow> (Inl (PIE_Backend e), w')
      | (Inr info, w') \<Rightarrow>
          (and_then (map_err PIE_DeviceInfo (device_info_validate info)) (\<lambda>_.
           and_then (map_err PIE_Decoder (decoder_limits_new config info)) (\<lambda>limits.
           and_then (map_err PIE_State (device_state_new namespace (di_limits info) policy)) (\<lambda>state.
             Inr \<lparr>cp_state = state, cp_accelerator = accelerator, cp_info = info, cp_policy = policy,
                  cp_decoder = limits, cp_health = Running, cp_quarantined = resource_counts_default,
                  cp_quarantined_bytes = retained_bytes_default, cp_last_reset = None\<rparr>))), w'))"

definition processor_retained_bytes :: "('c, 'b, 'p, 'q, 'e, 'k, 'w) cp \<Rightarrow> retained_bytes" where
  "processor_retained_bytes cp =
     retained_bytes_saturating_add (ds_retained (cp_state cp)) (cp_quarantined_bytes cp)"

section \<open>Answering the guest\<close>

definition require_backend_discard :: "('c, 'b, 'p, 'q, 'e, 'k, 'w) cp \<Rightarrow> ('c, 'b, 'p, 'q, 'e, 'k, 'w) cp" where
  "require_backend_discard cp = cp\<lparr>cp_health := BackendDiscardRequired, cp_last_reset := None\<rparr>"

definition backend_status ::
  "('c, 'b, 'p, 'q, 'e, 'k, 'w) cp \<Rightarrow> backend_error \<Rightarrow> status_code \<times> ('c, 'b, 'p, 'q, 'e, 'k, 'w) cp" where
  "backend_status cp error =
     (status_from_backend_error error,
      if error = BE_DeviceLost then require_backend_discard cp else cp)"

definition complete_response ::
  "('c, 'b, 'p, 'q, 'e, 'k, 'w) cp \<Rightarrow> response_write_error + u32 \<Rightarrow> status_code \<Rightarrow> u64 \<Rightarrow> bool
    \<Rightarrow> (command_process_error + command_outcome) \<times> ('c, 'b, 'p, 'q, 'e, 'k, 'w) cp" where
  "complete_response cp result status request_id mutated =
     (case result of
        Inr used \<Rightarrow> (Inr (CO_Response request_id status used), cp)
      | Inl error \<Rightarrow>
          (Inl (CPE_ResponseWrite error),
           if mutated \<and> cp_health cp = Running
           then cp\<lparr>cp_health := NeedsReset, cp_last_reset := None\<rparr> else cp))"

text \<open>A frame was written to the sink; the processor takes note.\<close>

definition completed ::
  "('c, 'b, 'p, 'q, 'e, 'k, 'w) cp \<Rightarrow> (response_write_error + u32) \<times> 'k \<Rightarrow> status_code \<Rightarrow> u64 \<Rightarrow> bool
    \<Rightarrow> (('c, 'b, 'p, 'q, 'e, 'k, 'w) cp, 'k) answer" where
  "completed cp written status request_id mutated =
     (case complete_response cp (fst written) status request_id mutated of
        (r, cp') \<Rightarrow> (r, cp', snd written))"

definition respond_empty ::
  "('c, 'b, 'p, 'q, 'e, 'k, 'w) cp \<Rightarrow> 'k byte_sink \<Rightarrow> 'k \<Rightarrow> status_code \<Rightarrow> u64 \<Rightarrow> bool
    \<Rightarrow> (('c, 'b, 'p, 'q, 'e, 'k, 'w) cp, 'k) answer" where
  "respond_empty cp response k status request_id mutated =
     completed cp
       (write_empty (response_writer_new response (dl_max_response_bytes (cp_decoder cp))) k status request_id)
       status request_id mutated"

definition write_bytes :: "'k response_writer \<Rightarrow> 'k \<Rightarrow> status_code \<Rightarrow> u64 \<Rightarrow> u8 list
    \<Rightarrow> (response_write_error + u32) \<times> 'k" where
  "write_bytes writer k status request_id payload =
     (if length payload < 2 ^ 64
      then case response_payload_of writer k (of_nat (length payload)) of
             Inl e \<Rightarrow> (Inl e, k)
           | Inr destination \<Rightarrow>
               case payload_write_at destination k 0 payload of
                 (Inl _, k') \<Rightarrow> (Inl RWE_SinkAccess, k')
               | (Inr _, k') \<Rightarrow> payload_commit destination k' status request_id
      else (Inl RWE_FrameTooLarge, k))"

definition respond_bytes ::
  "('c, 'b, 'p, 'q, 'e, 'k, 'w) cp \<Rightarrow> 'k byte_sink \<Rightarrow> 'k \<Rightarrow> status_code \<Rightarrow> u64 \<Rightarrow> u8 list \<Rightarrow> bool
    \<Rightarrow> (('c, 'b, 'p, 'q, 'e, 'k, 'w) cp, 'k) answer" where
  "respond_bytes cp response k status request_id payload mutated =
     completed cp
       (write_bytes (response_writer_new response (dl_max_response_bytes (cp_decoder cp))) k status request_id payload)
       status request_id mutated"

definition respond_object ::
  "('c, 'b, 'p, 'q, 'e, 'k, 'w) cp \<Rightarrow> 'k byte_sink \<Rightarrow> 'k \<Rightarrow> u64 \<Rightarrow> object_id \<Rightarrow> bool
    \<Rightarrow> (('c, 'b, 'p, 'q, 'e, 'k, 'w) cp, 'k) answer" where
  "respond_object cp response k request_id oid mutated =
     respond_bytes cp response k STATUS_OK request_id (encode_object_payload \<lparr>op_object_id = oid\<rparr>) mutated"

definition respond_event_id ::
  "('c, 'b, 'p, 'q, 'e, 'k, 'w) cp \<Rightarrow> 'k byte_sink \<Rightarrow> 'k \<Rightarrow> status_code \<Rightarrow> u64 \<Rightarrow> object_id \<Rightarrow> bool
    \<Rightarrow> (('c, 'b, 'p, 'q, 'e, 'k, 'w) cp, 'k) answer" where
  "respond_event_id cp response k status request_id oid mutated =
     respond_bytes cp response k status request_id (encode_submit_response \<lparr>sr_event_id = oid\<rparr>) mutated"

definition respond_state_error ::
  "('c, 'b, 'p, 'q, 'e, 'k, 'w) cp \<Rightarrow> 'k byte_sink \<Rightarrow> 'k \<Rightarrow> u64 \<Rightarrow> device_state_error
    \<Rightarrow> (('c, 'b, 'p, 'q, 'e, 'k, 'w) cp, 'k) answer" where
  "respond_state_error cp response k request_id error =
     respond_empty cp response k (status_from_device_state_error error) request_id False"

definition respond_backend_error ::
  "('c, 'b, 'p, 'q, 'e, 'k, 'w) cp \<Rightarrow> 'k byte_sink \<Rightarrow> 'k \<Rightarrow> u64 \<Rightarrow> backend_error \<Rightarrow> bool
    \<Rightarrow> (('c, 'b, 'p, 'q, 'e, 'k, 'w) cp, 'k) answer" where
  "respond_backend_error cp response k request_id error mutated =
     (case backend_status cp error of
        (status, cp') \<Rightarrow> respond_empty cp' response k status request_id mutated)"

definition respond_create_error ::
  "('c, 'b, 'p, 'q, 'e, 'k, 'w) cp \<Rightarrow> 'k byte_sink \<Rightarrow> 'k \<Rightarrow> u64 \<Rightarrow> backend_error create_error
    \<Rightarrow> (('c, 'b, 'p, 'q, 'e, 'k, 'w) cp, 'k) answer" where
  "respond_create_error cp response k request_id error =
     (case error of
        CE_State e \<Rightarrow> respond_state_error cp response k request_id e
      | CE_Provider e \<Rightarrow> respond_backend_error cp response k request_id e False)"

definition discard_response ::
  "('c, 'b, 'p, 'q, 'e, 'k, 'w) cp \<Rightarrow> 'k byte_sink \<Rightarrow> 'k \<Rightarrow> u64
    \<Rightarrow> (('c, 'b, 'p, 'q, 'e, 'k, 'w) cp, 'k) answer" where
  "discard_response cp response k request_id =
     respond_empty (require_backend_discard cp) response k STATUS_DEVICE_LOST request_id True"

definition wire_device_info_of :: "device_info \<Rightarrow> wire_device_info" where
  "wire_device_info_of info =
     \<lparr>wd_uuid = di_uuid (di_identity info), wd_class = di_class (di_identity info), wd_reserved = 0,
      wd_vendor_id = di_vendor_id (di_identity info), wd_device_id = di_device_id (di_identity info),
      wd_capabilities = di_capabilities info,
      wd_max_contexts = max_contexts (di_limits info),
      wd_max_buffers_per_context = max_buffers_per_context (di_limits info),
      wd_max_programs_per_context = max_programs_per_context (di_limits info),
      wd_max_queues_per_context = max_queues_per_context (di_limits info),
      wd_max_events_per_context = max_events_per_context (di_limits info),
      wd_max_bindings_per_submission = max_bindings_per_submission (di_limits info),
      wd_max_buffer_bytes = max_buffer_bytes (di_limits info),
      wd_max_artifact_bytes = max_artifact_bytes (di_limits info)\<rparr>"

fun wire_event_state_of :: "event_state \<Rightarrow> wire_event_state" where
  "wire_event_state_of ES_Pending = \<lparr>we_state = event_state_code KE_Pending, we_error = STATUS_OK, we_reserved = 0\<rparr>"
| "wire_event_state_of ES_Complete = \<lparr>we_state = event_state_code KE_Complete, we_error = STATUS_OK, we_reserved = 0\<rparr>"
| "wire_event_state_of (ES_Failed error) =
     \<lparr>we_state = event_state_code KE_Failed, we_error = status_from_backend_error error, we_reserved = 0\<rparr>"
| "wire_event_state_of ES_Cancelled = \<lparr>we_state = event_state_code KE_Cancelled, we_error = STATUS_OK, we_reserved = 0\<rparr>"

section \<open>Releasing objects\<close>

definition destroy_context ::
  "('c, 'b, 'p, 'q, 'e, 'k, 'w) cp \<Rightarrow> 'k byte_sink \<Rightarrow> 'k \<Rightarrow> 'w \<Rightarrow> u64 \<Rightarrow> object_id
    \<Rightarrow> (('c, 'b, 'p, 'q, 'e, 'k, 'w) cp, 'k, 'w) handled" where
  "destroy_context cp response k w request_id oid =
     (case begin_context_release (cp_state cp) oid of
        (Inl e, s) \<Rightarrow> in_world w (respond_state_error (cp\<lparr>cp_state := s\<rparr>) response k request_id e)
      | (Inr resource, s) \<Rightarrow>
      case ac_destroy_context (cp_accelerator cp) resource w of
        (Inr _, w') \<Rightarrow>
          (case commit_context_release s oid of
             (Inr _, s') \<Rightarrow> in_world w' (respond_empty (cp\<lparr>cp_state := s'\<rparr>) response k STATUS_OK request_id True)
           | (Inl _, s') \<Rightarrow> in_world w' (discard_response (cp\<lparr>cp_state := s'\<rparr>) response k request_id))
      | (Inl (RF_Rejected e resource'), w') \<Rightarrow>
          (case restore_context_release s oid resource' of
             (Inr _, s') \<Rightarrow> in_world w' (respond_backend_error (cp\<lparr>cp_state := s'\<rparr>) response k request_id e False)
           | (Inl _, s') \<Rightarrow> in_world w' (discard_response (cp\<lparr>cp_state := s'\<rparr>) response k request_id))
      | (Inl (RF_Indeterminate _), w') \<Rightarrow>
          (case commit_context_release s oid of
             (Inr _, s') \<Rightarrow> in_world w' (discard_response
               (cp\<lparr>cp_state := s', cp_quarantined := (cp_quarantined cp)
                 \<lparr>rc_contexts := rc_contexts (cp_quarantined cp) + 1\<rparr>\<rparr>) response k request_id)
           | (Inl _, s') \<Rightarrow> in_world w' (discard_response (cp\<lparr>cp_state := s'\<rparr>) response k request_id)))"

definition free_buffer ::
  "('c, 'b, 'p, 'q, 'e, 'k, 'w) cp \<Rightarrow> 'k byte_sink \<Rightarrow> 'k \<Rightarrow> 'w \<Rightarrow> u64 \<Rightarrow> object_id
    \<Rightarrow> (('c, 'b, 'p, 'q, 'e, 'k, 'w) cp, 'k, 'w) handled" where
  "free_buffer cp response k w request_id oid =
     (case ds_buffer_record (cp_state cp) oid of
        Inl e \<Rightarrow> in_world w (respond_state_error cp response k request_id e)
      | Inr record \<Rightarrow>
      case begin_buffer_release (cp_state cp) oid of
        (Inl e, s) \<Rightarrow> in_world w (respond_state_error (cp\<lparr>cp_state := s\<rparr>) response k request_id e)
      | (Inr resource, s) \<Rightarrow>
      case ac_free_buffer (cp_accelerator cp) resource w of
        (Inr _, w') \<Rightarrow>
          (case commit_buffer_release s oid of
             (Inr _, s') \<Rightarrow> in_world w' (respond_empty (cp\<lparr>cp_state := s'\<rparr>) response k STATUS_OK request_id True)
           | (Inl _, s') \<Rightarrow> in_world w' (discard_response (cp\<lparr>cp_state := s'\<rparr>) response k request_id))
      | (Inl (RF_Rejected e resource'), w') \<Rightarrow>
          (case restore_buffer_release s oid resource' of
             (Inr _, s') \<Rightarrow> in_world w' (respond_backend_error (cp\<lparr>cp_state := s'\<rparr>) response k request_id e False)
           | (Inl _, s') \<Rightarrow> in_world w' (discard_response (cp\<lparr>cp_state := s'\<rparr>) response k request_id))
      | (Inl (RF_Indeterminate _), w') \<Rightarrow>
          (case commit_buffer_release s oid of
             (Inr _, s') \<Rightarrow> in_world w' (discard_response
               (cp\<lparr>cp_state := s', cp_quarantined := (cp_quarantined cp)
                   \<lparr>rc_buffers := rc_buffers (cp_quarantined cp) + 1\<rparr>,
                 cp_quarantined_bytes := (cp_quarantined_bytes cp)
                   \<lparr>rt_buffer_backing := rt_buffer_backing (cp_quarantined_bytes cp)
                     + ucast (bi_allocation_bytes (bu_info record))\<rparr>\<rparr>) response k request_id)
           | (Inl _, s') \<Rightarrow> in_world w' (discard_response (cp\<lparr>cp_state := s'\<rparr>) response k request_id)))"

definition unload_program ::
  "('c, 'b, 'p, 'q, 'e, 'k, 'w) cp \<Rightarrow> 'k byte_sink \<Rightarrow> 'k \<Rightarrow> 'w \<Rightarrow> u64 \<Rightarrow> object_id
    \<Rightarrow> (('c, 'b, 'p, 'q, 'e, 'k, 'w) cp, 'k, 'w) handled" where
  "unload_program cp response k w request_id oid =
     (case ds_program_record (cp_state cp) oid of
        Inl e \<Rightarrow> in_world w (respond_state_error cp response k request_id e)
      | Inr record \<Rightarrow>
      case begin_program_release (cp_state cp) oid of
        (Inl e, s) \<Rightarrow> in_world w (respond_state_error (cp\<lparr>cp_state := s\<rparr>) response k request_id e)
      | (Inr resource, s) \<Rightarrow>
      case ac_unload_program (cp_accelerator cp) resource w of
        (Inr _, w') \<Rightarrow>
          (case commit_program_release s oid of
             (Inr _, s') \<Rightarrow> in_world w' (respond_empty (cp\<lparr>cp_state := s'\<rparr>) response k STATUS_OK request_id True)
           | (Inl _, s') \<Rightarrow> in_world w' (discard_response (cp\<lparr>cp_state := s'\<rparr>) response k request_id))
      | (Inl (RF_Rejected e resource'), w') \<Rightarrow>
          (case restore_program_release s oid resource' of
             (Inr _, s') \<Rightarrow> in_world w' (respond_backend_error (cp\<lparr>cp_state := s'\<rparr>) response k request_id e False)
           | (Inl _, s') \<Rightarrow> in_world w' (discard_response (cp\<lparr>cp_state := s'\<rparr>) response k request_id))
      | (Inl (RF_Indeterminate _), w') \<Rightarrow>
          (case commit_program_release s oid of
             (Inr _, s') \<Rightarrow> in_world w' (discard_response
               (cp\<lparr>cp_state := s', cp_quarantined := (cp_quarantined cp)
                   \<lparr>rc_programs := rc_programs (cp_quarantined cp) + 1\<rparr>,
                 cp_quarantined_bytes := (cp_quarantined_bytes cp)
                   \<lparr>rt_program_resident := rt_program_resident (cp_quarantined_bytes cp)
                     + ucast (pr_resident_bytes record)\<rparr>\<rparr>) response k request_id)
           | (Inl _, s') \<Rightarrow> in_world w' (discard_response (cp\<lparr>cp_state := s'\<rparr>) response k request_id)))"

definition destroy_queue ::
  "('c, 'b, 'p, 'q, 'e, 'k, 'w) cp \<Rightarrow> 'k byte_sink \<Rightarrow> 'k \<Rightarrow> 'w \<Rightarrow> u64 \<Rightarrow> object_id
    \<Rightarrow> (('c, 'b, 'p, 'q, 'e, 'k, 'w) cp, 'k, 'w) handled" where
  "destroy_queue cp response k w request_id oid =
     (case begin_queue_release (cp_state cp) oid of
        (Inl e, s) \<Rightarrow> in_world w (respond_state_error (cp\<lparr>cp_state := s\<rparr>) response k request_id e)
      | (Inr resource, s) \<Rightarrow>
      case ac_destroy_queue (cp_accelerator cp) resource w of
        (Inr _, w') \<Rightarrow>
          (case commit_queue_release s oid of
             (Inr _, s') \<Rightarrow> in_world w' (respond_empty (cp\<lparr>cp_state := s'\<rparr>) response k STATUS_OK request_id True)
           | (Inl _, s') \<Rightarrow> in_world w' (discard_response (cp\<lparr>cp_state := s'\<rparr>) response k request_id))
      | (Inl (RF_Rejected e resource'), w') \<Rightarrow>
          (case restore_queue_release s oid resource' of
             (Inr _, s') \<Rightarrow> in_world w' (respond_backend_error (cp\<lparr>cp_state := s'\<rparr>) response k request_id e False)
           | (Inl _, s') \<Rightarrow> in_world w' (discard_response (cp\<lparr>cp_state := s'\<rparr>) response k request_id))
      | (Inl (RF_Indeterminate _), w') \<Rightarrow>
          (case commit_queue_release s oid of
             (Inr _, s') \<Rightarrow> in_world w' (discard_response
               (cp\<lparr>cp_state := s', cp_quarantined := (cp_quarantined cp)
                 \<lparr>rc_queues := rc_queues (cp_quarantined cp) + 1\<rparr>\<rparr>) response k request_id)
           | (Inl _, s') \<Rightarrow> in_world w' (discard_response (cp\<lparr>cp_state := s'\<rparr>) response k request_id)))"

definition release_unpublished_buffer ::
  "('c, 'b, 'p, 'q, 'e, 'k, 'w) cp \<Rightarrow> 'k byte_sink \<Rightarrow> 'k \<Rightarrow> 'w \<Rightarrow> u64 \<Rightarrow> object_id \<Rightarrow> backend_error
    \<Rightarrow> (('c, 'b, 'p, 'q, 'e, 'k, 'w) cp, 'k, 'w) handled" where
  "release_unpublished_buffer cp response k w request_id oid admission_error =
     (case ds_buffer_record (cp_state cp) oid of
        Inl _ \<Rightarrow> in_world w (discard_response cp response k request_id)
      | Inr record \<Rightarrow>
      case begin_buffer_release (cp_state cp) oid of
        (Inl _, s) \<Rightarrow> in_world w (discard_response (cp\<lparr>cp_state := s\<rparr>) response k request_id)
      | (Inr resource, s) \<Rightarrow>
      case ac_free_buffer (cp_accelerator cp) resource w of
        (Inr _, w') \<Rightarrow>
          (case commit_buffer_release s oid of
             (Inr _, s') \<Rightarrow> in_world w'
               (respond_backend_error (cp\<lparr>cp_state := s'\<rparr>) response k request_id admission_error False)
           | (Inl _, s') \<Rightarrow> in_world w' (discard_response (cp\<lparr>cp_state := s'\<rparr>) response k request_id))
      | (Inl (RF_Rejected _ resource'), w') \<Rightarrow>
          (case restore_buffer_release s oid resource' of
             (_, s') \<Rightarrow> in_world w' (discard_response (cp\<lparr>cp_state := s'\<rparr>) response k request_id))
      | (Inl (RF_Indeterminate _), w') \<Rightarrow>
          (case commit_buffer_release s oid of
             (Inr _, s') \<Rightarrow> in_world w' (discard_response
               (cp\<lparr>cp_state := s', cp_quarantined := (cp_quarantined cp)
                   \<lparr>rc_buffers := rc_buffers (cp_quarantined cp) + 1\<rparr>,
                 cp_quarantined_bytes := (cp_quarantined_bytes cp)
                   \<lparr>rt_buffer_backing := rt_buffer_backing (cp_quarantined_bytes cp)
                     + ucast (bi_allocation_bytes (bu_info record))\<rparr>\<rparr>) response k request_id)
           | (Inl _, s') \<Rightarrow> in_world w' (discard_response (cp\<lparr>cp_state := s'\<rparr>) response k request_id)))"

section \<open>Events\<close>

text \<open>The handle of a live event: \<open>event_record(id)\<close> and then \<open>resource()\<close>.\<close>

definition event_handle :: "('c, 'b, 'p, 'q, 'e) ds \<Rightarrow> object_id \<Rightarrow> device_state_error + 'e" where
  "event_handle s oid = and_then (ds_event_record s oid) (\<lambda>record. resource_slot_get (ev_resource record))"

definition poll_event ::
  "('c, 'b, 'p, 'q, 'e, 'k, 'w) cp \<Rightarrow> 'k byte_sink \<Rightarrow> 'k \<Rightarrow> 'w \<Rightarrow> u64 \<Rightarrow> object_id
    \<Rightarrow> (('c, 'b, 'p, 'q, 'e, 'k, 'w) cp, 'k, 'w) handled" where
  "poll_event cp response k w request_id event_id =
     (case event_handle (cp_state cp) event_id of
        Inl e \<Rightarrow> in_world w (respond_state_error cp response k request_id e)
      | Inr event \<Rightarrow>
      case ac_poll_event (cp_accelerator cp) event w of
        (Inr state, w') \<Rightarrow>
          in_world w' (respond_bytes
            (if state = ES_Failed BE_DeviceLost then require_backend_discard cp else cp)
            response k STATUS_OK request_id (encode_wire_event_state (wire_event_state_of state)) False)
      | (Inl e, w') \<Rightarrow> in_world w' (respond_backend_error cp response k request_id e False))"

definition cancel_event ::
  "('c, 'b, 'p, 'q, 'e, 'k, 'w) cp \<Rightarrow> 'k byte_sink \<Rightarrow> 'k \<Rightarrow> 'w \<Rightarrow> u64 \<Rightarrow> object_id
    \<Rightarrow> (('c, 'b, 'p, 'q, 'e, 'k, 'w) cp, 'k, 'w) handled" where
  "cancel_event cp response k w request_id event_id =
     (case validate_event_cancellation (cp_info cp) of
        Inl _ \<Rightarrow> in_world w (respond_empty cp response k STATUS_UNSUPPORTED request_id False)
      | Inr _ \<Rightarrow>
      case event_handle (cp_state cp) event_id of
        Inl e \<Rightarrow> in_world w (respond_state_error cp response k request_id e)
      | Inr event \<Rightarrow>
      case ac_cancel_event (cp_accelerator cp) event w of
        (Inr _, w') \<Rightarrow> in_world w' (respond_empty cp response k STATUS_OK request_id True)
      | (Inl e, w') \<Rightarrow> in_world w' (respond_backend_error cp response k request_id e False))"

text \<open>The second half of \<open>destroy_event\<close>, once the event has been polled terminal.\<close>

definition release_event ::
  "('c, 'b, 'p, 'q, 'e, 'k, 'w) cp \<Rightarrow> 'k byte_sink \<Rightarrow> 'k \<Rightarrow> 'w \<Rightarrow> u64 \<Rightarrow> object_id
    \<Rightarrow> (('c, 'b, 'p, 'q, 'e, 'k, 'w) cp, 'k, 'w) handled" where
  "release_event cp response k w request_id oid =
     (case begin_event_release (cp_state cp) oid of
        (Inl e, s) \<Rightarrow> in_world w (respond_state_error (cp\<lparr>cp_state := s\<rparr>) response k request_id e)
      | (Inr resource, s) \<Rightarrow>
      case ac_destroy_event (cp_accelerator cp) resource w of
        (Inr _, w') \<Rightarrow>
          (case commit_event_release s oid of
             (Inr _, s') \<Rightarrow> in_world w' (respond_empty (cp\<lparr>cp_state := s'\<rparr>) response k STATUS_OK request_id True)
           | (Inl _, s') \<Rightarrow> in_world w' (discard_response (cp\<lparr>cp_state := s'\<rparr>) response k request_id))
      | (Inl (RF_Rejected e resource'), w') \<Rightarrow>
          (case restore_event_release s oid resource' of
             (Inr _, s') \<Rightarrow> in_world w' (respond_backend_error (cp\<lparr>cp_state := s'\<rparr>) response k request_id e False)
           | (Inl _, s') \<Rightarrow> in_world w' (discard_response (cp\<lparr>cp_state := s'\<rparr>) response k request_id))
      | (Inl (RF_Indeterminate _), w') \<Rightarrow>
          (case commit_event_release s oid of
             (Inr _, s') \<Rightarrow> in_world w' (discard_response
               (cp\<lparr>cp_state := s', cp_quarantined := (cp_quarantined cp)
                 \<lparr>rc_events := rc_events (cp_quarantined cp) + 1\<rparr>\<rparr>) response k request_id)
           | (Inl _, s') \<Rightarrow> in_world w' (discard_response (cp\<lparr>cp_state := s'\<rparr>) response k request_id)))"

definition destroy_event ::
  "('c, 'b, 'p, 'q, 'e, 'k, 'w) cp \<Rightarrow> 'k byte_sink \<Rightarrow> 'k \<Rightarrow> 'w \<Rightarrow> u64 \<Rightarrow> object_id
    \<Rightarrow> (('c, 'b, 'p, 'q, 'e, 'k, 'w) cp, 'k, 'w) handled" where
  "destroy_event cp response k w request_id event_id =
     (case event_handle (cp_state cp) event_id of
        Inl e \<Rightarrow> in_world w (respond_state_error cp response k request_id e)
      | Inr event \<Rightarrow>
      case ac_poll_event (cp_accelerator cp) event w of
        (Inl e, w') \<Rightarrow> in_world w' (respond_backend_error cp response k request_id e False)
      | (Inr state, w') \<Rightarrow>
          if state = ES_Pending
          then in_world w' (respond_empty cp response k STATUS_BUSY request_id False)
          else if state = ES_Failed BE_DeviceLost
          then in_world w' (respond_empty (require_backend_discard cp) response k STATUS_DEVICE_LOST request_id False)
          else release_event cp response k w' request_id event_id)"

section \<open>Transfers\<close>

definition validate_transfer :: "'b buffer_record \<Rightarrow> buffer_range \<Rightarrow> buffer_usage \<Rightarrow> status_code + unit" where
  "validate_transfer record rng required_usage =
     (if bu_in_flight record \<noteq> 0 then Inl STATUS_BUSY
      else if bd_bytes (bi_desc (bu_info record)) < buffer_range_end rng then Inl STATUS_OUT_OF_BOUNDS
      else if \<not> flags_contain (bd_usage (bi_desc (bu_info record))) required_usage
      then Inl STATUS_PERMISSION_DENIED
      else Inr ())"

definition write_buffer ::
  "('c, 'b, 'p, 'q, 'e, 'k, 'w) cp \<Rightarrow> 'k byte_sink \<Rightarrow> 'k \<Rightarrow> 'w \<Rightarrow> u64 \<Rightarrow> object_id \<Rightarrow> buffer_range \<Rightarrow> byte_source
    \<Rightarrow> (('c, 'b, 'p, 'q, 'e, 'k, 'w) cp, 'k, 'w) handled" where
  "write_buffer cp response k w request_id buffer_id rng data =
     (case ds_buffer_record_mut (cp_state cp) buffer_id of
        Inl e \<Rightarrow> in_world w (respond_state_error cp response k request_id e)
      | Inr (record, assign) \<Rightarrow>
      case validate_transfer record rng TRANSFER_DESTINATION of
        Inl status \<Rightarrow> in_world w (respond_empty cp response k status request_id False)
      | Inr _ \<Rightarrow>
      case resource_slot_get (bu_resource record) of
        Inl e \<Rightarrow> in_world w (respond_state_error cp response k request_id e)
      | Inr buffer \<Rightarrow>
      case ac_write_buffer (cp_accelerator cp) buffer (br_offset rng) data w of
        (r, buffer', w') \<Rightarrow>
          let cp' = cp\<lparr>cp_state := assign (record\<lparr>bu_resource :=
                (bu_resource record)\<lparr>rs_resource := Some buffer'\<rparr>\<rparr>)\<rparr>
          in in_world w' (case r of
               Inr _ \<Rightarrow> respond_empty cp' response k STATUS_OK request_id True
             | Inl e \<Rightarrow> respond_backend_error cp' response k request_id e True))"

definition read_buffer ::
  "('c, 'b, 'p, 'q, 'e, 'k, 'w) cp \<Rightarrow> 'k byte_sink \<Rightarrow> 'k \<Rightarrow> 'w \<Rightarrow> u64 \<Rightarrow> object_id \<Rightarrow> buffer_range
    \<Rightarrow> (('c, 'b, 'p, 'q, 'e, 'k, 'w) cp, 'k, 'w) handled" where
  "read_buffer cp response k w request_id buffer_id rng =
     (case ds_buffer_record (cp_state cp) buffer_id of
        Inl e \<Rightarrow> in_world w (respond_state_error cp response k request_id e)
      | Inr record \<Rightarrow>
      case validate_transfer record rng TRANSFER_SOURCE of
        Inl status \<Rightarrow> in_world w (respond_empty cp response k status request_id False)
      | Inr _ \<Rightarrow>
      case resource_slot_get (bu_resource record) of
        Inl e \<Rightarrow> in_world w (respond_state_error cp response k request_id e)
      | Inr buffer \<Rightarrow>
          let writer = response_writer_new response (dl_max_response_bytes (cp_decoder cp)) in
          case response_payload_of writer k (br_bytes rng) of
            Inl e \<Rightarrow> (Inl (CPE_ResponseWrite e), cp, k, w)
          | Inr payload \<Rightarrow>
          case ac_read_buffer (cp_accelerator cp) buffer (br_offset rng) (payload_port payload) k w of
            (Inr _, k', w') \<Rightarrow>
              in_world w' (completed cp (payload_commit payload k' STATUS_OK request_id) STATUS_OK request_id False)
          | (Inl e, k', w') \<Rightarrow>
              (case backend_status cp e of
                 (status, cp') \<Rightarrow>
                   in_world w' (completed cp' (write_empty writer k' status request_id) status request_id False)))"

section \<open>Submission\<close>

text \<open>
  The closure of \<open>submit\<close> collects the native bindings, validates them, and calls the backend. It
  assigns two variables of its caller, the admission status and whether the backend must be
  discarded: they travel beside the world.
\<close>

fun native_bindings ::
  "('b, 'p, 'q) submission_resources \<Rightarrow> decoded_binding list \<Rightarrow> submit_create_error + 'b binding_ref list" where
  "native_bindings resources [] = Inr []"
| "native_bindings resources (binding # bindings) =
     and_then (map_err SCE_State (buffer_with_info_by_id resources (db_buffer_id binding))) (\<lambda>(buffer, info).
       if bd_bytes (bi_desc info) < buffer_range_end (db_range binding)
       then Inl (SCE_Validation STATUS_OUT_OF_BOUNDS)
       else if \<not> allows_access (bi_desc info) (db_access binding)
       then Inl (SCE_Validation STATUS_PERMISSION_DENIED)
       else and_then (native_bindings resources bindings) (\<lambda>native.
         Inr (\<lparr>bf_slot = db_slot binding, bf_buffer = buffer, bf_range = db_range binding,
               bf_access = db_access binding\<rparr> # native)))"

definition validated_bindings ::
  "bool \<Rightarrow> ('b, 'p, 'q) submission_resources \<Rightarrow> decoded_binding list \<Rightarrow> u32
    \<Rightarrow> submit_create_error + 'b binding_ref list" where
  "validated_bindings alloc resources bindings max_bindings =
     (if \<not> alloc then Inl SCE_OutOfMemory
      else and_then (native_bindings resources bindings) (\<lambda>native.
           and_then (map_err (\<lambda>e. SCE_Validation (status_from_backend_error e)) (validate_bindings native max_bindings))
             (\<lambda>_. Inr native)))"

definition admit_submission ::
  "('c, 'b, 'p, 'q, 'e, 'k, 'w) accelerator \<Rightarrow> bool \<Rightarrow> decoded_binding list \<Rightarrow> u32 \<Rightarrow> timeout
    \<Rightarrow> ('b, 'p, 'q) submission_resources \<Rightarrow> 'w \<times> status_code \<times> bool
    \<Rightarrow> (submit_create_error + 'e) \<times> 'w \<times> status_code \<times> bool" where
  "admit_submission accelerator alloc bindings max_bindings timeout resources v =
     (case v of (w, admission_status, admission_requires_discard) \<Rightarrow>
      case validated_bindings alloc resources bindings max_bindings of
        Inl e \<Rightarrow> (Inl e, w, admission_status, admission_requires_discard)
      | Inr native \<Rightarrow>
      case ac_submit accelerator (sub_queue resources) (sub_program resources) native timeout w of
        (Inr event, w') \<Rightarrow> (Inr event, w', admission_status, admission_requires_discard)
      | (Inl (SF_Rejected e), w') \<Rightarrow> (Inl (SCE_Rejected e), w', admission_status, admission_requires_discard)
      | (Inl (SF_Indeterminate e event), w') \<Rightarrow>
          (Inr event, w', status_from_backend_error e, e = BE_DeviceLost))"

definition submit ::
  "('c, 'b, 'p, 'q, 'e, 'k, 'w) cp \<Rightarrow> (reservation \<Rightarrow> bool) \<Rightarrow> 'k byte_sink \<Rightarrow> 'k \<Rightarrow> 'w \<Rightarrow> u64
    \<Rightarrow> object_id \<Rightarrow> object_id \<Rightarrow> decoded_binding list \<Rightarrow> timeout
    \<Rightarrow> (('c, 'b, 'p, 'q, 'e, 'k, 'w) cp, 'k, 'w) handled" where
  "submit cp alloc response k w request_id queue_id program_id bindings timeout =
     (if \<not> alloc Reserve_BufferIds
      then in_world w (respond_empty cp response k STATUS_OUT_OF_MEMORY request_id False)
      else
      case create_event_with (alloc Reserve_Table) queue_id program_id (map db_buffer_id bindings)
             (admit_submission (cp_accelerator cp) (alloc Reserve_Bindings) bindings
               (max_bindings_per_submission (di_limits (cp_info cp))) timeout)
             (cp_state cp) (w, STATUS_OK, False) of
        (r, s, w', admission_status, admission_requires_discard) \<Rightarrow>
          let cp' = cp\<lparr>cp_state := s\<rparr> in
          in_world w' (case r of
            Inr event_id \<Rightarrow>
              respond_event_id (if admission_requires_discard then require_backend_discard cp' else cp')
                response k admission_status request_id event_id True
          | Inl (CE_State e) \<Rightarrow> respond_state_error cp' response k request_id e
          | Inl (CE_Provider (SCE_Rejected e)) \<Rightarrow> respond_backend_error cp' response k request_id e False
          | Inl (CE_Provider SCE_OutOfMemory) \<Rightarrow>
              respond_empty cp' response k STATUS_OUT_OF_MEMORY request_id False
          | Inl (CE_Provider (SCE_Validation status)) \<Rightarrow> respond_empty cp' response k status request_id False
          | Inl (CE_Provider (SCE_State _)) \<Rightarrow> discard_response cp' response k request_id))"

section \<open>Dispatch and processing\<close>

text \<open>The arms of \<open>dispatch\<close> that create an object.\<close>

definition dispatch_create_context ::
  "('c, 'b, 'p, 'q, 'e, 'k, 'w) cp \<Rightarrow> (reservation \<Rightarrow> bool) \<Rightarrow> 'k byte_sink \<Rightarrow> 'k \<Rightarrow> 'w \<Rightarrow> u64 \<Rightarrow> context_desc
    \<Rightarrow> (('c, 'b, 'p, 'q, 'e, 'k, 'w) cp, 'k, 'w) handled" where
  "dispatch_create_context cp alloc response k w request_id desc =
     (case validate_context_desc (cp_info cp) desc of
        Inl e \<Rightarrow> in_world w (respond_backend_error cp response k request_id e False)
      | Inr _ \<Rightarrow>
      case create_context_with (alloc Reserve_Table) (ac_create_context (cp_accelerator cp) desc) (cp_state cp) w of
        (Inr oid, s, w') \<Rightarrow> in_world w' (respond_object (cp\<lparr>cp_state := s\<rparr>) response k request_id oid True)
      | (Inl e, s, w') \<Rightarrow> in_world w' (respond_create_error (cp\<lparr>cp_state := s\<rparr>) response k request_id e))"

definition allocate_parts ::
  "('c, 'b, 'p, 'q, 'e, 'k, 'w) accelerator \<Rightarrow> 'c \<Rightarrow> buffer_desc \<Rightarrow> 'w \<Rightarrow> (backend_error + ('b \<times> buffer_info)) \<times> 'w" where
  "allocate_parts accelerator context desc w =
     (case ac_allocate_buffer accelerator context desc w of
        (Inl e, w') \<Rightarrow> (Inl e, w')
      | (Inr allocated, w') \<Rightarrow> (Inr (allocated_buffer_into_parts allocated), w'))"

definition dispatch_allocate_buffer ::
  "('c, 'b, 'p, 'q, 'e, 'k, 'w) cp \<Rightarrow> (reservation \<Rightarrow> bool) \<Rightarrow> 'k byte_sink \<Rightarrow> 'k \<Rightarrow> 'w \<Rightarrow> u64 \<Rightarrow> object_id \<Rightarrow> buffer_desc
    \<Rightarrow> (('c, 'b, 'p, 'q, 'e, 'k, 'w) cp, 'k, 'w) handled" where
  "dispatch_allocate_buffer cp alloc response k w request_id context_id desc =
     (case validate_buffer_desc (cp_info cp) desc of
        Inl e \<Rightarrow> in_world w (respond_backend_error cp response k request_id e False)
      | Inr _ \<Rightarrow>
      case create_buffer_with (alloc Reserve_Table) context_id desc (allocate_parts (cp_accelerator cp)) (cp_state cp) w of
        (Inr (BCO_Admitted oid), s, w') \<Rightarrow>
          in_world w' (respond_object (cp\<lparr>cp_state := s\<rparr>) response k request_id oid True)
      | (Inr (BCO_CleanupRequired oid error), s, w') \<Rightarrow>
          release_unpublished_buffer (cp\<lparr>cp_state := s\<rparr>) response k w' request_id oid error
      | (Inl e, s, w') \<Rightarrow> in_world w' (respond_create_error (cp\<lparr>cp_state := s\<rparr>) response k request_id e))"

definition dispatch_load_program ::
  "('c, 'b, 'p, 'q, 'e, 'k, 'w) cp \<Rightarrow> (reservation \<Rightarrow> bool) \<Rightarrow> 'k byte_sink \<Rightarrow> 'k \<Rightarrow> 'w \<Rightarrow> u64 \<Rightarrow> object_id
    \<Rightarrow> u32 \<Rightarrow> u32 list \<Rightarrow> readable_region \<Rightarrow> u64 \<Rightarrow> (('c, 'b, 'p, 'q, 'e, 'k, 'w) cp, 'k, 'w) handled" where
  "dispatch_load_program cp alloc response k w request_id context_id format target payload resident_bytes =
     (case create_program_with (alloc Reserve_Table) context_id (bs_len (readable_region_port payload)) resident_bytes
             (\<lambda>context. ac_load_program (cp_accelerator cp) context
                \<lparr>ar_format = format, ar_target = target, ar_payload = readable_region_port payload,
                 ar_resident_bytes = resident_bytes\<rparr>) (cp_state cp) w of
        (Inr oid, s, w') \<Rightarrow> in_world w' (respond_object (cp\<lparr>cp_state := s\<rparr>) response k request_id oid True)
      | (Inl e, s, w') \<Rightarrow> in_world w' (respond_create_error (cp\<lparr>cp_state := s\<rparr>) response k request_id e))"

definition dispatch_create_queue ::
  "('c, 'b, 'p, 'q, 'e, 'k, 'w) cp \<Rightarrow> (reservation \<Rightarrow> bool) \<Rightarrow> 'k byte_sink \<Rightarrow> 'k \<Rightarrow> 'w \<Rightarrow> u64 \<Rightarrow> object_id \<Rightarrow> queue_desc
    \<Rightarrow> (('c, 'b, 'p, 'q, 'e, 'k, 'w) cp, 'k, 'w) handled" where
  "dispatch_create_queue cp alloc response k w request_id context_id desc =
     (case validate_queue_desc (cp_info cp) desc of
        Inl e \<Rightarrow> in_world w (respond_backend_error cp response k request_id e False)
      | Inr _ \<Rightarrow>
      case create_queue_with (alloc Reserve_Table) context_id
             (\<lambda>context. ac_create_queue (cp_accelerator cp) context desc) (cp_state cp) w of
        (Inr oid, s, w') \<Rightarrow> in_world w' (respond_object (cp\<lparr>cp_state := s\<rparr>) response k request_id oid True)
      | (Inl e, s, w') \<Rightarrow> in_world w' (respond_create_error (cp\<lparr>cp_state := s\<rparr>) response k request_id e))"

fun dispatch ::
  "('c, 'b, 'p, 'q, 'e, 'k, 'w) cp \<Rightarrow> (reservation \<Rightarrow> bool) \<Rightarrow> 'k byte_sink \<Rightarrow> 'k \<Rightarrow> 'w \<Rightarrow> u64 \<Rightarrow> decoded_request_body
    \<Rightarrow> (('c, 'b, 'p, 'q, 'e, 'k, 'w) cp, 'k, 'w) handled" where
  "dispatch cp alloc response k w request_id DR_GetDeviceInfo =
     in_world w (respond_bytes cp response k STATUS_OK request_id
       (encode_wire_device_info (wire_device_info_of (cp_info cp))) False)"
| "dispatch cp alloc response k w request_id (DR_CreateContext desc) =
     dispatch_create_context cp alloc response k w request_id desc"
| "dispatch cp alloc response k w request_id (DR_DestroyContext context_id) =
     destroy_context cp response k w request_id context_id"
| "dispatch cp alloc response k w request_id (DR_AllocateBuffer context_id desc) =
     dispatch_allocate_buffer cp alloc response k w request_id context_id desc"
| "dispatch cp alloc response k w request_id (DR_FreeBuffer buffer_id) =
     free_buffer cp response k w request_id buffer_id"
| "dispatch cp alloc response k w request_id (DR_WriteBuffer buffer_id rng data) =
     write_buffer cp response k w request_id buffer_id rng (readable_region_port data)"
| "dispatch cp alloc response k w request_id (DR_ReadBuffer buffer_id rng) =
     read_buffer cp response k w request_id buffer_id rng"
| "dispatch cp alloc response k w request_id (DR_LoadProgram context_id format target payload resident_bytes) =
     dispatch_load_program cp alloc response k w request_id context_id format target payload resident_bytes"
| "dispatch cp alloc response k w request_id (DR_UnloadProgram program_id) =
     unload_program cp response k w request_id program_id"
| "dispatch cp alloc response k w request_id (DR_CreateQueue context_id desc) =
     dispatch_create_queue cp alloc response k w request_id context_id desc"
| "dispatch cp alloc response k w request_id (DR_DestroyQueue queue_id) =
     destroy_queue cp response k w request_id queue_id"
| "dispatch cp alloc response k w request_id (DR_Submit queue_id program_id bindings timeout) =
     submit cp alloc response k w request_id queue_id program_id bindings timeout"
| "dispatch cp alloc response k w request_id (DR_PollEvent event_id) =
     poll_event cp response k w request_id event_id"
| "dispatch cp alloc response k w request_id (DR_CancelEvent event_id) =
     cancel_event cp response k w request_id event_id"
| "dispatch cp alloc response k w request_id (DR_DestroyEvent event_id) =
     destroy_event cp response k w request_id event_id"

definition process ::
  "('c, 'b, 'p, 'q, 'e, 'k, 'w) cp \<Rightarrow> (reservation \<Rightarrow> bool) \<Rightarrow> chain_region list \<Rightarrow> byte_source \<Rightarrow> 'k byte_sink
    \<Rightarrow> 'k \<Rightarrow> 'w \<Rightarrow> (('c, 'b, 'p, 'q, 'e, 'k, 'w) cp, 'k, 'w) handled" where
  "process cp alloc regions request response k w =
     (case preflight_command_frame (cp_decoder cp) (alloc Reserve_Decoded) regions request response k of
        (Inl e, k') \<Rightarrow> (Inl (CPE_Preflight e), cp, k', w)
      | (Inr (FP_Rejected request_id status used), k') \<Rightarrow> (Inr (CO_Response request_id status used), cp, k', w)
      | (Inr (FP_Unusable error), k') \<Rightarrow> (Inr (CO_Unusable error), cp, k', w)
      | (Inr (FP_Ready decoded), k') \<Rightarrow>
          if cp_health cp \<noteq> Running
          then in_world w (respond_empty cp response k' STATUS_DEVICE_LOST (dq_request_id decoded) False)
          else dispatch (cp\<lparr>cp_last_reset := None\<rparr>) alloc response k' w (dq_request_id decoded) (dq_body decoded))"

end
