(* ===== verification/Device_Graph.thy ===== *)
theory Device_Graph
  imports Device_State
begin

text \<open>
  The invariant of the object graph. \<open>contexts_ok\<close>, \<open>buffers_ok\<close>, \<open>programs_ok\<close>,
  \<open>queues_ok\<close> and \<open>events_ok\<close> speak about the lookups of the five tables: every child
  names a resident context, every count a context keeps is the number of its children,
  every \<open>in_flight\<close> is the number of references that events hold, and a slot has given
  its resource away exactly while it is releasing. \<open>state_inv\<close> adds the table invariants
  and the retained-byte charges. The lemmas of this theory are about the maps of lookups;
  \<open>Device_Ops\<close> lifts them to the operations.
\<close>

section \<open>Updating the records of a table in place\<close>

text \<open>Everything of a table but the values of its occupied slots.\<close>

definition table_shape ::
  "'a object_table \<Rightarrow> (object_kind \<times> u16 \<times> u32 \<times> u32 \<times> u32 list) \<times> (u16 \<times> bool \<times> bool) list" where
  "table_shape t =
     ((ot_kind t, ot_namespace t, ot_max_slots t, ot_live t, ot_free t),
      map (\<lambda>s. (sl_generation s, sl_retired s, sl_value s = None)) (ot_slots t))"

lemma table_modify_shape: "table_modify t oid f = Inr t' \<Longrightarrow> table_shape t' = table_shape t"
  by (cases "table_locate t oid")
    (auto simp: table_modify_def table_get_mut_def table_shape_def map_update list_update_same_conv
      dest!: table_locate_fields split: option.splits)

lemma table_shape_length: "table_shape t = table_shape t' \<Longrightarrow> length (ot_slots t) = length (ot_slots t')"
  by (drule arg_cong [of _ _ "\<lambda>x. length (snd x)"]) (simp add: table_shape_def)

lemma table_shape_nth:
  assumes "table_shape t = table_shape t'" "i < length (ot_slots t)"
  shows "i < length (ot_slots t')" "sl_generation (ot_slots t' ! i) = sl_generation (ot_slots t ! i)"
    "sl_retired (ot_slots t' ! i) = sl_retired (ot_slots t ! i)"
    "table_id_at t' i = table_id_at t i"
proof -
  have len: "length (ot_slots t) = length (ot_slots t')"
    using assms(1) by (rule table_shape_length)
  then show "i < length (ot_slots t')"
    using assms(2) by simp
  have "snd (table_shape t) ! i = snd (table_shape t') ! i"
    by (simp add: assms(1))
  then show "sl_generation (ot_slots t' ! i) = sl_generation (ot_slots t ! i)"
      "sl_retired (ot_slots t' ! i) = sl_retired (ot_slots t ! i)"
    using assms(2) len by (simp_all add: table_shape_def)
  then show "table_id_at t' i = table_id_at t i"
    using assms(1) by (simp add: table_id_at_def table_shape_def)
qed

lemma table_value_lookup:
  assumes wf: "table_wf t" and i: "i < length (ot_slots t)"
  shows "sl_value (ot_slots t ! i) = table_lookup t (table_id_at t i)"
proof (cases "table_lookup t (table_id_at t i)")
  case None
  show ?thesis
  proof (rule ccontr)
    assume "sl_value (ot_slots t ! i) \<noteq> table_lookup t (table_id_at t i)"
    then obtain v where "sl_value (ot_slots t ! i) = Some v"
      using None by auto
    with i None show False
      using table_lookup_Some [OF wf, of "table_id_at t i" v] by auto
  qed
next
  case (Some v)
  then obtain j where j: "j < length (ot_slots t)" "table_id_at t i = table_id_at t j"
      "sl_value (ot_slots t ! j) = Some v"
    using table_lookup_Some [OF wf, of "table_id_at t i" v] by auto
  then have "i = j"
    using table_id_at_inject [OF wf i j(1)] unfolding table_id_at_def by metis
  with j Some show ?thesis
    by simp
qed

lemma table_eqI:
  assumes "table_wf t" "table_wf t'" "table_shape t = table_shape t'" "table_lookup t = table_lookup t'"
  shows "t = t'"
proof -
  have len: "length (ot_slots t) = length (ot_slots t')"
    using assms(3) by (rule table_shape_length)
  have "ot_slots t = ot_slots t'"
  proof (rule nth_equalityI [OF len])
    fix i
    assume i: "i < length (ot_slots t)"
    note same = table_shape_nth [OF assms(3) i]
    have "sl_value (ot_slots t ! i) = sl_value (ot_slots t' ! i)"
      using table_value_lookup [OF assms(1) i] table_value_lookup [OF assms(2) same(1)]
      by (simp add: assms(4) same(4))
    with same show "ot_slots t ! i = ot_slots t' ! i"
      by simp
  qed
  with assms(3) show ?thesis
    by (simp add: table_shape_def)
qed

lemma modify_each_law:
  assumes "table_wf t" "set oids \<subseteq> dom (table_lookup t)"
  shows "\<exists>t'. modify_each f oids t = (Inr (), t') \<and> table_wf t' \<and> table_shape t' = table_shape t
    \<and> (\<forall>x. table_lookup t' x = map_option (f ^^ count_list oids x) (table_lookup t x))
    \<and> (\<forall>x. table_spent t x \<longrightarrow> table_spent t' x)"
  using assms
proof (induction oids arbitrary: t)
  case Nil
  then show ?case
    by (simp add: option.map_id0 [unfolded id_def] option.map_ident)
next
  case (Cons oid oids)
  then obtain v where v: "table_lookup t oid = Some v"
    by auto
  obtain t1 where t1: "table_modify t oid f = Inr t1" "table_wf t1"
      "table_lookup t1 = (table_lookup t)(oid \<mapsto> f v)" "\<forall>x. table_spent t x \<longrightarrow> table_spent t1 x"
    using tbl.modify_live [OF Cons.prems(1) v, of f] by blast
  have "set oids \<subseteq> dom (table_lookup t1)"
    using Cons.prems(2) t1(3) by auto
  from Cons.IH [OF t1(2) this] obtain t' where t':
    "modify_each f oids t1 = (Inr (), t')" "table_wf t'" "table_shape t' = table_shape t1"
    "\<forall>x. table_lookup t' x = map_option (f ^^ count_list oids x) (table_lookup t1 x)"
    "\<forall>x. table_spent t1 x \<longrightarrow> table_spent t' x"
    by blast
  have "table_lookup t' x = map_option (f ^^ count_list (oid # oids) x) (table_lookup t x)" for x
    using t'(4) v by (simp add: t1(3) funpow_swap1)
  with t1 t' table_modify_shape [OF t1(1)] show ?case
    by simp
qed

section \<open>The invariant\<close>

definition slot_ok :: "'r resource_slot \<Rightarrow> bool" where
  "slot_ok slot \<longleftrightarrow> (rs_resource slot = None \<longleftrightarrow> rs_release slot = Releasing)"

text \<open>How many entries of a map belong to a context, and how often events refer to an object.\<close>

definition children_of :: "('v \<Rightarrow> object_id) \<Rightarrow> (object_id \<rightharpoonup> 'v) \<Rightarrow> object_id \<Rightarrow> nat" where
  "children_of context_of m x = msum (\<lambda>_ v. of_bool (context_of v = x)) m"

definition references ::
  "('e event_record \<Rightarrow> object_id list) \<Rightarrow> (object_id \<rightharpoonup> 'e event_record) \<Rightarrow> object_id \<Rightarrow> nat" where
  "references ids m x = msum (\<lambda>_ e. count_list (ids e) x) m"

abbreviation event_queue_ids :: "'e event_record \<Rightarrow> object_id list" where
  "event_queue_ids e \<equiv> [ev_queue_id e]"

definition objects_ok ::
  "('v \<Rightarrow> 'r resource_slot) \<Rightarrow> ('v \<Rightarrow> object_id) \<Rightarrow> ('v \<Rightarrow> u32) \<Rightarrow> (object_id \<Rightarrow> nat) \<Rightarrow> object_id set
    \<Rightarrow> (object_id \<rightharpoonup> 'v) \<Rightarrow> bool" where
  "objects_ok slot_of context_of in_flight refs ctxs m \<longleftrightarrow>
     (\<forall>x v. m x = Some v \<longrightarrow> slot_ok (slot_of v) \<and> context_of v \<in> ctxs \<and> unat (in_flight v) = refs x
        \<and> (rs_release (slot_of v) = Releasing \<longrightarrow> in_flight v = 0))"

definition contexts_ok ::
  "device_limits \<Rightarrow> (object_id \<Rightarrow> nat) \<Rightarrow> (object_id \<Rightarrow> nat) \<Rightarrow> (object_id \<Rightarrow> nat) \<Rightarrow> (object_id \<Rightarrow> nat)
    \<Rightarrow> (object_id \<rightharpoonup> 'c context_record) \<Rightarrow> bool" where
  "contexts_ok lim buffers programs queues events m \<longleftrightarrow>
     (\<forall>x c. m x = Some c \<longrightarrow> slot_ok (cx_resource c)
        \<and> (rs_release (cx_resource c) = Releasing \<longrightarrow> child_counts_is_empty (cx_children c))
        \<and> unat (ch_buffers (cx_children c)) = buffers x
        \<and> unat (ch_programs (cx_children c)) = programs x
        \<and> unat (ch_queues (cx_children c)) = queues x
        \<and> unat (ch_events (cx_children c)) = events x
        \<and> ch_buffers (cx_children c) \<le> max_buffers_per_context lim
        \<and> ch_programs (cx_children c) \<le> max_programs_per_context lim
        \<and> ch_queues (cx_children c) \<le> max_queues_per_context lim
        \<and> ch_events (cx_children c) \<le> max_events_per_context lim)"

definition retained_in ::
  "('v \<Rightarrow> object_id) \<Rightarrow> (object_id \<rightharpoonup> 'v) \<Rightarrow> object_id \<Rightarrow> object_id list \<Rightarrow> bool" where
  "retained_in context_of m ctx oids \<longleftrightarrow> (\<forall>x \<in> set oids. \<exists>v. m x = Some v \<and> context_of v = ctx)"

definition events_ok ::
  "object_id set \<Rightarrow> (object_id \<rightharpoonup> 'b buffer_record) \<Rightarrow> (object_id \<rightharpoonup> 'p program_record)
    \<Rightarrow> (object_id \<rightharpoonup> 'q queue_record) \<Rightarrow> (object_id \<rightharpoonup> 'e event_record) \<Rightarrow> bool" where
  "events_ok ctxs B P Q m \<longleftrightarrow>
     (\<forall>x e. m x = Some e \<longrightarrow> slot_ok (ev_resource e) \<and> ev_context_id e \<in> ctxs
        \<and> event_program_ids e \<noteq> []
        \<and> retained_in qu_context_id Q (ev_context_id e) (event_queue_ids e)
        \<and> retained_in pr_context_id P (ev_context_id e) (event_program_ids e)
        \<and> retained_in bu_context_id B (ev_context_id e) (ev_buffer_ids e))"

definition graph_inv ::
  "device_limits \<Rightarrow> (object_id \<rightharpoonup> 'c context_record) \<Rightarrow> (object_id \<rightharpoonup> 'b buffer_record)
    \<Rightarrow> (object_id \<rightharpoonup> 'p program_record) \<Rightarrow> (object_id \<rightharpoonup> 'q queue_record)
    \<Rightarrow> (object_id \<rightharpoonup> 'e event_record) \<Rightarrow> bool" where
  "graph_inv lim C B P Q E \<longleftrightarrow>
     finite (dom B) \<and> finite (dom P) \<and> finite (dom Q) \<and> finite (dom E)
   \<and> contexts_ok lim (children_of bu_context_id B) (children_of pr_context_id P)
       (children_of qu_context_id Q) (children_of ev_context_id E) C
   \<and> objects_ok bu_resource bu_context_id bu_in_flight (references ev_buffer_ids E) (dom C) B
   \<and> objects_ok pr_resource pr_context_id pr_in_flight (references event_program_ids E) (dom C) P
   \<and> objects_ok qu_resource qu_context_id qu_in_flight (references event_queue_ids E) (dom C) Q
   \<and> events_ok (dom C) B P Q E"

definition charges_ok ::
  "resource_policy \<Rightarrow> retained_bytes \<Rightarrow> (object_id \<rightharpoonup> 'b buffer_record)
    \<Rightarrow> (object_id \<rightharpoonup> 'p program_record) \<Rightarrow> bool" where
  "charges_ok policy retained B P \<longleftrightarrow>
     unat (rt_buffer_backing retained) = msum (\<lambda>_ b. unat (bi_allocation_bytes (bu_info b))) B
   \<and> unat (rt_program_resident retained) = msum (\<lambda>_ p. unat (pr_resident_bytes p)) P
   \<and> unat (rt_program_resident retained) \<le> unat (po_max_program_resident_bytes policy)"

definition tables_ok :: "('c, 'b, 'p, 'q, 'e) ds \<Rightarrow> bool" where
  "tables_ok s \<longleftrightarrow>
     table_wf (ds_contexts s) \<and> ot_kind (ds_contexts s) = OK_Context \<and> ot_namespace (ds_contexts s) = ds_namespace s
   \<and> table_wf (ds_buffers s) \<and> ot_kind (ds_buffers s) = OK_Buffer \<and> ot_namespace (ds_buffers s) = ds_namespace s
   \<and> table_wf (ds_programs s) \<and> ot_kind (ds_programs s) = OK_Program \<and> ot_namespace (ds_programs s) = ds_namespace s
   \<and> table_wf (ds_queues s) \<and> ot_kind (ds_queues s) = OK_Queue \<and> ot_namespace (ds_queues s) = ds_namespace s
   \<and> table_wf (ds_events s) \<and> ot_kind (ds_events s) = OK_Event \<and> ot_namespace (ds_events s) = ds_namespace s"

abbreviation contexts_of :: "('c, 'b, 'p, 'q, 'e) ds \<Rightarrow> object_id \<rightharpoonup> 'c context_record" where
  "contexts_of s \<equiv> table_lookup (ds_contexts s)"
abbreviation buffers_of :: "('c, 'b, 'p, 'q, 'e) ds \<Rightarrow> object_id \<rightharpoonup> 'b buffer_record" where
  "buffers_of s \<equiv> table_lookup (ds_buffers s)"
abbreviation programs_of :: "('c, 'b, 'p, 'q, 'e) ds \<Rightarrow> object_id \<rightharpoonup> 'p program_record" where
  "programs_of s \<equiv> table_lookup (ds_programs s)"
abbreviation queues_of :: "('c, 'b, 'p, 'q, 'e) ds \<Rightarrow> object_id \<rightharpoonup> 'q queue_record" where
  "queues_of s \<equiv> table_lookup (ds_queues s)"
abbreviation events_of :: "('c, 'b, 'p, 'q, 'e) ds \<Rightarrow> object_id \<rightharpoonup> 'e event_record" where
  "events_of s \<equiv> table_lookup (ds_events s)"

definition state_inv :: "('c, 'b, 'p, 'q, 'e) ds \<Rightarrow> bool" where
  "state_inv s \<longleftrightarrow> tables_ok s
   \<and> graph_inv (ds_limits s) (contexts_of s) (buffers_of s) (programs_of s) (queues_of s) (events_of s)
   \<and> charges_ok (ds_policy s) (ds_retained s) (buffers_of s) (programs_of s)"

section \<open>Counting lemmas\<close>

lemma children_of_insert [simp]:
  "finite (dom m) \<Longrightarrow> m x = None \<Longrightarrow>
     children_of context_of (m(x \<mapsto> v)) y = children_of context_of m y + of_bool (context_of v = y)"
  by (simp add: children_of_def msum_insert)

lemma children_of_update [simp]:
  "finite (dom m) \<Longrightarrow> m x = Some v \<Longrightarrow> context_of v' = context_of v \<Longrightarrow>
     children_of context_of (m(x \<mapsto> v')) = children_of context_of m"
  by (rule ext) (simp add: children_of_def msum_update_same)

lemma children_of_remove:
  "finite (dom m) \<Longrightarrow> m x = Some v \<Longrightarrow>
     children_of context_of (m(x := None)) y + of_bool (context_of v = y) = children_of context_of m y"
  unfolding children_of_def using msum_remove [of m x v "\<lambda>_ v. of_bool (context_of v = y)"] by simp

lemma children_of_pos:
  "finite (dom m) \<Longrightarrow> m x = Some v \<Longrightarrow> 0 < children_of context_of m (context_of v)"
  using children_of_remove [of m x v context_of "context_of v"] by simp

lemma children_of_absent:
  "objects_ok slot_of context_of in_flight refs ctxs m \<Longrightarrow> y \<notin> ctxs \<Longrightarrow> children_of context_of m y = 0"
  by (auto simp: children_of_def objects_ok_def intro!: msum_zero)

lemma references_insert [simp]:
  "finite (dom m) \<Longrightarrow> m x = None \<Longrightarrow>
     references oids (m(x \<mapsto> e)) y = references oids m y + count_list (oids e) y"
  by (simp add: references_def msum_insert)

lemma references_update [simp]:
  "finite (dom m) \<Longrightarrow> m x = Some e \<Longrightarrow> oids e' = oids e \<Longrightarrow>
     references oids (m(x \<mapsto> e')) = references oids m"
  by (rule ext) (simp add: references_def msum_update_same)

lemma references_remove:
  "finite (dom m) \<Longrightarrow> m x = Some e \<Longrightarrow>
     references oids (m(x := None)) y + count_list (oids e) y = references oids m y"
  unfolding references_def using msum_remove [of m x e "\<lambda>_ e. count_list (oids e) y"] by simp

lemma references_le: "finite (dom m) \<Longrightarrow> m x = Some e \<Longrightarrow> count_list (oids e) y \<le> references oids m y"
  using references_remove [of m x e oids y] by simp

lemma references_absent:
  assumes "\<And>x e. E x = Some e \<Longrightarrow> retained_in context_of m (ctx e) (oids e)" "y \<notin> dom m"
  shows "references oids E y = 0"
  unfolding references_def
proof (rule msum_zero)
  fix x e
  assume "E x = Some e"
  from assms(1) [OF this] assms(2) show "count_list (oids e) y = 0"
    by (auto simp: retained_in_def count_list_0_iff)
qed

lemma objects_ok_mono:
  "objects_ok slot_of context_of in_flight refs ctxs m \<Longrightarrow> ctxs \<subseteq> ctxs' \<Longrightarrow>
     objects_ok slot_of context_of in_flight refs ctxs' m"
  by (auto simp: objects_ok_def)

lemma objects_ok_insert:
  "objects_ok slot_of context_of in_flight refs ctxs m \<Longrightarrow> slot_ok (slot_of v) \<Longrightarrow> context_of v \<in> ctxs \<Longrightarrow>
     in_flight v = 0 \<Longrightarrow> refs x = 0 \<Longrightarrow> objects_ok slot_of context_of in_flight refs ctxs (m(x \<mapsto> v))"
  by (auto simp: objects_ok_def)

lemma objects_ok_update:
  "objects_ok slot_of context_of in_flight refs ctxs m \<Longrightarrow> m x = Some v \<Longrightarrow> slot_ok (slot_of v') \<Longrightarrow>
     context_of v' = context_of v \<Longrightarrow> in_flight v' = in_flight v \<Longrightarrow>
     (rs_release (slot_of v') = Releasing \<Longrightarrow> in_flight v' = 0) \<Longrightarrow>
     objects_ok slot_of context_of in_flight refs ctxs (m(x \<mapsto> v'))"
  by (auto simp: objects_ok_def)

lemma objects_ok_remove:
  "objects_ok slot_of context_of in_flight refs ctxs m \<Longrightarrow>
     objects_ok slot_of context_of in_flight refs ctxs (m(x := None))"
  by (auto simp: objects_ok_def)

lemma retained_in_update:
  "retained_in context_of m ctx oids \<Longrightarrow> m x = None \<or> (\<exists>v. m x = Some v \<and> context_of v' = context_of v) \<Longrightarrow>
     retained_in context_of (m(x \<mapsto> v')) ctx oids"
  by (fastforce simp: retained_in_def)

lemma resource_slot_new_ok [simp]:
  "slot_ok (resource_slot_new r)" "rs_release (resource_slot_new r) = Live"
  by (simp_all add: slot_ok_def resource_slot_new_def)

lemma resource_slot_get_Inr:
  "slot_ok slot \<Longrightarrow> resource_slot_get slot = Inr r \<Longrightarrow> rs_release slot \<noteq> Releasing"
  by (cases "rs_resource slot") (auto simp: slot_ok_def resource_slot_get_def)

section \<open>Transitions of the graph\<close>

lemma word_succ_le:
  fixes w :: "'a::len word"
  assumes "w < lim"
  shows "unat (w + 1) = Suc (unat w)" "w + 1 \<le> lim"
proof -
  have "unat lim < 2 ^ LENGTH('a)"
    by (rule unsigned_less)
  then have "unat w < 2 ^ LENGTH('a) - 1"
    using assms unfolding word_less_nat_alt by linarith
  then show suc: "unat (w + 1) = Suc (unat w)"
    by (rule unat_inc)
  with assms show "w + 1 \<le> lim"
    by (simp add: word_le_nat_alt word_less_nat_alt)
qed

lemma word_pred_le:
  fixes w :: "'a::len word"
  assumes "0 < unat w" "w \<le> lim"
  shows "Suc (unat (w - 1)) = unat w" "w - 1 \<le> lim"
proof -
  have "w \<noteq> 0"
    using assms(1) by auto
  then show "Suc (unat (w - 1)) = unat w"
    using assms(1) by (simp add: unat_dec)
  then show "w - 1 \<le> lim"
    using assms(2) by (simp add: word_le_nat_alt)
qed

lemma events_ok_children_absent:
  "events_ok ctxs B P Q E \<Longrightarrow> y \<notin> ctxs \<Longrightarrow> children_of ev_context_id E y = 0"
  by (auto simp: children_of_def events_ok_def intro!: msum_zero)

lemma graph_references_absent:
  assumes "events_ok ctxs B P Q E"
  shows "y \<notin> dom B \<Longrightarrow> references ev_buffer_ids E y = 0"
    "y \<notin> dom P \<Longrightarrow> references event_program_ids E y = 0"
    "y \<notin> dom Q \<Longrightarrow> references event_queue_ids E y = 0"
  using references_absent [of E bu_context_id B ev_context_id ev_buffer_ids y]
    references_absent [of E pr_context_id P ev_context_id event_program_ids y]
    references_absent [of E qu_context_id Q ev_context_id event_queue_ids y] assms
  by (auto simp: events_ok_def)

lemma contexts_ok_change:
  assumes "contexts_ok lim b p q e C" "C ctx = Some c"
    and "rs_release (cx_resource c) = Releasing \<Longrightarrow> child_counts_is_empty ch"
    and "\<And>x. x \<noteq> ctx \<Longrightarrow> b' x = b x \<and> p' x = p x \<and> q' x = q x \<and> e' x = e x"
    and "unat (ch_buffers ch) = b' ctx" "unat (ch_programs ch) = p' ctx"
      "unat (ch_queues ch) = q' ctx" "unat (ch_events ch) = e' ctx"
    and "ch_buffers ch \<le> max_buffers_per_context lim" "ch_programs ch \<le> max_programs_per_context lim"
      "ch_queues ch \<le> max_queues_per_context lim" "ch_events ch \<le> max_events_per_context lim"
  shows "contexts_ok lim b' p' q' e' (C(ctx \<mapsto> c\<lparr>cx_children := ch\<rparr>))"
  using assms unfolding contexts_ok_def by auto

lemma contexts_okD:
  assumes "contexts_ok lim b p q e C" "C ctx = Some c"
  shows "slot_ok (cx_resource c)"
    "rs_release (cx_resource c) = Releasing \<Longrightarrow> child_counts_is_empty (cx_children c)"
    "unat (ch_buffers (cx_children c)) = b ctx" "unat (ch_programs (cx_children c)) = p ctx"
    "unat (ch_queues (cx_children c)) = q ctx" "unat (ch_events (cx_children c)) = e ctx"
    "ch_buffers (cx_children c) \<le> max_buffers_per_context lim"
    "ch_programs (cx_children c) \<le> max_programs_per_context lim"
    "ch_queues (cx_children c) \<le> max_queues_per_context lim"
    "ch_events (cx_children c) \<le> max_events_per_context lim"
  using assms unfolding contexts_ok_def by blast+

lemma retained_in_mono:
  assumes "retained_in context_of m ctx oids"
    and "\<And>x v. m x = Some v \<Longrightarrow> \<exists>v'. m' x = Some v' \<and> context_of' v' = context_of v"
  shows "retained_in context_of' m' ctx oids"
  using assms unfolding retained_in_def by fastforce

lemma events_ok_mono:
  assumes "events_ok ctxs B P Q E" "ctxs \<subseteq> ctxs'"
    and "\<And>x v. B x = Some v \<Longrightarrow> \<exists>v'. B' x = Some v' \<and> bu_context_id v' = bu_context_id v"
    and "\<And>x v. P x = Some v \<Longrightarrow> \<exists>v'. P' x = Some v' \<and> pr_context_id v' = pr_context_id v"
    and "\<And>x v. Q x = Some v \<Longrightarrow> \<exists>v'. Q' x = Some v' \<and> qu_context_id v' = qu_context_id v"
  shows "events_ok ctxs' B' P' Q' E"
  unfolding events_ok_def
proof (intro allI impI)
  fix x e
  assume "E x = Some e"
  with assms(1) have e: "slot_ok (ev_resource e)" "ev_context_id e \<in> ctxs" "event_program_ids e \<noteq> []"
      "retained_in qu_context_id Q (ev_context_id e) (event_queue_ids e)"
      "retained_in pr_context_id P (ev_context_id e) (event_program_ids e)"
      "retained_in bu_context_id B (ev_context_id e) (ev_buffer_ids e)"
    unfolding events_ok_def by blast+
  then show "slot_ok (ev_resource e) \<and> ev_context_id e \<in> ctxs' \<and> event_program_ids e \<noteq> []
    \<and> retained_in qu_context_id Q' (ev_context_id e) (event_queue_ids e)
    \<and> retained_in pr_context_id P' (ev_context_id e) (event_program_ids e)
    \<and> retained_in bu_context_id B' (ev_context_id e) (ev_buffer_ids e)"
    using assms(2) retained_in_mono [OF e(4) assms(5)] retained_in_mono [OF e(5) assms(4)]
      retained_in_mono [OF e(6) assms(3)] by auto
qed

lemma graph_new_context:
  assumes "graph_inv lim C B P Q E" "C x = None"
  shows "graph_inv lim (C(x \<mapsto> \<lparr>cx_resource = resource_slot_new r, cx_children = child_counts_default\<rparr>)) B P Q E"
proof -
  have absent: "x \<notin> dom C"
    using assms(2) by auto
  note inv = assms(1) [unfolded graph_inv_def]
  have "children_of bu_context_id B x = 0" "children_of pr_context_id P x = 0"
      "children_of qu_context_id Q x = 0" "children_of ev_context_id E x = 0"
    using inv children_of_absent [OF _ absent] events_ok_children_absent [OF _ absent] by blast+
  then have "contexts_ok lim (children_of bu_context_id B) (children_of pr_context_id P)
      (children_of qu_context_id Q) (children_of ev_context_id E)
      (C(x \<mapsto> \<lparr>cx_resource = resource_slot_new r, cx_children = child_counts_default\<rparr>))"
    using inv unfolding contexts_ok_def by (auto simp: child_counts_default_def)
  moreover have "dom C \<subseteq> dom (C(x \<mapsto> \<lparr>cx_resource = resource_slot_new r, cx_children = child_counts_default\<rparr>))"
    by auto
  ultimately show ?thesis
    using inv unfolding graph_inv_def
    by (intro conjI) (blast intro: objects_ok_mono events_ok_mono)+
qed

lemma graph_new_buffer:
  assumes "graph_inv lim C B P Q E" "B x = None" "C ctx = Some c" "rs_release (cx_resource c) \<noteq> Releasing"
    and "ch_buffers (cx_children c) < max_buffers_per_context lim"
    and "bu_context_id v = ctx" "slot_ok (bu_resource v)" "bu_in_flight v = 0"
  shows "graph_inv lim (C(ctx \<mapsto> c\<lparr>cx_children := (cx_children c)\<lparr>ch_buffers := ch_buffers (cx_children c) + 1\<rparr>\<rparr>))
    (B(x \<mapsto> v)) P Q E"
proof -
  note inv = assms(1) [unfolded graph_inv_def]
  let ?ch = "(cx_children c)\<lparr>ch_buffers := ch_buffers (cx_children c) + 1\<rparr>"
  let ?C = "C(ctx \<mapsto> c\<lparr>cx_children := ?ch\<rparr>)"
  have doms: "dom ?C = dom C" "ctx \<in> dom C" "x \<notin> dom B"
    using assms(2,3) by auto
  have fresh: "references ev_buffer_ids E x = 0"
    using inv graph_references_absent(1) [OF _ doms(3)] by blast
  have cok: "contexts_ok lim (children_of bu_context_id B) (children_of pr_context_id P)
      (children_of qu_context_id Q) (children_of ev_context_id E) C"
    using inv by blast
  note ctx = contexts_okD [OF cok assms(3)] and suc = word_succ_le [OF assms(5)]
  have "contexts_ok lim (children_of bu_context_id (B(x \<mapsto> v))) (children_of pr_context_id P) (children_of qu_context_id Q) (children_of ev_context_id E) ?C"
    by (rule contexts_ok_change [OF cok assms(3)]) (use inv assms(2,4,6) ctx suc in auto)
  moreover have "objects_ok bu_resource bu_context_id bu_in_flight (references ev_buffer_ids E) (dom C) (B(x \<mapsto> v))"
    using inv fresh assms(6-8) doms(2) by (intro objects_ok_insert) auto
  moreover have "events_ok (dom C) (B(x \<mapsto> v)) P Q E"
    by (rule events_ok_mono [of "dom C" B P Q]) (use inv assms(2) in auto)
  ultimately show ?thesis
    using inv unfolding graph_inv_def doms(1) by simp
qed

lemma graph_new_program:
  assumes "graph_inv lim C B P Q E" "P x = None" "C ctx = Some c" "rs_release (cx_resource c) \<noteq> Releasing"
    and "ch_programs (cx_children c) < max_programs_per_context lim"
    and "pr_context_id v = ctx" "slot_ok (pr_resource v)" "pr_in_flight v = 0"
  shows "graph_inv lim (C(ctx \<mapsto> c\<lparr>cx_children := (cx_children c)\<lparr>ch_programs := ch_programs (cx_children c) + 1\<rparr>\<rparr>))
    B (P(x \<mapsto> v)) Q E"
proof -
  note inv = assms(1) [unfolded graph_inv_def]
  let ?ch = "(cx_children c)\<lparr>ch_programs := ch_programs (cx_children c) + 1\<rparr>"
  let ?C = "C(ctx \<mapsto> c\<lparr>cx_children := ?ch\<rparr>)"
  have doms: "dom ?C = dom C" "ctx \<in> dom C" "x \<notin> dom P"
    using assms(2,3) by auto
  have fresh: "references event_program_ids E x = 0"
    using inv graph_references_absent(2) [OF _ doms(3)] by blast
  have cok: "contexts_ok lim (children_of bu_context_id B) (children_of pr_context_id P)
      (children_of qu_context_id Q) (children_of ev_context_id E) C"
    using inv by blast
  note ctx = contexts_okD [OF cok assms(3)] and suc = word_succ_le [OF assms(5)]
  have "contexts_ok lim (children_of bu_context_id B) (children_of pr_context_id (P(x \<mapsto> v))) (children_of qu_context_id Q) (children_of ev_context_id E) ?C"
    by (rule contexts_ok_change [OF cok assms(3)]) (use inv assms(2,4,6) ctx suc in auto)
  moreover have "objects_ok pr_resource pr_context_id pr_in_flight (references event_program_ids E) (dom C) (P(x \<mapsto> v))"
    using inv fresh assms(6-8) doms(2) by (intro objects_ok_insert) auto
  moreover have "events_ok (dom C) B (P(x \<mapsto> v)) Q E"
    by (rule events_ok_mono [of "dom C" B P Q]) (use inv assms(2) in auto)
  ultimately show ?thesis
    using inv unfolding graph_inv_def doms(1) by simp
qed

lemma graph_new_queue:
  assumes "graph_inv lim C B P Q E" "Q x = None" "C ctx = Some c" "rs_release (cx_resource c) \<noteq> Releasing"
    and "ch_queues (cx_children c) < max_queues_per_context lim"
    and "qu_context_id v = ctx" "slot_ok (qu_resource v)" "qu_in_flight v = 0"
  shows "graph_inv lim (C(ctx \<mapsto> c\<lparr>cx_children := (cx_children c)\<lparr>ch_queues := ch_queues (cx_children c) + 1\<rparr>\<rparr>))
    B P (Q(x \<mapsto> v)) E"
proof -
  note inv = assms(1) [unfolded graph_inv_def]
  let ?ch = "(cx_children c)\<lparr>ch_queues := ch_queues (cx_children c) + 1\<rparr>"
  let ?C = "C(ctx \<mapsto> c\<lparr>cx_children := ?ch\<rparr>)"
  have doms: "dom ?C = dom C" "ctx \<in> dom C" "x \<notin> dom Q"
    using assms(2,3) by auto
  have fresh: "references event_queue_ids E x = 0"
    using inv graph_references_absent(3) [OF _ doms(3)] by blast
  have cok: "contexts_ok lim (children_of bu_context_id B) (children_of pr_context_id P)
      (children_of qu_context_id Q) (children_of ev_context_id E) C"
    using inv by blast
  note ctx = contexts_okD [OF cok assms(3)] and suc = word_succ_le [OF assms(5)]
  have "contexts_ok lim (children_of bu_context_id B) (children_of pr_context_id P) (children_of qu_context_id (Q(x \<mapsto> v))) (children_of ev_context_id E) ?C"
    by (rule contexts_ok_change [OF cok assms(3)]) (use inv assms(2,4,6) ctx suc in auto)
  moreover have "objects_ok qu_resource qu_context_id qu_in_flight (references event_queue_ids E) (dom C) (Q(x \<mapsto> v))"
    using inv fresh assms(6-8) doms(2) by (intro objects_ok_insert) auto
  moreover have "events_ok (dom C) B P (Q(x \<mapsto> v)) E"
    by (rule events_ok_mono [of "dom C" B P Q]) (use inv assms(2) in auto)
  ultimately show ?thesis
    using inv unfolding graph_inv_def doms(1) by simp
qed

lemma references_zero_notin:
  "finite (dom E) \<Longrightarrow> references oids E x = 0 \<Longrightarrow> E y = Some e \<Longrightarrow> x \<notin> set (oids e)"
  using references_le [of E y e oids x] by (auto simp: count_list_0_iff)

lemma retained_in_drop:
  "retained_in context_of m ctx oids \<Longrightarrow> x \<notin> set oids \<Longrightarrow> retained_in context_of (m(x := None)) ctx oids"
  by (auto simp: retained_in_def)

lemma events_okD:
  assumes "events_ok ctxs B P Q E" "E x = Some e"
  shows "slot_ok (ev_resource e)" "ev_context_id e \<in> ctxs" "event_program_ids e \<noteq> []"
    "retained_in qu_context_id Q (ev_context_id e) (event_queue_ids e)"
    "retained_in pr_context_id P (ev_context_id e) (event_program_ids e)"
    "retained_in bu_context_id B (ev_context_id e) (ev_buffer_ids e)"
  using assms unfolding events_ok_def by blast+

lemma events_ok_retained:
  assumes "events_ok ctxs B P Q E"
    and "\<And>x e. E x = Some e \<Longrightarrow> ev_context_id e \<in> ctxs'"
    and "\<And>x e. E x = Some e \<Longrightarrow> retained_in bu_context_id B' (ev_context_id e) (ev_buffer_ids e)"
    and "\<And>x e. E x = Some e \<Longrightarrow> retained_in pr_context_id P' (ev_context_id e) (event_program_ids e)"
    and "\<And>x e. E x = Some e \<Longrightarrow> retained_in qu_context_id Q' (ev_context_id e) (event_queue_ids e)"
  shows "events_ok ctxs' B' P' Q' E"
  unfolding events_ok_def using assms(2-5) events_okD(1,3) [OF assms(1)] by blast

lemma contexts_ok_drop: "contexts_ok lim b p q e C \<Longrightarrow> contexts_ok lim b p q e (C(x := None))"
  unfolding contexts_ok_def by simp

lemma objects_okD:
  assumes "objects_ok slot_of context_of in_flight refs ctxs m" "m x = Some v"
  shows "slot_ok (slot_of v)" "context_of v \<in> ctxs" "unat (in_flight v) = refs x"
    "rs_release (slot_of v) = Releasing \<Longrightarrow> in_flight v = 0"
  using assms unfolding objects_ok_def by blast+

lemma objects_ok_drop_context:
  assumes "objects_ok slot_of context_of in_flight refs ctxs m" "finite (dom m)" "children_of context_of m x = 0"
  shows "objects_ok slot_of context_of in_flight refs (ctxs - {x}) m"
  using assms children_of_pos [OF assms(2), of _ _ context_of] unfolding objects_ok_def
  by (metis DiffI less_numeral_extra(3) singletonD)

lemma graph_drop_context:
  assumes "graph_inv lim C B P Q E" "C x = Some c" "rs_release (cx_resource c) = Releasing"
  shows "graph_inv lim (C(x := None)) B P Q E"
proof -
  note inv = assms(1) [unfolded graph_inv_def]
  have cok: "contexts_ok lim (children_of bu_context_id B) (children_of pr_context_id P)
      (children_of qu_context_id Q) (children_of ev_context_id E) C"
    using inv by blast
  note ctx = contexts_okD [OF cok assms(2)]
  have none: "children_of bu_context_id B x = 0" "children_of pr_context_id P x = 0"
      "children_of qu_context_id Q x = 0" "children_of ev_context_id E x = 0"
    using ctx(2) [OF assms(3)] ctx(3-6) by (simp_all add: child_counts_is_empty_def)
  have eok: "events_ok (dom C) B P Q E" and fin: "finite (dom E)"
    using inv by blast+
  have "ev_context_id e \<in> dom C - {x}" if "E y = Some e" for y e
    using events_okD(2) [OF eok that] children_of_pos [OF fin that, of ev_context_id] none(4) by auto
  then have "events_ok (dom C - {x}) B P Q E"
    using events_okD(4-6) [OF eok] by (intro events_ok_retained [OF eok]) blast+
  moreover have "dom (C(x := None)) = dom C - {x}"
    by auto
  ultimately show ?thesis
    using inv none contexts_ok_drop [OF cok] unfolding graph_inv_def
    by (simp only: objects_ok_drop_context simp_thms)
qed

lemma graph_drop_buffer:
  assumes "graph_inv lim C B P Q E" "B x = Some v" "rs_release (bu_resource v) = Releasing"
    and "C (bu_context_id v) = Some c"
  shows "graph_inv lim (C(bu_context_id v \<mapsto>
      c\<lparr>cx_children := (cx_children c)\<lparr>ch_buffers := ch_buffers (cx_children c) - 1\<rparr>\<rparr>)) (B(x := None)) P Q E
    \<and> 0 < ch_buffers (cx_children c)"
proof -
  note inv = assms(1) [unfolded graph_inv_def]
  let ?ctx = "bu_context_id v"
  let ?ch = "(cx_children c)\<lparr>ch_buffers := ch_buffers (cx_children c) - 1\<rparr>"
  let ?C = "C(?ctx \<mapsto> c\<lparr>cx_children := ?ch\<rparr>)"
  have cok: "contexts_ok lim (children_of bu_context_id B) (children_of pr_context_id P)
      (children_of qu_context_id Q) (children_of ev_context_id E) C"
    and eok: "events_ok (dom C) B P Q E" and fin: "finite (dom B)" "finite (dom E)"
    and ook: "objects_ok bu_resource bu_context_id bu_in_flight (references ev_buffer_ids E) (dom C) B"
    using inv by blast+
  note ctx = contexts_okD [OF cok assms(4)]
  have "references ev_buffer_ids E x = 0"
    using objects_okD(3,4) [OF ook assms(2)] assms(3) by simp
  then have unused: "x \<notin> set (ev_buffer_ids e)" if "E y = Some e" for y e
    using references_zero_notin [OF fin(2) _ that] by blast
  have count: "children_of bu_context_id (B(x := None)) y + of_bool (?ctx = y) = children_of bu_context_id B y" for y
    by (rule children_of_remove [OF fin(1) assms(2)])
  have here: "Suc (children_of bu_context_id (B(x := None)) ?ctx) = children_of bu_context_id B ?ctx"
    using count [of ?ctx] by simp
  then have pos: "0 < unat (ch_buffers (cx_children c))"
    using ctx(3) by simp
  then have live: "rs_release (cx_resource c) \<noteq> Releasing"
    using ctx(2) by (auto simp: child_counts_is_empty_def)
  have elsewhere: "children_of bu_context_id (B(x := None)) y = children_of bu_context_id B y" if "y \<noteq> ?ctx" for y
    using count [of y] that by simp
  note pred = word_pred_le [OF pos ctx(7)]
  have "contexts_ok lim (children_of bu_context_id (B(x := None))) (children_of pr_context_id P) (children_of qu_context_id Q) (children_of ev_context_id E) ?C"
    by (rule contexts_ok_change [OF cok assms(4)])
      (use live ctx pred elsewhere here in \<open>simp_all\<close>)
  moreover have "objects_ok bu_resource bu_context_id bu_in_flight (references ev_buffer_ids E) (dom C) (B(x := None))"
    by (rule objects_ok_remove [OF ook])
  moreover have "events_ok (dom C) (B(x := None)) P Q E"
    by (rule events_ok_retained [OF eok])
      (use events_okD(2,4-6) [OF eok] unused in \<open>blast intro: retained_in_drop\<close>)+
  moreover have "dom ?C = dom C"
    using assms(4) by auto
  ultimately show ?thesis
    using inv pos unfolding graph_inv_def by (simp add: word_less_nat_alt)
qed

lemma graph_update_buffer:
  assumes "graph_inv lim C B P Q E" "B x = Some v" "slot_ok slot"
    and "rs_release slot = Releasing \<Longrightarrow> bu_in_flight v = 0"
  shows "graph_inv lim C (B(x \<mapsto> v\<lparr>bu_resource := slot\<rparr>)) P Q E"
proof -
  note inv = assms(1) [unfolded graph_inv_def]
  have ook: "objects_ok bu_resource bu_context_id bu_in_flight (references ev_buffer_ids E) (dom C) B"
    using inv by blast
  have "objects_ok bu_resource bu_context_id bu_in_flight (references ev_buffer_ids E) (dom C)
      (B(x \<mapsto> v\<lparr>bu_resource := slot\<rparr>))"
    by (rule objects_ok_update [OF ook assms(2)]) (use assms(3,4) in auto)
  moreover have "events_ok (dom C) (B(x \<mapsto> v\<lparr>bu_resource := slot\<rparr>)) P Q E"
    by (rule events_ok_mono [of "dom C" B P Q]) (use inv assms(2) in auto)
  ultimately show ?thesis
    using inv assms(2) unfolding graph_inv_def by simp
qed

lemma graph_drop_program:
  assumes "graph_inv lim C B P Q E" "P x = Some v" "rs_release (pr_resource v) = Releasing"
    and "C (pr_context_id v) = Some c"
  shows "graph_inv lim (C(pr_context_id v \<mapsto>
      c\<lparr>cx_children := (cx_children c)\<lparr>ch_programs := ch_programs (cx_children c) - 1\<rparr>\<rparr>)) B (P(x := None)) Q E
    \<and> 0 < ch_programs (cx_children c)"
proof -
  note inv = assms(1) [unfolded graph_inv_def]
  let ?ctx = "pr_context_id v"
  let ?ch = "(cx_children c)\<lparr>ch_programs := ch_programs (cx_children c) - 1\<rparr>"
  let ?C = "C(?ctx \<mapsto> c\<lparr>cx_children := ?ch\<rparr>)"
  have cok: "contexts_ok lim (children_of bu_context_id B) (children_of pr_context_id P)
      (children_of qu_context_id Q) (children_of ev_context_id E) C"
    and eok: "events_ok (dom C) B P Q E" and fin: "finite (dom P)" "finite (dom E)"
    and ook: "objects_ok pr_resource pr_context_id pr_in_flight (references event_program_ids E) (dom C) P"
    using inv by blast+
  note ctx = contexts_okD [OF cok assms(4)]
  have "references event_program_ids E x = 0"
    using objects_okD(3,4) [OF ook assms(2)] assms(3) by simp
  then have unused: "x \<notin> set (event_program_ids e)" if "E y = Some e" for y e
    using references_zero_notin [OF fin(2) _ that] by blast
  have count: "children_of pr_context_id (P(x := None)) y + of_bool (?ctx = y) = children_of pr_context_id P y" for y
    by (rule children_of_remove [OF fin(1) assms(2)])
  have here: "Suc (children_of pr_context_id (P(x := None)) ?ctx) = children_of pr_context_id P ?ctx"
    using count [of ?ctx] by simp
  then have pos: "0 < unat (ch_programs (cx_children c))"
    using ctx(4) by simp
  then have live: "rs_release (cx_resource c) \<noteq> Releasing"
    using ctx(2) by (auto simp: child_counts_is_empty_def)
  have elsewhere: "children_of pr_context_id (P(x := None)) y = children_of pr_context_id P y" if "y \<noteq> ?ctx" for y
    using count [of y] that by simp
  note pred = word_pred_le [OF pos ctx(8)]
  have "contexts_ok lim (children_of bu_context_id B) (children_of pr_context_id (P(x := None))) (children_of qu_context_id Q) (children_of ev_context_id E) ?C"
    by (rule contexts_ok_change [OF cok assms(4)])
      (use live ctx pred elsewhere here in \<open>simp_all\<close>)
  moreover have "objects_ok pr_resource pr_context_id pr_in_flight (references event_program_ids E) (dom C) (P(x := None))"
    by (rule objects_ok_remove [OF ook])
  moreover have "events_ok (dom C) B (P(x := None)) Q E"
    by (rule events_ok_retained [OF eok])
      (use events_okD(2,4-6) [OF eok] unused in \<open>blast intro: retained_in_drop\<close>)+
  moreover have "dom ?C = dom C"
    using assms(4) by auto
  ultimately show ?thesis
    using inv pos unfolding graph_inv_def by (simp add: word_less_nat_alt)
qed

lemma graph_update_program:
  assumes "graph_inv lim C B P Q E" "P x = Some v" "slot_ok slot"
    and "rs_release slot = Releasing \<Longrightarrow> pr_in_flight v = 0"
  shows "graph_inv lim C B (P(x \<mapsto> v\<lparr>pr_resource := slot\<rparr>)) Q E"
proof -
  note inv = assms(1) [unfolded graph_inv_def]
  have ook: "objects_ok pr_resource pr_context_id pr_in_flight (references event_program_ids E) (dom C) P"
    using inv by blast
  have "objects_ok pr_resource pr_context_id pr_in_flight (references event_program_ids E) (dom C)
      (P(x \<mapsto> v\<lparr>pr_resource := slot\<rparr>))"
    by (rule objects_ok_update [OF ook assms(2)]) (use assms(3,4) in auto)
  moreover have "events_ok (dom C) B (P(x \<mapsto> v\<lparr>pr_resource := slot\<rparr>)) Q E"
    by (rule events_ok_mono [of "dom C" B P Q]) (use inv assms(2) in auto)
  ultimately show ?thesis
    using inv assms(2) unfolding graph_inv_def by simp
qed

lemma graph_drop_queue:
  assumes "graph_inv lim C B P Q E" "Q x = Some v" "rs_release (qu_resource v) = Releasing"
    and "C (qu_context_id v) = Some c"
  shows "graph_inv lim (C(qu_context_id v \<mapsto>
      c\<lparr>cx_children := (cx_children c)\<lparr>ch_queues := ch_queues (cx_children c) - 1\<rparr>\<rparr>)) B P (Q(x := None)) E
    \<and> 0 < ch_queues (cx_children c)"
proof -
  note inv = assms(1) [unfolded graph_inv_def]
  let ?ctx = "qu_context_id v"
  let ?ch = "(cx_children c)\<lparr>ch_queues := ch_queues (cx_children c) - 1\<rparr>"
  let ?C = "C(?ctx \<mapsto> c\<lparr>cx_children := ?ch\<rparr>)"
  have cok: "contexts_ok lim (children_of bu_context_id B) (children_of pr_context_id P)
      (children_of qu_context_id Q) (children_of ev_context_id E) C"
    and eok: "events_ok (dom C) B P Q E" and fin: "finite (dom Q)" "finite (dom E)"
    and ook: "objects_ok qu_resource qu_context_id qu_in_flight (references event_queue_ids E) (dom C) Q"
    using inv by blast+
  note ctx = contexts_okD [OF cok assms(4)]
  have "references event_queue_ids E x = 0"
    using objects_okD(3,4) [OF ook assms(2)] assms(3) by simp
  then have unused: "x \<notin> set (event_queue_ids e)" if "E y = Some e" for y e
    using references_zero_notin [OF fin(2) _ that] by blast
  have count: "children_of qu_context_id (Q(x := None)) y + of_bool (?ctx = y) = children_of qu_context_id Q y" for y
    by (rule children_of_remove [OF fin(1) assms(2)])
  have here: "Suc (children_of qu_context_id (Q(x := None)) ?ctx) = children_of qu_context_id Q ?ctx"
    using count [of ?ctx] by simp
  then have pos: "0 < unat (ch_queues (cx_children c))"
    using ctx(5) by simp
  then have live: "rs_release (cx_resource c) \<noteq> Releasing"
    using ctx(2) by (auto simp: child_counts_is_empty_def)
  have elsewhere: "children_of qu_context_id (Q(x := None)) y = children_of qu_context_id Q y" if "y \<noteq> ?ctx" for y
    using count [of y] that by simp
  note pred = word_pred_le [OF pos ctx(9)]
  have "contexts_ok lim (children_of bu_context_id B) (children_of pr_context_id P) (children_of qu_context_id (Q(x := None))) (children_of ev_context_id E) ?C"
    by (rule contexts_ok_change [OF cok assms(4)])
      (use live ctx pred elsewhere here in \<open>simp_all\<close>)
  moreover have "objects_ok qu_resource qu_context_id qu_in_flight (references event_queue_ids E) (dom C) (Q(x := None))"
    by (rule objects_ok_remove [OF ook])
  moreover have "events_ok (dom C) B P (Q(x := None)) E"
    by (rule events_ok_retained [OF eok])
      (use events_okD(2,4-6) [OF eok] unused in \<open>blast intro: retained_in_drop\<close>)+
  moreover have "dom ?C = dom C"
    using assms(4) by auto
  ultimately show ?thesis
    using inv pos unfolding graph_inv_def by (simp add: word_less_nat_alt)
qed

lemma graph_update_queue:
  assumes "graph_inv lim C B P Q E" "Q x = Some v" "slot_ok slot"
    and "rs_release slot = Releasing \<Longrightarrow> qu_in_flight v = 0"
  shows "graph_inv lim C B P (Q(x \<mapsto> v\<lparr>qu_resource := slot\<rparr>)) E"
proof -
  note inv = assms(1) [unfolded graph_inv_def]
  have ook: "objects_ok qu_resource qu_context_id qu_in_flight (references event_queue_ids E) (dom C) Q"
    using inv by blast
  have "objects_ok qu_resource qu_context_id qu_in_flight (references event_queue_ids E) (dom C)
      (Q(x \<mapsto> v\<lparr>qu_resource := slot\<rparr>))"
    by (rule objects_ok_update [OF ook assms(2)]) (use assms(3,4) in auto)
  moreover have "events_ok (dom C) B P (Q(x \<mapsto> v\<lparr>qu_resource := slot\<rparr>)) E"
    by (rule events_ok_mono [of "dom C" B P Q]) (use inv assms(2) in auto)
  ultimately show ?thesis
    using inv assms(2) unfolding graph_inv_def by simp
qed

lemma graph_update_context:
  assumes "graph_inv lim C B P Q E" "C x = Some c" "slot_ok slot"
    and "rs_release slot = Releasing \<Longrightarrow> child_counts_is_empty (cx_children c)"
  shows "graph_inv lim (C(x \<mapsto> c\<lparr>cx_resource := slot\<rparr>)) B P Q E"
proof -
  note inv = assms(1) [unfolded graph_inv_def]
  have "contexts_ok lim (children_of bu_context_id B) (children_of pr_context_id P)
      (children_of qu_context_id Q) (children_of ev_context_id E) (C(x \<mapsto> c\<lparr>cx_resource := slot\<rparr>))"
    using inv assms(2-4) unfolding contexts_ok_def by auto
  moreover have "dom (C(x \<mapsto> c\<lparr>cx_resource := slot\<rparr>)) = dom C"
    using assms(2) by auto
  ultimately show ?thesis
    using inv unfolding graph_inv_def by simp
qed

lemma graph_update_event:
  assumes "graph_inv lim C B P Q E" "E x = Some e" "slot_ok slot"
  shows "graph_inv lim C B P Q (E(x \<mapsto> e\<lparr>ev_resource := slot\<rparr>))"
proof -
  note inv = assms(1) [unfolded graph_inv_def]
  have ids: "event_program_ids (e\<lparr>ev_resource := slot\<rparr>) = event_program_ids e"
    by (cases "ev_sequence_program_ids e") (simp_all add: event_program_ids_def)
  have "events_ok (dom C) B P Q (E(x \<mapsto> e\<lparr>ev_resource := slot\<rparr>))"
    using inv assms(2,3) unfolding events_ok_def by (auto simp: ids)
  then show ?thesis
    using inv assms(2) unfolding graph_inv_def by (simp add: ids)
qed

section \<open>References that events hold\<close>

lemma msum_map: "msum f (\<lambda>x. map_option (g x) (m x)) = msum (\<lambda>x v. f x (g x v)) m"
proof -
  have "dom (\<lambda>x. map_option (g x) (m x)) = dom m"
    by auto
  then show ?thesis
    unfolding msum_def by (intro sum.cong) auto
qed

definition add_refs ::
  "((u32 \<Rightarrow> u32) \<Rightarrow> 'v \<Rightarrow> 'v) \<Rightarrow> object_id list \<Rightarrow> (object_id \<rightharpoonup> 'v) \<Rightarrow> object_id \<rightharpoonup> 'v" where
  "add_refs update oids m = (\<lambda>x. map_option (update (\<lambda>n. n + of_nat (count_list oids x))) (m x))"

definition sub_refs ::
  "((u32 \<Rightarrow> u32) \<Rightarrow> 'v \<Rightarrow> 'v) \<Rightarrow> object_id list \<Rightarrow> (object_id \<rightharpoonup> 'v) \<Rightarrow> object_id \<rightharpoonup> 'v" where
  "sub_refs update oids m = (\<lambda>x. map_option (update (\<lambda>n. n - of_nat (count_list oids x))) (m x))"

lemma dom_refs [simp]: "dom (add_refs update oids m) = dom m" "dom (sub_refs update oids m) = dom m"
  by (auto simp: add_refs_def sub_refs_def)

text \<open>
  What reference counting needs of a record: its \<open>in_flight\<close> field is read back as written and
  independent of the resource slot and of the owning context.
\<close>

locale flight_record =
  fixes in_flight :: "'v \<Rightarrow> u32"
    and in_flight_update :: "(u32 \<Rightarrow> u32) \<Rightarrow> 'v \<Rightarrow> 'v"
    and slot_of :: "'v \<Rightarrow> 'r resource_slot"
    and context_of :: "'v \<Rightarrow> object_id"
  assumes flight_get: "in_flight (in_flight_update f v) = f (in_flight v)"
    and flight_twice: "in_flight_update f (in_flight_update g v) = in_flight_update (\<lambda>n. f (g n)) v"
    and flight_same: "in_flight_update (\<lambda>n. n) v = v"
    and flight_slot: "slot_of (in_flight_update f v) = slot_of v"
    and flight_context: "context_of (in_flight_update f v) = context_of v"
begin

lemma flight_inc: "(in_flight_update (\<lambda>n. n + 1) ^^ k) v = in_flight_update (\<lambda>n. n + of_nat k) v"
  by (induction k) (simp_all add: flight_same flight_twice ac_simps)

lemma flight_dec: "(in_flight_update (\<lambda>n. n - 1) ^^ k) v = in_flight_update (\<lambda>n. n - of_nat k) v"
  by (induction k) (simp_all add: flight_same flight_twice algebra_simps)

lemma sub_add_refs: "sub_refs in_flight_update oids (add_refs in_flight_update oids m) = m"
  by (rule ext) (simp add: add_refs_def sub_refs_def option.map_comp comp_def flight_twice flight_same
      option.map_ident)

lemma children_of_refs:
  "children_of context_of (add_refs in_flight_update oids m) = children_of context_of m"
  "children_of context_of (sub_refs in_flight_update oids m) = children_of context_of m"
  by (rule ext; simp add: children_of_def add_refs_def sub_refs_def msum_map flight_context)+

lemma retained_in_refs:
  "retained_in context_of (add_refs in_flight_update oids m) ctx xs = retained_in context_of m ctx xs"
  "retained_in context_of (sub_refs in_flight_update oids m) ctx xs = retained_in context_of m ctx xs"
  by (fastforce simp: retained_in_def add_refs_def sub_refs_def flight_context)+

lemma objects_ok_add_refs:
  assumes "objects_ok slot_of context_of in_flight refs ctxs m"
    and "\<And>x v. m x = Some v \<Longrightarrow> x \<in> set oids \<Longrightarrow>
      rs_release (slot_of v) \<noteq> Releasing \<and> unat (in_flight v) + count_list oids x < 2 ^ 32"
    and "\<And>x. refs' x = refs x + count_list oids x"
  shows "objects_ok slot_of context_of in_flight refs' ctxs (add_refs in_flight_update oids m)"
  unfolding objects_ok_def
proof (intro allI impI)
  fix x w
  assume "add_refs in_flight_update oids m x = Some w"
  then obtain v where v: "m x = Some v" "w = in_flight_update (\<lambda>n. n + of_nat (count_list oids x)) v"
    by (auto simp: add_refs_def)
  note ok = objects_okD [OF assms(1) v(1)]
  have "unat (in_flight w) = refs' x \<and> (rs_release (slot_of w) = Releasing \<longrightarrow> in_flight w = 0)"
  proof (cases "x \<in> set oids")
    case True
    then have "unat (in_flight v) + count_list oids x < 2 ^ 32" "rs_release (slot_of v) \<noteq> Releasing"
      using assms(2) [OF v(1)] by auto
    then show ?thesis
      using ok(3) unat_add_no_overflow [of "in_flight v" "of_nat (count_list oids x)"]
      by (simp add: v(2) flight_get flight_slot assms(3) unat_of_nat take_bit_eq_mod)
  next
    case False
    then have "count_list oids x = 0"
      by (simp add: count_list_0_iff)
    then show ?thesis
      using ok(3,4) by (simp add: v(2) flight_same assms(3))
  qed
  with ok(1,2) show "slot_ok (slot_of w) \<and> context_of w \<in> ctxs \<and> unat (in_flight w) = refs' x
      \<and> (rs_release (slot_of w) = Releasing \<longrightarrow> in_flight w = 0)"
    by (simp add: v(2) flight_slot flight_context)
qed

lemma objects_ok_sub_refs:
  assumes "objects_ok slot_of context_of in_flight refs ctxs m"
    and "\<And>x. refs' x + count_list oids x = refs x"
  shows "objects_ok slot_of context_of in_flight refs' ctxs (sub_refs in_flight_update oids m)"
  unfolding objects_ok_def
proof (intro allI impI)
  fix x w
  assume "sub_refs in_flight_update oids m x = Some w"
  then obtain v where v: "m x = Some v" "w = in_flight_update (\<lambda>n. n - of_nat (count_list oids x)) v"
    by (auto simp: sub_refs_def)
  note ok = objects_okD [OF assms(1) v(1)]
  have count: "count_list oids x \<le> unat (in_flight v)" "refs' x = unat (in_flight v) - count_list oids x"
    using ok(3) assms(2) [of x] by simp_all
  then have "count_list oids x < 2 ^ 32"
    using unat_u32_less [of "in_flight v"] by simp
  then have "unat (of_nat (count_list oids x) :: u32) = count_list oids x"
    by (simp add: unat_of_nat take_bit_eq_mod)
  then have "unat (in_flight w) = refs' x"
    using count by (simp add: v(2) flight_get unat_sub word_le_nat_alt)
  moreover have "in_flight w = 0" if "rs_release (slot_of w) = Releasing"
    using ok(4) that count calculation by (simp add: v(2) flight_slot unat_eq_iff)
  ultimately show "slot_ok (slot_of w) \<and> context_of w \<in> ctxs \<and> unat (in_flight w) = refs' x
      \<and> (rs_release (slot_of w) = Releasing \<longrightarrow> in_flight w = 0)"
    using ok(1,2) by (simp add: v(2) flight_slot flight_context)
qed

end

interpretation bu: flight_record bu_in_flight bu_in_flight_update bu_resource bu_context_id
  by unfold_locales simp_all

interpretation pr: flight_record pr_in_flight pr_in_flight_update pr_resource pr_context_id
  by unfold_locales simp_all

interpretation qu: flight_record qu_in_flight qu_in_flight_update qu_resource qu_context_id
  by unfold_locales simp_all

definition flight_room ::
  "('v \<Rightarrow> 'r resource_slot) \<Rightarrow> ('v \<Rightarrow> u32) \<Rightarrow> (object_id \<rightharpoonup> 'v) \<Rightarrow> object_id list \<Rightarrow> bool" where
  "flight_room slot_of in_flight m oids \<longleftrightarrow>
     (\<forall>x v. m x = Some v \<longrightarrow> x \<in> set oids \<longrightarrow>
        rs_release (slot_of v) \<noteq> Releasing \<and> unat (in_flight v) + count_list oids x < 2 ^ 32)"

lemma flight_roomD:
  "flight_room slot_of in_flight m oids \<Longrightarrow> m x = Some v \<Longrightarrow> x \<in> set oids \<Longrightarrow>
     rs_release (slot_of v) \<noteq> Releasing \<and> unat (in_flight v) + count_list oids x < 2 ^ 32"
  by (simp add: flight_room_def)

lemma graph_context_live:
  assumes "graph_inv lim C B P Q E" "Q y = Some v" "C (qu_context_id v) = Some c"
  shows "rs_release (cx_resource c) \<noteq> Releasing"
proof
  note inv = assms(1) [unfolded graph_inv_def]
  assume "rs_release (cx_resource c) = Releasing"
  moreover have "contexts_ok lim (children_of bu_context_id B) (children_of pr_context_id P)
      (children_of qu_context_id Q) (children_of ev_context_id E) C" "finite (dom Q)"
    using inv by blast+
  note ctx = contexts_okD [OF this(1) assms(3)] and pos = children_of_pos [OF this(2) assms(2), of qu_context_id]
  ultimately show False
    using ctx(2,5) pos by (simp add: child_counts_is_empty_def)
qed

lemma graph_new_event:
  assumes "graph_inv lim C B P Q E" "E x = None" "C (ev_context_id e) = Some c"
    and "ch_events (cx_children c) < max_events_per_context lim"
    and "slot_ok (ev_resource e)" "event_program_ids e \<noteq> []"
    and "retained_in bu_context_id B (ev_context_id e) (ev_buffer_ids e)"
      "retained_in pr_context_id P (ev_context_id e) (event_program_ids e)"
      "retained_in qu_context_id Q (ev_context_id e) (event_queue_ids e)"
    and room: "flight_room bu_resource bu_in_flight B (ev_buffer_ids e)"
      "flight_room pr_resource pr_in_flight P (event_program_ids e)"
      "flight_room qu_resource qu_in_flight Q (event_queue_ids e)"
  shows "graph_inv lim
    (C(ev_context_id e \<mapsto> c\<lparr>cx_children := (cx_children c)\<lparr>ch_events := ch_events (cx_children c) + 1\<rparr>\<rparr>))
    (add_refs bu_in_flight_update (ev_buffer_ids e) B) (add_refs pr_in_flight_update (event_program_ids e) P)
    (add_refs qu_in_flight_update (event_queue_ids e) Q) (E(x \<mapsto> e))"
proof -
  note inv = assms(1) [unfolded graph_inv_def]
  let ?C = "C(ev_context_id e \<mapsto> c\<lparr>cx_children := (cx_children c)\<lparr>ch_events := ch_events (cx_children c) + 1\<rparr>\<rparr>)"
  have cok: "contexts_ok lim (children_of bu_context_id B) (children_of pr_context_id P)
      (children_of qu_context_id Q) (children_of ev_context_id E) C"
    and eok: "events_ok (dom C) B P Q E" and fin: "finite (dom E)"
    and ook: "objects_ok bu_resource bu_context_id bu_in_flight (references ev_buffer_ids E) (dom C) B"
      "objects_ok pr_resource pr_context_id pr_in_flight (references event_program_ids E) (dom C) P"
      "objects_ok qu_resource qu_context_id qu_in_flight (references event_queue_ids E) (dom C) Q"
    using inv by blast+
  note ctx = contexts_okD [OF cok assms(3)] and suc = word_succ_le [OF assms(4)]
  have live: "rs_release (cx_resource c) \<noteq> Releasing"
    using graph_context_live [OF assms(1)] assms(3,9) by (auto simp: retained_in_def)
  have doms: "dom ?C = dom C" "ev_context_id e \<in> dom C"
    using assms(3) by auto
  have "contexts_ok lim (children_of bu_context_id B) (children_of pr_context_id P)
      (children_of qu_context_id Q) (children_of ev_context_id (E(x \<mapsto> e))) ?C"
    by (rule contexts_ok_change [OF cok assms(3)]) (use live ctx suc fin assms(2) in simp_all)
  moreover have "events_ok (dom C) (add_refs bu_in_flight_update (ev_buffer_ids e) B)
      (add_refs pr_in_flight_update (event_program_ids e) P)
      (add_refs qu_in_flight_update (event_queue_ids e) Q) (E(x \<mapsto> e))"
    using eok assms(5-9) doms(2) unfolding events_ok_def
    by (simp add: bu.retained_in_refs pr.retained_in_refs qu.retained_in_refs)
  moreover note bu.objects_ok_add_refs [OF ook(1) flight_roomD [OF room(1)], of "references ev_buffer_ids (E(x \<mapsto> e))"]
    pr.objects_ok_add_refs [OF ook(2) flight_roomD [OF room(2)], of "references event_program_ids (E(x \<mapsto> e))"]
    qu.objects_ok_add_refs [OF ook(3) flight_roomD [OF room(3)], of "references event_queue_ids (E(x \<mapsto> e))"]
  ultimately show ?thesis
    using inv fin assms(2) unfolding graph_inv_def doms(1)
    by (simp add: bu.children_of_refs pr.children_of_refs qu.children_of_refs)
qed

lemma graph_drop_event:
  assumes "graph_inv lim C B P Q E" "E x = Some e" "C (ev_context_id e) = Some c"
  shows "graph_inv lim
    (C(ev_context_id e \<mapsto> c\<lparr>cx_children := (cx_children c)\<lparr>ch_events := ch_events (cx_children c) - 1\<rparr>\<rparr>))
    (sub_refs bu_in_flight_update (ev_buffer_ids e) B) (sub_refs pr_in_flight_update (event_program_ids e) P)
    (sub_refs qu_in_flight_update (event_queue_ids e) Q) (E(x := None))
    \<and> 0 < ch_events (cx_children c)"
proof -
  note inv = assms(1) [unfolded graph_inv_def]
  let ?ctx = "ev_context_id e"
  let ?C = "C(?ctx \<mapsto> c\<lparr>cx_children := (cx_children c)\<lparr>ch_events := ch_events (cx_children c) - 1\<rparr>\<rparr>)"
  have cok: "contexts_ok lim (children_of bu_context_id B) (children_of pr_context_id P)
      (children_of qu_context_id Q) (children_of ev_context_id E) C"
    and eok: "events_ok (dom C) B P Q E" and fin: "finite (dom E)"
    and ook: "objects_ok bu_resource bu_context_id bu_in_flight (references ev_buffer_ids E) (dom C) B"
      "objects_ok pr_resource pr_context_id pr_in_flight (references event_program_ids E) (dom C) P"
      "objects_ok qu_resource qu_context_id qu_in_flight (references event_queue_ids E) (dom C) Q"
    using inv by blast+
  note ctx = contexts_okD [OF cok assms(3)]
  have count: "children_of ev_context_id (E(x := None)) y + of_bool (?ctx = y) = children_of ev_context_id E y" for y
    by (rule children_of_remove [OF fin assms(2)])
  have elsewhere: "children_of ev_context_id (E(x := None)) y = children_of ev_context_id E y" if "y \<noteq> ?ctx" for y
    using count [of y] that by simp
  have here: "Suc (children_of ev_context_id (E(x := None)) ?ctx) = children_of ev_context_id E ?ctx"
    using count [of ?ctx] by simp
  then have pos: "0 < unat (ch_events (cx_children c))"
    using ctx(6) by simp
  then have live: "rs_release (cx_resource c) \<noteq> Releasing"
    using ctx(2) by (auto simp: child_counts_is_empty_def)
  note pred = word_pred_le [OF pos ctx(10)]
  have doms: "dom ?C = dom C"
    using assms(3) by auto
  have "contexts_ok lim (children_of bu_context_id B) (children_of pr_context_id P)
      (children_of qu_context_id Q) (children_of ev_context_id (E(x := None))) ?C"
    by (rule contexts_ok_change [OF cok assms(3)]) (use live ctx pred elsewhere here in simp_all)
  moreover have "events_ok (dom C) (sub_refs bu_in_flight_update (ev_buffer_ids e) B)
      (sub_refs pr_in_flight_update (event_program_ids e) P)
      (sub_refs qu_in_flight_update (event_queue_ids e) Q) (E(x := None))"
    using eok unfolding events_ok_def
    by (simp add: bu.retained_in_refs pr.retained_in_refs qu.retained_in_refs)
  moreover note bu.objects_ok_sub_refs [OF ook(1) references_remove [OF fin assms(2)]]
    pr.objects_ok_sub_refs [OF ook(2) references_remove [OF fin assms(2)]]
    qu.objects_ok_sub_refs [OF ook(3) references_remove [OF fin assms(2)]]
  ultimately show ?thesis
    using inv pos unfolding graph_inv_def doms
    by (simp add: bu.children_of_refs pr.children_of_refs qu.children_of_refs word_less_nat_alt)
qed

end
