(* ===== verification/Device_Ops.thy ===== *)
theory Device_Ops
  imports Device_Graph
begin

text \<open>
  Every operation of the device state preserves the invariant \<open>state_inv\<close>, keeps the
  configuration, and never lets a spent identifier come back (\<open>state_advances\<close>). The
  provider's closures are arbitrary: whatever they return, the bookkeeping stays exact.
\<close>

section \<open>Tables of the state\<close>

definition table_advances :: "'a object_table \<Rightarrow> 'a object_table \<Rightarrow> bool" where
  "table_advances t t' \<longleftrightarrow> table_frame t t' \<and> (\<forall>x. table_spent t x \<longrightarrow> table_spent t' x)"

lemma table_advances_refl [simp]: "table_advances t t"
  by (simp add: table_advances_def)

lemma table_advances_trans: "table_advances t t' \<Longrightarrow> table_advances t' t'' \<Longrightarrow> table_advances t t''"
  by (auto simp: table_advances_def intro: table_frame_trans)

definition state_advances :: "('c, 'b, 'p, 'q, 'e) ds \<Rightarrow> ('c, 'b, 'p, 'q, 'e) ds \<Rightarrow> bool" where
  "state_advances s s' \<longleftrightarrow>
     ds_namespace s' = ds_namespace s \<and> ds_limits s' = ds_limits s \<and> ds_policy s' = ds_policy s
   \<and> table_advances (ds_contexts s) (ds_contexts s') \<and> table_advances (ds_buffers s) (ds_buffers s')
   \<and> table_advances (ds_programs s) (ds_programs s') \<and> table_advances (ds_queues s) (ds_queues s')
   \<and> table_advances (ds_events s) (ds_events s')"

lemma state_advances_refl [simp]: "state_advances s s"
  by (simp add: state_advances_def)

lemma state_advances_trans: "state_advances s s' \<Longrightarrow> state_advances s' s'' \<Longrightarrow> state_advances s s''"
  unfolding state_advances_def by (auto intro: table_advances_trans)

lemma insert_prepared_law:
  assumes "table_wf t" "table_try_reserve_insert alloc t = Inr u" "table_insert_prepared v t = (oid, t')"
  shows "table_wf t'" "table_lookup t oid = None" "table_lookup t' = (table_lookup t)(oid \<mapsto> v)"
    "table_advances t t'"
proof -
  have "table_has_room t"
    using assms(2) by (auto simp: table_try_reserve_insert_def table_has_room_def split: if_splits)
  from tbl.insert_new [OF assms(1) this, of v] assms(3)
  show "table_wf t'" "table_lookup t oid = None" "table_lookup t' = (table_lookup t)(oid \<mapsto> v)"
      "table_advances t t'"
    using table_insert_prepared_frame [of t v] by (auto simp: table_advances_def)
qed

lemma get_mut_lookup: "table_get_mut t oid = Inr (v, assign) \<Longrightarrow> table_lookup t oid = Some v"
  by (auto simp: table_get_mut_def table_lookup_locate split: option.splits)

lemma get_mut_law:
  assumes "table_wf t" "table_get_mut t oid = Inr (v, assign)"
  shows "table_wf (assign v')" "table_lookup (assign v') = (table_lookup t)(oid \<mapsto> v')"
    "table_advances t (assign v')" "table_shape (assign v') = table_shape t"
proof -
  have m: "table_modify t oid (\<lambda>_. v') = Inr (assign v')"
    using assms(2) by (simp add: table_modify_def)
  then show "table_wf (assign v')" "table_lookup (assign v') = (table_lookup t)(oid \<mapsto> v')"
      "table_advances t (assign v')" "table_shape (assign v') = table_shape t"
    using tbl.modify_live [OF assms(1) get_mut_lookup [OF assms(2)], of "\<lambda>_. v'"]
      table_modify_frame [OF m] table_modify_shape [OF m]
    by (auto simp: table_advances_def)
qed

lemma get_mut_error: "table_get_mut t oid = Inl e \<longleftrightarrow> table_get t oid = Inl e"
  by (cases "table_locate t oid")
    (auto simp: table_get_mut_def table_get_def ok_or_def split: option.splits)

lemma get_mut_Some:
  assumes "table_lookup t oid = Some v"
  obtains assign where "table_get_mut t oid = Inr (v, assign)"
  using assms by (auto simp: table_get_mut_def table_lookup_locate)

lemma record_Inr [simp]:
  "ds_context_record s oid = Inr c \<longleftrightarrow> contexts_of s oid = Some c"
  "ds_buffer_record s oid = Inr b \<longleftrightarrow> buffers_of s oid = Some b"
  "ds_program_record s oid = Inr p \<longleftrightarrow> programs_of s oid = Some p"
  "ds_queue_record s oid = Inr q \<longleftrightarrow> queues_of s oid = Some q"
  "ds_event_record s oid = Inr e \<longleftrightarrow> events_of s oid = Some e"
  by (simp_all add: ds_context_record_def ds_buffer_record_def ds_program_record_def
      ds_queue_record_def ds_event_record_def)

lemma record_lookup:
  "contexts_of s oid = Some c \<Longrightarrow> ds_context_record s oid = Inr c"
  "buffers_of s oid = Some b \<Longrightarrow> ds_buffer_record s oid = Inr b"
  "programs_of s oid = Some p \<Longrightarrow> ds_program_record s oid = Inr p"
  "queues_of s oid = Some q \<Longrightarrow> ds_queue_record s oid = Inr q"
  "events_of s oid = Some e \<Longrightarrow> ds_event_record s oid = Inr e"
  by (simp_all add: record_Inr)

lemma children_update_eq:
  fixes c :: "'c context_record"
  shows "cx_children_update (ch_buffers_update f) c
      = c\<lparr>cx_children := (cx_children c)\<lparr>ch_buffers := f (ch_buffers (cx_children c))\<rparr>\<rparr>"
    "cx_children_update (ch_programs_update f) c
      = c\<lparr>cx_children := (cx_children c)\<lparr>ch_programs := f (ch_programs (cx_children c))\<rparr>\<rparr>"
    "cx_children_update (ch_queues_update f) c
      = c\<lparr>cx_children := (cx_children c)\<lparr>ch_queues := f (ch_queues (cx_children c))\<rparr>\<rparr>"
    "cx_children_update (ch_events_update f) c
      = c\<lparr>cx_children := (cx_children c)\<lparr>ch_events := f (ch_events (cx_children c))\<rparr>\<rparr>"
  by (rule context_record.equality; simp; rule child_counts.equality; simp)+

lemma state_invD:
  assumes "state_inv s"
  shows "table_wf (ds_contexts s)" "table_wf (ds_buffers s)" "table_wf (ds_programs s)"
    "table_wf (ds_queues s)" "table_wf (ds_events s)"
    "graph_inv (ds_limits s) (contexts_of s) (buffers_of s) (programs_of s) (queues_of s) (events_of s)"
    "charges_ok (ds_policy s) (ds_retained s) (buffers_of s) (programs_of s)"
  using assms by (simp_all add: state_inv_def tables_ok_def)

text \<open>The invariant of a later state from the lookups of its tables.\<close>

lemma state_invI:
  assumes "state_inv s" "state_advances s s'"
    and "table_wf (ds_contexts s')" "table_wf (ds_buffers s')" "table_wf (ds_programs s')"
      "table_wf (ds_queues s')" "table_wf (ds_events s')"
    and "graph_inv (ds_limits s) (contexts_of s') (buffers_of s') (programs_of s') (queues_of s') (events_of s')"
    and "charges_ok (ds_policy s) (ds_retained s') (buffers_of s') (programs_of s')"
  shows "state_inv s'"
  using assms
  by (simp add: state_inv_def tables_ok_def state_advances_def table_advances_def table_frame_def)

section \<open>Creating contexts, buffers, programs and queues\<close>

lemma create_context_cases:
  assumes "create_context_with alloc create s w = (r, s', w')"
  shows "(\<exists>e. r = Inl e \<and> s' = s) \<or>
    (\<exists>resource oid contexts u. r = Inr oid \<and> s' = s\<lparr>ds_contexts := contexts\<rparr>
       \<and> table_len (ds_contexts s) < max_contexts (ds_limits s)
       \<and> table_try_reserve_insert alloc (ds_contexts s) = Inr u
       \<and> table_insert_prepared \<lparr>cx_resource = resource_slot_new resource,
            cx_children = child_counts_default\<rparr> (ds_contexts s) = (oid, contexts))"
  using assms unfolding create_context_with_def
  by (auto split: if_splits sum.splits prod.splits simp: Let_def not_le)

lemma create_context_inv:
  assumes inv: "state_inv s" and run: "create_context_with alloc create s w = (r, s', w')"
  shows "state_inv s' \<and> state_advances s s' \<and> (is_ok r \<or> s' = s)"
  using create_context_cases [OF run]
proof (elim disjE exE conjE)
  fix resource oid contexts u
  assume r: "r = Inr oid" and s': "s' = s\<lparr>ds_contexts := contexts\<rparr>"
    and ins: "table_try_reserve_insert alloc (ds_contexts s) = Inr u"
      "table_insert_prepared \<lparr>cx_resource = resource_slot_new resource,
        cx_children = child_counts_default\<rparr> (ds_contexts s) = (oid, contexts)"
  note D = state_invD [OF inv] and I = insert_prepared_law [OF state_invD(1) [OF inv] ins]
  have adv: "state_advances s s'"
    using I(4) by (simp add: s' state_advances_def)
  moreover have "state_inv s'"
    by (rule state_invI [OF inv adv])
      (use D I graph_new_context [OF D(6) I(2)] in \<open>simp_all add: s' I(3)\<close>)
  ultimately show ?thesis
    by (simp add: r)
qed (use inv in simp_all)

lemma context_for_child_Inr:
  "context_for_child s context_id = Inr (handle, context, assign) \<longleftrightarrow>
     table_get_mut (ds_contexts s) context_id = Inr (context, assign)
   \<and> resource_slot_get (cx_resource context) = Inr handle"
  by (auto simp: context_for_child_def)

lemma graph_context_handle:
  assumes "graph_inv lim C B P Q E" "C x = Some c" "resource_slot_get (cx_resource c) = Inr handle"
  shows "rs_release (cx_resource c) \<noteq> Releasing"
proof -
  have "contexts_ok lim (children_of bu_context_id B) (children_of pr_context_id P)
      (children_of qu_context_id Q) (children_of ev_context_id E) C"
    using assms(1) unfolding graph_inv_def by blast
  from contexts_okD(1) [OF this assms(2)] assms(3) show ?thesis
    by (rule resource_slot_get_Inr)
qed

lemma check_child_admission_Inr:
  "check_child_admission s context_id child limit = Inr () \<longleftrightarrow>
     (\<exists>context handle. contexts_of s context_id = Some context
        \<and> resource_slot_get (cx_resource context) = Inr handle
        \<and> child_count child (cx_children context) < limit)"
  by (auto simp: check_child_admission_def not_le)

lemma msum_bound:
  assumes "finite (dom m)" "\<And>k v. m k = Some v \<Longrightarrow> f k v \<le> b"
  shows "msum f m \<le> card (dom m) * b"
  unfolding msum_def using assms by (intro sum_bounded_above [where 'a = nat, simplified]) auto

text \<open>The charges are exact: at most \<open>2 ^ 32 - 1\<close> objects of less than \<open>2 ^ 64\<close> bytes fit a u128.\<close>

lemma charge_exact:
  fixes charge :: "'v \<Rightarrow> u64" and total_bytes :: u128
  assumes "table_wf t" "unat total_bytes = msum (\<lambda>_ v. unat (charge v)) (table_lookup t)"
  shows "unat (saturating_add total_bytes (ucast (bytes :: u64))) = unat total_bytes + unat bytes"
proof -
  have "unat total_bytes \<le> card (dom (table_lookup t)) * (2 ^ 64 - 1)"
    unfolding assms(2)
  proof (rule msum_bound)
    fix k v
    show "unat (charge v) \<le> 2 ^ 64 - 1"
      using unat_u64_less [of "charge v"] by simp
  qed (use tbl.count_lookups [OF assms(1)] in simp)
  also have "\<dots> \<le> 2 ^ 32 * (2 ^ 64 - 1)"
    using tbl.count_lookups [OF assms(1)] unat_u32_less [of "ot_live t"] by (intro mult_le_mono1) simp
  finally have "unat total_bytes + unat bytes < 2 ^ 128 - 1"
    using unat_u64_less [of bytes] by simp
  moreover have "unat (ucast bytes :: u128) = unat bytes"
    using unat_u64_less [of bytes] by (simp add: unsigned_ucast_eq take_bit_nat_eq_self)
  ultimately show ?thesis
    by (simp add: unat_saturating_add)
qed

lemma create_buffer_cases:
  assumes "create_buffer_with alloc context_id desc create s w = (r, s', w')"
  shows "(\<exists>e. r = Inl e \<and> s' = s) \<or>
    (\<exists>handle cx assign resource info oid buffers u.
        contexts_of s context_id = Some cx
      \<and> resource_slot_get (cx_resource cx) = Inr handle
      \<and> ch_buffers (cx_children cx) < max_buffers_per_context (ds_limits s)
      \<and> table_try_reserve_insert alloc (ds_buffers s) = Inr u
      \<and> table_get_mut (ds_contexts s) context_id = Inr (cx, assign)
      \<and> fst (create handle desc w) = Inr (resource, info)
      \<and> table_insert_prepared \<lparr>bu_resource = resource_slot_new resource, bu_context_id = context_id,
          bu_info = info, bu_in_flight = 0\<rparr> (ds_buffers s) = (oid, buffers)
      \<and> r = Inr (if bi_desc info \<noteq> desc then BCO_CleanupRequired oid BE_Incompatible
          else if ucast (po_max_buffer_backing_bytes (ds_policy s))
            < saturating_add (rt_buffer_backing (ds_retained s)) (ucast (bi_allocation_bytes info))
          then BCO_CleanupRequired oid BE_ResourceLimit else BCO_Admitted oid)
      \<and> s' = s\<lparr>ds_buffers := buffers,
          ds_retained := (ds_retained s)\<lparr>rt_buffer_backing :=
            saturating_add (rt_buffer_backing (ds_retained s)) (ucast (bi_allocation_bytes info))\<rparr>,
          ds_contexts := assign (cx\<lparr>cx_children :=
            (cx_children cx)\<lparr>ch_buffers := ch_buffers (cx_children cx) + 1\<rparr>\<rparr>)\<rparr>)"
proof (cases "and_then (check_child_admission s context_id CK_Buffer (max_buffers_per_context (ds_limits s))) (\<lambda>_.
      and_then (map_err map_table_error (table_try_reserve_insert alloc (ds_buffers s))) (\<lambda>_.
        context_for_child s context_id))")
  case (Inl e)
  with assms show ?thesis
    unfolding create_buffer_with_def Let_def by (auto split: if_splits)
next
  case (Inr x)
  obtain handle cx assign where x: "x = (handle, cx, assign)"
    by (cases x)
  from Inr [unfolded x] obtain ctx u where adm: "contexts_of s context_id = Some ctx"
      "ch_buffers (cx_children ctx) < max_buffers_per_context (ds_limits s)"
      "table_try_reserve_insert alloc (ds_buffers s) = Inr u"
      "table_get_mut (ds_contexts s) context_id = Inr (cx, assign)"
      "resource_slot_get (cx_resource cx) = Inr handle"
    by (auto simp: check_child_admission_Inr context_for_child_Inr)
  have same: "ctx = cx"
    using adm(1) get_mut_lookup [OF adm(4)] by simp
  obtain made w1 where made: "create handle desc w = (made, w1)"
    by fastforce
  show ?thesis
  proof (cases made)
    case (Inl y)
    with assms made Inr x show ?thesis
      unfolding create_buffer_with_def Let_def by (auto split: if_splits)
  next
    case made_ok: (Inr y)
    obtain resource info where y: "y = (resource, info)"
      by fastforce
    obtain oid buffers where ins: "table_insert_prepared \<lparr>bu_resource = resource_slot_new resource,
        bu_context_id = context_id, bu_info = info, bu_in_flight = 0\<rparr> (ds_buffers s) = (oid, buffers)"
      by fastforce
    show ?thesis
      using assms adm made made_ok ins unfolding create_buffer_with_def Let_def Inr x y same
      by (auto split: if_splits)
  qed
qed

lemma create_buffer_inv:
  fixes s :: "('c, 'b, 'p, 'q, 'e) ds"
  assumes inv: "state_inv s" and run: "create_buffer_with alloc context_id desc create s w = (r, s', w')"
  shows "state_inv s' \<and> state_advances s s' \<and> (is_ok r \<or> s' = s)"
  using create_buffer_cases [OF run]
proof (elim disjE exE conjE)
  fix handle assign info oid buffers u and resource :: 'b and cx :: "'c context_record"
  let ?ctx = "cx\<lparr>cx_children := (cx_children cx)\<lparr>ch_buffers := ch_buffers (cx_children cx) + 1\<rparr>\<rparr>"
  let ?rec = "\<lparr>bu_resource = resource_slot_new resource, bu_context_id = context_id, bu_info = info, bu_in_flight = 0\<rparr>"
  let ?sum = "saturating_add (rt_buffer_backing (ds_retained s)) (ucast (bi_allocation_bytes info))"
  assume c: "contexts_of s context_id = Some cx" "resource_slot_get (cx_resource cx) = Inr handle"
      "ch_buffers (cx_children cx) < max_buffers_per_context (ds_limits s)"
    and res: "table_try_reserve_insert alloc (ds_buffers s) = Inr u"
    and mut: "table_get_mut (ds_contexts s) context_id = Inr (cx, assign)"
    and ins: "table_insert_prepared ?rec (ds_buffers s) = (oid, buffers)"
    and r: "r = Inr (if bi_desc info \<noteq> desc then BCO_CleanupRequired oid BE_Incompatible
          else if ucast (po_max_buffer_backing_bytes (ds_policy s)) < ?sum
          then BCO_CleanupRequired oid BE_ResourceLimit else BCO_Admitted oid)"
    and s': "s' = s\<lparr>ds_buffers := buffers,
        ds_retained := (ds_retained s)\<lparr>rt_buffer_backing := ?sum\<rparr>, ds_contexts := assign ?ctx\<rparr>"
  note D = state_invD [OF inv]
  note I = insert_prepared_law [OF D(2) res ins] and M = get_mut_law [OF D(1) mut, of ?ctx]
  have live: "rs_release (cx_resource cx) \<noteq> Releasing"
    by (rule graph_context_handle [OF D(6) c(1,2)])
  have adv: "state_advances s s'"
    using I(4) M(3) by (simp add: s' state_advances_def)
  have "charges_ok (ds_policy s) (ds_retained s') (buffers_of s') (programs_of s')"
    using D(7) charge_exact [OF D(2), of "rt_buffer_backing (ds_retained s)"
        "\<lambda>b. bi_allocation_bytes (bu_info b)" "bi_allocation_bytes info"]
      tbl.count_lookups [OF D(2)] I(2)
    by (simp add: charges_ok_def s' I(3) msum_insert)
  moreover have "graph_inv (ds_limits s) (contexts_of s') (buffers_of s') (programs_of s') (queues_of s') (events_of s')"
    using graph_new_buffer [OF D(6) I(2) c(1) live c(3), of ?rec] by (simp add: s' I(3) M(2))
  ultimately have "state_inv s'"
    by (intro state_invI [OF inv adv]) (use D I M in \<open>simp_all add: s'\<close>)
  with adv show ?thesis
    by (simp add: r)
qed (use inv in simp_all)

lemma create_program_cases:
  assumes "create_program_with alloc context_id artifact_bytes resident_bytes create s w = (r, s', w')"
  shows "(\<exists>e. r = Inl e \<and> s' = s) \<or>
    (\<exists>handle cx assign resource oid table u.
        contexts_of s context_id = Some cx
      \<and> resource_slot_get (cx_resource cx) = Inr handle
      \<and> ch_programs (cx_children cx) < max_programs_per_context (ds_limits s)
      \<and> \<not> ucast (po_max_program_resident_bytes (ds_policy s)) < saturating_add (rt_program_resident (ds_retained s)) (ucast resident_bytes)
      \<and> table_try_reserve_insert alloc (ds_programs s) = Inr u
      \<and> table_get_mut (ds_contexts s) context_id = Inr (cx, assign)
      \<and> fst (create handle w) = Inr resource
      \<and> table_insert_prepared \<lparr>pr_resource = resource_slot_new resource, pr_context_id = context_id,
          pr_resident_bytes = resident_bytes, pr_in_flight = 0\<rparr> (ds_programs s) = (oid, table)
      \<and> r = Inr oid
      \<and> s' = s\<lparr>ds_programs := table,
          ds_retained := (ds_retained s)\<lparr>rt_program_resident :=
            saturating_add (rt_program_resident (ds_retained s)) (ucast resident_bytes)\<rparr>,
          ds_contexts := assign (cx\<lparr>cx_children :=
            (cx_children cx)\<lparr>ch_programs := ch_programs (cx_children cx) + 1\<rparr>\<rparr>)\<rparr>)"
proof (cases "and_then (check_child_admission s context_id CK_Program (max_programs_per_context (ds_limits s))) (\<lambda>_.
      and_then (map_err map_table_error (table_try_reserve_insert alloc (ds_programs s))) (\<lambda>_.
        context_for_child s context_id))")
  case (Inl e)
  with assms show ?thesis
    unfolding create_program_with_def Let_def by (auto split: if_splits)
next
  case (Inr x)
  obtain handle cx assign where x: "x = (handle, cx, assign)"
    by (cases x)
  from Inr [unfolded x] obtain ctx u where adm: "contexts_of s context_id = Some ctx"
      "ch_programs (cx_children ctx) < max_programs_per_context (ds_limits s)"
      "table_try_reserve_insert alloc (ds_programs s) = Inr u"
      "table_get_mut (ds_contexts s) context_id = Inr (cx, assign)"
      "resource_slot_get (cx_resource cx) = Inr handle"
    by (auto simp: check_child_admission_Inr context_for_child_Inr)
  have same: "ctx = cx"
    using adm(1) get_mut_lookup [OF adm(4)] by simp
  obtain made w1 where made: "create handle w = (made, w1)"
    by fastforce
  show ?thesis
  proof (cases made)
    case (Inl y)
    with assms made Inr x show ?thesis
      unfolding create_program_with_def Let_def by (auto split: if_splits)
  next
    case made_ok: (Inr resource)
    obtain oid table where ins: "table_insert_prepared \<lparr>pr_resource = resource_slot_new resource, pr_context_id = context_id,
          pr_resident_bytes = resident_bytes, pr_in_flight = 0\<rparr> (ds_programs s) = (oid, table)"
      by fastforce
    show ?thesis
      using assms adm made made_ok ins unfolding create_program_with_def Let_def Inr x same
      by (auto split: if_splits simp: not_less)
  qed
qed

lemma create_program_inv:
  fixes s :: "('c, 'b, 'p, 'q, 'e) ds"
  assumes inv: "state_inv s" and run: "create_program_with alloc context_id artifact_bytes resident_bytes create s w = (r, s', w')"
  shows "state_inv s' \<and> state_advances s s' \<and> (is_ok r \<or> s' = s)"
  using create_program_cases [OF run]
proof (elim disjE exE conjE)
  fix handle assign oid table u and resource :: 'p and cx :: "'c context_record"
  let ?ctx = "cx\<lparr>cx_children := (cx_children cx)\<lparr>ch_programs := ch_programs (cx_children cx) + 1\<rparr>\<rparr>"
  let ?rec = "\<lparr>pr_resource = resource_slot_new resource, pr_context_id = context_id,
          pr_resident_bytes = resident_bytes, pr_in_flight = 0\<rparr>"
  assume c: "contexts_of s context_id = Some cx" "resource_slot_get (cx_resource cx) = Inr handle"
      "ch_programs (cx_children cx) < max_programs_per_context (ds_limits s)"
    and fits: "\<not> ucast (po_max_program_resident_bytes (ds_policy s)) < saturating_add (rt_program_resident (ds_retained s)) (ucast resident_bytes)"
    and res: "table_try_reserve_insert alloc (ds_programs s) = Inr u"
    and mut: "table_get_mut (ds_contexts s) context_id = Inr (cx, assign)"
    and ins: "table_insert_prepared ?rec (ds_programs s) = (oid, table)"
    and r: "r = Inr oid"
    and s': "s' = s\<lparr>ds_programs := table,
          ds_retained := (ds_retained s)\<lparr>rt_program_resident :=
            saturating_add (rt_program_resident (ds_retained s)) (ucast resident_bytes)\<rparr>, ds_contexts := assign ?ctx\<rparr>"
  note D = state_invD [OF inv]
  note I = insert_prepared_law [OF D(3) res ins] and M = get_mut_law [OF D(1) mut, of ?ctx]
  have live: "rs_release (cx_resource cx) \<noteq> Releasing"
    by (rule graph_context_handle [OF D(6) c(1,2)])
  have adv: "state_advances s s'"
    using I(4) M(3) by (simp add: s' state_advances_def)
  have "charges_ok (ds_policy s) (ds_retained s') (buffers_of s') (programs_of s')"
    using D(7) charge_exact [OF D(3), of "rt_program_resident (ds_retained s)" pr_resident_bytes resident_bytes]
      tbl.count_lookups [OF D(3)] I(2) fits
      unat_u64_less [of "po_max_program_resident_bytes (ds_policy s)"]
    by (simp add: charges_ok_def s' I(3) msum_insert word_less_nat_alt unsigned_ucast_eq
        take_bit_nat_eq_self)
  moreover have "graph_inv (ds_limits s) (contexts_of s') (buffers_of s') (programs_of s') (queues_of s') (events_of s')"
    using graph_new_program [OF D(6) I(2) c(1) live c(3), of ?rec] by (simp add: s' I(3) M(2))
  ultimately have "state_inv s'"
    by (intro state_invI [OF inv adv]) (use D I M in \<open>simp_all add: s'\<close>)
  with adv show ?thesis
    by (simp add: r)
qed (use inv in simp_all)

lemma create_queue_cases:
  assumes "create_queue_with alloc context_id create s w = (r, s', w')"
  shows "(\<exists>e. r = Inl e \<and> s' = s) \<or>
    (\<exists>handle cx assign resource oid table u.
        contexts_of s context_id = Some cx
      \<and> resource_slot_get (cx_resource cx) = Inr handle
      \<and> ch_queues (cx_children cx) < max_queues_per_context (ds_limits s)
      \<and> table_try_reserve_insert alloc (ds_queues s) = Inr u
      \<and> table_get_mut (ds_contexts s) context_id = Inr (cx, assign)
      \<and> fst (create handle w) = Inr resource
      \<and> table_insert_prepared \<lparr>qu_resource = resource_slot_new resource, qu_context_id = context_id,
          qu_in_flight = 0\<rparr> (ds_queues s) = (oid, table)
      \<and> r = Inr oid
      \<and> s' = s\<lparr>ds_queues := table,
          ds_contexts := assign (cx\<lparr>cx_children :=
            (cx_children cx)\<lparr>ch_queues := ch_queues (cx_children cx) + 1\<rparr>\<rparr>)\<rparr>)"
proof (cases "and_then (check_child_admission s context_id CK_Queue (max_queues_per_context (ds_limits s))) (\<lambda>_.
      and_then (map_err map_table_error (table_try_reserve_insert alloc (ds_queues s))) (\<lambda>_.
        context_for_child s context_id))")
  case (Inl e)
  with assms show ?thesis
    unfolding create_queue_with_def Let_def by (auto split: if_splits)
next
  case (Inr x)
  obtain handle cx assign where x: "x = (handle, cx, assign)"
    by (cases x)
  from Inr [unfolded x] obtain ctx u where adm: "contexts_of s context_id = Some ctx"
      "ch_queues (cx_children ctx) < max_queues_per_context (ds_limits s)"
      "table_try_reserve_insert alloc (ds_queues s) = Inr u"
      "table_get_mut (ds_contexts s) context_id = Inr (cx, assign)"
      "resource_slot_get (cx_resource cx) = Inr handle"
    by (auto simp: check_child_admission_Inr context_for_child_Inr)
  have same: "ctx = cx"
    using adm(1) get_mut_lookup [OF adm(4)] by simp
  obtain made w1 where made: "create handle w = (made, w1)"
    by fastforce
  show ?thesis
  proof (cases made)
    case (Inl y)
    with assms made Inr x show ?thesis
      unfolding create_queue_with_def Let_def by (auto split: if_splits)
  next
    case made_ok: (Inr resource)
    obtain oid table where ins: "table_insert_prepared \<lparr>qu_resource = resource_slot_new resource, qu_context_id = context_id,
          qu_in_flight = 0\<rparr> (ds_queues s) = (oid, table)"
      by fastforce
    show ?thesis
      using assms adm made made_ok ins unfolding create_queue_with_def Let_def Inr x same
      by (auto split: if_splits simp: not_less)
  qed
qed

lemma create_queue_inv:
  fixes s :: "('c, 'b, 'p, 'q, 'e) ds"
  assumes inv: "state_inv s" and run: "create_queue_with alloc context_id create s w = (r, s', w')"
  shows "state_inv s' \<and> state_advances s s' \<and> (is_ok r \<or> s' = s)"
  using create_queue_cases [OF run]
proof (elim disjE exE conjE)
  fix handle assign oid table u and resource :: 'q and cx :: "'c context_record"
  let ?ctx = "cx\<lparr>cx_children := (cx_children cx)\<lparr>ch_queues := ch_queues (cx_children cx) + 1\<rparr>\<rparr>"
  let ?rec = "\<lparr>qu_resource = resource_slot_new resource, qu_context_id = context_id,
          qu_in_flight = 0\<rparr>"
  assume c: "contexts_of s context_id = Some cx" "resource_slot_get (cx_resource cx) = Inr handle"
      "ch_queues (cx_children cx) < max_queues_per_context (ds_limits s)"
    and res: "table_try_reserve_insert alloc (ds_queues s) = Inr u"
    and mut: "table_get_mut (ds_contexts s) context_id = Inr (cx, assign)"
    and ins: "table_insert_prepared ?rec (ds_queues s) = (oid, table)"
    and r: "r = Inr oid"
    and s': "s' = s\<lparr>ds_queues := table, ds_contexts := assign ?ctx\<rparr>"
  note D = state_invD [OF inv]
  note I = insert_prepared_law [OF D(4) res ins] and M = get_mut_law [OF D(1) mut, of ?ctx]
  have live: "rs_release (cx_resource cx) \<noteq> Releasing"
    by (rule graph_context_handle [OF D(6) c(1,2)])
  have adv: "state_advances s s'"
    using I(4) M(3) by (simp add: s' state_advances_def)
  have "charges_ok (ds_policy s) (ds_retained s') (buffers_of s') (programs_of s')"
    using D(7) by (simp add: s')
  moreover have "graph_inv (ds_limits s) (contexts_of s') (buffers_of s') (programs_of s') (queues_of s') (events_of s')"
    using graph_new_queue [OF D(6) I(2) c(1) live c(3), of ?rec] by (simp add: s' I(3) M(2))
  ultimately have "state_inv s'"
    by (intro state_invI [OF inv adv]) (use D I M in \<open>simp_all add: s'\<close>)
  with adv show ?thesis
    by (simp add: r)
qed (use inv in simp_all)

section \<open>Beginning and restoring a release\<close>

lemma begin_resource_release_law:
  assumes wf: "table_wf t" and run: "begin_resource_release slot_of slot_update busy t oid = (r, t')"
  shows "(\<exists>e. r = Inl e \<and> t' = t) \<or>
    (\<exists>v resource. r = Inr resource \<and> table_lookup t oid = Some v \<and> \<not> busy v
       \<and> rs_release (slot_of v) = Live \<and> rs_resource (slot_of v) = Some resource
       \<and> table_wf t' \<and> table_advances t t'
       \<and> table_lookup t' = (table_lookup t)(oid \<mapsto>
           slot_update (\<lambda>_. (slot_of v)\<lparr>rs_resource := None, rs_release := Releasing\<rparr>) v))"
proof (cases "table_get_mut t oid")
  case (Inl e)
  with run show ?thesis
    by (auto simp: begin_resource_release_def)
next
  case (Inr x)
  obtain v assign where x: "x = (v, assign)"
    by fastforce
  note M = get_mut_law [OF wf Inr [unfolded x]]
  show ?thesis
  proof (cases "busy v")
    case True
    with run Inr x show ?thesis
      by (auto simp: begin_resource_release_def)
  next
    case False
    with run Inr x M get_mut_lookup [OF Inr [unfolded x]] show ?thesis
      by (cases "rs_resource (slot_of v)")
        (auto simp: begin_resource_release_def resource_slot_begin_release_def split: if_splits
          intro: release_state.exhaust)
  qed
qed

lemma restore_resource_law:
  assumes wf: "table_wf t" and run: "restore_resource slot_of slot_update t oid resource = (r, t')"
  shows "(\<exists>e. r = Inl (e, resource) \<and> t' = t) \<or>
    (\<exists>v. r = Inr () \<and> table_lookup t oid = Some v
       \<and> rs_release (slot_of v) = Releasing \<and> rs_resource (slot_of v) = None
       \<and> table_wf t' \<and> table_advances t t'
       \<and> table_lookup t' = (table_lookup t)(oid \<mapsto>
           slot_update (\<lambda>_. (slot_of v)\<lparr>rs_resource := Some resource, rs_release := Live\<rparr>) v))"
proof (cases "table_get_mut t oid")
  case (Inl e)
  with run show ?thesis
    by (auto simp: restore_resource_def)
next
  case (Inr x)
  obtain v assign where x: "x = (v, assign)"
    by fastforce
  note M = get_mut_law [OF wf Inr [unfolded x]]
  show ?thesis
    using run Inr x M get_mut_lookup [OF Inr [unfolded x]]
    by (auto simp: restore_resource_def resource_slot_restore_def split: if_splits)
qed

lemma released_slot_ok [simp]:
  "slot_ok (slot\<lparr>rs_resource := None, rs_release := Releasing\<rparr>)"
  "slot_ok (slot\<lparr>rs_resource := Some resource, rs_release := Live\<rparr>)"
  by (simp_all add: slot_ok_def)

lemma begin_context_release_inv:
  assumes inv: "state_inv s" and run: "begin_context_release s oid = (r, s')"
  shows "state_inv s' \<and> state_advances s s' \<and> (is_ok r \<or> s' = s)"
proof -
  note D = state_invD [OF inv]
  obtain t where t: "begin_resource_release cx_resource cx_resource_update (\<lambda>record. \<not> child_counts_is_empty (cx_children record)) (ds_contexts s) oid = (r, t)"
      "s' = s\<lparr>ds_contexts := t\<rparr>"
    using run unfolding begin_context_release_def by (auto simp: apsnd_def map_prod_def split: prod.splits)
  from begin_resource_release_law [OF D(1) t(1)] show ?thesis
  proof (elim disjE exE conjE)
    fix v resource
    assume r: "r = Inr resource" and v: "contexts_of s oid = Some v" and idle: "\<not> \<not> child_counts_is_empty (cx_children v)"
      and t': "table_wf t" "table_advances (ds_contexts s) t" "table_lookup t = (contexts_of s)(oid \<mapsto>
        cx_resource_update (\<lambda>_. (cx_resource v)\<lparr>rs_resource := None, rs_release := Releasing\<rparr>) v)"
    have adv: "state_advances s s'"
      using t'(2) by (simp add: t(2) state_advances_def)
    moreover have "state_inv s'"
      using D t' graph_update_context [OF D(6) v, of "(cx_resource v)\<lparr>rs_resource := None, rs_release := Releasing\<rparr>"] idle
        v
      by (intro state_invI [OF inv adv]) (simp_all add: t(2))
    ultimately show ?thesis
      by (simp add: r)
  qed (use inv t(2) in simp_all)
qed

lemma restore_context_release_inv:
  assumes inv: "state_inv s" and run: "restore_context_release s oid resource = (r, s')"
  shows "state_inv s' \<and> state_advances s s' \<and> (is_ok r \<or> s' = s)"
proof -
  note D = state_invD [OF inv]
  obtain t where t: "restore_resource cx_resource cx_resource_update (ds_contexts s) oid resource = (r, t)"
      "s' = s\<lparr>ds_contexts := t\<rparr>"
    using run unfolding restore_context_release_def by (auto simp: apsnd_def map_prod_def split: prod.splits)
  from restore_resource_law [OF D(1) t(1)] show ?thesis
  proof (elim disjE exE conjE)
    fix v
    assume r: "r = Inr ()" and v: "contexts_of s oid = Some v"
      and t': "table_wf t" "table_advances (ds_contexts s) t" "table_lookup t = (contexts_of s)(oid \<mapsto>
        cx_resource_update (\<lambda>_. (cx_resource v)\<lparr>rs_resource := Some resource, rs_release := Live\<rparr>) v)"
    have adv: "state_advances s s'"
      using t'(2) by (simp add: t(2) state_advances_def)
    moreover have "state_inv s'"
      using D t' graph_update_context [OF D(6) v, of "(cx_resource v)\<lparr>rs_resource := Some resource, rs_release := Live\<rparr>"]
        v
      by (intro state_invI [OF inv adv]) (simp_all add: t(2))
    ultimately show ?thesis
      by (simp add: r)
  qed (use inv t(2) in simp_all)
qed

lemma begin_buffer_release_inv:
  assumes inv: "state_inv s" and run: "begin_buffer_release s oid = (r, s')"
  shows "state_inv s' \<and> state_advances s s' \<and> (is_ok r \<or> s' = s)"
proof -
  note D = state_invD [OF inv]
  obtain t where t: "begin_resource_release bu_resource bu_resource_update (\<lambda>record. bu_in_flight record \<noteq> 0) (ds_buffers s) oid = (r, t)"
      "s' = s\<lparr>ds_buffers := t\<rparr>"
    using run unfolding begin_buffer_release_def by (auto simp: apsnd_def map_prod_def split: prod.splits)
  from begin_resource_release_law [OF D(2) t(1)] show ?thesis
  proof (elim disjE exE conjE)
    fix v resource
    assume r: "r = Inr resource" and v: "buffers_of s oid = Some v" and idle: "\<not> bu_in_flight v \<noteq> 0"
      and t': "table_wf t" "table_advances (ds_buffers s) t" "table_lookup t = (buffers_of s)(oid \<mapsto>
        bu_resource_update (\<lambda>_. (bu_resource v)\<lparr>rs_resource := None, rs_release := Releasing\<rparr>) v)"
    have adv: "state_advances s s'"
      using t'(2) by (simp add: t(2) state_advances_def)
    moreover have "state_inv s'"
      using D t' graph_update_buffer [OF D(6) v, of "(bu_resource v)\<lparr>rs_resource := None, rs_release := Releasing\<rparr>"] idle
        msum_update_same [of "buffers_of s" oid v "\<lambda>_ b. unat (bi_allocation_bytes (bu_info b))"]
        tbl.count_lookups [OF D(2)] v
      by (intro state_invI [OF inv adv]) (simp_all add: t(2) charges_ok_def)
    ultimately show ?thesis
      by (simp add: r)
  qed (use inv t(2) in simp_all)
qed

lemma restore_buffer_release_inv:
  assumes inv: "state_inv s" and run: "restore_buffer_release s oid resource = (r, s')"
  shows "state_inv s' \<and> state_advances s s' \<and> (is_ok r \<or> s' = s)"
proof -
  note D = state_invD [OF inv]
  obtain t where t: "restore_resource bu_resource bu_resource_update (ds_buffers s) oid resource = (r, t)"
      "s' = s\<lparr>ds_buffers := t\<rparr>"
    using run unfolding restore_buffer_release_def by (auto simp: apsnd_def map_prod_def split: prod.splits)
  from restore_resource_law [OF D(2) t(1)] show ?thesis
  proof (elim disjE exE conjE)
    fix v
    assume r: "r = Inr ()" and v: "buffers_of s oid = Some v"
      and t': "table_wf t" "table_advances (ds_buffers s) t" "table_lookup t = (buffers_of s)(oid \<mapsto>
        bu_resource_update (\<lambda>_. (bu_resource v)\<lparr>rs_resource := Some resource, rs_release := Live\<rparr>) v)"
    have adv: "state_advances s s'"
      using t'(2) by (simp add: t(2) state_advances_def)
    moreover have "state_inv s'"
      using D t' graph_update_buffer [OF D(6) v, of "(bu_resource v)\<lparr>rs_resource := Some resource, rs_release := Live\<rparr>"]
        msum_update_same [of "buffers_of s" oid v "\<lambda>_ b. unat (bi_allocation_bytes (bu_info b))"]
        tbl.count_lookups [OF D(2)] v
      by (intro state_invI [OF inv adv]) (simp_all add: t(2) charges_ok_def)
    ultimately show ?thesis
      by (simp add: r)
  qed (use inv t(2) in simp_all)
qed

lemma begin_program_release_inv:
  assumes inv: "state_inv s" and run: "begin_program_release s oid = (r, s')"
  shows "state_inv s' \<and> state_advances s s' \<and> (is_ok r \<or> s' = s)"
proof -
  note D = state_invD [OF inv]
  obtain t where t: "begin_resource_release pr_resource pr_resource_update (\<lambda>record. pr_in_flight record \<noteq> 0) (ds_programs s) oid = (r, t)"
      "s' = s\<lparr>ds_programs := t\<rparr>"
    using run unfolding begin_program_release_def by (auto simp: apsnd_def map_prod_def split: prod.splits)
  from begin_resource_release_law [OF D(3) t(1)] show ?thesis
  proof (elim disjE exE conjE)
    fix v resource
    assume r: "r = Inr resource" and v: "programs_of s oid = Some v" and idle: "\<not> pr_in_flight v \<noteq> 0"
      and t': "table_wf t" "table_advances (ds_programs s) t" "table_lookup t = (programs_of s)(oid \<mapsto>
        pr_resource_update (\<lambda>_. (pr_resource v)\<lparr>rs_resource := None, rs_release := Releasing\<rparr>) v)"
    have adv: "state_advances s s'"
      using t'(2) by (simp add: t(2) state_advances_def)
    moreover have "state_inv s'"
      using D t' graph_update_program [OF D(6) v, of "(pr_resource v)\<lparr>rs_resource := None, rs_release := Releasing\<rparr>"] idle
        msum_update_same [of "programs_of s" oid v "\<lambda>_ p. unat (pr_resident_bytes p)"]
        tbl.count_lookups [OF D(3)] v
      by (intro state_invI [OF inv adv]) (simp_all add: t(2) charges_ok_def)
    ultimately show ?thesis
      by (simp add: r)
  qed (use inv t(2) in simp_all)
qed

lemma restore_program_release_inv:
  assumes inv: "state_inv s" and run: "restore_program_release s oid resource = (r, s')"
  shows "state_inv s' \<and> state_advances s s' \<and> (is_ok r \<or> s' = s)"
proof -
  note D = state_invD [OF inv]
  obtain t where t: "restore_resource pr_resource pr_resource_update (ds_programs s) oid resource = (r, t)"
      "s' = s\<lparr>ds_programs := t\<rparr>"
    using run unfolding restore_program_release_def by (auto simp: apsnd_def map_prod_def split: prod.splits)
  from restore_resource_law [OF D(3) t(1)] show ?thesis
  proof (elim disjE exE conjE)
    fix v
    assume r: "r = Inr ()" and v: "programs_of s oid = Some v"
      and t': "table_wf t" "table_advances (ds_programs s) t" "table_lookup t = (programs_of s)(oid \<mapsto>
        pr_resource_update (\<lambda>_. (pr_resource v)\<lparr>rs_resource := Some resource, rs_release := Live\<rparr>) v)"
    have adv: "state_advances s s'"
      using t'(2) by (simp add: t(2) state_advances_def)
    moreover have "state_inv s'"
      using D t' graph_update_program [OF D(6) v, of "(pr_resource v)\<lparr>rs_resource := Some resource, rs_release := Live\<rparr>"]
        msum_update_same [of "programs_of s" oid v "\<lambda>_ p. unat (pr_resident_bytes p)"]
        tbl.count_lookups [OF D(3)] v
      by (intro state_invI [OF inv adv]) (simp_all add: t(2) charges_ok_def)
    ultimately show ?thesis
      by (simp add: r)
  qed (use inv t(2) in simp_all)
qed

lemma begin_queue_release_inv:
  assumes inv: "state_inv s" and run: "begin_queue_release s oid = (r, s')"
  shows "state_inv s' \<and> state_advances s s' \<and> (is_ok r \<or> s' = s)"
proof -
  note D = state_invD [OF inv]
  obtain t where t: "begin_resource_release qu_resource qu_resource_update (\<lambda>record. qu_in_flight record \<noteq> 0) (ds_queues s) oid = (r, t)"
      "s' = s\<lparr>ds_queues := t\<rparr>"
    using run unfolding begin_queue_release_def by (auto simp: apsnd_def map_prod_def split: prod.splits)
  from begin_resource_release_law [OF D(4) t(1)] show ?thesis
  proof (elim disjE exE conjE)
    fix v resource
    assume r: "r = Inr resource" and v: "queues_of s oid = Some v" and idle: "\<not> qu_in_flight v \<noteq> 0"
      and t': "table_wf t" "table_advances (ds_queues s) t" "table_lookup t = (queues_of s)(oid \<mapsto>
        qu_resource_update (\<lambda>_. (qu_resource v)\<lparr>rs_resource := None, rs_release := Releasing\<rparr>) v)"
    have adv: "state_advances s s'"
      using t'(2) by (simp add: t(2) state_advances_def)
    moreover have "state_inv s'"
      using D t' graph_update_queue [OF D(6) v, of "(qu_resource v)\<lparr>rs_resource := None, rs_release := Releasing\<rparr>"] idle
        v
      by (intro state_invI [OF inv adv]) (simp_all add: t(2))
    ultimately show ?thesis
      by (simp add: r)
  qed (use inv t(2) in simp_all)
qed

lemma restore_queue_release_inv:
  assumes inv: "state_inv s" and run: "restore_queue_release s oid resource = (r, s')"
  shows "state_inv s' \<and> state_advances s s' \<and> (is_ok r \<or> s' = s)"
proof -
  note D = state_invD [OF inv]
  obtain t where t: "restore_resource qu_resource qu_resource_update (ds_queues s) oid resource = (r, t)"
      "s' = s\<lparr>ds_queues := t\<rparr>"
    using run unfolding restore_queue_release_def by (auto simp: apsnd_def map_prod_def split: prod.splits)
  from restore_resource_law [OF D(4) t(1)] show ?thesis
  proof (elim disjE exE conjE)
    fix v
    assume r: "r = Inr ()" and v: "queues_of s oid = Some v"
      and t': "table_wf t" "table_advances (ds_queues s) t" "table_lookup t = (queues_of s)(oid \<mapsto>
        qu_resource_update (\<lambda>_. (qu_resource v)\<lparr>rs_resource := Some resource, rs_release := Live\<rparr>) v)"
    have adv: "state_advances s s'"
      using t'(2) by (simp add: t(2) state_advances_def)
    moreover have "state_inv s'"
      using D t' graph_update_queue [OF D(6) v, of "(qu_resource v)\<lparr>rs_resource := Some resource, rs_release := Live\<rparr>"]
        v
      by (intro state_invI [OF inv adv]) (simp_all add: t(2))
    ultimately show ?thesis
      by (simp add: r)
  qed (use inv t(2) in simp_all)
qed

lemma begin_event_release_inv:
  assumes inv: "state_inv s" and run: "begin_event_release s oid = (r, s')"
  shows "state_inv s' \<and> state_advances s s' \<and> (is_ok r \<or> s' = s)"
proof -
  note D = state_invD [OF inv]
  obtain t where t: "begin_resource_release ev_resource ev_resource_update (\<lambda>_. False) (ds_events s) oid = (r, t)"
      "s' = s\<lparr>ds_events := t\<rparr>"
    using run unfolding begin_event_release_def by (auto simp: apsnd_def map_prod_def split: prod.splits)
  from begin_resource_release_law [OF D(5) t(1)] show ?thesis
  proof (elim disjE exE conjE)
    fix v resource
    assume r: "r = Inr resource" and v: "events_of s oid = Some v" and idle: "\<not> False"
      and t': "table_wf t" "table_advances (ds_events s) t" "table_lookup t = (events_of s)(oid \<mapsto>
        ev_resource_update (\<lambda>_. (ev_resource v)\<lparr>rs_resource := None, rs_release := Releasing\<rparr>) v)"
    have adv: "state_advances s s'"
      using t'(2) by (simp add: t(2) state_advances_def)
    moreover have "state_inv s'"
      using D t' graph_update_event [OF D(6) v, of "(ev_resource v)\<lparr>rs_resource := None, rs_release := Releasing\<rparr>"] idle
        v
      by (intro state_invI [OF inv adv]) (simp_all add: t(2))
    ultimately show ?thesis
      by (simp add: r)
  qed (use inv t(2) in simp_all)
qed

lemma restore_event_release_inv:
  assumes inv: "state_inv s" and run: "restore_event_release s oid resource = (r, s')"
  shows "state_inv s' \<and> state_advances s s' \<and> (is_ok r \<or> s' = s)"
proof -
  note D = state_invD [OF inv]
  obtain t where t: "restore_resource ev_resource ev_resource_update (ds_events s) oid resource = (r, t)"
      "s' = s\<lparr>ds_events := t\<rparr>"
    using run unfolding restore_event_release_def by (auto simp: apsnd_def map_prod_def split: prod.splits)
  from restore_resource_law [OF D(5) t(1)] show ?thesis
  proof (elim disjE exE conjE)
    fix v
    assume r: "r = Inr ()" and v: "events_of s oid = Some v"
      and t': "table_wf t" "table_advances (ds_events s) t" "table_lookup t = (events_of s)(oid \<mapsto>
        ev_resource_update (\<lambda>_. (ev_resource v)\<lparr>rs_resource := Some resource, rs_release := Live\<rparr>) v)"
    have adv: "state_advances s s'"
      using t'(2) by (simp add: t(2) state_advances_def)
    moreover have "state_inv s'"
      using D t' graph_update_event [OF D(6) v, of "(ev_resource v)\<lparr>rs_resource := Some resource, rs_release := Live\<rparr>"]
        v
      by (intro state_invI [OF inv adv]) (simp_all add: t(2))
    ultimately show ?thesis
      by (simp add: r)
  qed (use inv t(2) in simp_all)
qed

section \<open>Committing a release\<close>

lemma remove_law:
  assumes "table_wf t" "table_lookup t oid = Some v"
  obtains t' where "table_remove t oid = (Inr v, t')" "table_wf t'" "table_lookup t' = (table_lookup t)(oid := None)"
    "table_spent t' oid" "table_advances t t'"
proof -
  obtain t' where t': "table_remove t oid = (Inr v, t')" "table_wf t'"
      "table_lookup t' = (table_lookup t)(oid := None)" "table_spent t' oid"
      "\<forall>x. table_spent t x \<longrightarrow> table_spent t' x"
    using tbl.remove_live [OF assms] by blast
  moreover have "table_advances t t'"
    using table_remove_frame [of t oid] t'(1,5) by (simp add: table_advances_def)
  ultimately show thesis
    using that by blast
qed

lemma forget_child_law:
  assumes "table_wf (ds_contexts s)" "contexts_of s x = Some c"
  obtains t where "forget_child f x s = (Inr (), s\<lparr>ds_contexts := t\<rparr>)" "table_wf t"
    "table_lookup t = (contexts_of s)(x \<mapsto> cx_children_update f c)" "table_advances (ds_contexts s) t"
proof -
  obtain t where t: "table_modify (ds_contexts s) x (cx_children_update f) = Inr t" "table_wf t"
      "table_lookup t = (contexts_of s)(x \<mapsto> cx_children_update f c)"
      "\<forall>x. table_spent (ds_contexts s) x \<longrightarrow> table_spent t x"
    using tbl.modify_live [OF assms, of "cx_children_update f"] by blast
  then have "table_advances (ds_contexts s) t"
    using table_modify_frame [OF t(1)] by (simp add: table_advances_def)
  moreover have "forget_child f x s = (Inr (), s\<lparr>ds_contexts := t\<rparr>)"
    using t(1) by (simp add: forget_child_def)
  ultimately show thesis
    using that t by blast
qed

lemma commit_context_release_ok:
  assumes inv: "state_inv s" and c: "contexts_of s oid = Some c" "rs_release (cx_resource c) = Releasing"
  shows "\<exists>s'. commit_context_release s oid = (Inr (), s') \<and> state_inv s' \<and> state_advances s s'
    \<and> contexts_of s' = (contexts_of s)(oid := None) \<and> table_spent (ds_contexts s') oid"
proof -
  note D = state_invD [OF inv]
  obtain t where t: "table_remove (ds_contexts s) oid = (Inr c, t)" "table_wf t"
      "table_lookup t = (contexts_of s)(oid := None)" "table_spent t oid" "table_advances (ds_contexts s) t"
    using remove_law [OF D(1) c(1)] by blast
  let ?s = "s\<lparr>ds_contexts := t\<rparr>"
  have adv: "state_advances s ?s"
    using t(5) by (simp add: state_advances_def)
  have "state_inv ?s"
    by (rule state_invI [OF inv adv]) (use D t graph_drop_context [OF D(6) c] in simp_all)
  moreover have "commit_context_release s oid = (Inr (), ?s)"
    using c t(1) by (simp add: record_lookup commit_context_release_def ensure_releasing_def)
  ultimately show ?thesis
    using adv t by auto
qed

lemma graph_owner:
  assumes "graph_inv lim C B P Q E"
  shows "B x = Some b \<Longrightarrow> \<exists>c. C (bu_context_id b) = Some c"
    "P x = Some p \<Longrightarrow> \<exists>c. C (pr_context_id p) = Some c"
    "Q x = Some q \<Longrightarrow> \<exists>c. C (qu_context_id q) = Some c"
    "E x = Some e \<Longrightarrow> \<exists>c. C (ev_context_id e) = Some c"
  using assms unfolding graph_inv_def by (auto dest: objects_okD(2) events_okD(2))

lemma charge_dropped:
  fixes charge :: "'v \<Rightarrow> u64" and total_bytes :: u128
  assumes "finite (dom m)" "m x = Some v" "unat total_bytes = msum (\<lambda>_ v. unat (charge v)) m"
  shows "unat (total_bytes - ucast (charge v)) = msum (\<lambda>_ v. unat (charge v)) (m(x := None))"
proof -
  have "unat (ucast (charge v) :: u128) = unat (charge v)"
    using unat_u64_less [of "charge v"] by (simp add: unsigned_ucast_eq take_bit_nat_eq_self)
  moreover have "msum (\<lambda>_ v. unat (charge v)) (m(x := None)) + unat (charge v) = unat total_bytes"
    using msum_remove [OF assms(1,2)] assms(3) by simp
  ultimately show ?thesis
    by (simp add: unat_sub word_le_nat_alt)
qed

lemma commit_buffer_release_ok:
  assumes inv: "state_inv s" and v: "buffers_of s oid = Some v" "rs_release (bu_resource v) = Releasing"
  shows "\<exists>s'. commit_buffer_release s oid = (Inr (), s') \<and> state_inv s' \<and> state_advances s s'
    \<and> buffers_of s' = (buffers_of s)(oid := None) \<and> table_spent (ds_buffers s') oid"
proof -
  note D = state_invD [OF inv]
  obtain c where c: "contexts_of s (bu_context_id v) = Some c"
    using graph_owner(1) [OF D(6) v(1)] by blast
  obtain t where t: "table_remove (ds_buffers s) oid = (Inr v, t)" "table_wf t"
      "table_lookup t = (buffers_of s)(oid := None)" "table_spent t oid" "table_advances (ds_buffers s) t"
    using remove_law [OF D(2) v(1)] by blast
  let ?s1 = "s\<lparr>ds_buffers := t, ds_retained := (ds_retained s)\<lparr>rt_buffer_backing :=
    rt_buffer_backing (ds_retained s) - ucast (bi_allocation_bytes (bu_info v))\<rparr>\<rparr>"
  obtain u where u: "forget_child (ch_buffers_update (\<lambda>n. n - 1)) (bu_context_id v) ?s1
        = (Inr (), ?s1\<lparr>ds_contexts := u\<rparr>)" "table_wf u"
      "table_lookup u = (contexts_of s)(bu_context_id v \<mapsto> cx_children_update (ch_buffers_update (\<lambda>n. n - 1)) c)"
      "table_advances (ds_contexts s) u"
    using forget_child_law [of ?s1 "bu_context_id v" c "ch_buffers_update (\<lambda>n. n - 1)"] D(1) c by auto
  let ?s = "?s1\<lparr>ds_contexts := u\<rparr>"
  have adv: "state_advances s ?s"
    using t(5) u(4) by (simp add: state_advances_def)
  have "charges_ok (ds_policy s) (ds_retained ?s) (buffers_of ?s) (programs_of ?s)"
    using D(7) charge_dropped [of "buffers_of s" oid v "rt_buffer_backing (ds_retained s)"
        "\<lambda>b. bi_allocation_bytes (bu_info b)"] tbl.count_lookups [OF D(2)] v(1) t(3)
    by (simp add: charges_ok_def)
  then have "state_inv ?s"
    using D t u graph_drop_buffer [OF D(6) v c] by (intro state_invI [OF inv adv]) (simp_all add: children_update_eq)
  moreover have "commit_buffer_release s oid = (Inr (), ?s)"
    using v t(1) u(1) by (simp add: record_lookup commit_buffer_release_def ensure_releasing_def)
  ultimately show ?thesis
    using adv t by auto
qed

lemma commit_program_release_ok:
  assumes inv: "state_inv s" and v: "programs_of s oid = Some v" "rs_release (pr_resource v) = Releasing"
  shows "\<exists>s'. commit_program_release s oid = (Inr (), s') \<and> state_inv s' \<and> state_advances s s'
    \<and> programs_of s' = (programs_of s)(oid := None) \<and> table_spent (ds_programs s') oid"
proof -
  note D = state_invD [OF inv]
  obtain c where c: "contexts_of s (pr_context_id v) = Some c"
    using graph_owner(2) [OF D(6) v(1)] by blast
  obtain t where t: "table_remove (ds_programs s) oid = (Inr v, t)" "table_wf t"
      "table_lookup t = (programs_of s)(oid := None)" "table_spent t oid" "table_advances (ds_programs s) t"
    using remove_law [OF D(3) v(1)] by blast
  let ?s1 = "s\<lparr>ds_programs := t, ds_retained := (ds_retained s)\<lparr>rt_program_resident :=
    rt_program_resident (ds_retained s) - ucast (pr_resident_bytes v)\<rparr>\<rparr>"
  obtain u where u: "forget_child (ch_programs_update (\<lambda>n. n - 1)) (pr_context_id v) ?s1
        = (Inr (), ?s1\<lparr>ds_contexts := u\<rparr>)" "table_wf u"
      "table_lookup u = (contexts_of s)(pr_context_id v \<mapsto> cx_children_update (ch_programs_update (\<lambda>n. n - 1)) c)"
      "table_advances (ds_contexts s) u"
    using forget_child_law [of ?s1 "pr_context_id v" c "ch_programs_update (\<lambda>n. n - 1)"] D(1) c by auto
  let ?s = "?s1\<lparr>ds_contexts := u\<rparr>"
  have adv: "state_advances s ?s"
    using t(5) u(4) by (simp add: state_advances_def)
  have "charges_ok (ds_policy s) (ds_retained ?s) (buffers_of ?s) (programs_of ?s)"
    using D(7) charge_dropped [of "programs_of s" oid v "rt_program_resident (ds_retained s)"
        pr_resident_bytes] tbl.count_lookups [OF D(3)] v(1) t(3)
      msum_remove [of "programs_of s" oid v "\<lambda>_ p. unat (pr_resident_bytes p)"]
    by (simp add: charges_ok_def)
  then have "state_inv ?s"
    using D t u graph_drop_program [OF D(6) v c] by (intro state_invI [OF inv adv]) (simp_all add: children_update_eq)
  moreover have "commit_program_release s oid = (Inr (), ?s)"
    using v t(1) u(1) by (simp add: record_lookup commit_program_release_def ensure_releasing_def)
  ultimately show ?thesis
    using adv t by auto
qed

lemma commit_queue_release_ok:
  assumes inv: "state_inv s" and v: "queues_of s oid = Some v" "rs_release (qu_resource v) = Releasing"
  shows "\<exists>s'. commit_queue_release s oid = (Inr (), s') \<and> state_inv s' \<and> state_advances s s'
    \<and> queues_of s' = (queues_of s)(oid := None) \<and> table_spent (ds_queues s') oid"
proof -
  note D = state_invD [OF inv]
  obtain c where c: "contexts_of s (qu_context_id v) = Some c"
    using graph_owner(3) [OF D(6) v(1)] by blast
  obtain t where t: "table_remove (ds_queues s) oid = (Inr v, t)" "table_wf t"
      "table_lookup t = (queues_of s)(oid := None)" "table_spent t oid" "table_advances (ds_queues s) t"
    using remove_law [OF D(4) v(1)] by blast
  let ?s1 = "s\<lparr>ds_queues := t\<rparr>"
  obtain u where u: "forget_child (ch_queues_update (\<lambda>n. n - 1)) (qu_context_id v) ?s1
        = (Inr (), ?s1\<lparr>ds_contexts := u\<rparr>)" "table_wf u"
      "table_lookup u = (contexts_of s)(qu_context_id v \<mapsto> cx_children_update (ch_queues_update (\<lambda>n. n - 1)) c)"
      "table_advances (ds_contexts s) u"
    using forget_child_law [of ?s1 "qu_context_id v" c "ch_queues_update (\<lambda>n. n - 1)"] D(1) c by auto
  let ?s = "?s1\<lparr>ds_contexts := u\<rparr>"
  have adv: "state_advances s ?s"
    using t(5) u(4) by (simp add: state_advances_def)
  have "charges_ok (ds_policy s) (ds_retained ?s) (buffers_of ?s) (programs_of ?s)"
    using D(7) by simp
  then have "state_inv ?s"
    using D t u graph_drop_queue [OF D(6) v c] by (intro state_invI [OF inv adv]) (simp_all add: children_update_eq)
  moreover have "commit_queue_release s oid = (Inr (), ?s)"
    using v t(1) u(1) by (simp add: record_lookup commit_queue_release_def ensure_releasing_def)
  ultimately show ?thesis
    using adv t by auto
qed

end
