(* ===== verification/Device_Events.thy ===== *)
theory Device_Events
  imports Device_Ops
begin

text \<open>
  Submissions: what the checks of \<open>create_event_with\<close> and \<open>create_event_sequence_with\<close>
  establish, the reference counts that an event takes and gives back, the exact rollback
  when the provider refuses, and the release of events.
\<close>

section \<open>What the checks establish\<close>

text \<open>Identifiers of live objects of one context.\<close>

definition live_in ::
  "('v \<Rightarrow> 'r resource_slot) \<Rightarrow> ('v \<Rightarrow> object_id) \<Rightarrow> (object_id \<rightharpoonup> 'v) \<Rightarrow> object_id \<Rightarrow> object_id list \<Rightarrow> bool" where
  "live_in slot_of context_of m ctx oids \<longleftrightarrow>
     (\<forall>x \<in> set oids. \<exists>v. m x = Some v \<and> rs_resource (slot_of v) \<noteq> None \<and> context_of v = ctx)"

lemma resource_slot_get_eq: "resource_slot_get slot = Inr r \<longleftrightarrow> rs_resource slot = Some r"
  by (cases "rs_resource slot") (simp_all add: resource_slot_get_def)

lemma validate_buffer_ids_Inr:
  "validate_buffer_ids s ctx oids = Inr () \<longleftrightarrow> live_in bu_resource bu_context_id (buffers_of s) ctx oids"
  by (induction oids) (auto simp: live_in_def resource_slot_get_eq)

lemma validate_program_ids_Inr:
  "validate_program_ids s ctx oids = Inr () \<longleftrightarrow> live_in pr_resource pr_context_id (programs_of s) ctx oids"
  by (induction oids) (auto simp: live_in_def resource_slot_get_eq)

lemma validate_submission_Inr:
  "validate_submission s queue_id program_id buffer_ids = Inr ctx \<longleftrightarrow>
     live_in qu_resource qu_context_id (queues_of s) ctx [queue_id]
   \<and> live_in pr_resource pr_context_id (programs_of s) ctx [program_id]
   \<and> live_in bu_resource bu_context_id (buffers_of s) ctx buffer_ids"
  by (auto simp: validate_submission_def validate_buffer_ids_Inr resource_slot_get_eq live_in_def)

lemma validate_submission_sequence_Inr:
  "validate_submission_sequence s queue_id program_ids buffer_ids = Inr ctx \<longleftrightarrow>
     program_ids \<noteq> [] \<and> live_in qu_resource qu_context_id (queues_of s) ctx [queue_id]
   \<and> live_in pr_resource pr_context_id (programs_of s) ctx program_ids
   \<and> live_in bu_resource bu_context_id (buffers_of s) ctx buffer_ids"
  by (cases program_ids) (auto simp: validate_submission_Inr validate_program_ids_Inr live_in_def)

lemma live_in_retained: "live_in slot_of context_of m ctx oids \<Longrightarrow> retained_in context_of m ctx oids"
  by (auto simp: live_in_def retained_in_def)

lemma live_in_set: "live_in slot_of context_of m ctx oids \<Longrightarrow> set oids = set oids' \<Longrightarrow>
    live_in slot_of context_of m ctx oids'"
  by (simp add: live_in_def)

lemma live_in_dom: "live_in slot_of context_of m ctx oids \<Longrightarrow> set oids \<subseteq> dom m"
  by (auto simp: live_in_def)

lemma check_increment_Inr: "check_increment in_flight n = Inr () \<longleftrightarrow> unat in_flight + n < 2 ^ 32"
proof (cases "n < 2 ^ 32")
  case True
  then have "unat (of_nat n :: u32) = n"
    by (simp add: unat_of_nat take_bit_eq_mod)
  with True show ?thesis
    by (simp add: check_increment_def checked_add_def)
qed (simp add: check_increment_def)

lemma check_program_increments_room:
  assumes "check_program_increments s before oids = Inr ()" "x \<in> set oids" "x \<notin> set before"
  shows "\<exists>p. programs_of s x = Some p \<and> unat (pr_in_flight p) + count_list oids x < 2 ^ 32"
  using assms
proof (induction oids arbitrary: before)
  case (Cons oid oids)
  show ?case
  proof (cases "x = oid")
    case True
    with Cons.prems show ?thesis
      by (auto simp: check_increment_Inr split: if_splits)
  next
    case False
    have "check_program_increments s (before @ [oid]) oids = Inr ()"
      using Cons.prems(1) by (auto split: if_splits)
    from Cons.IH [OF this] Cons.prems(2,3) False show ?thesis
      by auto
  qed
qed simp

lemma sorted_run:
  assumes "sorted (a # xs)"
  shows "count_list xs a = length (takeWhile (\<lambda>x. x = a) xs)" "a \<notin> set (dropWhile (\<lambda>x. x = a) xs)"
proof -
  have split: "takeWhile (\<lambda>x. x = a) xs @ dropWhile (\<lambda>x. x = a) xs = xs"
    by simp
  show tail: "a \<notin> set (dropWhile (\<lambda>x. x = a) xs)"
    using assms by (induction xs) auto
  have "count_list (takeWhile (\<lambda>x. x = a) xs) a = length (takeWhile (\<lambda>x. x = a) xs)"
    by (induction xs) auto
  with tail show "count_list xs a = length (takeWhile (\<lambda>x. x = a) xs)"
    by (subst split [symmetric], subst count_list_append) (simp add: count_list_0_iff)
qed

lemma set_dropWhile_other: "x \<noteq> a \<Longrightarrow> x \<in> set xs \<Longrightarrow> x \<in> set (dropWhile (\<lambda>x. x = a) xs)"
  by (induction xs) auto

lemma count_dropWhile: "x \<noteq> a \<Longrightarrow> count_list (dropWhile (\<lambda>x. x = a) xs) x = count_list xs x"
  by (induction xs) auto

lemma check_buffer_increments_room:
  assumes "check_buffer_increments s oids = Inr ()" "sorted oids" "x \<in> set oids"
  shows "\<exists>b. buffers_of s x = Some b \<and> unat (bu_in_flight b) + count_list oids x < 2 ^ 32"
  using assms
proof (induction s oids rule: check_buffer_increments.induct)
  case (2 s oid oids)
  from 2(2) obtain b where b: "buffers_of s oid = Some b"
      "unat (bu_in_flight b) + Suc (length (takeWhile (\<lambda>x. x = oid) oids)) < 2 ^ 32"
      "check_buffer_increments s (dropWhile (\<lambda>x. x = oid) oids) = Inr ()"
    by (auto simp: check_increment_Inr)
  show ?case
  proof (cases "x = oid")
    case True
    with b sorted_run(1) [OF 2(3)] show ?thesis
      by simp
  next
    case False
    have "sorted (dropWhile (\<lambda>x. x = oid) oids)"
      using 2(3) by (simp add: sorted_wrt_dropWhile)
    moreover have "x \<in> set (dropWhile (\<lambda>x. x = oid) oids)"
      using 2(4) False by (simp add: set_dropWhile_other)
    ultimately have "\<exists>b. buffers_of s x = Some b
        \<and> unat (bu_in_flight b) + count_list (dropWhile (\<lambda>x. x = oid) oids) x < 2 ^ 32"
      using 2(1) [OF b(3)] by simp
    with False show ?thesis
      by (simp add: count_dropWhile)
  qed
qed simp

section \<open>Taking and giving back references\<close>

text \<open>A table whose records changed in place.\<close>

definition reshaped :: "'a object_table \<Rightarrow> 'a object_table \<Rightarrow> bool" where
  "reshaped t t' \<longleftrightarrow> table_wf t' \<and> table_shape t' = table_shape t \<and> table_advances t t'"

lemma reshaped_trans: "reshaped t t' \<Longrightarrow> reshaped t' t'' \<Longrightarrow> reshaped t t''"
  by (auto simp: reshaped_def intro: table_advances_trans)

lemma reshaped_eqI: "table_wf t \<Longrightarrow> reshaped t t' \<Longrightarrow> table_lookup t' = table_lookup t \<Longrightarrow> t' = t"
  by (rule table_eqI) (simp_all add: reshaped_def)

lemma modify_each_reshaped:
  assumes "table_wf t" "set oids \<subseteq> dom (table_lookup t)"
  obtains t' where "modify_each f oids t = (Inr (), t')" "reshaped t t'"
    "table_lookup t' = (\<lambda>x. map_option (f ^^ count_list oids x) (table_lookup t x))"
proof -
  obtain t' where t': "modify_each f oids t = (Inr (), t')" "table_wf t'" "table_shape t' = table_shape t"
      "\<forall>x. table_lookup t' x = map_option (f ^^ count_list oids x) (table_lookup t x)"
      "\<forall>x. table_spent t x \<longrightarrow> table_spent t' x"
    using modify_each_law [OF assms] by blast
  then have "reshaped t t'"
    by (simp add: reshaped_def table_advances_def table_frame_def table_shape_def)
  with t'(1,4) that show ?thesis
    by blast
qed

lemma modify_one: "m y = Some v \<Longrightarrow> (\<lambda>x. map_option (f ^^ count_list [y] x) (m x)) = m(y \<mapsto> f v)"
  by (auto simp: fun_eq_iff option.map_id)

text \<open>The identifiers that an adjustment walks over are in the tables.\<close>

definition referable ::
  "object_id \<Rightarrow> object_id \<Rightarrow> object_id list \<Rightarrow> object_id list \<Rightarrow> ('c, 'b, 'p, 'q, 'e) ds \<Rightarrow> bool" where
  "referable ctx queue_id program_ids buffer_ids s \<longleftrightarrow>
     table_wf (ds_contexts s) \<and> table_wf (ds_buffers s) \<and> table_wf (ds_programs s) \<and> table_wf (ds_queues s)
   \<and> ctx \<in> dom (contexts_of s) \<and> queue_id \<in> dom (queues_of s)
   \<and> set program_ids \<subseteq> dom (programs_of s) \<and> set buffer_ids \<subseteq> dom (buffers_of s)"

text \<open>The state with its four tables replaced.\<close>

abbreviation with_tables ::
  "('c, 'b, 'p, 'q, 'e) ds \<Rightarrow> 'q queue_record object_table \<Rightarrow> 'p program_record object_table
    \<Rightarrow> 'b buffer_record object_table \<Rightarrow> 'c context_record object_table \<Rightarrow> ('c, 'b, 'p, 'q, 'e) ds" where
  "with_tables s Q P B C \<equiv> s\<lparr>ds_queues := Q, ds_programs := P, ds_buffers := B, ds_contexts := C\<rparr>"

lemma adjust_references_law:
  assumes "referable ctx queue_id program_ids buffer_ids s"
  obtains Q P B C where
    "adjust_references f ctx queue_id program_ids buffer_ids s = (Inr (), with_tables s Q P B C)"
    "reshaped (ds_queues s) Q" "reshaped (ds_programs s) P" "reshaped (ds_buffers s) B" "reshaped (ds_contexts s) C"
    "table_lookup Q = (\<lambda>x. map_option (qu_in_flight_update f ^^ count_list [queue_id] x) (queues_of s x))"
    "table_lookup P = (\<lambda>x. map_option (pr_in_flight_update f ^^ count_list program_ids x) (programs_of s x))"
    "table_lookup B = (\<lambda>x. map_option (bu_in_flight_update f ^^ count_list buffer_ids x) (buffers_of s x))"
    "table_lookup C = (contexts_of s)(ctx \<mapsto> cx_children_update (ch_events_update f) (the (contexts_of s ctx)))"
proof -
  note R = assms [unfolded referable_def]
  obtain Q where Q: "modify_each (qu_in_flight_update f) [queue_id] (ds_queues s) = (Inr (), Q)"
      "reshaped (ds_queues s) Q"
      "table_lookup Q = (\<lambda>x. map_option (qu_in_flight_update f ^^ count_list [queue_id] x) (queues_of s x))"
    using modify_each_reshaped [of "ds_queues s" "[queue_id]"] R by auto
  obtain P where P: "modify_each (pr_in_flight_update f) program_ids (ds_programs s) = (Inr (), P)"
      "reshaped (ds_programs s) P"
      "table_lookup P = (\<lambda>x. map_option (pr_in_flight_update f ^^ count_list program_ids x) (programs_of s x))"
    using modify_each_reshaped [of "ds_programs s" program_ids] R by auto
  obtain B where B: "modify_each (bu_in_flight_update f) buffer_ids (ds_buffers s) = (Inr (), B)"
      "reshaped (ds_buffers s) B"
      "table_lookup B = (\<lambda>x. map_option (bu_in_flight_update f ^^ count_list buffer_ids x) (buffers_of s x))"
    using modify_each_reshaped [of "ds_buffers s" buffer_ids] R by auto
  obtain C where C: "modify_each (cx_children_update (ch_events_update f)) [ctx] (ds_contexts s) = (Inr (), C)"
      "reshaped (ds_contexts s) C"
      "table_lookup C = (\<lambda>x. map_option (cx_children_update (ch_events_update f) ^^ count_list [ctx] x) (contexts_of s x))"
    using modify_each_reshaped [of "ds_contexts s" "[ctx]"] R by auto
  obtain c where c: "contexts_of s ctx = Some c"
    using R by auto
  have "table_lookup C = (contexts_of s)(ctx \<mapsto> cx_children_update (ch_events_update f) (the (contexts_of s ctx)))"
    unfolding C(3) using modify_one [of "contexts_of s" ctx c "cx_children_update (ch_events_update f)"] c by simp
  moreover have "adjust_references f ctx queue_id program_ids buffer_ids s = (Inr (), with_tables s Q P B C)"
    using Q(1) P(1) B(1) C(1) by (simp add: adjust_references_def)
  ultimately show ?thesis
    using that Q(2,3) P(2,3) B(2,3) C(2) by blast
qed

text \<open>The two uses of the adjustment, with the counts that they change.\<close>

lemma increment_law:
  assumes "referable ctx queue_id program_ids buffer_ids s" "contexts_of s ctx = Some c"
  obtains Q P B C where
    "increment_event_references ctx queue_id program_ids buffer_ids s = (Inr (), with_tables s Q P B C)"
    "reshaped (ds_queues s) Q" "reshaped (ds_programs s) P" "reshaped (ds_buffers s) B" "reshaped (ds_contexts s) C"
    "table_lookup Q = add_refs qu_in_flight_update [queue_id] (queues_of s)"
    "table_lookup P = add_refs pr_in_flight_update program_ids (programs_of s)"
    "table_lookup B = add_refs bu_in_flight_update buffer_ids (buffers_of s)"
    "table_lookup C = (contexts_of s)(ctx \<mapsto> c\<lparr>cx_children := (cx_children c)\<lparr>ch_events := ch_events (cx_children c) + 1\<rparr>\<rparr>)"
  by (rule adjust_references_law [OF assms(1), of "\<lambda>n. n + 1"], rule that)
    (simp_all add: increment_event_references_def add_refs_def assms(2) children_update_eq
      ext [OF qu.flight_inc] ext [OF pr.flight_inc] ext [OF bu.flight_inc] del: count_list.simps)

lemma decrement_law:
  assumes "referable ctx queue_id program_ids buffer_ids s" "contexts_of s ctx = Some c"
  obtains Q P B C where
    "decrement_event_references ctx queue_id program_ids buffer_ids s = (Inr (), with_tables s Q P B C)"
    "reshaped (ds_queues s) Q" "reshaped (ds_programs s) P" "reshaped (ds_buffers s) B" "reshaped (ds_contexts s) C"
    "table_lookup Q = sub_refs qu_in_flight_update [queue_id] (queues_of s)"
    "table_lookup P = sub_refs pr_in_flight_update program_ids (programs_of s)"
    "table_lookup B = sub_refs bu_in_flight_update buffer_ids (buffers_of s)"
    "table_lookup C = (contexts_of s)(ctx \<mapsto> c\<lparr>cx_children := (cx_children c)\<lparr>ch_events := ch_events (cx_children c) - 1\<rparr>\<rparr>)"
  by (rule adjust_references_law [OF assms(1), of "\<lambda>n. n - 1"], rule that)
    (simp_all add: decrement_event_references_def sub_refs_def assms(2) children_update_eq
      ext [OF qu.flight_dec] ext [OF pr.flight_dec] ext [OF bu.flight_dec] del: count_list.simps)

text \<open>Giving back exactly what was taken restores the state, down to the slots of its tables.\<close>

lemma decrement_increment:
  assumes R: "referable ctx queue_id program_ids buffer_ids s"
    and inc: "increment_event_references ctx queue_id program_ids buffer_ids s = (r, s1)"
  shows "decrement_event_references ctx queue_id program_ids buffer_ids s1 = (Inr (), s)"
proof -
  obtain c where c: "contexts_of s ctx = Some c"
    using R by (auto simp: referable_def)
  obtain Q P B C where
    i: "increment_event_references ctx queue_id program_ids buffer_ids s = (Inr (), with_tables s Q P B C)"
    and sh: "reshaped (ds_queues s) Q" "reshaped (ds_programs s) P" "reshaped (ds_buffers s) B" "reshaped (ds_contexts s) C"
    and lk: "table_lookup Q = add_refs qu_in_flight_update [queue_id] (queues_of s)"
      "table_lookup P = add_refs pr_in_flight_update program_ids (programs_of s)"
      "table_lookup B = add_refs bu_in_flight_update buffer_ids (buffers_of s)"
      "table_lookup C = (contexts_of s)(ctx \<mapsto> c\<lparr>cx_children := (cx_children c)\<lparr>ch_events := ch_events (cx_children c) + 1\<rparr>\<rparr>)"
    by (rule increment_law [OF R c])
  let ?c = "c\<lparr>cx_children := (cx_children c)\<lparr>ch_events := ch_events (cx_children c) + 1\<rparr>\<rparr>"
  have R1: "referable ctx queue_id program_ids buffer_ids (with_tables s Q P B C)"
    using R sh by (simp add: referable_def reshaped_def lk)
  have c1: "contexts_of (with_tables s Q P B C) ctx = Some ?c"
    by (simp add: lk)
  obtain Q' P' B' C' where
    d: "decrement_event_references ctx queue_id program_ids buffer_ids (with_tables s Q P B C)
          = (Inr (), with_tables (with_tables s Q P B C) Q' P' B' C')"
    and sh': "reshaped Q Q'" "reshaped P P'" "reshaped B B'" "reshaped C C'"
    and lk': "table_lookup Q' = queues_of s" "table_lookup P' = programs_of s" "table_lookup B' = buffers_of s"
      "table_lookup C' = contexts_of s"
    by (rule decrement_law [OF R1 c1])
      (simp add: lk qu.sub_add_refs pr.sub_add_refs bu.sub_add_refs c fun_upd_idem)
  have "Q' = ds_queues s" "P' = ds_programs s" "B' = ds_buffers s" "C' = ds_contexts s"
    using R [unfolded referable_def] reshaped_eqI [OF _ reshaped_trans [OF sh(1) sh'(1)] lk'(1)]
      reshaped_eqI [OF _ reshaped_trans [OF sh(2) sh'(2)] lk'(2)]
      reshaped_eqI [OF _ reshaped_trans [OF sh(3) sh'(3)] lk'(3)]
      reshaped_eqI [OF _ reshaped_trans [OF sh(4) sh'(4)] lk'(4)] by simp_all
  then have "with_tables (with_tables s Q P B C) Q' P' B' C' = s"
    by simp
  moreover have "s1 = with_tables s Q P B C"
    using i inc by simp
  ultimately show ?thesis
    using d by (simp only:)
qed

section \<open>Submitting\<close>

text \<open>What an admitted submission is known to satisfy before anything changes.\<close>

definition admissible ::
  "bool \<Rightarrow> object_id \<Rightarrow> object_id \<Rightarrow> object_id list \<Rightarrow> object_id list \<Rightarrow> ('c, 'b, 'p, 'q, 'e) ds \<Rightarrow> bool" where
  "admissible alloc ctx queue_id program_ids buffer_ids s \<longleftrightarrow>
     (\<exists>c. contexts_of s ctx = Some c \<and> ch_events (cx_children c) < max_events_per_context (ds_limits s))
   \<and> table_try_reserve_insert alloc (ds_events s) = Inr () \<and> program_ids \<noteq> []
   \<and> live_in qu_resource qu_context_id (queues_of s) ctx [queue_id]
   \<and> live_in pr_resource pr_context_id (programs_of s) ctx program_ids
   \<and> live_in bu_resource bu_context_id (buffers_of s) ctx buffer_ids
   \<and> flight_room qu_resource qu_in_flight (queues_of s) [queue_id]
   \<and> flight_room pr_resource pr_in_flight (programs_of s) program_ids
   \<and> flight_room bu_resource bu_in_flight (buffers_of s) buffer_ids"

lemma live_room:
  assumes "objects_ok slot_of context_of in_flight refs ctxs m" "live_in slot_of context_of m ctx oids"
    and "\<And>x. x \<in> set oids \<Longrightarrow> \<exists>v. m x = Some v \<and> unat (in_flight v) + count_list oids x < 2 ^ 32"
  shows "flight_room slot_of in_flight m oids"
  unfolding flight_room_def
proof (intro allI impI)
  fix x v
  assume x: "m x = Some v" "x \<in> set oids"
  then have "rs_resource (slot_of v) \<noteq> None"
    using assms(2) by (auto simp: live_in_def)
  then show "rs_release (slot_of v) \<noteq> Releasing \<and> unat (in_flight v) + count_list oids x < 2 ^ 32"
    using objects_okD(1) [OF assms(1) x(1)] assms(3) [OF x(2)] x(1) by (auto simp: slot_ok_def)
qed

lemma graph_objects_ok:
  assumes "graph_inv lim C B P Q E"
  shows "objects_ok bu_resource bu_context_id bu_in_flight (references ev_buffer_ids E) (dom C) B"
    "objects_ok pr_resource pr_context_id pr_in_flight (references event_program_ids E) (dom C) P"
    "objects_ok qu_resource qu_context_id qu_in_flight (references event_queue_ids E) (dom C) Q"
    "events_ok (dom C) B P Q E" "finite (dom E)"
  using assms unfolding graph_inv_def by blast+

lemma check_reference_increments_Inr:
  assumes "check_reference_increments s queue_id program_ids buffer_ids = Inr ()"
  shows "\<exists>q. queues_of s queue_id = Some q \<and> unat (qu_in_flight q) + 1 < 2 ^ 32"
    "check_program_increments s [] program_ids = Inr ()" "check_buffer_increments s buffer_ids = Inr ()"
  using assms by (auto simp: check_reference_increments_def checked_add_def split: if_splits)

lemma admit_event_admissible:
  assumes inv: "state_inv s" and adm: "admit_event alloc queue_id program_ids buffer_ids validated s = Inr ctx"
    and val: "validated = Inr ctx \<Longrightarrow> program_ids \<noteq> []
        \<and> live_in qu_resource qu_context_id (queues_of s) ctx [queue_id]
        \<and> live_in pr_resource pr_context_id (programs_of s) ctx program_ids
        \<and> live_in bu_resource bu_context_id (buffers_of s) ctx buffer_ids"
    and sorted: "sorted buffer_ids"
  shows "admissible alloc ctx queue_id program_ids buffer_ids s"
proof -
  note obj = graph_objects_ok [OF state_invD(6) [OF inv]]
  obtain c u where adm': "validated = Inr ctx" "contexts_of s ctx = Some c"
      "\<not> max_events_per_context (ds_limits s) \<le> ch_events (cx_children c)"
      "table_try_reserve_insert alloc (ds_events s) = Inr u"
      "check_reference_increments s queue_id program_ids buffer_ids = Inr ()"
    using adm by (auto simp: admit_event_def split: if_splits)
  note live = val [OF adm'(1)] and chk = check_reference_increments_Inr [OF adm'(5)]
  have "flight_room qu_resource qu_in_flight (queues_of s) [queue_id]"
    using chk(1) by (intro live_room [OF obj(3), of ctx]) (use live in auto)
  moreover have "flight_room pr_resource pr_in_flight (programs_of s) program_ids"
    using check_program_increments_room [OF chk(2)]
    by (intro live_room [OF obj(2), of ctx]) (use live in auto)
  moreover have "flight_room bu_resource bu_in_flight (buffers_of s) buffer_ids"
    using check_buffer_increments_room [OF chk(3) sorted]
    by (intro live_room [OF obj(1), of ctx]) (use live in auto)
  ultimately show ?thesis
    using adm'(2-4) live unfolding admissible_def by (simp add: not_le)
qed

lemma admissible_referable:
  assumes "state_inv s" "admissible alloc ctx queue_id program_ids buffer_ids s"
  shows "referable ctx queue_id program_ids buffer_ids s"
  using state_invD [OF assms(1)] assms(2) unfolding admissible_def referable_def
  by (auto dest: live_in_dom)

lemma charges_ok_refs:
  "charges_ok policy retained (add_refs bu_in_flight_update bs B) (add_refs pr_in_flight_update ps P)
     \<longleftrightarrow> charges_ok policy retained B P"
  "charges_ok policy retained (sub_refs bu_in_flight_update bs B) (sub_refs pr_in_flight_update ps P)
     \<longleftrightarrow> charges_ok policy retained B P"
  by (simp_all add: charges_ok_def add_refs_def sub_refs_def msum_map)

text \<open>
  A submission either leaves the state exactly as it was, with the provider's error, or
  records the event; nothing else can happen once it has been admitted.
\<close>

lemma commit_event_law:
  assumes inv: "state_inv s" and adm: "admissible alloc ctx queue_id program_ids buffer_ids s"
    and res: "\<And>Q P B C. table_lookup Q = add_refs qu_in_flight_update [queue_id] (queues_of s) \<Longrightarrow>
        table_lookup P = add_refs pr_in_flight_update program_ids (programs_of s) \<Longrightarrow>
        \<exists>r. resources (with_tables s Q P B C) = Inr r"
    and seq: "(case sequence of None \<Rightarrow> [hd program_ids] | Some oids \<Rightarrow> oids) = program_ids"
    and run: "commit_event resources create ctx queue_id program_ids sequence buffer_ids s w = (r, s', w')"
  shows "(\<exists>x. r = Inl (CE_Provider x) \<and> s' = s) \<or>
    (\<exists>oid e. r = Inr oid \<and> state_inv s' \<and> state_advances s s' \<and> events_of s oid = None
      \<and> events_of s' = (events_of s)(oid \<mapsto> e) \<and> ev_queue_id e = queue_id \<and> ev_context_id e = ctx
      \<and> event_program_ids e = program_ids \<and> ev_buffer_ids e = buffer_ids)"
proof -
  note D = state_invD [OF inv] and R = admissible_referable [OF inv adm] and A = adm [unfolded admissible_def]
  obtain c where c: "contexts_of s ctx = Some c" "ch_events (cx_children c) < max_events_per_context (ds_limits s)"
    using A by blast
  obtain Q P B C where
    i: "increment_event_references ctx queue_id program_ids buffer_ids s = (Inr (), with_tables s Q P B C)"
    and sh: "reshaped (ds_queues s) Q" "reshaped (ds_programs s) P" "reshaped (ds_buffers s) B" "reshaped (ds_contexts s) C"
    and lk: "table_lookup Q = add_refs qu_in_flight_update [queue_id] (queues_of s)"
      "table_lookup P = add_refs pr_in_flight_update program_ids (programs_of s)"
      "table_lookup B = add_refs bu_in_flight_update buffer_ids (buffers_of s)"
      "table_lookup C = (contexts_of s)(ctx \<mapsto> c\<lparr>cx_children := (cx_children c)\<lparr>ch_events := ch_events (cx_children c) + 1\<rparr>\<rparr>)"
    by (rule increment_law [OF R c(1)])
  obtain rs where rs: "resources (with_tables s Q P B C) = Inr rs"
    using res [OF lk(1,2)] by blast
  note undo = decrement_increment [OF R i]
  show ?thesis
  proof (cases "create rs w")
    case (Pair y w1)
    show ?thesis
    proof (cases y)
      case (Inl x)
      then have "r = Inl (CE_Provider x)" "s' = s"
        using run Pair i rs undo by (simp_all add: commit_event_def)
      then show ?thesis
        by blast
    next
      case (Inr h)
      let ?e = "\<lparr>ev_resource = resource_slot_new h, ev_context_id = ctx, ev_queue_id = queue_id,
        ev_program_id = hd program_ids, ev_sequence_program_ids = sequence, ev_buffer_ids = buffer_ids\<rparr>"
      obtain oid E where ins: "table_insert_prepared ?e (ds_events s) = (oid, E)"
        by fastforce
      have "table_try_reserve_insert alloc (ds_events s) = Inr ()"
        using A by blast
      note L = insert_prepared_law [OF D(5) this ins]
      let ?s = "(with_tables s Q P B C)\<lparr>ds_events := E\<rparr>"
      have fin: "r = Inr oid" "s' = ?s"
        using run Pair Inr i rs ins by (simp_all add: commit_event_def)
      have prog: "event_program_ids ?e = program_ids"
        using seq by (cases sequence) (simp_all add: event_program_ids_def)
      have adv: "state_advances s ?s"
        using sh L(4) by (simp add: state_advances_def reshaped_def)
      have live: "retained_in bu_context_id (buffers_of s) ctx buffer_ids"
          "retained_in pr_context_id (programs_of s) ctx program_ids"
          "retained_in qu_context_id (queues_of s) ctx [queue_id]"
        using A live_in_retained by blast+
      have graph: "graph_inv (ds_limits s) (contexts_of ?s) (buffers_of ?s) (programs_of ?s) (queues_of ?s) (events_of ?s)"
        using graph_new_event [OF D(6) L(2), of ?e c] A c live prog
        by (simp add: lk L(3) resource_slot_new_def slot_ok_def)
      have "charges_ok (ds_policy s) (ds_retained ?s) (buffers_of ?s) (programs_of ?s)"
        using D(7) by (simp add: lk charges_ok_refs)
      then have "state_inv ?s"
        using sh L graph by (intro state_invI [OF inv adv]) (simp_all add: reshaped_def)
      with fin adv L(2,3) prog show ?thesis
        by auto
    qed
  qed
qed

lemma add_refs_live:
  assumes "live_in qu_resource qu_context_id m ctx oids" "x \<in> set oids"
  shows "\<exists>v h. add_refs qu_in_flight_update ys m x = Some v \<and> rs_resource (qu_resource v) = Some h"
  using assms by (fastforce simp: live_in_def add_refs_def)

lemma add_refs_live_program:
  assumes "live_in pr_resource pr_context_id m ctx oids" "x \<in> set oids"
  shows "\<exists>v h. add_refs pr_in_flight_update ys m x = Some v \<and> rs_resource (pr_resource v) = Some h"
  using assms by (fastforce simp: live_in_def add_refs_def)

text \<open>The outcome of a submission that ran: refused with nothing changed, or recorded.\<close>

definition event_recorded ::
  "object_id \<Rightarrow> object_id list \<Rightarrow> object_id list \<Rightarrow> ('c, 'b, 'p, 'q, 'e) ds
    \<Rightarrow> object_id \<Rightarrow> ('c, 'b, 'p, 'q, 'e) ds \<Rightarrow> bool" where
  "event_recorded queue_id program_ids buffer_ids s oid s' \<longleftrightarrow>
     (\<exists>e. events_of s oid = None \<and> events_of s' = (events_of s)(oid \<mapsto> e) \<and> ev_queue_id e = queue_id
        \<and> event_program_ids e = program_ids \<and> ev_buffer_ids e = buffer_ids)"

lemma create_event_inv:
  assumes inv: "state_inv s" and run: "create_event_with alloc queue_id program_id buffer_ids create s w = (r, s', w')"
  shows "state_inv s' \<and> state_advances s s' \<and>
    (case r of Inl _ \<Rightarrow> s' = s
     | Inr oid \<Rightarrow> event_recorded queue_id [program_id] (sort buffer_ids) s oid s')"
proof (cases "s' = s \<and> \<not> is_ok r")
  case True
  with inv show ?thesis
    by (auto split: sum.splits)
next
  case False
  let ?bs = "sort buffer_ids"
  obtain ctx where ctx: "admit_event alloc queue_id [program_id] ?bs
        (validate_submission s queue_id program_id buffer_ids) s = Inr ctx"
      "commit_event (submission_resources_of ctx queue_id program_id ?bs) create ctx queue_id [program_id] None ?bs s w
         = (r, s', w')"
    using run False unfolding create_event_with_def by (auto split: if_splits sum.splits)
  have "live_in bu_resource bu_context_id (buffers_of s) ctx ?bs"
    if "live_in bu_resource bu_context_id (buffers_of s) ctx buffer_ids"
    using live_in_set [OF that, of ?bs] by simp
  then have adm: "admissible alloc ctx queue_id [program_id] ?bs s"
    by (intro admit_event_admissible [OF inv ctx(1)]) (simp_all add: validate_submission_Inr)
  note A = adm [unfolded admissible_def]
  have "\<exists>rs. submission_resources_of ctx queue_id program_id ?bs (with_tables s Q P B C) = Inr rs"
    if "table_lookup Q = add_refs qu_in_flight_update [queue_id] (queues_of s)"
      "table_lookup P = add_refs pr_in_flight_update [program_id] (programs_of s)" for Q P B C
    using that A add_refs_live [of "queues_of s" ctx "[queue_id]" queue_id "[queue_id]"]
      add_refs_live_program [of "programs_of s" ctx "[program_id]" program_id "[program_id]"]
    by (auto simp: submission_resources_of_def record_lookup resource_slot_get_def)
  from commit_event_law [OF inv adm this _ ctx(2)] inv show ?thesis
    by (auto simp: event_recorded_def)
qed

lemma create_event_sequence_inv:
  assumes inv: "state_inv s"
    and run: "create_event_sequence_with alloc queue_id program_ids buffer_ids create s w = (r, s', w')"
  shows "state_inv s' \<and> state_advances s s' \<and>
    (case r of Inl _ \<Rightarrow> s' = s
     | Inr oid \<Rightarrow> event_recorded queue_id program_ids (sort buffer_ids) s oid s')"
proof (cases "s' = s \<and> \<not> is_ok r")
  case True
  with inv show ?thesis
    by (auto split: sum.splits)
next
  case False
  let ?bs = "sort buffer_ids"
  obtain ctx where ctx: "admit_event alloc queue_id program_ids ?bs
        (validate_submission_sequence s queue_id program_ids buffer_ids) s = Inr ctx"
      "commit_event (sequence_resources_of ctx queue_id program_ids ?bs) create ctx queue_id program_ids
         (Some program_ids) ?bs s w = (r, s', w')"
    using run False unfolding create_event_sequence_with_def by (auto split: if_splits sum.splits)
  have "live_in bu_resource bu_context_id (buffers_of s) ctx ?bs"
    if "live_in bu_resource bu_context_id (buffers_of s) ctx buffer_ids"
    using live_in_set [OF that, of ?bs] by simp
  then have adm: "admissible alloc ctx queue_id program_ids ?bs s"
    by (intro admit_event_admissible [OF inv ctx(1)]) (simp_all add: validate_submission_sequence_Inr)
  note A = adm [unfolded admissible_def]
  have "\<exists>rs. sequence_resources_of ctx queue_id program_ids ?bs (with_tables s Q P B C) = Inr rs"
    if "table_lookup Q = add_refs qu_in_flight_update [queue_id] (queues_of s)"
      "table_lookup P = add_refs pr_in_flight_update program_ids (programs_of s)" for Q P B C
    using that A add_refs_live [of "queues_of s" ctx "[queue_id]" queue_id "[queue_id]"]
    by (auto simp: sequence_resources_of_def record_lookup resource_slot_get_def)
  from commit_event_law [OF inv adm this _ ctx(2)] inv show ?thesis
    by (auto simp: event_recorded_def)
qed

section \<open>Releasing events\<close>

text \<open>
  The objects of an event cannot be under release while the event exists, so the checks that
  \<open>commit_event_release\<close> repeats succeed and the references are given back.
\<close>

lemma retained_live:
  assumes "objects_ok slot_of context_of in_flight (references ids E) ctxs m" "finite (dom E)"
    and "E y = Some e" "retained_in context_of m ctx (ids e)"
  shows "live_in slot_of context_of m ctx (ids e)"
  unfolding live_in_def
proof (intro ballI)
  fix x
  assume x: "x \<in> set (ids e)"
  then obtain v where v: "m x = Some v" "context_of v = ctx"
    using assms(4) by (auto simp: retained_in_def)
  have "references ids E x \<noteq> 0"
    using references_zero_notin [OF assms(2) _ assms(3)] x by blast
  then have "rs_resource (slot_of v) \<noteq> None"
    using objects_okD [OF assms(1) v(1)] by (auto simp: slot_ok_def)
  with v show "\<exists>v. m x = Some v \<and> rs_resource (slot_of v) \<noteq> None \<and> context_of v = ctx"
    by blast
qed

lemma event_objects_live:
  assumes "graph_inv lim C B P Q E" "E x = Some e"
  shows "live_in qu_resource qu_context_id Q (ev_context_id e) [ev_queue_id e]"
    "live_in pr_resource pr_context_id P (ev_context_id e) (event_program_ids e)"
    "live_in bu_resource bu_context_id B (ev_context_id e) (ev_buffer_ids e)"
    "event_program_ids e \<noteq> []" "ev_context_id e \<in> dom C"
proof -
  note obj = graph_objects_ok [OF assms(1)] and ev = events_okD [OF graph_objects_ok(4) [OF assms(1)] assms(2)]
  show "live_in qu_resource qu_context_id Q (ev_context_id e) [ev_queue_id e]"
    using retained_live [OF obj(3,5) assms(2) ev(4)] .
  show "live_in pr_resource pr_context_id P (ev_context_id e) (event_program_ids e)"
    using retained_live [OF obj(2,5) assms(2) ev(5)] .
  show "live_in bu_resource bu_context_id B (ev_context_id e) (ev_buffer_ids e)"
    using retained_live [OF obj(1,5) assms(2) ev(6)] .
qed (use events_okD [OF graph_objects_ok(4) [OF assms(1)] assms(2)] in blast)+

lemma commit_event_release_ok:
  assumes inv: "state_inv s" and v: "events_of s oid = Some e" "rs_release (ev_resource e) = Releasing"
  shows "\<exists>s'. commit_event_release s oid = (Inr (), s') \<and> state_inv s' \<and> state_advances s s'
    \<and> events_of s' = (events_of s)(oid := None) \<and> table_spent (ds_events s') oid"
proof -
  note D = state_invD [OF inv] and live = event_objects_live [OF D(6) v(1)]
  obtain c where c: "contexts_of s (ev_context_id e) = Some c"
    using live(5) by blast
  obtain t where t: "table_remove (ds_events s) oid = (Inr e, t)" "table_wf t"
      "table_lookup t = (events_of s)(oid := None)" "table_spent t oid" "table_advances (ds_events s) t"
    using remove_law [OF D(5) v(1)] by blast
  let ?s1 = "s\<lparr>ds_events := t\<rparr>"
  have R: "referable (ev_context_id e) (ev_queue_id e) (event_program_ids e) (ev_buffer_ids e) ?s1"
    using D c live_in_dom [OF live(1)] live_in_dom [OF live(2)] live_in_dom [OF live(3)]
    by (auto simp: referable_def)
  have c1: "contexts_of ?s1 (ev_context_id e) = Some c"
    using c by simp
  obtain Q P B C where
    d: "decrement_event_references (ev_context_id e) (ev_queue_id e) (event_program_ids e) (ev_buffer_ids e) ?s1
          = (Inr (), with_tables ?s1 Q P B C)"
    and sh: "reshaped (ds_queues s) Q" "reshaped (ds_programs s) P" "reshaped (ds_buffers s) B" "reshaped (ds_contexts s) C"
    and lk: "table_lookup Q = sub_refs qu_in_flight_update [ev_queue_id e] (queues_of s)"
      "table_lookup P = sub_refs pr_in_flight_update (event_program_ids e) (programs_of s)"
      "table_lookup B = sub_refs bu_in_flight_update (ev_buffer_ids e) (buffers_of s)"
      "table_lookup C = (contexts_of s)(ev_context_id e \<mapsto> c\<lparr>cx_children := (cx_children c)\<lparr>ch_events := ch_events (cx_children c) - 1\<rparr>\<rparr>)"
    by (rule decrement_law [OF R c1]) simp
  let ?s = "with_tables ?s1 Q P B C"
  have adv: "state_advances s ?s"
    using sh t(5) by (simp add: state_advances_def reshaped_def)
  have "graph_inv (ds_limits s) (contexts_of ?s) (buffers_of ?s) (programs_of ?s) (queues_of ?s) (events_of ?s)"
    using graph_drop_event [OF D(6) v(1) c] by (simp add: lk t(3))
  moreover have "charges_ok (ds_policy s) (ds_retained ?s) (buffers_of ?s) (programs_of ?s)"
    using D(7) by (simp add: lk charges_ok_refs)
  ultimately have "state_inv ?s"
    using sh t by (intro state_invI [OF inv adv]) (simp_all add: reshaped_def)
  moreover have "validate_submission_sequence s (ev_queue_id e) (event_program_ids e) (ev_buffer_ids e)
      = Inr (ev_context_id e)"
    using live by (simp add: validate_submission_sequence_Inr)
  then have "commit_event_release s oid = (Inr (), ?s)"
    using v t(1) d by (simp add: record_lookup commit_event_release_def ensure_releasing_def)
  ultimately show ?thesis
    using adv t by auto
qed

end
