(* ===== verification/Device_Steps.thy ===== *)
theory Device_Steps
  imports Device_Events
begin

text \<open>
  The device state as a transition system: every operation of \<open>DeviceState\<close> is a step, with
  arbitrary provider closures, and what holds after any number of them. The release protocol
  (\<open>begin\<close>, then \<open>commit\<close> or \<open>restore\<close>) is described once for every kind of record.
\<close>

section \<open>The release protocol\<close>

text \<open>
  A record with a resource slot, the contract of the trait \<open>ReleasableRecord\<close>: the slot is read
  back as written and nothing else moves.
\<close>

locale releasable =
  fixes slot_of :: "'v \<Rightarrow> 'r resource_slot"
    and slot_update :: "('r resource_slot \<Rightarrow> 'r resource_slot) \<Rightarrow> 'v \<Rightarrow> 'v"
  assumes slot_get: "slot_of (slot_update f v) = f (slot_of v)"
    and slot_twice: "slot_update f (slot_update g v) = slot_update (\<lambda>x. f (g x)) v"
    and slot_same: "slot_update (\<lambda>_. slot_of v) v = v"
begin

text \<open>When the resource of an object can be taken out, and what the table looks like then.\<close>

lemma begin_Inr:
  assumes "table_wf t"
  shows "begin_resource_release slot_of slot_update busy t oid = (Inr h, t') \<longleftrightarrow>
    (\<exists>v assign. table_get_mut t oid = Inr (v, assign) \<and> \<not> busy v \<and> rs_release (slot_of v) = Live
      \<and> rs_resource (slot_of v) = Some h
      \<and> t' = assign (slot_update (\<lambda>_. (slot_of v)\<lparr>rs_resource := None, rs_release := Releasing\<rparr>) v))"
  by (auto simp: begin_resource_release_def resource_slot_begin_release_def split: sum.splits option.splits)

lemma begin_live:
  assumes "table_wf t" "\<And>x v. table_lookup t x = Some v \<Longrightarrow> slot_ok (slot_of v)"
  shows "(\<exists>h t'. begin_resource_release slot_of slot_update busy t oid = (Inr h, t')) \<longleftrightarrow>
    (\<exists>v. table_lookup t oid = Some v \<and> rs_resource (slot_of v) \<noteq> None \<and> \<not> busy v)"
proof
  assume "\<exists>h t'. begin_resource_release slot_of slot_update busy t oid = (Inr h, t')"
  then show "\<exists>v. table_lookup t oid = Some v \<and> rs_resource (slot_of v) \<noteq> None \<and> \<not> busy v"
    unfolding begin_Inr [OF assms(1)] using get_mut_lookup by fastforce
next
  assume "\<exists>v. table_lookup t oid = Some v \<and> rs_resource (slot_of v) \<noteq> None \<and> \<not> busy v"
  then obtain v h where v: "table_lookup t oid = Some v" "rs_resource (slot_of v) = Some h" "\<not> busy v"
    by blast
  then have "rs_release (slot_of v) = Live"
    using assms(2) [OF v(1)] by (cases "rs_release (slot_of v)") (auto simp: slot_ok_def)
  moreover obtain assign where "table_get_mut t oid = Inr (v, assign)"
    using get_mut_Some [OF v(1)] .
  ultimately show "\<exists>h t'. begin_resource_release slot_of slot_update busy t oid = (Inr h, t')"
    unfolding begin_Inr [OF assms(1)] using v(2,3) by blast
qed

text \<open>Restoring right after beginning gives back the very same table.\<close>

lemma restore_begin:
  assumes wf: "table_wf t" and run: "begin_resource_release slot_of slot_update busy t oid = (Inr h, t')"
  shows "restore_resource slot_of slot_update t' oid h = (Inr (), t)"
proof -
  obtain v assign where v: "table_get_mut t oid = Inr (v, assign)" "rs_release (slot_of v) = Live"
      "rs_resource (slot_of v) = Some h"
      "t' = assign (slot_update (\<lambda>_. (slot_of v)\<lparr>rs_resource := None, rs_release := Releasing\<rparr>) v)"
    using run unfolding begin_Inr [OF wf] by blast
  let ?slot = "(slot_of v)\<lparr>rs_resource := None, rs_release := Releasing\<rparr>"
  note M = get_mut_law [OF wf v(1), of "slot_update (\<lambda>_. ?slot) v", folded v(4)]
  obtain assign' where a: "table_get_mut t' oid = Inr (slot_update (\<lambda>_. ?slot) v, assign')"
    using get_mut_Some [of t' oid] M(2) by auto
  note M' = get_mut_law [OF M(1) a, of v]
  have slot: "?slot\<lparr>rs_resource := Some h, rs_release := Live\<rparr> = slot_of v"
    using v(2,3) by simp
  have "assign' v = t"
    by (rule table_eqI) (use wf M M' get_mut_lookup [OF v(1)] in \<open>auto simp: fun_upd_idem\<close>)
  then show ?thesis
    using a slot by (simp add: restore_resource_def resource_slot_restore_def slot_get slot_twice slot_same)
qed

end

interpretation cxr: releasable cx_resource cx_resource_update
  by unfold_locales simp_all

interpretation bur: releasable bu_resource bu_resource_update
  by unfold_locales simp_all

interpretation prr: releasable pr_resource pr_resource_update
  by unfold_locales simp_all

interpretation qur: releasable qu_resource qu_resource_update
  by unfold_locales simp_all

interpretation evr: releasable ev_resource ev_resource_update
  by unfold_locales simp_all

section \<open>Committing a release, whatever the state of the object\<close>

lemma commit_context_release_inv:
  assumes inv: "state_inv s" and run: "commit_context_release s oid = (r, s')"
  shows "state_inv s' \<and> state_advances s s' \<and> (is_ok r \<or> s' = s)"
proof (cases "\<exists>v. contexts_of s oid = Some v \<and> rs_release (cx_resource v) = Releasing")
  case True
  then show ?thesis
    using commit_context_release_ok [OF inv] run by fastforce
next
  case False
  then show ?thesis
    using inv run by (cases "ds_context_record s oid") (auto simp: commit_context_release_def ensure_releasing_def)
qed

lemma commit_buffer_release_inv:
  assumes inv: "state_inv s" and run: "commit_buffer_release s oid = (r, s')"
  shows "state_inv s' \<and> state_advances s s' \<and> (is_ok r \<or> s' = s)"
proof (cases "\<exists>v. buffers_of s oid = Some v \<and> rs_release (bu_resource v) = Releasing")
  case True
  then show ?thesis
    using commit_buffer_release_ok [OF inv] run by fastforce
next
  case False
  then show ?thesis
    using inv run by (cases "ds_buffer_record s oid") (auto simp: commit_buffer_release_def ensure_releasing_def)
qed

lemma commit_program_release_inv:
  assumes inv: "state_inv s" and run: "commit_program_release s oid = (r, s')"
  shows "state_inv s' \<and> state_advances s s' \<and> (is_ok r \<or> s' = s)"
proof (cases "\<exists>v. programs_of s oid = Some v \<and> rs_release (pr_resource v) = Releasing")
  case True
  then show ?thesis
    using commit_program_release_ok [OF inv] run by fastforce
next
  case False
  then show ?thesis
    using inv run by (cases "ds_program_record s oid") (auto simp: commit_program_release_def ensure_releasing_def)
qed

lemma commit_queue_release_inv:
  assumes inv: "state_inv s" and run: "commit_queue_release s oid = (r, s')"
  shows "state_inv s' \<and> state_advances s s' \<and> (is_ok r \<or> s' = s)"
proof (cases "\<exists>v. queues_of s oid = Some v \<and> rs_release (qu_resource v) = Releasing")
  case True
  then show ?thesis
    using commit_queue_release_ok [OF inv] run by fastforce
next
  case False
  then show ?thesis
    using inv run by (cases "ds_queue_record s oid") (auto simp: commit_queue_release_def ensure_releasing_def)
qed

lemma commit_event_release_inv:
  assumes inv: "state_inv s" and run: "commit_event_release s oid = (r, s')"
  shows "state_inv s' \<and> state_advances s s' \<and> (is_ok r \<or> s' = s)"
proof (cases "\<exists>v. events_of s oid = Some v \<and> rs_release (ev_resource v) = Releasing")
  case True
  then show ?thesis
    using commit_event_release_ok [OF inv] run by fastforce
next
  case False
  then show ?thesis
    using inv run by (cases "ds_event_record s oid") (auto simp: commit_event_release_def ensure_releasing_def)
qed

section \<open>Steps of the device state\<close>

text \<open>
  One operation on the state, with the world of the provider and the outcome: any of the six
  creations with any closures and any answer of the allocator, the exclusive borrow of a live
  buffer handle by a write, and the three phases of releasing each kind of object. The provider
  may do anything to its own world between the phases.
\<close>

inductive device_step ::
  "('c, 'b, 'p, 'q, 'e) ds \<times> 'w \<Rightarrow> 'x create_error + unit \<Rightarrow> ('c, 'b, 'p, 'q, 'e) ds \<times> 'w \<Rightarrow> bool" where
  create_context: "create_context_with alloc create s w = (r, s', w') \<Longrightarrow>
    device_step (s, w) (map_sum (\<lambda>e. e) (\<lambda>_. ()) r) (s', w')"
| create_buffer: "create_buffer_with alloc context_id desc allocate s w = (r, s', w') \<Longrightarrow>
    device_step (s, w) (map_sum (\<lambda>e. e) (\<lambda>_. ()) r) (s', w')"
| create_program: "create_program_with alloc context_id artifact_bytes resident_bytes load s w = (r, s', w') \<Longrightarrow>
    device_step (s, w) (map_sum (\<lambda>e. e) (\<lambda>_. ()) r) (s', w')"
| create_queue: "create_queue_with alloc context_id open_queue s w = (r, s', w') \<Longrightarrow>
    device_step (s, w) (map_sum (\<lambda>e. e) (\<lambda>_. ()) r) (s', w')"
| create_event: "create_event_with alloc queue_id program_id buffer_ids submit s w = (r, s', w') \<Longrightarrow>
    device_step (s, w) (map_sum (\<lambda>e. e) (\<lambda>_. ()) r) (s', w')"
| create_event_sequence:
    "create_event_sequence_with alloc queue_id program_ids buffer_ids submit_all s w = (r, s', w') \<Longrightarrow>
    device_step (s, w) (map_sum (\<lambda>e. e) (\<lambda>_. ()) r) (s', w')"
| write_buffer: "ds_buffer_record_mut s oid = Inr (record, assign) \<Longrightarrow>
    rs_resource (bu_resource record) = Some h \<Longrightarrow>
    device_step (s, w) (Inr ()) (assign (record\<lparr>bu_resource := (bu_resource record)\<lparr>rs_resource := Some h'\<rparr>\<rparr>), w')"
| begin_context: "begin_context_release s oid = (r, s') \<Longrightarrow>
    device_step (s, w) (map_sum CE_State (\<lambda>_. ()) r) (s', w')"
| restore_context: "restore_context_release s oid context_handle = (r, s') \<Longrightarrow>
    device_step (s, w) (map_sum (\<lambda>(e, _). CE_State e) (\<lambda>_. ()) r) (s', w')"
| commit_context: "commit_context_release s oid = (r, s') \<Longrightarrow>
    device_step (s, w) (map_sum CE_State (\<lambda>_. ()) r) (s', w')"
| begin_buffer: "begin_buffer_release s oid = (r, s') \<Longrightarrow>
    device_step (s, w) (map_sum CE_State (\<lambda>_. ()) r) (s', w')"
| restore_buffer: "restore_buffer_release s oid buffer_handle = (r, s') \<Longrightarrow>
    device_step (s, w) (map_sum (\<lambda>(e, _). CE_State e) (\<lambda>_. ()) r) (s', w')"
| commit_buffer: "commit_buffer_release s oid = (r, s') \<Longrightarrow>
    device_step (s, w) (map_sum CE_State (\<lambda>_. ()) r) (s', w')"
| begin_program: "begin_program_release s oid = (r, s') \<Longrightarrow>
    device_step (s, w) (map_sum CE_State (\<lambda>_. ()) r) (s', w')"
| restore_program: "restore_program_release s oid program_handle = (r, s') \<Longrightarrow>
    device_step (s, w) (map_sum (\<lambda>(e, _). CE_State e) (\<lambda>_. ()) r) (s', w')"
| commit_program: "commit_program_release s oid = (r, s') \<Longrightarrow>
    device_step (s, w) (map_sum CE_State (\<lambda>_. ()) r) (s', w')"
| begin_queue: "begin_queue_release s oid = (r, s') \<Longrightarrow>
    device_step (s, w) (map_sum CE_State (\<lambda>_. ()) r) (s', w')"
| restore_queue: "restore_queue_release s oid queue_handle = (r, s') \<Longrightarrow>
    device_step (s, w) (map_sum (\<lambda>(e, _). CE_State e) (\<lambda>_. ()) r) (s', w')"
| commit_queue: "commit_queue_release s oid = (r, s') \<Longrightarrow>
    device_step (s, w) (map_sum CE_State (\<lambda>_. ()) r) (s', w')"
| begin_event: "begin_event_release s oid = (r, s') \<Longrightarrow>
    device_step (s, w) (map_sum CE_State (\<lambda>_. ()) r) (s', w')"
| restore_event: "restore_event_release s oid event_handle = (r, s') \<Longrightarrow>
    device_step (s, w) (map_sum (\<lambda>(e, _). CE_State e) (\<lambda>_. ()) r) (s', w')"
| commit_event: "commit_event_release s oid = (r, s') \<Longrightarrow>
    device_step (s, w) (map_sum CE_State (\<lambda>_. ()) r) (s', w')"

text \<open>Any number of operations, each successful or not.\<close>

inductive device_run ::
  "'x itself \<Rightarrow> ('c, 'b, 'p, 'q, 'e) ds \<times> 'w \<Rightarrow> ('c, 'b, 'p, 'q, 'e) ds \<times> 'w \<Rightarrow> bool" for u :: "'x itself" where
  device_run_refl: "device_run u sw sw"
| device_run_step: "device_run u sw sw' \<Longrightarrow> device_step sw' (r :: 'x create_error + unit) sw'' \<Longrightarrow>
    device_run u sw sw''"

lemma is_ok_map_sum [simp]: "is_ok (map_sum f g r) = is_ok r"
  by (cases r) (simp_all add: is_ok_def)

lemma graph_finite: "graph_inv lim C B P Q E \<Longrightarrow> finite (dom B)"
  by (simp add: graph_inv_def)

lemma write_buffer_inv:
  assumes inv: "state_inv s" and mut: "ds_buffer_record_mut s oid = Inr (record, assign)"
    and h: "rs_resource (bu_resource record) = Some h"
  shows "state_inv (assign (record\<lparr>bu_resource := (bu_resource record)\<lparr>rs_resource := Some h'\<rparr>\<rparr>))
    \<and> state_advances s (assign (record\<lparr>bu_resource := (bu_resource record)\<lparr>rs_resource := Some h'\<rparr>\<rparr>))"
proof -
  note D = state_invD [OF inv]
  obtain a where a: "table_get_mut (ds_buffers s) oid = Inr (record, a)" "assign = (\<lambda>x. s\<lparr>ds_buffers := a x\<rparr>)"
    using mut by (auto simp: ds_buffer_record_mut_def)
  let ?slot = "(bu_resource record)\<lparr>rs_resource := Some h'\<rparr>"
  note M = get_mut_law [OF D(2) a(1), of "record\<lparr>bu_resource := ?slot\<rparr>"] and v = get_mut_lookup [OF a(1)]
  note ok = objects_okD [OF graph_objects_ok(1) [OF D(6)] v]
  have "slot_ok ?slot" and free: "rs_release ?slot = Releasing \<Longrightarrow> bu_in_flight record = 0"
    using ok(1) h by (auto simp: slot_ok_def)
  note graph = graph_update_buffer [OF D(6) v this(1)]
  have adv: "state_advances s (assign (record\<lparr>bu_resource := ?slot\<rparr>))"
    using M(3) by (simp add: a(2) state_advances_def)
  moreover have "charges_ok (ds_policy s) (ds_retained s) (table_lookup (a (record\<lparr>bu_resource := ?slot\<rparr>))) (programs_of s)"
    using D(7) v by (simp add: M(2) charges_ok_def msum_update_same graph_finite [OF D(6)])
  ultimately show ?thesis
    using D M graph free by (intro conjI state_invI [OF inv adv]) (simp_all add: a(2))
qed

lemma create_event_outcome:
  assumes "state_inv s" "create_event_with alloc queue_id program_id buffer_ids create s w = (r, s', w')"
  shows "state_inv s' \<and> state_advances s s' \<and> (is_ok r \<or> s' = s)"
  using create_event_inv [OF assms] by (cases r) auto

lemma create_event_sequence_outcome:
  assumes "state_inv s"
    "create_event_sequence_with alloc queue_id program_ids buffer_ids create s w = (r, s', w')"
  shows "state_inv s' \<and> state_advances s s' \<and> (is_ok r \<or> s' = s)"
  using create_event_sequence_inv [OF assms] by (cases r) auto

lemma device_step_inv:
  assumes "device_step (s, w) r (s', w')" "state_inv s"
  shows "state_inv s' \<and> state_advances s s' \<and> (is_ok r \<or> s' = s)"
  using assms
proof cases
  case (write_buffer oid v assign h h')
  with write_buffer_inv [OF assms(2) write_buffer(3,4)] show ?thesis
    by (simp add: is_ok_def)
qed (auto dest: create_event_outcome [OF assms(2)] create_event_sequence_outcome [OF assms(2)]
  create_context_inv [OF assms(2)] create_buffer_inv [OF assms(2)] create_program_inv [OF assms(2)]
    create_queue_inv [OF assms(2)] begin_context_release_inv [OF assms(2)]
    restore_context_release_inv [OF assms(2)] commit_context_release_inv [OF assms(2)]
    begin_buffer_release_inv [OF assms(2)] restore_buffer_release_inv [OF assms(2)]
    commit_buffer_release_inv [OF assms(2)] begin_program_release_inv [OF assms(2)]
    restore_program_release_inv [OF assms(2)] commit_program_release_inv [OF assms(2)]
    begin_queue_release_inv [OF assms(2)] restore_queue_release_inv [OF assms(2)]
    commit_queue_release_inv [OF assms(2)] begin_event_release_inv [OF assms(2)]
    restore_event_release_inv [OF assms(2)] commit_event_release_inv [OF assms(2)])

section \<open>Runs from a fresh state\<close>

lemma device_run_inv:
  assumes "device_run u (s, w) (s', w')" "state_inv s"
  shows "state_inv s' \<and> state_advances s s'"
  using assms(1)
proof (induction "(s, w)" "(s', w')" arbitrary: s' w' rule: device_run.induct)
  case device_run_refl
  then show ?case
    using assms(2) by simp
next
  case (device_run_step sw' r s' w')
  obtain s1 w1 where sw: "sw' = (s1, w1)"
    by fastforce
  then have "state_inv s1 \<and> state_advances s s1"
    using device_run_step(2) by blast
  with device_step_inv [of s1 w1 r s' w'] device_run_step(3) sw show ?case
    using state_advances_trans by blast
qed

lemma device_state_new_fields:
  assumes "device_state_new namespace limits policy = Inr s"
  shows "ds_namespace s = namespace" "ds_limits s = limits" "ds_policy s = policy"
    "\<exists>b p q e. s = \<lparr>ds_namespace = namespace, ds_limits = limits, ds_policy = policy,
       ds_retained = retained_bytes_default,
       ds_contexts = table_with_namespace OK_Context (max_contexts limits) namespace,
       ds_buffers = table_with_namespace OK_Buffer b namespace,
       ds_programs = table_with_namespace OK_Program p namespace,
       ds_queues = table_with_namespace OK_Queue q namespace,
       ds_events = table_with_namespace OK_Event e namespace\<rparr>"
  using assms by (auto simp: device_state_new_def split: if_splits)

lemma device_state_new_inv:
  assumes "device_state_new namespace limits policy = Inr s"
  shows "state_inv s"
proof -
  obtain b p q e where s: "s = \<lparr>ds_namespace = namespace, ds_limits = limits, ds_policy = policy,
       ds_retained = retained_bytes_default,
       ds_contexts = table_with_namespace OK_Context (max_contexts limits) namespace,
       ds_buffers = table_with_namespace OK_Buffer b namespace,
       ds_programs = table_with_namespace OK_Program p namespace,
       ds_queues = table_with_namespace OK_Queue q namespace,
       ds_events = table_with_namespace OK_Event e namespace\<rparr>"
    using device_state_new_fields(4) [OF assms] by blast
  have fresh: "table_lookup (table_with_namespace kind n namespace) = Map.empty" for kind and n :: u32
    by (rule ext) (simp add: table_lookup_new)
  have shape: "ot_kind (table_with_namespace kind n namespace) = kind"
      "ot_namespace (table_with_namespace kind n namespace) = namespace" for kind and n :: u32
    by (simp_all add: table_with_namespace_def)
  show ?thesis
    by (simp add: s state_inv_def tables_ok_def table_wf_new shape fresh graph_inv_def contexts_ok_def
        objects_ok_def events_ok_def charges_ok_def retained_bytes_default_def)
qed

lemma children_of_card:
  assumes "finite (dom m)"
  shows "children_of context_of m x = card {y. \<exists>v. m y = Some v \<and> context_of v = x}"
proof -
  have "children_of context_of m x = card {y \<in> dom m. context_of (the (m y)) = x}"
    using assms by (simp add: children_of_def msum_def sum.If_cases of_bool_def Int_def conj_commute)
  also have "{y \<in> dom m. context_of (the (m y)) = x} = {y. \<exists>v. m y = Some v \<and> context_of v = x}"
    by auto
  finally show ?thesis .
qed

text \<open>C11: whatever the guest and the providers do, the state that a device state reaches from its
creation satisfies the whole invariant: every table is well-formed, every child belongs to a context
that exists, the child counts, the in-flight counts and the retained bytes are exactly what the objects
add up to, and a resource is absent exactly while its object is being released. The configuration never
changes.\<close>
theorem reachable_state_invariant:
  assumes "device_state_new namespace limits policy = Inr s0"
    and "device_run TYPE('x) (s0, w0) (s, w)"
  shows "state_inv s \<and> ds_namespace s = namespace \<and> ds_limits s = limits \<and> ds_policy s = policy"
proof -
  have "state_inv s \<and> state_advances s0 s"
    by (rule device_run_inv [OF assms(2) device_state_new_inv [OF assms(1)]])
  then show ?thesis
    using device_state_new_fields(1-3) [OF assms(1)] by (simp add: state_advances_def)
qed

text \<open>A small configuration and a state after three successful operations, for the witnesses.\<close>

definition sample_limits :: device_limits where
  "sample_limits = \<lparr>max_contexts = 2, max_buffers_per_context = 2, max_programs_per_context = 2,
     max_queues_per_context = 2, max_events_per_context = 2, max_bindings_per_submission = 4,
     max_buffer_bytes = 4096, max_artifact_bytes = 4096\<rparr>"

definition sample_policy :: resource_policy where
  "sample_policy = \<lparr>po_max_buffer_backing_bytes = 8192, po_max_program_resident_bytes = 8192\<rparr>"

definition sample_fresh :: "(nat, nat, nat, nat, nat) ds" where
  "sample_fresh = projr (device_state_new 1 sample_limits sample_policy)"

definition sample_context :: "(nat, nat, nat, nat, nat) ds" where
  "sample_context = fst (snd (create_context_with True (\<lambda>w. (Inr 7 :: backend_error + nat, w)) sample_fresh ()))"

definition sample_queue :: "(nat, nat, nat, nat, nat) ds" where
  "sample_queue = fst (snd (create_queue_with True (object_id_new 0 1 0 OK_Context)
     (\<lambda>_ w. (Inr 8 :: backend_error + nat, w)) sample_context ()))"

lemma sample_created: "device_state_new 1 sample_limits sample_policy = Inr sample_fresh"
proof -
  have "is_ok (device_state_new 1 sample_limits sample_policy ::
      device_state_config_error + (nat, nat, nat, nat, nat) ds)"
    by (simp add: device_state_new_def sample_limits_def checked_mul_def aggregate_slots_def HARD_MAX_BINDINGS_def)
  then show ?thesis
    by (auto simp: sample_fresh_def is_ok_iff)
qed

lemma sample_run: "device_run TYPE(backend_error) (sample_fresh, ()) (sample_queue, ())"
proof -
  have "device_step (sample_fresh, ()) (map_sum (\<lambda>e. e) (\<lambda>_. ())
      (fst (create_context_with True (\<lambda>w. (Inr 7 :: backend_error + nat, w)) sample_fresh ()))) (sample_context, ())"
    by (rule device_step.create_context [of True "\<lambda>w. (Inr 7, w)"]) (simp add: sample_context_def prod_eq_iff)
  moreover have "device_step (sample_context, ()) (map_sum (\<lambda>e. e) (\<lambda>_. ())
      (fst (create_queue_with True (object_id_new 0 1 0 OK_Context) (\<lambda>_ w. (Inr 8 :: backend_error + nat, w))
        sample_context ()))) (sample_queue, ())"
    by (rule device_step.create_queue [of True "object_id_new 0 1 0 OK_Context" "\<lambda>_ w. (Inr 8, w)"])
      (simp add: sample_queue_def prod_eq_iff)
  ultimately show ?thesis
    using device_run_refl device_run_step by metis
qed

theorem reachable_state_invariant_witness:
  "device_state_new 1 sample_limits sample_policy = Inr sample_fresh
   \<and> device_run TYPE(backend_error) (sample_fresh, ()) (sample_queue, ())
   \<and> table_len (ds_queues sample_queue) = 1 \<and> state_inv sample_queue"
proof -
  have "table_len (ds_queues sample_queue) = 1"
    by code_simp
  with reachable_state_invariant [OF sample_created sample_run] sample_created sample_run show ?thesis
    by blast
qed

text \<open>C12: an operation that fails changes nothing: whichever of the operations it is, and at
whatever point it fails (an invalid identifier, a quota, the allocator, the provider after references
were taken), the device state afterwards is the state before, slot by slot.\<close>
theorem failed_step_changes_nothing:
  assumes "state_inv s" "device_step (s, w) (Inl e) (s', w')"
  shows "s' = s"
  using device_step_inv [OF assms(2,1)] by simp

theorem failed_step_changes_nothing_witness:
  "state_inv sample_context
   \<and> device_step (sample_context, ()) (Inl (CE_Provider BE_DeviceLost)) (sample_context, ())
   \<and> create_queue_with True (object_id_new 0 1 0 OK_Context)
       (\<lambda>_ w. (Inl BE_DeviceLost :: backend_error + nat, w)) sample_context ()
     = (Inl (CE_Provider BE_DeviceLost), sample_context, ())"
proof -
  define r where "r = create_queue_with True (object_id_new 0 1 0 OK_Context)
      (\<lambda>_ w. (Inl BE_DeviceLost :: backend_error + nat, w)) sample_context ()"
  have inv: "state_inv sample_context"
    using create_context_inv [OF device_state_new_inv [OF sample_created], of True "\<lambda>w. (Inr 7 :: backend_error + nat, w)"]
    unfolding sample_context_def by (metis prod.collapse)
  have err: "fst r = Inl (CE_Provider BE_DeviceLost)"
    unfolding r_def by code_simp
  have step: "device_step (sample_context, ()) (map_sum (\<lambda>e. e) (\<lambda>_. ()) (fst r)) (fst (snd r), ())"
    by (rule device_step.create_queue [of True "object_id_new 0 1 0 OK_Context" "\<lambda>_ w. (Inl BE_DeviceLost, w)"])
      (simp add: r_def prod_eq_iff)
  then have same: "fst (snd r) = sample_context"
    using failed_step_changes_nothing [OF inv, of "()" "CE_Provider BE_DeviceLost" "fst (snd r)" "()"] by (simp add: err)
  moreover have "r = (fst r, fst (snd r), ())"
    by (simp add: prod_eq_iff)
  ultimately show ?thesis
    using inv step err unfolding r_def by simp
qed

section \<open>Quotas\<close>

text \<open>The identifiers of the objects of a map that belong to a context.\<close>

definition owned :: "('v \<Rightarrow> object_id) \<Rightarrow> (object_id \<rightharpoonup> 'v) \<Rightarrow> object_id \<Rightarrow> object_id set" where
  "owned context_of m x = {y. \<exists>v. m y = Some v \<and> context_of v = x}"

lemma owned_counts:
  assumes "graph_inv lim C B P Q E" "C x = Some c"
  shows "unat (ch_buffers (cx_children c)) = card (owned bu_context_id B x)"
    "unat (ch_programs (cx_children c)) = card (owned pr_context_id P x)"
    "unat (ch_queues (cx_children c)) = card (owned qu_context_id Q x)"
    "unat (ch_events (cx_children c)) = card (owned ev_context_id E x)"
    "card (owned bu_context_id B x) \<le> unat (max_buffers_per_context lim)"
    "card (owned pr_context_id P x) \<le> unat (max_programs_per_context lim)"
    "card (owned qu_context_id Q x) \<le> unat (max_queues_per_context lim)"
    "card (owned ev_context_id E x) \<le> unat (max_events_per_context lim)"
    "finite (owned bu_context_id B x)" "finite (owned pr_context_id P x)"
    "finite (owned qu_context_id Q x)" "finite (owned ev_context_id E x)"
proof -
  have fin: "finite (dom B)" "finite (dom P)" "finite (dom Q)" "finite (dom E)"
    and ok: "contexts_ok lim (children_of bu_context_id B) (children_of pr_context_id P)
      (children_of qu_context_id Q) (children_of ev_context_id E) C"
    using assms(1) by (simp_all add: graph_inv_def)
  have sub: "owned f m x \<subseteq> dom m" for f :: "'v \<Rightarrow> object_id" and m
    by (auto simp: owned_def)
  note card = children_of_card [OF fin(1), of bu_context_id x] children_of_card [OF fin(2), of pr_context_id x]
    children_of_card [OF fin(3), of qu_context_id x] children_of_card [OF fin(4), of ev_context_id x]
  show "unat (ch_buffers (cx_children c)) = card (owned bu_context_id B x)"
    "unat (ch_programs (cx_children c)) = card (owned pr_context_id P x)"
    "unat (ch_queues (cx_children c)) = card (owned qu_context_id Q x)"
    "unat (ch_events (cx_children c)) = card (owned ev_context_id E x)"
    "card (owned bu_context_id B x) \<le> unat (max_buffers_per_context lim)"
    "card (owned pr_context_id P x) \<le> unat (max_programs_per_context lim)"
    "card (owned qu_context_id Q x) \<le> unat (max_queues_per_context lim)"
    "card (owned ev_context_id E x) \<le> unat (max_events_per_context lim)"
    using contexts_okD [OF ok assms(2)] card by (simp_all add: owned_def word_le_nat_alt)
  show "finite (owned bu_context_id B x)" "finite (owned pr_context_id P x)"
    "finite (owned qu_context_id Q x)" "finite (owned ev_context_id E x)"
    using finite_subset [OF sub fin(1)] finite_subset [OF sub fin(2)] finite_subset [OF sub fin(3)]
      finite_subset [OF sub fin(4)] by blast+
qed

lemma table_card_le: "table_wf t \<Longrightarrow> card (dom (table_lookup t)) \<le> unat (ot_max_slots t)"
  using table_count [of t] length_filter_le [of "\<lambda>s. sl_value s \<noteq> None" "ot_slots t"]
  unfolding table_wf_def by auto

text \<open>C15: the quotas of the configuration hold after any run: no more contexts than
\<open>max_contexts\<close>, in every context no more buffers, programs, queues and events than its limits,
and no more resident program bytes in total than the policy. The counts are of the objects that
exist, as mathematical numbers, so no counter has wrapped around on the way.\<close>
theorem quotas_hold:
  assumes "device_state_new namespace limits policy = Inr s0"
    and "device_run TYPE('x) (s0, w0) (s, w)"
  shows "card (dom (contexts_of s)) \<le> unat (max_contexts limits)
   \<and> (\<forall>x c. contexts_of s x = Some c \<longrightarrow>
        card (owned bu_context_id (buffers_of s) x) \<le> unat (max_buffers_per_context limits)
      \<and> card (owned pr_context_id (programs_of s) x) \<le> unat (max_programs_per_context limits)
      \<and> card (owned qu_context_id (queues_of s) x) \<le> unat (max_queues_per_context limits)
      \<and> card (owned ev_context_id (events_of s) x) \<le> unat (max_events_per_context limits))
   \<and> (\<Sum>x\<in>dom (programs_of s). unat (pr_resident_bytes (the (programs_of s x))))
        \<le> unat (po_max_program_resident_bytes policy)"
proof -
  have inv: "state_inv s" and adv: "state_advances s0 s"
    using device_run_inv [OF assms(2) device_state_new_inv [OF assms(1)]] by blast+
  note D = state_invD [OF inv] and F = device_state_new_fields [OF assms(1)]
  have cfg: "ds_limits s = limits" "ds_policy s = policy"
    using adv F(2,3) by (simp_all add: state_advances_def)
  have "ot_max_slots (ds_contexts s) = max_contexts limits"
    using adv F(4) by (auto simp: state_advances_def table_advances_def table_frame_def table_with_namespace_def)
  then have "card (dom (contexts_of s)) \<le> unat (max_contexts limits)"
    using table_card_le [OF D(1)] by simp
  moreover note owned_counts(5-8) [OF D(6) [unfolded cfg]]
  moreover have "(\<Sum>x\<in>dom (programs_of s). unat (pr_resident_bytes (the (programs_of s x))))
      \<le> unat (po_max_program_resident_bytes policy)"
    using D(7) unfolding cfg charges_ok_def msum_def by simp
  ultimately show ?thesis
    by simp
qed

theorem quotas_hold_witness:
  "device_state_new 1 sample_limits sample_policy = Inr sample_fresh
   \<and> device_run TYPE(backend_error) (sample_fresh, ()) (sample_queue, ())
   \<and> card (dom (contexts_of sample_queue)) \<le> 2
   \<and> card (owned qu_context_id (queues_of sample_queue) (object_id_new 0 1 0 OK_Context)) \<le> 2"
proof -
  have "\<exists>c. contexts_of sample_queue (object_id_new 0 1 0 OK_Context) = Some c"
  proof -
    have "is_ok (table_get (ds_contexts sample_queue) (object_id_new 0 1 0 OK_Context))"
      by code_simp
    then show ?thesis
      by (auto simp: is_ok_iff)
  qed
  then show ?thesis
    using quotas_hold [OF sample_created sample_run] sample_created sample_run by (auto simp: sample_limits_def)
qed

section \<open>Releasing\<close>

text \<open>
  A context is unused when nothing belongs to it; a buffer, program or queue when no event
  refers to it.
\<close>

definition unused_context :: "('c, 'b, 'p, 'q, 'e) ds \<Rightarrow> object_id \<Rightarrow> bool" where
  "unused_context s x \<longleftrightarrow> owned bu_context_id (buffers_of s) x = {} \<and> owned pr_context_id (programs_of s) x = {}
     \<and> owned qu_context_id (queues_of s) x = {} \<and> owned ev_context_id (events_of s) x = {}"

definition unreferenced ::
  "('e event_record \<Rightarrow> object_id list) \<Rightarrow> ('c, 'b, 'p, 'q, 'e) ds \<Rightarrow> object_id \<Rightarrow> bool" where
  "unreferenced oids s x \<longleftrightarrow> (\<forall>y e. events_of s y = Some e \<longrightarrow> x \<notin> set (oids e))"

lemma references_zero_iff:
  assumes "finite (dom E)"
  shows "references oids E x = 0 \<longleftrightarrow> (\<forall>y e. E y = Some e \<longrightarrow> x \<notin> set (oids e))"
proof
  assume none: "\<forall>y e. E y = Some e \<longrightarrow> x \<notin> set (oids e)"
  show "references oids E x = 0"
    unfolding references_def by (rule msum_zero) (simp add: none count_list_0_iff)
qed (use references_zero_notin [OF assms] in blast)

lemma in_flight_unreferenced:
  assumes "objects_ok slot_of context_of in_flight (references oids (events_of s)) ctxs m"
    and "m x = Some v" "finite (dom (events_of s))"
  shows "in_flight v = 0 \<longleftrightarrow> unreferenced oids s x"
  using objects_okD(3) [OF assms(1,2)] references_zero_iff [OF assms(3), of oids x]
  by (simp add: unreferenced_def unat_eq_iff)

lemma empty_unused:
  assumes "state_inv s" "contexts_of s x = Some c"
  shows "child_counts_is_empty (cx_children c) \<longleftrightarrow> unused_context s x"
proof -
  note O = owned_counts [OF state_invD(6) [OF assms(1)] assms(2)]
  show ?thesis
    using O(1-4) O(9-12) unfolding child_counts_is_empty_def unused_context_def unat_eq_iff by simp
qed

lemma record_slots_ok:
  assumes "state_inv s"
  shows "contexts_of s x = Some c \<Longrightarrow> slot_ok (cx_resource c)" "buffers_of s x = Some b \<Longrightarrow> slot_ok (bu_resource b)"
    "programs_of s x = Some p \<Longrightarrow> slot_ok (pr_resource p)" "queues_of s x = Some q \<Longrightarrow> slot_ok (qu_resource q)"
    "events_of s x = Some e \<Longrightarrow> slot_ok (ev_resource e)"
proof -
  note D = state_invD(6) [OF assms]
  have "contexts_ok (ds_limits s) (children_of bu_context_id (buffers_of s)) (children_of pr_context_id (programs_of s))
      (children_of qu_context_id (queues_of s)) (children_of ev_context_id (events_of s)) (contexts_of s)"
    using D by (simp add: graph_inv_def)
  then show "contexts_of s x = Some c \<Longrightarrow> slot_ok (cx_resource c)"
    by (rule contexts_okD(1))
  note obj = graph_objects_ok [OF D]
  show "buffers_of s x = Some b \<Longrightarrow> slot_ok (bu_resource b)" "programs_of s x = Some p \<Longrightarrow> slot_ok (pr_resource p)"
      "queues_of s x = Some q \<Longrightarrow> slot_ok (qu_resource q)" "events_of s x = Some e \<Longrightarrow> slot_ok (ev_resource e)"
    using objects_okD(1) [OF obj(1)] objects_okD(1) [OF obj(2)] objects_okD(1) [OF obj(3)] events_okD(1) [OF obj(4)]
    by blast+
qed

lemma begin_apsnd: "(\<exists>h s'. apsnd f p = (Inr h, s')) \<longleftrightarrow> (\<exists>h t. p = (Inr h, t))"
  by (cases p) auto

lemma begin_context_live:
  assumes "state_inv s"
  shows "(\<exists>h s'. begin_context_release s oid = (Inr h, s')) \<longleftrightarrow>
    (\<exists>v. contexts_of s oid = Some v \<and> rs_resource (cx_resource v) \<noteq> None \<and> child_counts_is_empty (cx_children v))"
  unfolding begin_context_release_def begin_apsnd
  using cxr.begin_live [OF state_invD(1) [OF assms]] record_slots_ok(1) [OF assms] by simp

lemma begin_buffer_live:
  assumes "state_inv s"
  shows "(\<exists>h s'. begin_buffer_release s oid = (Inr h, s')) \<longleftrightarrow>
    (\<exists>v. buffers_of s oid = Some v \<and> rs_resource (bu_resource v) \<noteq> None \<and> bu_in_flight v = 0)"
  unfolding begin_buffer_release_def begin_apsnd
  using bur.begin_live [OF state_invD(2) [OF assms]] record_slots_ok(2) [OF assms] by simp

lemma begin_program_live:
  assumes "state_inv s"
  shows "(\<exists>h s'. begin_program_release s oid = (Inr h, s')) \<longleftrightarrow>
    (\<exists>v. programs_of s oid = Some v \<and> rs_resource (pr_resource v) \<noteq> None \<and> pr_in_flight v = 0)"
  unfolding begin_program_release_def begin_apsnd
  using prr.begin_live [OF state_invD(3) [OF assms]] record_slots_ok(3) [OF assms] by simp

lemma begin_queue_live:
  assumes "state_inv s"
  shows "(\<exists>h s'. begin_queue_release s oid = (Inr h, s')) \<longleftrightarrow>
    (\<exists>v. queues_of s oid = Some v \<and> rs_resource (qu_resource v) \<noteq> None \<and> qu_in_flight v = 0)"
  unfolding begin_queue_release_def begin_apsnd
  using qur.begin_live [OF state_invD(4) [OF assms]] record_slots_ok(4) [OF assms] by simp

lemma begin_event_live:
  assumes "state_inv s"
  shows "(\<exists>h s'. begin_event_release s oid = (Inr h, s')) \<longleftrightarrow>
    (\<exists>v. events_of s oid = Some v \<and> rs_resource (ev_resource v) \<noteq> None)"
  unfolding begin_event_release_def begin_apsnd
  using evr.begin_live [OF state_invD(5) [OF assms]] record_slots_ok(5) [OF assms] by simp

text \<open>C14: a release begins exactly when it is safe. The handle of a context is handed out for
destruction if and only if it is live and no buffer, program, queue or event belongs to it; that of a
buffer, program or queue if and only if it is live and no event refers to it; that of an event if and
only if it is live.\<close>
theorem release_begins_exactly_when_unused:
  assumes "state_inv s"
  shows "((\<exists>h s'. begin_context_release s oid = (Inr h, s')) \<longleftrightarrow>
       (\<exists>c. contexts_of s oid = Some c \<and> rs_resource (cx_resource c) \<noteq> None) \<and> unused_context s oid)
   \<and> ((\<exists>h s'. begin_buffer_release s oid = (Inr h, s')) \<longleftrightarrow>
       (\<exists>b. buffers_of s oid = Some b \<and> rs_resource (bu_resource b) \<noteq> None) \<and> unreferenced ev_buffer_ids s oid)
   \<and> ((\<exists>h s'. begin_program_release s oid = (Inr h, s')) \<longleftrightarrow>
       (\<exists>p. programs_of s oid = Some p \<and> rs_resource (pr_resource p) \<noteq> None) \<and> unreferenced event_program_ids s oid)
   \<and> ((\<exists>h s'. begin_queue_release s oid = (Inr h, s')) \<longleftrightarrow>
       (\<exists>q. queues_of s oid = Some q \<and> rs_resource (qu_resource q) \<noteq> None) \<and> unreferenced (\<lambda>e. [ev_queue_id e]) s oid)
   \<and> ((\<exists>h s'. begin_event_release s oid = (Inr h, s')) \<longleftrightarrow>
       (\<exists>e. events_of s oid = Some e \<and> rs_resource (ev_resource e) \<noteq> None))"
proof -
  note obj = graph_objects_ok [OF state_invD(6) [OF assms]]
  note free = in_flight_unreferenced [OF obj(1) _ obj(5)] in_flight_unreferenced [OF obj(2) _ obj(5)]
    in_flight_unreferenced [OF obj(3) _ obj(5)] empty_unused [OF assms]
  show ?thesis
    unfolding begin_context_live [OF assms] begin_buffer_live [OF assms] begin_program_live [OF assms]
      begin_queue_live [OF assms] begin_event_live [OF assms]
    using free by (intro conjI) auto
qed

lemma sample_queue_inv: "state_inv sample_queue"
  using device_run_inv [OF sample_run device_state_new_inv [OF sample_created]] by blast

theorem release_begins_exactly_when_unused_witness:
  "state_inv sample_queue \<and> is_ok (fst (begin_queue_release sample_queue (object_id_new 0 1 0 OK_Queue)))
   \<and> unreferenced (\<lambda>e. [ev_queue_id e]) sample_queue (object_id_new 0 1 0 OK_Queue)
   \<and> \<not> unused_context sample_queue (object_id_new 0 1 0 OK_Context)"
proof -
  note R = release_begins_exactly_when_unused [OF sample_queue_inv]
  have ok: "is_ok (fst (begin_queue_release sample_queue (object_id_new 0 1 0 OK_Queue)))"
    by code_simp
  then obtain h where "begin_queue_release sample_queue (object_id_new 0 1 0 OK_Queue)
      = (Inr h, snd (begin_queue_release sample_queue (object_id_new 0 1 0 OK_Queue)))"
    by (metis is_ok_iff prod.collapse)
  then have "unreferenced (\<lambda>e. [ev_queue_id e]) sample_queue (object_id_new 0 1 0 OK_Queue)"
    using R [of "object_id_new 0 1 0 OK_Queue"] by blast
  moreover have "fst (begin_context_release sample_queue (object_id_new 0 1 0 OK_Context)) = Inl DSE_Busy"
    and "is_ok (and_then (ds_context_record sample_queue (object_id_new 0 1 0 OK_Context))
      (\<lambda>c. resource_slot_get (cx_resource c)))"
    by code_simp+
  then have "\<not> unused_context sample_queue (object_id_new 0 1 0 OK_Context)"
    using R [of "object_id_new 0 1 0 OK_Context"] by (auto simp: is_ok_iff resource_slot_get_eq)
  ultimately show ?thesis
    using ok sample_queue_inv by blast
qed

lemma begin_context_law:
  assumes inv: "state_inv s" and run: "begin_context_release s oid = (Inr h, s1)"
  shows "restore_context_release s1 oid h = (Inr (), s)"
    "\<exists>v. contexts_of s1 oid = Some v \<and> rs_release (cx_resource v) = Releasing"
    "contexts_of s1 = (contexts_of s)(oid := contexts_of s1 oid)"
proof -
  note wf = state_invD(1) [OF inv]
  obtain busy t where t: "begin_resource_release cx_resource cx_resource_update busy (ds_contexts s) oid = (Inr h, t)"
      "s1 = s\<lparr>ds_contexts := t\<rparr>"
    using run by (auto simp: begin_context_release_def apsnd_def map_prod_def split: prod.splits)
  show "restore_context_release s1 oid h = (Inr (), s)"
    using cxr.restore_begin [OF wf t(1)] by (simp add: restore_context_release_def t(2))
  from begin_resource_release_law [OF wf t(1)]
  show "\<exists>v. contexts_of s1 oid = Some v \<and> rs_release (cx_resource v) = Releasing"
      "contexts_of s1 = (contexts_of s)(oid := contexts_of s1 oid)"
    by (auto simp: t(2))
qed

lemma begin_buffer_law:
  assumes inv: "state_inv s" and run: "begin_buffer_release s oid = (Inr h, s1)"
  shows "restore_buffer_release s1 oid h = (Inr (), s)"
    "\<exists>v. buffers_of s1 oid = Some v \<and> rs_release (bu_resource v) = Releasing"
    "buffers_of s1 = (buffers_of s)(oid := buffers_of s1 oid)"
proof -
  note wf = state_invD(2) [OF inv]
  obtain busy t where t: "begin_resource_release bu_resource bu_resource_update busy (ds_buffers s) oid = (Inr h, t)"
      "s1 = s\<lparr>ds_buffers := t\<rparr>"
    using run by (auto simp: begin_buffer_release_def apsnd_def map_prod_def split: prod.splits)
  show "restore_buffer_release s1 oid h = (Inr (), s)"
    using bur.restore_begin [OF wf t(1)] by (simp add: restore_buffer_release_def t(2))
  from begin_resource_release_law [OF wf t(1)]
  show "\<exists>v. buffers_of s1 oid = Some v \<and> rs_release (bu_resource v) = Releasing"
      "buffers_of s1 = (buffers_of s)(oid := buffers_of s1 oid)"
    by (auto simp: t(2))
qed

lemma begin_program_law:
  assumes inv: "state_inv s" and run: "begin_program_release s oid = (Inr h, s1)"
  shows "restore_program_release s1 oid h = (Inr (), s)"
    "\<exists>v. programs_of s1 oid = Some v \<and> rs_release (pr_resource v) = Releasing"
    "programs_of s1 = (programs_of s)(oid := programs_of s1 oid)"
proof -
  note wf = state_invD(3) [OF inv]
  obtain busy t where t: "begin_resource_release pr_resource pr_resource_update busy (ds_programs s) oid = (Inr h, t)"
      "s1 = s\<lparr>ds_programs := t\<rparr>"
    using run by (auto simp: begin_program_release_def apsnd_def map_prod_def split: prod.splits)
  show "restore_program_release s1 oid h = (Inr (), s)"
    using prr.restore_begin [OF wf t(1)] by (simp add: restore_program_release_def t(2))
  from begin_resource_release_law [OF wf t(1)]
  show "\<exists>v. programs_of s1 oid = Some v \<and> rs_release (pr_resource v) = Releasing"
      "programs_of s1 = (programs_of s)(oid := programs_of s1 oid)"
    by (auto simp: t(2))
qed

lemma begin_queue_law:
  assumes inv: "state_inv s" and run: "begin_queue_release s oid = (Inr h, s1)"
  shows "restore_queue_release s1 oid h = (Inr (), s)"
    "\<exists>v. queues_of s1 oid = Some v \<and> rs_release (qu_resource v) = Releasing"
    "queues_of s1 = (queues_of s)(oid := queues_of s1 oid)"
proof -
  note wf = state_invD(4) [OF inv]
  obtain busy t where t: "begin_resource_release qu_resource qu_resource_update busy (ds_queues s) oid = (Inr h, t)"
      "s1 = s\<lparr>ds_queues := t\<rparr>"
    using run by (auto simp: begin_queue_release_def apsnd_def map_prod_def split: prod.splits)
  show "restore_queue_release s1 oid h = (Inr (), s)"
    using qur.restore_begin [OF wf t(1)] by (simp add: restore_queue_release_def t(2))
  from begin_resource_release_law [OF wf t(1)]
  show "\<exists>v. queues_of s1 oid = Some v \<and> rs_release (qu_resource v) = Releasing"
      "queues_of s1 = (queues_of s)(oid := queues_of s1 oid)"
    by (auto simp: t(2))
qed

lemma begin_event_law:
  assumes inv: "state_inv s" and run: "begin_event_release s oid = (Inr h, s1)"
  shows "restore_event_release s1 oid h = (Inr (), s)"
    "\<exists>v. events_of s1 oid = Some v \<and> rs_release (ev_resource v) = Releasing"
    "events_of s1 = (events_of s)(oid := events_of s1 oid)"
proof -
  note wf = state_invD(5) [OF inv]
  obtain busy t where t: "begin_resource_release ev_resource ev_resource_update busy (ds_events s) oid = (Inr h, t)"
      "s1 = s\<lparr>ds_events := t\<rparr>"
    using run by (auto simp: begin_event_release_def apsnd_def map_prod_def split: prod.splits)
  show "restore_event_release s1 oid h = (Inr (), s)"
    using evr.restore_begin [OF wf t(1)] by (simp add: restore_event_release_def t(2))
  from begin_resource_release_law [OF wf t(1)]
  show "\<exists>v. events_of s1 oid = Some v \<and> rs_release (ev_resource v) = Releasing"
      "events_of s1 = (events_of s)(oid := events_of s1 oid)"
    by (auto simp: t(2))
qed

lemma spent_stays_absent:
  assumes "state_inv s" "device_run TYPE('x) (s, w) (s', w')"
  shows "table_spent (ds_contexts s) oid \<Longrightarrow> contexts_of s' oid = None"
    "table_spent (ds_buffers s) oid \<Longrightarrow> buffers_of s' oid = None"
    "table_spent (ds_programs s) oid \<Longrightarrow> programs_of s' oid = None"
    "table_spent (ds_queues s) oid \<Longrightarrow> queues_of s' oid = None"
    "table_spent (ds_events s) oid \<Longrightarrow> events_of s' oid = None"
proof -
  have "state_inv s'" "state_advances s s'"
    using device_run_inv [OF assms(2,1)] by blast+
  note D = state_invD [OF this(1)] and adv = this(2) [unfolded state_advances_def table_advances_def]
  show "table_spent (ds_contexts s) oid \<Longrightarrow> contexts_of s' oid = None"
    using table_spent_lookup [OF D(1)] adv by blast
  show "table_spent (ds_buffers s) oid \<Longrightarrow> buffers_of s' oid = None"
    using table_spent_lookup [OF D(2)] adv by blast
  show "table_spent (ds_programs s) oid \<Longrightarrow> programs_of s' oid = None"
    using table_spent_lookup [OF D(3)] adv by blast
  show "table_spent (ds_queues s) oid \<Longrightarrow> queues_of s' oid = None"
    using table_spent_lookup [OF D(4)] adv by blast
  show "table_spent (ds_events s) oid \<Longrightarrow> events_of s' oid = None"
    using table_spent_lookup [OF D(5)] adv by blast
qed

lemma context_release_completes:
  assumes inv: "state_inv s" and run: "begin_context_release s oid = (Inr h, s1)"
  shows "\<exists>s2. commit_context_release s1 oid = (Inr (), s2) \<and> contexts_of s2 = (contexts_of s)(oid := None)
    \<and> (\<forall>w s3 w3. device_run TYPE('x) (s2, w) (s3, w3) \<longrightarrow> contexts_of s3 oid = None)"
proof -
  have inv1: "state_inv s1"
    using begin_context_release_inv [OF inv run] by blast
  obtain v where v: "contexts_of s1 oid = Some v" "rs_release (cx_resource v) = Releasing"
    using begin_context_law(2) [OF inv run] by blast
  obtain s2 where s2: "commit_context_release s1 oid = (Inr (), s2)" "state_inv s2"
      "contexts_of s2 = (contexts_of s1)(oid := None)" "table_spent (ds_contexts s2) oid"
    using commit_context_release_ok [OF inv1 v] by blast
  have "contexts_of s2 = (contexts_of s)(oid := None)"
    using s2(3) fun_upd_upd begin_context_law(3) [OF inv run] by metis
  then show ?thesis
    using s2(1,4) spent_stays_absent(1) [OF s2(2)] by (intro exI [of _ s2] conjI allI impI)
qed

lemma buffer_release_completes:
  assumes inv: "state_inv s" and run: "begin_buffer_release s oid = (Inr h, s1)"
  shows "\<exists>s2. commit_buffer_release s1 oid = (Inr (), s2) \<and> buffers_of s2 = (buffers_of s)(oid := None)
    \<and> (\<forall>w s3 w3. device_run TYPE('x) (s2, w) (s3, w3) \<longrightarrow> buffers_of s3 oid = None)"
proof -
  have inv1: "state_inv s1"
    using begin_buffer_release_inv [OF inv run] by blast
  obtain v where v: "buffers_of s1 oid = Some v" "rs_release (bu_resource v) = Releasing"
    using begin_buffer_law(2) [OF inv run] by blast
  obtain s2 where s2: "commit_buffer_release s1 oid = (Inr (), s2)" "state_inv s2"
      "buffers_of s2 = (buffers_of s1)(oid := None)" "table_spent (ds_buffers s2) oid"
    using commit_buffer_release_ok [OF inv1 v] by blast
  have "buffers_of s2 = (buffers_of s)(oid := None)"
    using s2(3) fun_upd_upd begin_buffer_law(3) [OF inv run] by metis
  then show ?thesis
    using s2(1,4) spent_stays_absent(2) [OF s2(2)] by (intro exI [of _ s2] conjI allI impI)
qed

lemma program_release_completes:
  assumes inv: "state_inv s" and run: "begin_program_release s oid = (Inr h, s1)"
  shows "\<exists>s2. commit_program_release s1 oid = (Inr (), s2) \<and> programs_of s2 = (programs_of s)(oid := None)
    \<and> (\<forall>w s3 w3. device_run TYPE('x) (s2, w) (s3, w3) \<longrightarrow> programs_of s3 oid = None)"
proof -
  have inv1: "state_inv s1"
    using begin_program_release_inv [OF inv run] by blast
  obtain v where v: "programs_of s1 oid = Some v" "rs_release (pr_resource v) = Releasing"
    using begin_program_law(2) [OF inv run] by blast
  obtain s2 where s2: "commit_program_release s1 oid = (Inr (), s2)" "state_inv s2"
      "programs_of s2 = (programs_of s1)(oid := None)" "table_spent (ds_programs s2) oid"
    using commit_program_release_ok [OF inv1 v] by blast
  have "programs_of s2 = (programs_of s)(oid := None)"
    using s2(3) fun_upd_upd begin_program_law(3) [OF inv run] by metis
  then show ?thesis
    using s2(1,4) spent_stays_absent(3) [OF s2(2)] by (intro exI [of _ s2] conjI allI impI)
qed

lemma queue_release_completes:
  assumes inv: "state_inv s" and run: "begin_queue_release s oid = (Inr h, s1)"
  shows "\<exists>s2. commit_queue_release s1 oid = (Inr (), s2) \<and> queues_of s2 = (queues_of s)(oid := None)
    \<and> (\<forall>w s3 w3. device_run TYPE('x) (s2, w) (s3, w3) \<longrightarrow> queues_of s3 oid = None)"
proof -
  have inv1: "state_inv s1"
    using begin_queue_release_inv [OF inv run] by blast
  obtain v where v: "queues_of s1 oid = Some v" "rs_release (qu_resource v) = Releasing"
    using begin_queue_law(2) [OF inv run] by blast
  obtain s2 where s2: "commit_queue_release s1 oid = (Inr (), s2)" "state_inv s2"
      "queues_of s2 = (queues_of s1)(oid := None)" "table_spent (ds_queues s2) oid"
    using commit_queue_release_ok [OF inv1 v] by blast
  have "queues_of s2 = (queues_of s)(oid := None)"
    using s2(3) fun_upd_upd begin_queue_law(3) [OF inv run] by metis
  then show ?thesis
    using s2(1,4) spent_stays_absent(4) [OF s2(2)] by (intro exI [of _ s2] conjI allI impI)
qed

lemma event_release_completes:
  assumes inv: "state_inv s" and run: "begin_event_release s oid = (Inr h, s1)"
  shows "\<exists>s2. commit_event_release s1 oid = (Inr (), s2) \<and> events_of s2 = (events_of s)(oid := None)
    \<and> (\<forall>w s3 w3. device_run TYPE('x) (s2, w) (s3, w3) \<longrightarrow> events_of s3 oid = None)"
proof -
  have inv1: "state_inv s1"
    using begin_event_release_inv [OF inv run] by blast
  obtain v where v: "events_of s1 oid = Some v" "rs_release (ev_resource v) = Releasing"
    using begin_event_law(2) [OF inv run] by blast
  obtain s2 where s2: "commit_event_release s1 oid = (Inr (), s2)" "state_inv s2"
      "events_of s2 = (events_of s1)(oid := None)" "table_spent (ds_events s2) oid"
    using commit_event_release_ok [OF inv1 v] by blast
  have "events_of s2 = (events_of s)(oid := None)"
    using s2(3) fun_upd_upd begin_event_law(3) [OF inv run] by metis
  then show ?thesis
    using s2(1,4) spent_stays_absent(5) [OF s2(2)] by (intro exI [of _ s2] conjI allI impI)
qed

text \<open>C13: a release that began can always be finished and can always be undone. Committing
succeeds, removes exactly that object, and its identifier resolves to nothing in every later state, so
it is never given to another object; restoring instead gives back the state from before, slot by
slot.\<close>
theorem release_completes_or_is_undone:
  assumes "state_inv s"
  shows "(\<forall>h s1. begin_context_release s oid = (Inr h, s1) \<longrightarrow>
        restore_context_release s1 oid h = (Inr (), s)
      \<and> (\<exists>s2. commit_context_release s1 oid = (Inr (), s2) \<and> contexts_of s2 = (contexts_of s)(oid := None)
          \<and> (\<forall>w s3 w3. device_run TYPE('x) (s2, w) (s3, w3) \<longrightarrow> contexts_of s3 oid = None)))
   \<and> (\<forall>h s1. begin_buffer_release s oid = (Inr h, s1) \<longrightarrow>
        restore_buffer_release s1 oid h = (Inr (), s)
      \<and> (\<exists>s2. commit_buffer_release s1 oid = (Inr (), s2) \<and> buffers_of s2 = (buffers_of s)(oid := None)
          \<and> (\<forall>w s3 w3. device_run TYPE('x) (s2, w) (s3, w3) \<longrightarrow> buffers_of s3 oid = None)))
   \<and> (\<forall>h s1. begin_program_release s oid = (Inr h, s1) \<longrightarrow>
        restore_program_release s1 oid h = (Inr (), s)
      \<and> (\<exists>s2. commit_program_release s1 oid = (Inr (), s2) \<and> programs_of s2 = (programs_of s)(oid := None)
          \<and> (\<forall>w s3 w3. device_run TYPE('x) (s2, w) (s3, w3) \<longrightarrow> programs_of s3 oid = None)))
   \<and> (\<forall>h s1. begin_queue_release s oid = (Inr h, s1) \<longrightarrow>
        restore_queue_release s1 oid h = (Inr (), s)
      \<and> (\<exists>s2. commit_queue_release s1 oid = (Inr (), s2) \<and> queues_of s2 = (queues_of s)(oid := None)
          \<and> (\<forall>w s3 w3. device_run TYPE('x) (s2, w) (s3, w3) \<longrightarrow> queues_of s3 oid = None)))
   \<and> (\<forall>h s1. begin_event_release s oid = (Inr h, s1) \<longrightarrow>
        restore_event_release s1 oid h = (Inr (), s)
      \<and> (\<exists>s2. commit_event_release s1 oid = (Inr (), s2) \<and> events_of s2 = (events_of s)(oid := None)
          \<and> (\<forall>w s3 w3. device_run TYPE('x) (s2, w) (s3, w3) \<longrightarrow> events_of s3 oid = None)))"
  by (intro conjI allI impI;
      erule begin_context_law(1) [OF assms] begin_buffer_law(1) [OF assms] begin_program_law(1) [OF assms]
        begin_queue_law(1) [OF assms] begin_event_law(1) [OF assms] context_release_completes [OF assms]
        buffer_release_completes [OF assms] program_release_completes [OF assms]
        queue_release_completes [OF assms] event_release_completes [OF assms])

theorem release_completes_or_is_undone_witness:
  "let q = object_id_new 0 1 0 OK_Queue; (r, s1) = begin_queue_release sample_queue q;
       (r2, s2) = commit_queue_release s1 q
   in state_inv sample_queue \<and> r = Inr 8 \<and> restore_queue_release s1 q 8 = (Inr (), sample_queue)
      \<and> r2 = Inr () \<and> queues_of s2 q = None"
proof -
  define q where "q = object_id_new 0 1 0 OK_Queue"
  obtain r s1 where b: "begin_queue_release sample_queue q = (r, s1)"
    by fastforce
  obtain r2 s2 where c: "commit_queue_release s1 q = (r2, s2)"
    by fastforce
  have "fst (begin_queue_release sample_queue q) = Inr 8"
    unfolding q_def by code_simp
  then have r: "r = Inr 8"
    by (simp add: b)
  then show ?thesis
    using release_completes_or_is_undone [OF sample_queue_inv, of q] b c sample_queue_inv
    unfolding q_def [symmetric] by (auto simp: Let_def)
qed

end
