(* ===== verification/Engine_Reset.thy ===== *)
theory Engine_Reset
  imports Command_Engine Device_Steps
begin

text \<open>
  The reset pass of the command engine (\<open>reset\<close> and the \<open>reset_*\<close> methods of \<open>engine.rs\<close>):
  events first, then queues, programs, buffers and contexts. Each loop walks its table with a
  cursor over the slots. The loops terminate because a release never changes the number of slots
  and the cursor moves forward.
\<close>

section \<open>The state of a pass\<close>

record reset_progress =
  pg_backend_reusable :: bool
  pg_backend_callable :: bool

definition reset_progress_default :: reset_progress where
  "reset_progress_default = \<lparr>pg_backend_reusable = True, pg_backend_callable = True\<rparr>"

text \<open>The variables a pass changes: the object graph, the world, and the accumulators of \<open>reset\<close>.\<close>

record ('c, 'b, 'p, 'q, 'e, 'w) reset_run =
  ru_state :: "('c, 'b, 'p, 'q, 'e) ds"
  ru_world :: 'w
  ru_released :: resource_counts
  ru_released_bytes :: retained_bytes
  ru_progress :: reset_progress

type_synonym ('c, 'b, 'p, 'q, 'e, 'w) ru = "('c, 'b, 'p, 'q, 'e, 'w) reset_run"

definition not_reusable :: "('c, 'b, 'p, 'q, 'e, 'w) ru \<Rightarrow> ('c, 'b, 'p, 'q, 'e, 'w) ru" where
  "not_reusable x = x\<lparr>ru_progress := (ru_progress x)\<lparr>pg_backend_reusable := False\<rparr>\<rparr>"

definition not_callable :: "('c, 'b, 'p, 'q, 'e, 'w) ru \<Rightarrow> ('c, 'b, 'p, 'q, 'e, 'w) ru" where
  "not_callable x = x\<lparr>ru_progress := (ru_progress x)\<lparr>pg_backend_callable := False\<rparr>\<rparr>"

definition note_error :: "backend_error \<Rightarrow> ('c, 'b, 'p, 'q, 'e, 'w) ru \<Rightarrow> ('c, 'b, 'p, 'q, 'e, 'w) ru" where
  "note_error e x = (if e = BE_DeviceLost then not_callable (not_reusable x) else not_reusable x)"

definition ds_next_context_id :: "('c, 'b, 'p, 'q, 'e) ds \<Rightarrow> nat \<Rightarrow> (nat \<times> object_id) option" where
  "ds_next_context_id s = table_next_id_from (ds_contexts s)"

definition ds_next_buffer_id :: "('c, 'b, 'p, 'q, 'e) ds \<Rightarrow> nat \<Rightarrow> (nat \<times> object_id) option" where
  "ds_next_buffer_id s = table_next_id_from (ds_buffers s)"

definition ds_next_program_id :: "('c, 'b, 'p, 'q, 'e) ds \<Rightarrow> nat \<Rightarrow> (nat \<times> object_id) option" where
  "ds_next_program_id s = table_next_id_from (ds_programs s)"

definition ds_next_queue_id :: "('c, 'b, 'p, 'q, 'e) ds \<Rightarrow> nat \<Rightarrow> (nat \<times> object_id) option" where
  "ds_next_queue_id s = table_next_id_from (ds_queues s)"

definition ds_next_event_id :: "('c, 'b, 'p, 'q, 'e) ds \<Rightarrow> nat \<Rightarrow> (nat \<times> object_id) option" where
  "ds_next_event_id s = table_next_id_from (ds_events s)"

section \<open>Events\<close>

text \<open>The poll of \<open>reset_event\<close>: None when the method returns early.\<close>

definition reset_poll ::
  "('c, 'b, 'p, 'q, 'e, 'k, 'w) accelerator \<Rightarrow> object_id \<Rightarrow> ('c, 'b, 'p, 'q, 'e, 'w) ru
    \<Rightarrow> event_state option \<times> ('c, 'b, 'p, 'q, 'e, 'w) ru" where
  "reset_poll accelerator oid x =
     (case event_handle (ru_state x) oid of
        Inl _ \<Rightarrow> (None, not_reusable x)
      | Inr event \<Rightarrow>
      case ac_poll_event accelerator event (ru_world x) of
        (Inr state, w) \<Rightarrow> (Some state, x\<lparr>ru_world := w\<rparr>)
      | (Inl e, w) \<Rightarrow> (None, note_error e (x\<lparr>ru_world := w\<rparr>)))"

text \<open>The state of the event after a pending one was cancelled where the backend supports it.\<close>

definition reset_settle ::
  "('c, 'b, 'p, 'q, 'e, 'k, 'w) accelerator \<Rightarrow> device_info \<Rightarrow> object_id \<Rightarrow> ('c, 'b, 'p, 'q, 'e, 'w) ru
    \<Rightarrow> event_state option \<times> ('c, 'b, 'p, 'q, 'e, 'w) ru" where
  "reset_settle accelerator info oid x =
     (case reset_poll accelerator oid x of
        (None, x1) \<Rightarrow> (None, x1)
      | (Some state, x1) \<Rightarrow>
          if state \<noteq> ES_Pending then (Some state, x1)
          else if \<not> flags_contain (di_capabilities info) EVENT_CANCELLATION then (None, not_reusable x1)
          else case event_handle (ru_state x1) oid of
            Inl _ \<Rightarrow> (None, not_reusable x1)
          | Inr event \<Rightarrow>
              case ac_cancel_event accelerator event (ru_world x1) of
                (Inr _, w) \<Rightarrow> (Some ES_Cancelled, x1\<lparr>ru_world := w\<rparr>)
              | (Inl e, w) \<Rightarrow>
                  if e = BE_Busy then reset_poll accelerator oid (x1\<lparr>ru_world := w\<rparr>)
                  else (None, note_error e (x1\<lparr>ru_world := w\<rparr>)))"

text \<open>The release at the end of \<open>reset_event\<close>.\<close>

definition reset_event_release ::
  "('c, 'b, 'p, 'q, 'e, 'k, 'w) accelerator \<Rightarrow> object_id \<Rightarrow> ('c, 'b, 'p, 'q, 'e, 'w) ru
    \<Rightarrow> ('c, 'b, 'p, 'q, 'e, 'w) ru" where
  "reset_event_release accelerator oid x =
     (case begin_event_release (ru_state x) oid of
        (Inl _, s) \<Rightarrow> not_reusable (x\<lparr>ru_state := s\<rparr>)
      | (Inr event, s) \<Rightarrow>
        (case ac_destroy_event accelerator event (ru_world x) of
           (Inr _, w) \<Rightarrow>
             (case commit_event_release s oid of
                (Inr _, s') \<Rightarrow> x\<lparr>ru_state := s', ru_world := w, ru_released := (ru_released x)
                  \<lparr>rc_events := rc_events (ru_released x) + 1\<rparr>\<rparr>
              | (Inl _, s') \<Rightarrow> not_callable (not_reusable (x\<lparr>ru_state := s', ru_world := w\<rparr>)))
         | (Inl (RF_Rejected e event'), w) \<Rightarrow>
             (case restore_event_release s oid event' of
                (Inr _, s') \<Rightarrow> note_error e (x\<lparr>ru_state := s', ru_world := w\<rparr>)
              | (Inl _, s') \<Rightarrow> not_callable (note_error e (x\<lparr>ru_state := s', ru_world := w\<rparr>)))
         | (Inl (RF_Indeterminate _), w) \<Rightarrow>
             not_callable (not_reusable (x\<lparr>ru_state := s, ru_world := w\<rparr>))))"

definition reset_event ::
  "('c, 'b, 'p, 'q, 'e, 'k, 'w) accelerator \<Rightarrow> device_info \<Rightarrow> object_id \<Rightarrow> ('c, 'b, 'p, 'q, 'e, 'w) ru
    \<Rightarrow> ('c, 'b, 'p, 'q, 'e, 'w) ru" where
  "reset_event accelerator info oid x =
     (case reset_settle accelerator info oid x of
        (None, x1) \<Rightarrow> x1
      | (Some state, x1) \<Rightarrow>
          if state = ES_Pending then not_reusable x1
          else if state = ES_Failed BE_DeviceLost then not_callable (not_reusable x1)
          else reset_event_release accelerator oid x1)"

section \<open>One round of each loop\<close>

datatype loop_control = Proceed | Leave

definition reset_queue_round ::
  "('c, 'b, 'p, 'q, 'e, 'k, 'w) accelerator \<Rightarrow> object_id \<Rightarrow> ('c, 'b, 'p, 'q, 'e, 'w) ru
    \<Rightarrow> loop_control \<times> ('c, 'b, 'p, 'q, 'e, 'w) ru" where
  "reset_queue_round accelerator oid x =
     (case begin_queue_release (ru_state x) oid of
        (Inl _, s) \<Rightarrow> (Proceed, not_reusable (x\<lparr>ru_state := s\<rparr>))
      | (Inr queue, s) \<Rightarrow>
      case ac_destroy_queue accelerator queue (ru_world x) of
        (Inr _, w) \<Rightarrow>
          (case commit_queue_release s oid of
             (Inr _, s') \<Rightarrow> (Proceed, x\<lparr>ru_state := s', ru_world := w, ru_released := (ru_released x)
               \<lparr>rc_queues := rc_queues (ru_released x) + 1\<rparr>\<rparr>)
           | (Inl _, s') \<Rightarrow> (Leave, not_callable (not_reusable (x\<lparr>ru_state := s', ru_world := w\<rparr>))))
      | (Inl (RF_Rejected e queue'), w) \<Rightarrow>
          (case restore_queue_release s oid queue' of
             (Inr _, s') \<Rightarrow> (Proceed, note_error e (x\<lparr>ru_state := s', ru_world := w\<rparr>))
           | (Inl _, s') \<Rightarrow> (Leave, not_callable (note_error e (x\<lparr>ru_state := s', ru_world := w\<rparr>))))
      | (Inl (RF_Indeterminate _), w) \<Rightarrow>
          (Leave, not_callable (not_reusable (x\<lparr>ru_state := s, ru_world := w\<rparr>))))"

definition reset_program_round ::
  "('c, 'b, 'p, 'q, 'e, 'k, 'w) accelerator \<Rightarrow> object_id \<Rightarrow> ('c, 'b, 'p, 'q, 'e, 'w) ru
    \<Rightarrow> loop_control \<times> ('c, 'b, 'p, 'q, 'e, 'w) ru" where
  "reset_program_round accelerator oid x =
     (case ds_program_record (ru_state x) oid of
        Inl _ \<Rightarrow> (Proceed, not_reusable x)
      | Inr record \<Rightarrow>
      case begin_program_release (ru_state x) oid of
        (Inl _, s) \<Rightarrow> (Proceed, not_reusable (x\<lparr>ru_state := s\<rparr>))
      | (Inr program, s) \<Rightarrow>
      case ac_unload_program accelerator program (ru_world x) of
        (Inr _, w) \<Rightarrow>
          (case commit_program_release s oid of
             (Inr _, s') \<Rightarrow> (Proceed, x\<lparr>ru_state := s', ru_world := w, ru_released := (ru_released x)
               \<lparr>rc_programs := rc_programs (ru_released x) + 1\<rparr>, ru_released_bytes := (ru_released_bytes x)
               \<lparr>rt_program_resident := rt_program_resident (ru_released_bytes x) + ucast (pr_resident_bytes record)\<rparr>\<rparr>)
           | (Inl _, s') \<Rightarrow> (Leave, not_callable (not_reusable (x\<lparr>ru_state := s', ru_world := w\<rparr>))))
      | (Inl (RF_Rejected e program'), w) \<Rightarrow>
          (case restore_program_release s oid program' of
             (Inr _, s') \<Rightarrow> (Proceed, note_error e (x\<lparr>ru_state := s', ru_world := w\<rparr>))
           | (Inl _, s') \<Rightarrow> (Leave, not_callable (note_error e (x\<lparr>ru_state := s', ru_world := w\<rparr>))))
      | (Inl (RF_Indeterminate _), w) \<Rightarrow>
          (Leave, not_callable (not_reusable (x\<lparr>ru_state := s, ru_world := w\<rparr>))))"

definition reset_buffer_round ::
  "('c, 'b, 'p, 'q, 'e, 'k, 'w) accelerator \<Rightarrow> object_id \<Rightarrow> ('c, 'b, 'p, 'q, 'e, 'w) ru
    \<Rightarrow> loop_control \<times> ('c, 'b, 'p, 'q, 'e, 'w) ru" where
  "reset_buffer_round accelerator oid x =
     (case ds_buffer_record (ru_state x) oid of
        Inl _ \<Rightarrow> (Proceed, not_reusable x)
      | Inr record \<Rightarrow>
      case begin_buffer_release (ru_state x) oid of
        (Inl _, s) \<Rightarrow> (Proceed, not_reusable (x\<lparr>ru_state := s\<rparr>))
      | (Inr buffer, s) \<Rightarrow>
      case ac_free_buffer accelerator buffer (ru_world x) of
        (Inr _, w) \<Rightarrow>
          (case commit_buffer_release s oid of
             (Inr _, s') \<Rightarrow> (Proceed, x\<lparr>ru_state := s', ru_world := w, ru_released := (ru_released x)
               \<lparr>rc_buffers := rc_buffers (ru_released x) + 1\<rparr>, ru_released_bytes := (ru_released_bytes x)
               \<lparr>rt_buffer_backing := rt_buffer_backing (ru_released_bytes x)
                  + ucast (bi_allocation_bytes (bu_info record))\<rparr>\<rparr>)
           | (Inl _, s') \<Rightarrow> (Leave, not_callable (not_reusable (x\<lparr>ru_state := s', ru_world := w\<rparr>))))
      | (Inl (RF_Rejected e buffer'), w) \<Rightarrow>
          (case restore_buffer_release s oid buffer' of
             (Inr _, s') \<Rightarrow> (Proceed, note_error e (x\<lparr>ru_state := s', ru_world := w\<rparr>))
           | (Inl _, s') \<Rightarrow> (Leave, not_callable (note_error e (x\<lparr>ru_state := s', ru_world := w\<rparr>))))
      | (Inl (RF_Indeterminate _), w) \<Rightarrow>
          (Leave, not_callable (not_reusable (x\<lparr>ru_state := s, ru_world := w\<rparr>))))"

definition reset_context_round ::
  "('c, 'b, 'p, 'q, 'e, 'k, 'w) accelerator \<Rightarrow> object_id \<Rightarrow> ('c, 'b, 'p, 'q, 'e, 'w) ru
    \<Rightarrow> loop_control \<times> ('c, 'b, 'p, 'q, 'e, 'w) ru" where
  "reset_context_round accelerator oid x =
     (case begin_context_release (ru_state x) oid of
        (Inl _, s) \<Rightarrow> (Proceed, not_reusable (x\<lparr>ru_state := s\<rparr>))
      | (Inr context, s) \<Rightarrow>
      case ac_destroy_context accelerator context (ru_world x) of
        (Inr _, w) \<Rightarrow>
          (case commit_context_release s oid of
             (Inr _, s') \<Rightarrow> (Proceed, x\<lparr>ru_state := s', ru_world := w, ru_released := (ru_released x)
               \<lparr>rc_contexts := rc_contexts (ru_released x) + 1\<rparr>\<rparr>)
           | (Inl _, s') \<Rightarrow> (Leave, not_callable (not_reusable (x\<lparr>ru_state := s', ru_world := w\<rparr>))))
      | (Inl (RF_Rejected e context'), w) \<Rightarrow>
          (case restore_context_release s oid context' of
             (Inr _, s') \<Rightarrow> (Proceed, note_error e (x\<lparr>ru_state := s', ru_world := w\<rparr>))
           | (Inl _, s') \<Rightarrow> (Leave, not_callable (note_error e (x\<lparr>ru_state := s', ru_world := w\<rparr>))))
      | (Inl (RF_Indeterminate _), w) \<Rightarrow>
          (Leave, not_callable (not_reusable (x\<lparr>ru_state := s, ru_world := w\<rparr>))))"

section \<open>The cursor moves forward and the slots stay\<close>

abbreviation slot_count :: "'a object_table \<Rightarrow> nat" where
  "slot_count t \<equiv> length (ot_slots t)"

lemma next_id_forward:
  "table_next_id_from t start = Some (next, oid) \<Longrightarrow> start < next \<and> next \<le> slot_count t"
  by (auto simp: table_next_id_from_def find_Some_iff)

lemma get_mut_slots: "table_get_mut t oid = Inr (v, assign) \<Longrightarrow> slot_count (assign v') = slot_count t"
  by (auto simp: table_get_mut_def split: option.splits)

lemma begin_slots:
  "begin_resource_release slot_of slot_update busy t oid = (r, t') \<Longrightarrow> slot_count t' = slot_count t"
  using get_mut_slots
  by (auto simp: begin_resource_release_def split: sum.splits if_splits prod.splits)

lemma restore_slots: "restore_resource slot_of slot_update t oid h = (r, t') \<Longrightarrow> slot_count t' = slot_count t"
  using get_mut_slots by (auto simp: restore_resource_def split: sum.splits prod.splits)

lemma remove_slots: "table_remove t oid = (r, t') \<Longrightarrow> slot_count t' = slot_count t"
  by (auto simp: table_remove_def Let_def split: sum.splits option.splits if_splits)

lemma modify_each_slots: "modify_each f oids t = (r, t') \<Longrightarrow> slot_count t' = slot_count t"
proof (induction f oids t arbitrary: r t' rule: modify_each.induct)
  case (2 f oid oids t)
  then show ?case
    using get_mut_slots [of t oid] by (cases "table_modify t oid f") (auto simp: table_modify_def)
qed simp

lemma forget_child_tables:
  assumes "forget_child f context_id s = (r, s')"
  shows "ds_buffers s' = ds_buffers s" "ds_programs s' = ds_programs s" "ds_queues s' = ds_queues s"
    "ds_events s' = ds_events s"
  using assms by (auto simp: forget_child_def apsnd_def map_prod_def split: prod.splits)

lemma adjust_references_events:
  "adjust_references f context_id queue_id program_ids buffer_ids s = (r, s') \<Longrightarrow> ds_events s' = ds_events s"
  by (auto simp: adjust_references_def split: prod.splits sum.splits)

lemma release_slots:
  "begin_context_release s oid = (r, s') \<Longrightarrow> slot_count (ds_contexts s') = slot_count (ds_contexts s)"
  "restore_context_release s oid c = (r', s') \<Longrightarrow> slot_count (ds_contexts s') = slot_count (ds_contexts s)"
  "commit_context_release s oid = (r'', s') \<Longrightarrow> slot_count (ds_contexts s') = slot_count (ds_contexts s)"
  for s :: "('c, 'b, 'p, 'q, 'e) ds"
  by (auto simp: begin_context_release_def restore_context_release_def commit_context_release_def apsnd_def
      map_prod_def split: prod.splits sum.splits dest: begin_slots restore_slots remove_slots)

lemma buffer_release_slots:
  "begin_buffer_release s oid = (r, s') \<Longrightarrow> slot_count (ds_buffers s') = slot_count (ds_buffers s)"
  "restore_buffer_release s oid b = (r', s') \<Longrightarrow> slot_count (ds_buffers s') = slot_count (ds_buffers s)"
  "commit_buffer_release s oid = (r'', s') \<Longrightarrow> slot_count (ds_buffers s') = slot_count (ds_buffers s)"
  for s :: "('c, 'b, 'p, 'q, 'e) ds"
  by (auto simp: begin_buffer_release_def restore_buffer_release_def commit_buffer_release_def apsnd_def
      map_prod_def split: prod.splits sum.splits
      dest!: begin_slots restore_slots remove_slots forget_child_tables(1))

lemma program_release_slots:
  "begin_program_release s oid = (r, s') \<Longrightarrow> slot_count (ds_programs s') = slot_count (ds_programs s)"
  "restore_program_release s oid p = (r', s') \<Longrightarrow> slot_count (ds_programs s') = slot_count (ds_programs s)"
  "commit_program_release s oid = (r'', s') \<Longrightarrow> slot_count (ds_programs s') = slot_count (ds_programs s)"
  for s :: "('c, 'b, 'p, 'q, 'e) ds"
  by (auto simp: begin_program_release_def restore_program_release_def commit_program_release_def apsnd_def
      map_prod_def split: prod.splits sum.splits
      dest!: begin_slots restore_slots remove_slots forget_child_tables(2))

lemma queue_release_slots:
  "begin_queue_release s oid = (r, s') \<Longrightarrow> slot_count (ds_queues s') = slot_count (ds_queues s)"
  "restore_queue_release s oid q = (r', s') \<Longrightarrow> slot_count (ds_queues s') = slot_count (ds_queues s)"
  "commit_queue_release s oid = (r'', s') \<Longrightarrow> slot_count (ds_queues s') = slot_count (ds_queues s)"
  for s :: "('c, 'b, 'p, 'q, 'e) ds"
  by (auto simp: begin_queue_release_def restore_queue_release_def commit_queue_release_def apsnd_def
      map_prod_def split: prod.splits sum.splits
      dest!: begin_slots restore_slots remove_slots forget_child_tables(3))

lemma event_release_slots:
  "begin_event_release s oid = (r, s') \<Longrightarrow> slot_count (ds_events s') = slot_count (ds_events s)"
  "restore_event_release s oid e = (r', s') \<Longrightarrow> slot_count (ds_events s') = slot_count (ds_events s)"
  "commit_event_release s oid = (r'', s') \<Longrightarrow> slot_count (ds_events s') = slot_count (ds_events s)"
  for s :: "('c, 'b, 'p, 'q, 'e) ds"
  by (auto simp: begin_event_release_def restore_event_release_def commit_event_release_def apsnd_def
      map_prod_def decrement_event_references_def split: prod.splits sum.splits
      dest!: begin_slots restore_slots remove_slots adjust_references_events)

lemma note_state [simp]:
  "ru_state (not_reusable x) = ru_state x" "ru_state (not_callable x) = ru_state x"
  "ru_state (note_error e x) = ru_state x"
  by (simp_all add: not_reusable_def not_callable_def note_error_def)

lemma round_slots:
  "slot_count (ds_queues (ru_state (snd (reset_queue_round accelerator oid x)))) = slot_count (ds_queues (ru_state x))"
  "slot_count (ds_programs (ru_state (snd (reset_program_round accelerator oid x)))) = slot_count (ds_programs (ru_state x))"
  "slot_count (ds_buffers (ru_state (snd (reset_buffer_round accelerator oid x)))) = slot_count (ds_buffers (ru_state x))"
  "slot_count (ds_contexts (ru_state (snd (reset_context_round accelerator oid x)))) = slot_count (ds_contexts (ru_state x))"
  by (auto simp: reset_queue_round_def reset_program_round_def reset_buffer_round_def reset_context_round_def
      split: prod.splits sum.splits release_failure.splits
      dest!: queue_release_slots program_release_slots buffer_release_slots release_slots)

lemma reset_poll_state: "reset_poll accelerator oid x = (r, x') \<Longrightarrow> ru_state x' = ru_state x"
  by (auto simp: reset_poll_def split: prod.splits sum.splits)

lemma reset_settle_state: "reset_settle accelerator info oid x = (r, x') \<Longrightarrow> ru_state x' = ru_state x"
  by (auto simp: reset_settle_def split: prod.splits sum.splits option.splits if_splits dest!: reset_poll_state)

lemma reset_event_slots:
  "slot_count (ds_events (ru_state (reset_event accelerator info oid x))) = slot_count (ds_events (ru_state x))"
proof -
  obtain r x1 where settle: "reset_settle accelerator info oid x = (r, x1)"
    by fastforce
  note [simp] = reset_settle_state [OF settle]
  show ?thesis
    unfolding reset_event_def settle
    by (auto simp: reset_event_release_def split: prod.splits sum.splits option.splits release_failure.splits
        dest!: event_release_slots)
qed

lemma round_slots_pair:
  "(c, x') = reset_queue_round accelerator oid x \<Longrightarrow> slot_count (ds_queues (ru_state x')) = slot_count (ds_queues (ru_state x))"
  "(c, x') = reset_program_round accelerator oid x \<Longrightarrow> slot_count (ds_programs (ru_state x')) = slot_count (ds_programs (ru_state x))"
  "(c, x') = reset_buffer_round accelerator oid x \<Longrightarrow> slot_count (ds_buffers (ru_state x')) = slot_count (ds_buffers (ru_state x))"
  "(c, x') = reset_context_round accelerator oid x \<Longrightarrow> slot_count (ds_contexts (ru_state x')) = slot_count (ds_contexts (ru_state x))"
  by (metis round_slots snd_conv)+

section \<open>The loops\<close>

function reset_events ::
  "('c, 'b, 'p, 'q, 'e, 'k, 'w) accelerator \<Rightarrow> device_info \<Rightarrow> nat \<Rightarrow> ('c, 'b, 'p, 'q, 'e, 'w) ru
    \<Rightarrow> ('c, 'b, 'p, 'q, 'e, 'w) ru" where
  "reset_events accelerator info cursor x =
     (case ds_next_event_id (ru_state x) cursor of
        None \<Rightarrow> x
      | Some (next, oid) \<Rightarrow>
          if \<not> pg_backend_callable (ru_progress x) then x
          else reset_events accelerator info next (reset_event accelerator info oid x))"
  by pat_completeness auto
termination
  by (relation "measure (\<lambda>(accelerator, info, cursor, x). slot_count (ds_events (ru_state x)) - cursor)")
    (auto simp: ds_next_event_id_def reset_event_slots dest!: next_id_forward)

function reset_queues ::
  "('c, 'b, 'p, 'q, 'e, 'k, 'w) accelerator \<Rightarrow> nat \<Rightarrow> ('c, 'b, 'p, 'q, 'e, 'w) ru \<Rightarrow> ('c, 'b, 'p, 'q, 'e, 'w) ru" where
  "reset_queues accelerator cursor x =
     (case ds_next_queue_id (ru_state x) cursor of
        None \<Rightarrow> x
      | Some (next, oid) \<Rightarrow>
          case reset_queue_round accelerator oid x of
            (Leave, x') \<Rightarrow> x'
          | (Proceed, x') \<Rightarrow> reset_queues accelerator next x')"
  by pat_completeness auto
termination
  by (relation "measure (\<lambda>(accelerator, cursor, x). slot_count (ds_queues (ru_state x)) - cursor)")
    (auto simp: ds_next_queue_id_def dest!: next_id_forward round_slots_pair(1))

function reset_programs ::
  "('c, 'b, 'p, 'q, 'e, 'k, 'w) accelerator \<Rightarrow> nat \<Rightarrow> ('c, 'b, 'p, 'q, 'e, 'w) ru \<Rightarrow> ('c, 'b, 'p, 'q, 'e, 'w) ru" where
  "reset_programs accelerator cursor x =
     (case ds_next_program_id (ru_state x) cursor of
        None \<Rightarrow> x
      | Some (next, oid) \<Rightarrow>
          case reset_program_round accelerator oid x of
            (Leave, x') \<Rightarrow> x'
          | (Proceed, x') \<Rightarrow> reset_programs accelerator next x')"
  by pat_completeness auto
termination
  by (relation "measure (\<lambda>(accelerator, cursor, x). slot_count (ds_programs (ru_state x)) - cursor)")
    (auto simp: ds_next_program_id_def dest!: next_id_forward round_slots_pair(2))

function reset_buffers ::
  "('c, 'b, 'p, 'q, 'e, 'k, 'w) accelerator \<Rightarrow> nat \<Rightarrow> ('c, 'b, 'p, 'q, 'e, 'w) ru \<Rightarrow> ('c, 'b, 'p, 'q, 'e, 'w) ru" where
  "reset_buffers accelerator cursor x =
     (case ds_next_buffer_id (ru_state x) cursor of
        None \<Rightarrow> x
      | Some (next, oid) \<Rightarrow>
          case reset_buffer_round accelerator oid x of
            (Leave, x') \<Rightarrow> x'
          | (Proceed, x') \<Rightarrow> reset_buffers accelerator next x')"
  by pat_completeness auto
termination
  by (relation "measure (\<lambda>(accelerator, cursor, x). slot_count (ds_buffers (ru_state x)) - cursor)")
    (auto simp: ds_next_buffer_id_def dest!: next_id_forward round_slots_pair(3))

function reset_contexts ::
  "('c, 'b, 'p, 'q, 'e, 'k, 'w) accelerator \<Rightarrow> nat \<Rightarrow> ('c, 'b, 'p, 'q, 'e, 'w) ru \<Rightarrow> ('c, 'b, 'p, 'q, 'e, 'w) ru" where
  "reset_contexts accelerator cursor x =
     (case ds_next_context_id (ru_state x) cursor of
        None \<Rightarrow> x
      | Some (next, oid) \<Rightarrow>
          case reset_context_round accelerator oid x of
            (Leave, x') \<Rightarrow> x'
          | (Proceed, x') \<Rightarrow> reset_contexts accelerator next x')"
  by pat_completeness auto
termination
  by (relation "measure (\<lambda>(accelerator, cursor, x). slot_count (ds_contexts (ru_state x)) - cursor)")
    (auto simp: ds_next_context_id_def dest!: next_id_forward round_slots_pair(4))

declare reset_events.simps [simp del] reset_queues.simps [simp del] reset_programs.simps [simp del]
  reset_buffers.simps [simp del] reset_contexts.simps [simp del]

section \<open>Reset\<close>

definition discard_report :: "('c, 'b, 'p, 'q, 'e, 'k, 'w) cp \<Rightarrow> resource_counts \<Rightarrow> retained_bytes \<Rightarrow> reset_report" where
  "discard_report cp released released_bytes =
     \<lparr>re_disposition = RD_BackendDiscardRequired, re_released = released,
      re_quarantined = resource_counts_saturating_add (cp_quarantined cp) (ds_resource_counts (cp_state cp)),
      re_released_bytes = released_bytes,
      re_quarantined_bytes = retained_bytes_saturating_add (cp_quarantined_bytes cp) (ds_retained (cp_state cp))\<rparr>"

text \<open>The five loops in order, each but the first only while the backend may be called.\<close>

definition reset_pass ::
  "('c, 'b, 'p, 'q, 'e, 'k, 'w) accelerator \<Rightarrow> device_info \<Rightarrow> ('c, 'b, 'p, 'q, 'e, 'w) ru \<Rightarrow> ('c, 'b, 'p, 'q, 'e, 'w) ru" where
  "reset_pass accelerator info x =
     (let callable = (\<lambda>loop y. if pg_backend_callable (ru_progress y) then loop y else y) in
      callable (reset_contexts accelerator 0)
        (callable (reset_buffers accelerator 0)
          (callable (reset_programs accelerator 0)
            (callable (reset_queues accelerator 0) (reset_events accelerator info 0 x)))))"

definition reset ::
  "('c, 'b, 'p, 'q, 'e, 'k, 'w) cp \<Rightarrow> object_namespace \<Rightarrow> 'w
    \<Rightarrow> (reset_error + reset_report) \<times> ('c, 'b, 'p, 'q, 'e, 'k, 'w) cp \<times> 'w" where
  "reset cp namespace w =
     (if cp_health cp = BackendDiscardRequired
      then case cp_last_reset cp of
             Some report \<Rightarrow> (Inr report, cp, w)
           | None \<Rightarrow>
               let report = discard_report cp resource_counts_default retained_bytes_default
               in (Inr report, cp\<lparr>cp_last_reset := Some report\<rparr>, w)
      else if namespace = ds_namespace (cp_state cp) then (Inl RE_NamespaceReuse, cp, w)
      else
        let x = reset_pass (cp_accelerator cp) (cp_info cp)
              \<lparr>ru_state = cp_state cp, ru_world = w, ru_released = resource_counts_default,
               ru_released_bytes = retained_bytes_default, ru_progress = reset_progress_default\<rparr>;
            cp' = cp\<lparr>cp_state := ru_state x, cp_health := NeedsReset, cp_last_reset := None\<rparr>;
            quarantined = resource_counts_saturating_add (cp_quarantined cp) (ds_resource_counts (ru_state x));
            quarantined_bytes = retained_bytes_saturating_add (cp_quarantined_bytes cp) (ds_retained (ru_state x));
            report = (\<lambda>disposition. \<lparr>re_disposition = disposition, re_released = ru_released x,
              re_quarantined = quarantined, re_released_bytes = ru_released_bytes x,
              re_quarantined_bytes = quarantined_bytes\<rparr>)
        in if pg_backend_reusable (ru_progress x) \<and> ds_is_empty (ru_state x)
              \<and> resource_counts_is_empty quarantined \<and> retained_bytes_is_empty quarantined_bytes
           then case device_state_new namespace (di_limits (cp_info cp)) (cp_policy cp) of
                  Inl e \<Rightarrow> (Inl (RE_State e), cp', ru_world x)
                | Inr s \<Rightarrow>
                    (Inr (report RD_BackendReusable), cp'\<lparr>cp_state := s, cp_health := Running\<rparr>, ru_world x)
           else (Inr (report RD_BackendDiscardRequired),
             cp'\<lparr>cp_health := BackendDiscardRequired, cp_last_reset := Some (report RD_BackendDiscardRequired)\<rparr>,
             ru_world x))"

end
