(* ===== verification/Device_Phases.thy ===== *)
theory Device_Phases
  imports Device_Steps
begin

text \<open>
  What each operation of the device state does to the phase of every object, that is whether an
  identifier names nothing, a live object or one whose release has begun. This is the view of the
  state that the command engine keeps invariant: between two commands no release is in progress.
\<close>

section \<open>The phase of every object\<close>

definition table_phase :: "('v \<Rightarrow> 'r resource_slot) \<Rightarrow> 'v object_table \<Rightarrow> object_id \<rightharpoonup> release_state" where
  "table_phase slot_of t = (\<lambda>x. map_option (\<lambda>v. rs_release (slot_of v)) (table_lookup t x))"

fun phase :: "('c, 'b, 'p, 'q, 'e) ds \<Rightarrow> object_kind \<Rightarrow> object_id \<rightharpoonup> release_state" where
  "phase s OK_Context = table_phase cx_resource (ds_contexts s)"
| "phase s OK_Buffer = table_phase bu_resource (ds_buffers s)"
| "phase s OK_Program = table_phase pr_resource (ds_programs s)"
| "phase s OK_Queue = table_phase qu_resource (ds_queues s)"
| "phase s OK_Event = table_phase ev_resource (ds_events s)"

definition set_phase ::
  "object_kind \<Rightarrow> object_id \<Rightarrow> release_state option \<Rightarrow> (object_kind \<Rightarrow> object_id \<rightharpoonup> release_state)
    \<Rightarrow> object_kind \<Rightarrow> object_id \<rightharpoonup> release_state" where
  "set_phase kind x p ph = ph(kind := (ph kind)(x := p))"

definition settled :: "('c, 'b, 'p, 'q, 'e) ds \<Rightarrow> bool" where
  "settled s \<longleftrightarrow> (\<forall>kind x. phase s kind x \<noteq> Some Releasing)"

lemma phase_eqI:
  assumes "table_phase cx_resource (ds_contexts s') = table_phase cx_resource (ds_contexts s)"
    "table_phase bu_resource (ds_buffers s') = table_phase bu_resource (ds_buffers s)"
    "table_phase pr_resource (ds_programs s') = table_phase pr_resource (ds_programs s)"
    "table_phase qu_resource (ds_queues s') = table_phase qu_resource (ds_queues s)"
    "table_phase ev_resource (ds_events s') = table_phase ev_resource (ds_events s)"
  shows "phase s' = phase s"
proof
  fix kind
  show "phase s' kind = phase s kind"
    using assms by (cases kind) simp_all
qed

lemma set_phase_eqI:
  assumes "phase s' kind = (phase s kind)(x := p)" "\<And>k. k \<noteq> kind \<Longrightarrow> phase s' k = phase s k"
  shows "phase s' = set_phase kind x p (phase s)"
  using assms by (auto simp: set_phase_def fun_eq_iff)

lemma set_phase_twice [simp]: "set_phase kind x p (set_phase kind x p' ph) = set_phase kind x p ph"
  by (simp add: set_phase_def)

lemma settled_set_phase:
  assumes "settled s" "phase s' = set_phase kind x p (phase s)" "p \<noteq> Some Releasing"
  shows "settled s'"
  using assms by (auto simp: settled_def set_phase_def)

lemma settled_same: "settled s \<Longrightarrow> phase s' = phase s \<Longrightarrow> settled s'"
  by (simp add: settled_def)

lemma phase_update:
  "table_lookup t' = (table_lookup t)(x \<mapsto> v) \<Longrightarrow>
     table_phase slot_of t' = (table_phase slot_of t)(x \<mapsto> rs_release (slot_of v))"
  "table_lookup t' = (table_lookup t)(x := None) \<Longrightarrow> table_phase slot_of t' = (table_phase slot_of t)(x := None)"
  by (auto simp: table_phase_def fun_eq_iff)

lemma phase_update_same:
  assumes "table_lookup t' = (table_lookup t)(x \<mapsto> v')" "table_lookup t x = Some v" "slot_of v' = slot_of v"
  shows "table_phase slot_of t' = table_phase slot_of t"
  using assms by (auto simp: table_phase_def fun_eq_iff)

lemma modify_each_phase:
  assumes "table_wf t" "\<And>v. slot_of (f v) = slot_of v" "modify_each f oids t = (r, t')"
  shows "table_wf t' \<and> table_phase slot_of t' = table_phase slot_of t"
  using assms
proof (induction f oids t arbitrary: r t' rule: modify_each.induct)
  case (2 f oid oids t)
  show ?case
  proof (cases "table_get_mut t oid")
    case (Inl e)
    with 2(2-4) show ?thesis
      by (auto simp: table_modify_def)
  next
    case (Inr x)
    obtain v assign where x: "x = (v, assign)"
      by fastforce
    note M = get_mut_law [OF 2(2) Inr [unfolded x], of "f v"]
    have mod: "table_modify t oid f = Inr (assign (f v))"
      by (simp add: table_modify_def Inr x)
    have "table_phase slot_of (assign (f v)) = table_phase slot_of t"
      by (rule phase_update_same [OF M(2) get_mut_lookup [OF Inr [unfolded x]]]) (rule 2(3))
    with 2(1) [OF mod M(1) 2(3)] 2(4) mod show ?thesis
      by simp
  qed
qed simp

lemma adjust_references_phase:
  assumes "table_wf (ds_queues s)" "table_wf (ds_programs s)" "table_wf (ds_buffers s)" "table_wf (ds_contexts s)"
    and "adjust_references f context_id queue_id program_ids buffer_ids s = (r, s')"
  shows "phase s' = phase s \<and> ds_retained s' = ds_retained s"
proof -
  obtain rq Q rp P rb B rc C where m: "modify_each (qu_in_flight_update f) [queue_id] (ds_queues s) = (rq, Q)"
      "modify_each (pr_in_flight_update f) program_ids (ds_programs s) = (rp, P)"
      "modify_each (bu_in_flight_update f) buffer_ids (ds_buffers s) = (rb, B)"
      "modify_each (cx_children_update (ch_events_update f)) [context_id] (ds_contexts s) = (rc, C)"
    by (meson surj_pair)
  note ph = modify_each_phase [OF assms(1) _ m(1), of qu_resource] modify_each_phase [OF assms(2) _ m(2), of pr_resource]
    modify_each_phase [OF assms(3) _ m(3), of bu_resource] modify_each_phase [OF assms(4) _ m(4), of cx_resource]
  show ?thesis
    using assms(5) ph unfolding adjust_references_def m
    by (auto split: sum.splits intro!: phase_eqI)
qed

lemma forget_child_phase:
  assumes "table_wf (ds_contexts s)" "forget_child f context_id s = (r, s')"
  shows "phase s' = phase s \<and> ds_retained s' = ds_retained s"
proof -
  obtain C where C: "modify_each (cx_children_update f) [context_id] (ds_contexts s) = (r, C)" "s' = s\<lparr>ds_contexts := C\<rparr>"
    using assms(2) by (auto simp: forget_child_def apsnd_def map_prod_def split: prod.splits)
  then show ?thesis
    using modify_each_phase [OF assms(1) _ C(1), of cx_resource] by (auto intro!: phase_eqI)
qed

section \<open>Beginning, restoring and committing a release\<close>

text \<open>One kind of object: where the protocol moves its phase, and what else of the state it touches.\<close>

definition buffer_charge :: "('c, 'b, 'p, 'q, 'e) ds \<Rightarrow> object_kind \<Rightarrow> object_id \<Rightarrow> nat" where
  "buffer_charge s kind oid = (if kind = OK_Buffer
     then case_option 0 (\<lambda>v. unat (bi_allocation_bytes (bu_info v))) (buffers_of s oid) else 0)"

definition program_charge :: "('c, 'b, 'p, 'q, 'e) ds \<Rightarrow> object_kind \<Rightarrow> object_id \<Rightarrow> nat" where
  "program_charge s kind oid = (if kind = OK_Program
     then case_option 0 (\<lambda>v. unat (pr_resident_bytes v)) (programs_of s oid) else 0)"

definition begins ::
  "object_kind \<Rightarrow> object_id \<Rightarrow> ('c, 'b, 'p, 'q, 'e) ds \<Rightarrow> ('c, 'b, 'p, 'q, 'e) ds \<Rightarrow> bool" where
  "begins kind oid s s' \<longleftrightarrow> phase s' = set_phase kind oid (Some Releasing) (phase s)
     \<and> phase s kind oid = Some Live \<and> ds_retained s' = ds_retained s
     \<and> buffer_charge s' kind oid = buffer_charge s kind oid
     \<and> program_charge s' kind oid = program_charge s kind oid"

definition restores ::
  "object_kind \<Rightarrow> object_id \<Rightarrow> ('c, 'b, 'p, 'q, 'e) ds \<Rightarrow> ('c, 'b, 'p, 'q, 'e) ds \<Rightarrow> bool" where
  "restores kind oid s s' \<longleftrightarrow> phase s' = set_phase kind oid (Some Live) (phase s) \<and> ds_retained s' = ds_retained s"

definition commits ::
  "object_kind \<Rightarrow> object_id \<Rightarrow> ('c, 'b, 'p, 'q, 'e) ds \<Rightarrow> ('c, 'b, 'p, 'q, 'e) ds \<Rightarrow> bool" where
  "commits kind oid s s' \<longleftrightarrow> phase s' = set_phase kind oid None (phase s)
     \<and> unat (rt_buffer_backing (ds_retained s')) + buffer_charge s kind oid = unat (rt_buffer_backing (ds_retained s))
     \<and> unat (rt_program_resident (ds_retained s')) + program_charge s kind oid = unat (rt_program_resident (ds_retained s))"

context releasable
begin

lemma begin_phase:
  assumes "table_wf t" "begin_resource_release slot_of slot_update busy t oid = (Inr h, t')"
  shows "table_phase slot_of t' = (table_phase slot_of t)(oid \<mapsto> Releasing)" "table_phase slot_of t oid = Some Live"
  using begin_resource_release_law [OF assms] phase_update(1) [of t' t oid _ slot_of]
  by (auto simp: slot_get table_phase_def)

lemma restore_phase:
  assumes "table_wf t" "restore_resource slot_of slot_update t oid h = (Inr (), t')"
  shows "table_phase slot_of t' = (table_phase slot_of t)(oid \<mapsto> Live)"
  using restore_resource_law [OF assms] phase_update(1) [of t' t oid _ slot_of] by (auto simp: slot_get)

text \<open>An object whose release has begun can always be restored, with whatever handle the provider returns.\<close>

lemma restore_succeeds:
  assumes "table_wf t" "table_phase slot_of t oid = Some Releasing"
    and "\<And>x v. table_lookup t x = Some v \<Longrightarrow> slot_ok (slot_of v)"
  obtains t' where "restore_resource slot_of slot_update t oid h = (Inr (), t')"
proof -
  obtain v where v: "table_lookup t oid = Some v" "rs_release (slot_of v) = Releasing"
    using assms(2) by (auto simp: table_phase_def)
  then have "rs_resource (slot_of v) = None"
    using assms(3) [OF v(1)] by (simp add: slot_ok_def)
  moreover obtain assign where "table_get_mut t oid = Inr (v, assign)"
    using get_mut_Some [OF v(1)] .
  ultimately show thesis
    using v that by (simp add: restore_resource_def resource_slot_restore_def)
qed

end

section \<open>The release protocol of the state\<close>

text \<open>
  What the engine relies on when it releases an object of one kind: a refused \<open>begin\<close> changes
  nothing, a release that began can be undone with any handle and can be committed, and each step
  moves the phase of that object only.
\<close>

locale release_protocol =
  fixes kind :: object_kind
    and begin_release :: "('c, 'b, 'p, 'q, 'e) ds \<Rightarrow> object_id \<Rightarrow> (device_state_error + 'r) \<times> ('c, 'b, 'p, 'q, 'e) ds"
    and restore_release :: "('c, 'b, 'p, 'q, 'e) ds \<Rightarrow> object_id \<Rightarrow> 'r
      \<Rightarrow> ((device_state_error \<times> 'r) + unit) \<times> ('c, 'b, 'p, 'q, 'e) ds"
    and commit_release :: "('c, 'b, 'p, 'q, 'e) ds \<Rightarrow> object_id \<Rightarrow> (device_state_error + unit) \<times> ('c, 'b, 'p, 'q, 'e) ds"
  assumes begin_refused: "state_inv s \<Longrightarrow> begin_release s oid = (Inl e, s') \<Longrightarrow> s' = s"
    and begin_ok: "state_inv s \<Longrightarrow> begin_release s oid = (Inr h, s') \<Longrightarrow>
      state_inv s' \<and> state_advances s s' \<and> begins kind oid s s'"
    and restore_ok: "state_inv s \<Longrightarrow> phase s kind oid = Some Releasing \<Longrightarrow>
      \<exists>s'. restore_release s oid h = (Inr (), s') \<and> state_inv s' \<and> state_advances s s' \<and> restores kind oid s s'"
    and commit_ok: "state_inv s \<Longrightarrow> phase s kind oid = Some Releasing \<Longrightarrow>
      \<exists>s'. commit_release s oid = (Inr (), s') \<and> state_inv s' \<and> state_advances s s' \<and> commits kind oid s s'"
begin

lemma begun:
  assumes "state_inv s" "begin_release s oid = (Inr h, s1)"
  shows "state_inv s1" "state_advances s s1" "phase s1 kind oid = Some Releasing"
    "\<exists>s2. restore_release s1 oid h' = (Inr (), s2) \<and> state_inv s2 \<and> state_advances s s2
       \<and> phase s2 = phase s \<and> ds_retained s2 = ds_retained s"
    "\<exists>s3. commit_release s1 oid = (Inr (), s3) \<and> state_inv s3 \<and> state_advances s s3 \<and> commits kind oid s s3"
proof -
  note B = begin_ok [OF assms]
  then show inv: "state_inv s1" and adv: "state_advances s s1" and ph: "phase s1 kind oid = Some Releasing"
    by (auto simp: begins_def set_phase_def)
  obtain s2 where s2: "restore_release s1 oid h' = (Inr (), s2)" "state_inv s2" "state_advances s1 s2"
      "restores kind oid s1 s2"
    using restore_ok [OF inv ph] by blast
  moreover have "set_phase kind oid (Some Live) (phase s) = phase s"
    using B by (auto simp: begins_def set_phase_def fun_eq_iff)
  ultimately show "\<exists>s2. restore_release s1 oid h' = (Inr (), s2) \<and> state_inv s2 \<and> state_advances s s2
       \<and> phase s2 = phase s \<and> ds_retained s2 = ds_retained s"
    using B state_advances_trans [OF adv s2(3)] by (intro exI [of _ s2]) (simp add: begins_def restores_def)
  obtain s3 where s3: "commit_release s1 oid = (Inr (), s3)" "state_inv s3" "state_advances s1 s3" "commits kind oid s1 s3"
    using commit_ok [OF inv ph] by blast
  then show "\<exists>s3. commit_release s1 oid = (Inr (), s3) \<and> state_inv s3 \<and> state_advances s s3 \<and> commits kind oid s s3"
    using B state_advances_trans [OF adv s3(3)] by (intro exI [of _ s3]) (simp add: begins_def commits_def)
qed

end

lemma context_phase_releasing:
  "phase s OK_Context oid = Some Releasing \<longleftrightarrow> (\<exists>v. contexts_of s oid = Some v \<and> rs_release (cx_resource v) = Releasing)"
  by (auto simp: table_phase_def)

lemma begin_context_phase:
  assumes inv: "state_inv s" and run: "begin_context_release s oid = (Inr h, s')"
  shows "begins OK_Context oid s s'"
proof -
  obtain busy t where t: "begin_resource_release cx_resource cx_resource_update busy (ds_contexts s) oid = (Inr h, t)"
      "s' = s\<lparr>ds_contexts := t\<rparr>"
    using run by (auto simp: begin_context_release_def apsnd_def map_prod_def split: prod.splits)
  note ph = cxr.begin_phase [OF state_invD(1) [OF inv] t(1)]
  have "phase s' = set_phase OK_Context oid (Some Releasing) (phase s)"
  proof (rule set_phase_eqI)
    show "phase s' k = phase s k" if "k \<noteq> OK_Context" for k
      using that by (cases k) (simp_all add: t(2))
  qed (use ph(1) in \<open>simp add: t(2)\<close>)
  then show ?thesis
    using ph(2) by (simp add: begins_def t(2) buffer_charge_def program_charge_def)
qed

lemma restore_context_phase:
  assumes inv: "state_inv s" and ph: "phase s OK_Context oid = Some Releasing"
  shows "\<exists>s'. restore_context_release s oid h = (Inr (), s') \<and> state_inv s' \<and> state_advances s s' \<and> restores OK_Context oid s s'"
proof -
  note wf = state_invD(1) [OF inv]
  obtain t where t: "restore_resource cx_resource cx_resource_update (ds_contexts s) oid h = (Inr (), t)"
    using cxr.restore_succeeds [OF wf] ph record_slots_ok(1) [OF inv] by auto
  let ?s = "s\<lparr>ds_contexts := t\<rparr>"
  have run: "restore_context_release s oid h = (Inr (), ?s)"
    using t by (simp add: restore_context_release_def)
  have "phase ?s = set_phase OK_Context oid (Some Live) (phase s)"
  proof (rule set_phase_eqI)
    show "phase ?s k = phase s k" if "k \<noteq> OK_Context" for k
      using that by (cases k) simp_all
  qed (use cxr.restore_phase [OF wf t] in simp)
  then show ?thesis
    using run restore_context_release_inv [OF inv run] by (simp add: restores_def)
qed

lemma buffer_phase_releasing:
  "phase s OK_Buffer oid = Some Releasing \<longleftrightarrow> (\<exists>v. buffers_of s oid = Some v \<and> rs_release (bu_resource v) = Releasing)"
  by (auto simp: table_phase_def)

lemma begin_buffer_phase:
  assumes inv: "state_inv s" and run: "begin_buffer_release s oid = (Inr h, s')"
  shows "begins OK_Buffer oid s s'"
proof -
  obtain busy t where t: "begin_resource_release bu_resource bu_resource_update busy (ds_buffers s) oid = (Inr h, t)"
      "s' = s\<lparr>ds_buffers := t\<rparr>"
    using run by (auto simp: begin_buffer_release_def apsnd_def map_prod_def split: prod.splits)
  note ph = bur.begin_phase [OF state_invD(2) [OF inv] t(1)]
  have "phase s' = set_phase OK_Buffer oid (Some Releasing) (phase s)"
  proof (rule set_phase_eqI)
    show "phase s' k = phase s k" if "k \<noteq> OK_Buffer" for k
      using that by (cases k) (simp_all add: t(2))
  qed (use ph(1) in \<open>simp add: t(2)\<close>)
  moreover have "buffer_charge s' OK_Buffer oid = buffer_charge s OK_Buffer oid"
    using begin_resource_release_law [OF state_invD(2) [OF inv] t(1)] by (auto simp: buffer_charge_def t(2))
  ultimately show ?thesis
    using ph(2) by (simp add: begins_def t(2) program_charge_def)
qed

lemma restore_buffer_phase:
  assumes inv: "state_inv s" and ph: "phase s OK_Buffer oid = Some Releasing"
  shows "\<exists>s'. restore_buffer_release s oid h = (Inr (), s') \<and> state_inv s' \<and> state_advances s s' \<and> restores OK_Buffer oid s s'"
proof -
  note wf = state_invD(2) [OF inv]
  obtain t where t: "restore_resource bu_resource bu_resource_update (ds_buffers s) oid h = (Inr (), t)"
    using bur.restore_succeeds [OF wf] ph record_slots_ok(2) [OF inv] by auto
  let ?s = "s\<lparr>ds_buffers := t\<rparr>"
  have run: "restore_buffer_release s oid h = (Inr (), ?s)"
    using t by (simp add: restore_buffer_release_def)
  have "phase ?s = set_phase OK_Buffer oid (Some Live) (phase s)"
  proof (rule set_phase_eqI)
    show "phase ?s k = phase s k" if "k \<noteq> OK_Buffer" for k
      using that by (cases k) simp_all
  qed (use bur.restore_phase [OF wf t] in simp)
  then show ?thesis
    using run restore_buffer_release_inv [OF inv run] by (simp add: restores_def)
qed

lemma program_phase_releasing:
  "phase s OK_Program oid = Some Releasing \<longleftrightarrow> (\<exists>v. programs_of s oid = Some v \<and> rs_release (pr_resource v) = Releasing)"
  by (auto simp: table_phase_def)

lemma begin_program_phase:
  assumes inv: "state_inv s" and run: "begin_program_release s oid = (Inr h, s')"
  shows "begins OK_Program oid s s'"
proof -
  obtain busy t where t: "begin_resource_release pr_resource pr_resource_update busy (ds_programs s) oid = (Inr h, t)"
      "s' = s\<lparr>ds_programs := t\<rparr>"
    using run by (auto simp: begin_program_release_def apsnd_def map_prod_def split: prod.splits)
  note ph = prr.begin_phase [OF state_invD(3) [OF inv] t(1)]
  have "phase s' = set_phase OK_Program oid (Some Releasing) (phase s)"
  proof (rule set_phase_eqI)
    show "phase s' k = phase s k" if "k \<noteq> OK_Program" for k
      using that by (cases k) (simp_all add: t(2))
  qed (use ph(1) in \<open>simp add: t(2)\<close>)
  moreover have "program_charge s' OK_Program oid = program_charge s OK_Program oid"
    using begin_resource_release_law [OF state_invD(3) [OF inv] t(1)] by (auto simp: program_charge_def t(2))
  ultimately show ?thesis
    using ph(2) by (simp add: begins_def t(2) buffer_charge_def)
qed

lemma restore_program_phase:
  assumes inv: "state_inv s" and ph: "phase s OK_Program oid = Some Releasing"
  shows "\<exists>s'. restore_program_release s oid h = (Inr (), s') \<and> state_inv s' \<and> state_advances s s' \<and> restores OK_Program oid s s'"
proof -
  note wf = state_invD(3) [OF inv]
  obtain t where t: "restore_resource pr_resource pr_resource_update (ds_programs s) oid h = (Inr (), t)"
    using prr.restore_succeeds [OF wf] ph record_slots_ok(3) [OF inv] by auto
  let ?s = "s\<lparr>ds_programs := t\<rparr>"
  have run: "restore_program_release s oid h = (Inr (), ?s)"
    using t by (simp add: restore_program_release_def)
  have "phase ?s = set_phase OK_Program oid (Some Live) (phase s)"
  proof (rule set_phase_eqI)
    show "phase ?s k = phase s k" if "k \<noteq> OK_Program" for k
      using that by (cases k) simp_all
  qed (use prr.restore_phase [OF wf t] in simp)
  then show ?thesis
    using run restore_program_release_inv [OF inv run] by (simp add: restores_def)
qed

lemma queue_phase_releasing:
  "phase s OK_Queue oid = Some Releasing \<longleftrightarrow> (\<exists>v. queues_of s oid = Some v \<and> rs_release (qu_resource v) = Releasing)"
  by (auto simp: table_phase_def)

lemma begin_queue_phase:
  assumes inv: "state_inv s" and run: "begin_queue_release s oid = (Inr h, s')"
  shows "begins OK_Queue oid s s'"
proof -
  obtain busy t where t: "begin_resource_release qu_resource qu_resource_update busy (ds_queues s) oid = (Inr h, t)"
      "s' = s\<lparr>ds_queues := t\<rparr>"
    using run by (auto simp: begin_queue_release_def apsnd_def map_prod_def split: prod.splits)
  note ph = qur.begin_phase [OF state_invD(4) [OF inv] t(1)]
  have "phase s' = set_phase OK_Queue oid (Some Releasing) (phase s)"
  proof (rule set_phase_eqI)
    show "phase s' k = phase s k" if "k \<noteq> OK_Queue" for k
      using that by (cases k) (simp_all add: t(2))
  qed (use ph(1) in \<open>simp add: t(2)\<close>)
  then show ?thesis
    using ph(2) by (simp add: begins_def t(2) buffer_charge_def program_charge_def)
qed

lemma restore_queue_phase:
  assumes inv: "state_inv s" and ph: "phase s OK_Queue oid = Some Releasing"
  shows "\<exists>s'. restore_queue_release s oid h = (Inr (), s') \<and> state_inv s' \<and> state_advances s s' \<and> restores OK_Queue oid s s'"
proof -
  note wf = state_invD(4) [OF inv]
  obtain t where t: "restore_resource qu_resource qu_resource_update (ds_queues s) oid h = (Inr (), t)"
    using qur.restore_succeeds [OF wf] ph record_slots_ok(4) [OF inv] by auto
  let ?s = "s\<lparr>ds_queues := t\<rparr>"
  have run: "restore_queue_release s oid h = (Inr (), ?s)"
    using t by (simp add: restore_queue_release_def)
  have "phase ?s = set_phase OK_Queue oid (Some Live) (phase s)"
  proof (rule set_phase_eqI)
    show "phase ?s k = phase s k" if "k \<noteq> OK_Queue" for k
      using that by (cases k) simp_all
  qed (use qur.restore_phase [OF wf t] in simp)
  then show ?thesis
    using run restore_queue_release_inv [OF inv run] by (simp add: restores_def)
qed

lemma event_phase_releasing:
  "phase s OK_Event oid = Some Releasing \<longleftrightarrow> (\<exists>v. events_of s oid = Some v \<and> rs_release (ev_resource v) = Releasing)"
  by (auto simp: table_phase_def)

lemma begin_event_phase:
  assumes inv: "state_inv s" and run: "begin_event_release s oid = (Inr h, s')"
  shows "begins OK_Event oid s s'"
proof -
  obtain busy t where t: "begin_resource_release ev_resource ev_resource_update busy (ds_events s) oid = (Inr h, t)"
      "s' = s\<lparr>ds_events := t\<rparr>"
    using run by (auto simp: begin_event_release_def apsnd_def map_prod_def split: prod.splits)
  note ph = evr.begin_phase [OF state_invD(5) [OF inv] t(1)]
  have "phase s' = set_phase OK_Event oid (Some Releasing) (phase s)"
  proof (rule set_phase_eqI)
    show "phase s' k = phase s k" if "k \<noteq> OK_Event" for k
      using that by (cases k) (simp_all add: t(2))
  qed (use ph(1) in \<open>simp add: t(2)\<close>)
  then show ?thesis
    using ph(2) by (simp add: begins_def t(2) buffer_charge_def program_charge_def)
qed

lemma restore_event_phase:
  assumes inv: "state_inv s" and ph: "phase s OK_Event oid = Some Releasing"
  shows "\<exists>s'. restore_event_release s oid h = (Inr (), s') \<and> state_inv s' \<and> state_advances s s' \<and> restores OK_Event oid s s'"
proof -
  note wf = state_invD(5) [OF inv]
  obtain t where t: "restore_resource ev_resource ev_resource_update (ds_events s) oid h = (Inr (), t)"
    using evr.restore_succeeds [OF wf] ph record_slots_ok(5) [OF inv] by auto
  let ?s = "s\<lparr>ds_events := t\<rparr>"
  have run: "restore_event_release s oid h = (Inr (), ?s)"
    using t by (simp add: restore_event_release_def)
  have "phase ?s = set_phase OK_Event oid (Some Live) (phase s)"
  proof (rule set_phase_eqI)
    show "phase ?s k = phase s k" if "k \<noteq> OK_Event" for k
      using that by (cases k) simp_all
  qed (use evr.restore_phase [OF wf t] in simp)
  then show ?thesis
    using run restore_event_release_inv [OF inv run] by (simp add: restores_def)
qed

lemma set_phase_removed:
  assumes "\<And>k. k \<noteq> kind \<Longrightarrow> phase s' k = phase s k" "phase s' kind = (phase s kind)(oid := None)"
    "unat (rt_buffer_backing (ds_retained s')) + buffer_charge s kind oid = unat (rt_buffer_backing (ds_retained s))"
    "unat (rt_program_resident (ds_retained s')) + program_charge s kind oid = unat (rt_program_resident (ds_retained s))"
  shows "commits kind oid s s'"
  using set_phase_eqI [OF assms(2,1)] assms(3,4) by (simp add: commits_def)

lemma commit_context_phase:
  assumes inv: "state_inv s" and ph: "phase s OK_Context oid = Some Releasing"
  shows "\<exists>s'. commit_context_release s oid = (Inr (), s') \<and> state_inv s' \<and> state_advances s s' \<and> commits OK_Context oid s s'"
proof -
  obtain v where v: "contexts_of s oid = Some v" "rs_release (cx_resource v) = Releasing"
    using ph unfolding context_phase_releasing by blast
  obtain t where t: "table_remove (ds_contexts s) oid = (Inr v, t)" "table_lookup t = (contexts_of s)(oid := None)"
    using remove_law [OF state_invD(1) [OF inv] v(1)] by blast
  let ?s = "s\<lparr>ds_contexts := t\<rparr>"
  have run: "commit_context_release s oid = (Inr (), ?s)"
    using v t(1) by (simp add: record_lookup commit_context_release_def ensure_releasing_def)
  have "commits OK_Context oid s ?s"
  proof (rule set_phase_removed)
    show "phase ?s k = phase s k" if "k \<noteq> OK_Context" for k
      using that by (cases k) simp_all
  qed (use phase_update(2) [OF t(2)] in \<open>simp_all add: buffer_charge_def program_charge_def\<close>)
  then show ?thesis
    using run commit_context_release_inv [OF inv run] by simp
qed

lemma backing_dropped:
  assumes "state_inv s" "buffers_of s oid = Some v"
  shows "unat (rt_buffer_backing (ds_retained s) - ucast (bi_allocation_bytes (bu_info v)))
    + unat (bi_allocation_bytes (bu_info v)) = unat (rt_buffer_backing (ds_retained s))"
proof -
  note D = state_invD [OF assms(1)]
  have "finite (dom (buffers_of s))"
    using tbl.count_lookups [OF D(2)] by simp
  from charge_dropped [OF this assms(2), of "rt_buffer_backing (ds_retained s)" "\<lambda>b. bi_allocation_bytes (bu_info b)"]
    msum_remove [OF this assms(2), of "\<lambda>_ b. unat (bi_allocation_bytes (bu_info b))"]
  show ?thesis
    using D(7) by (simp add: charges_ok_def)
qed

lemma resident_dropped:
  assumes "state_inv s" "programs_of s oid = Some v"
  shows "unat (rt_program_resident (ds_retained s) - ucast (pr_resident_bytes v)) + unat (pr_resident_bytes v)
    = unat (rt_program_resident (ds_retained s))"
proof -
  note D = state_invD [OF assms(1)]
  have "finite (dom (programs_of s))"
    using tbl.count_lookups [OF D(3)] by simp
  from charge_dropped [OF this assms(2), of "rt_program_resident (ds_retained s)" pr_resident_bytes]
    msum_remove [OF this assms(2), of "\<lambda>_ p. unat (pr_resident_bytes p)"]
  show ?thesis
    using D(7) by (simp add: charges_ok_def)
qed

lemma commit_buffer_phase:
  assumes inv: "state_inv s" and ph: "phase s OK_Buffer oid = Some Releasing"
  shows "\<exists>s'. commit_buffer_release s oid = (Inr (), s') \<and> state_inv s' \<and> state_advances s s' \<and> commits OK_Buffer oid s s'"
proof -
  obtain v where v: "buffers_of s oid = Some v" "rs_release (bu_resource v) = Releasing"
    using ph unfolding buffer_phase_releasing by blast
  obtain t where t: "table_remove (ds_buffers s) oid = (Inr v, t)" "table_lookup t = (buffers_of s)(oid := None)"
    using remove_law [OF state_invD(2) [OF inv] v(1)] by blast
  obtain s' where s': "commit_buffer_release s oid = (Inr (), s')" "state_inv s'" "state_advances s s'"
    using commit_buffer_release_ok [OF inv v] by blast
  let ?s1 = "s\<lparr>ds_buffers := t, ds_retained := (ds_retained s)\<lparr>rt_buffer_backing :=
    rt_buffer_backing (ds_retained s) - ucast (bi_allocation_bytes (bu_info v))\<rparr>\<rparr>"
  have "forget_child (ch_buffers_update (\<lambda>n. n - 1)) (bu_context_id v) ?s1 = (Inr (), s')"
    using s'(1) v t(1) by (simp add: record_lookup commit_buffer_release_def ensure_releasing_def)
  from forget_child_phase [OF _ this] have same: "phase s' = phase ?s1" "ds_retained s' = ds_retained ?s1"
    using state_invD(1) [OF inv] by auto
  have "commits OK_Buffer oid s s'"
  proof (rule set_phase_removed)
    show "phase s' k = phase s k" if "k \<noteq> OK_Buffer" for k
      using that by (cases k) (simp_all add: same)
  qed (use phase_update(2) [OF t(2)] backing_dropped [OF inv v(1)] in \<open>simp_all add: same buffer_charge_def program_charge_def v(1)\<close>)
  then show ?thesis
    using s' by blast
qed

lemma commit_program_phase:
  assumes inv: "state_inv s" and ph: "phase s OK_Program oid = Some Releasing"
  shows "\<exists>s'. commit_program_release s oid = (Inr (), s') \<and> state_inv s' \<and> state_advances s s' \<and> commits OK_Program oid s s'"
proof -
  obtain v where v: "programs_of s oid = Some v" "rs_release (pr_resource v) = Releasing"
    using ph unfolding program_phase_releasing by blast
  obtain t where t: "table_remove (ds_programs s) oid = (Inr v, t)" "table_lookup t = (programs_of s)(oid := None)"
    using remove_law [OF state_invD(3) [OF inv] v(1)] by blast
  obtain s' where s': "commit_program_release s oid = (Inr (), s')" "state_inv s'" "state_advances s s'"
    using commit_program_release_ok [OF inv v] by blast
  let ?s1 = "s\<lparr>ds_programs := t, ds_retained := (ds_retained s)\<lparr>rt_program_resident :=
    rt_program_resident (ds_retained s) - ucast (pr_resident_bytes v)\<rparr>\<rparr>"
  have "forget_child (ch_programs_update (\<lambda>n. n - 1)) (pr_context_id v) ?s1 = (Inr (), s')"
    using s'(1) v t(1) by (simp add: record_lookup commit_program_release_def ensure_releasing_def)
  from forget_child_phase [OF _ this] have same: "phase s' = phase ?s1" "ds_retained s' = ds_retained ?s1"
    using state_invD(1) [OF inv] by auto
  have "commits OK_Program oid s s'"
  proof (rule set_phase_removed)
    show "phase s' k = phase s k" if "k \<noteq> OK_Program" for k
      using that by (cases k) (simp_all add: same)
  qed (use phase_update(2) [OF t(2)] resident_dropped [OF inv v(1)] in \<open>simp_all add: same buffer_charge_def program_charge_def v(1)\<close>)
  then show ?thesis
    using s' by blast
qed

lemma commit_queue_phase:
  assumes inv: "state_inv s" and ph: "phase s OK_Queue oid = Some Releasing"
  shows "\<exists>s'. commit_queue_release s oid = (Inr (), s') \<and> state_inv s' \<and> state_advances s s' \<and> commits OK_Queue oid s s'"
proof -
  obtain v where v: "queues_of s oid = Some v" "rs_release (qu_resource v) = Releasing"
    using ph unfolding queue_phase_releasing by blast
  obtain t where t: "table_remove (ds_queues s) oid = (Inr v, t)" "table_lookup t = (queues_of s)(oid := None)"
    using remove_law [OF state_invD(4) [OF inv] v(1)] by blast
  obtain s' where s': "commit_queue_release s oid = (Inr (), s')" "state_inv s'" "state_advances s s'"
    using commit_queue_release_ok [OF inv v] by blast
  let ?s1 = "s\<lparr>ds_queues := t\<rparr>"
  have "forget_child (ch_queues_update (\<lambda>n. n - 1)) (qu_context_id v) ?s1 = (Inr (), s')"
    using s'(1) v t(1) by (simp add: record_lookup commit_queue_release_def ensure_releasing_def)
  from forget_child_phase [OF _ this] have same: "phase s' = phase ?s1" "ds_retained s' = ds_retained ?s1"
    using state_invD(1) [OF inv] by auto
  have "commits OK_Queue oid s s'"
  proof (rule set_phase_removed)
    show "phase s' k = phase s k" if "k \<noteq> OK_Queue" for k
      using that by (cases k) (simp_all add: same)
  qed (use phase_update(2) [OF t(2)] in \<open>simp_all add: same buffer_charge_def program_charge_def v(1)\<close>)
  then show ?thesis
    using s' by blast
qed

lemma commit_event_phase:
  assumes inv: "state_inv s" and ph: "phase s OK_Event oid = Some Releasing"
  shows "\<exists>s'. commit_event_release s oid = (Inr (), s') \<and> state_inv s' \<and> state_advances s s' \<and> commits OK_Event oid s s'"
proof -
  note D = state_invD [OF inv]
  obtain v where v: "events_of s oid = Some v" "rs_release (ev_resource v) = Releasing"
    using ph unfolding event_phase_releasing by blast
  obtain t where t: "table_remove (ds_events s) oid = (Inr v, t)" "table_lookup t = (events_of s)(oid := None)"
    using remove_law [OF D(5) v(1)] by blast
  obtain s' where s': "commit_event_release s oid = (Inr (), s')" "state_inv s'" "state_advances s s'"
    using commit_event_release_ok [OF inv v] by blast
  let ?s1 = "s\<lparr>ds_events := t\<rparr>"
  have "decrement_event_references (ev_context_id v) (ev_queue_id v) (event_program_ids v) (ev_buffer_ids v) ?s1
      = (Inr (), s')"
    using s'(1) v t(1) unfolding commit_event_release_def
    by (auto simp: record_lookup ensure_releasing_def split: sum.splits)
  from adjust_references_phase [OF _ _ _ _ this [unfolded decrement_event_references_def]]
  have same: "phase s' = phase ?s1" "ds_retained s' = ds_retained ?s1"
    using D by auto
  have "commits OK_Event oid s s'"
  proof (rule set_phase_removed)
    show "phase s' k = phase s k" if "k \<noteq> OK_Event" for k
      using that by (cases k) (simp_all add: same)
  qed (use phase_update(2) [OF t(2)] in \<open>simp_all add: same buffer_charge_def program_charge_def v(1)\<close>)
  then show ?thesis
    using s' by blast
qed

lemma begin_context_refused: "state_inv s \<Longrightarrow> begin_context_release s oid = (Inl e, s') \<Longrightarrow> s' = s"
  using begin_context_release_inv [of s oid "Inl e" s'] by (simp add: is_ok_def)

lemma begin_context_begun:
  "state_inv s \<Longrightarrow> begin_context_release s oid = (Inr h, s') \<Longrightarrow>
     state_inv s' \<and> state_advances s s' \<and> begins OK_Context oid s s'"
  using begin_context_release_inv [of s oid "Inr h" s'] begin_context_phase [of s oid h s'] by simp

interpretation cxp: release_protocol OK_Context begin_context_release restore_context_release commit_context_release
  by (rule release_protocol.intro)
    (fact begin_context_refused begin_context_begun restore_context_phase commit_context_phase)+

lemma begin_buffer_refused: "state_inv s \<Longrightarrow> begin_buffer_release s oid = (Inl e, s') \<Longrightarrow> s' = s"
  using begin_buffer_release_inv [of s oid "Inl e" s'] by (simp add: is_ok_def)

lemma begin_buffer_begun:
  "state_inv s \<Longrightarrow> begin_buffer_release s oid = (Inr h, s') \<Longrightarrow>
     state_inv s' \<and> state_advances s s' \<and> begins OK_Buffer oid s s'"
  using begin_buffer_release_inv [of s oid "Inr h" s'] begin_buffer_phase [of s oid h s'] by simp

interpretation bup: release_protocol OK_Buffer begin_buffer_release restore_buffer_release commit_buffer_release
  by (rule release_protocol.intro)
    (fact begin_buffer_refused begin_buffer_begun restore_buffer_phase commit_buffer_phase)+

lemma begin_program_refused: "state_inv s \<Longrightarrow> begin_program_release s oid = (Inl e, s') \<Longrightarrow> s' = s"
  using begin_program_release_inv [of s oid "Inl e" s'] by (simp add: is_ok_def)

lemma begin_program_begun:
  "state_inv s \<Longrightarrow> begin_program_release s oid = (Inr h, s') \<Longrightarrow>
     state_inv s' \<and> state_advances s s' \<and> begins OK_Program oid s s'"
  using begin_program_release_inv [of s oid "Inr h" s'] begin_program_phase [of s oid h s'] by simp

interpretation prp: release_protocol OK_Program begin_program_release restore_program_release commit_program_release
  by (rule release_protocol.intro)
    (fact begin_program_refused begin_program_begun restore_program_phase commit_program_phase)+

lemma begin_queue_refused: "state_inv s \<Longrightarrow> begin_queue_release s oid = (Inl e, s') \<Longrightarrow> s' = s"
  using begin_queue_release_inv [of s oid "Inl e" s'] by (simp add: is_ok_def)

lemma begin_queue_begun:
  "state_inv s \<Longrightarrow> begin_queue_release s oid = (Inr h, s') \<Longrightarrow>
     state_inv s' \<and> state_advances s s' \<and> begins OK_Queue oid s s'"
  using begin_queue_release_inv [of s oid "Inr h" s'] begin_queue_phase [of s oid h s'] by simp

interpretation qup: release_protocol OK_Queue begin_queue_release restore_queue_release commit_queue_release
  by (rule release_protocol.intro)
    (fact begin_queue_refused begin_queue_begun restore_queue_phase commit_queue_phase)+

lemma begin_event_refused: "state_inv s \<Longrightarrow> begin_event_release s oid = (Inl e, s') \<Longrightarrow> s' = s"
  using begin_event_release_inv [of s oid "Inl e" s'] by (simp add: is_ok_def)

lemma begin_event_begun:
  "state_inv s \<Longrightarrow> begin_event_release s oid = (Inr h, s') \<Longrightarrow>
     state_inv s' \<and> state_advances s s' \<and> begins OK_Event oid s s'"
  using begin_event_release_inv [of s oid "Inr h" s'] begin_event_phase [of s oid h s'] by simp

interpretation evp: release_protocol OK_Event begin_event_release restore_event_release commit_event_release
  by (rule release_protocol.intro)
    (fact begin_event_refused begin_event_begun restore_event_phase commit_event_phase)+

section \<open>Creations\<close>

definition creates ::
  "object_kind \<Rightarrow> object_id \<Rightarrow> ('c, 'b, 'p, 'q, 'e) ds \<Rightarrow> ('c, 'b, 'p, 'q, 'e) ds \<Rightarrow> bool" where
  "creates kind oid s s' \<longleftrightarrow> phase s' = set_phase kind oid (Some Live) (phase s) \<and> phase s kind oid = None"

lemma createsI:
  assumes "\<And>k. k \<noteq> kind \<Longrightarrow> phase s' k = phase s k" "phase s' kind = (phase s kind)(oid \<mapsto> Live)" "phase s kind oid = None"
  shows "creates kind oid s s'"
  using set_phase_eqI [OF assms(2,1)] assms(3) by (simp add: creates_def)

lemma slot_new_live [simp]: "rs_release (resource_slot_new h) = Live"
  by (simp add: resource_slot_new_def)

lemma inserted_phase:
  assumes "table_wf t" "table_try_reserve_insert alloc t = Inr u" "table_insert_prepared v t = (oid, t')"
    "rs_release (slot_of v) = Live"
  shows "table_phase slot_of t' = (table_phase slot_of t)(oid \<mapsto> Live)" "table_phase slot_of t oid = None"
  using insert_prepared_law [OF assms(1-3)] phase_update(1) [of t' t oid v slot_of] assms(4)
  by (auto simp: table_phase_def)

lemma children_phase:
  assumes "table_wf (ds_contexts s)" "table_get_mut (ds_contexts s) context_id = Inr (cx, assign)"
  shows "table_phase cx_resource (assign (cx\<lparr>cx_children := children\<rparr>)) = table_phase cx_resource (ds_contexts s)"
  by (rule phase_update_same [OF get_mut_law(2) [OF assms] get_mut_lookup [OF assms(2)]]) simp

lemma create_context_phase:
  assumes inv: "state_inv s" and run: "create_context_with alloc create s w = (r, s', w')"
  shows "case r of Inl _ \<Rightarrow> s' = s | Inr oid \<Rightarrow> creates OK_Context oid s s' \<and> ds_retained s' = ds_retained s"
  using create_context_cases [OF run]
proof (elim disjE exE conjE)
  fix resource oid contexts u
  assume r: "r = Inr oid" and s': "s' = s\<lparr>ds_contexts := contexts\<rparr>"
    and ins: "table_try_reserve_insert alloc (ds_contexts s) = Inr u"
      "table_insert_prepared \<lparr>cx_resource = resource_slot_new resource,
        cx_children = child_counts_default\<rparr> (ds_contexts s) = (oid, contexts)"
  note I = inserted_phase [OF state_invD(1) [OF inv] ins, of cx_resource]
  have "creates OK_Context oid s s'"
  proof (rule createsI)
    show "phase s' k = phase s k" if "k \<noteq> OK_Context" for k
      using that by (cases k) (simp_all add: s')
  qed (use I in \<open>simp_all add: s'\<close>)
  then show ?thesis
    by (simp add: r s')
qed simp

lemma create_program_phase:
  assumes inv: "state_inv s"
    and run: "create_program_with alloc context_id artifact_bytes resident_bytes create s w = (r, s', w')"
  shows "case r of Inl _ \<Rightarrow> s' = s
    | Inr oid \<Rightarrow> creates OK_Program oid s s' \<and> rt_buffer_backing (ds_retained s') = rt_buffer_backing (ds_retained s)"
  using create_program_cases [OF run]
proof (elim disjE exE conjE)
  fix handle cx assign resource oid table u
  assume res: "table_try_reserve_insert alloc (ds_programs s) = Inr u"
    and mut: "table_get_mut (ds_contexts s) context_id = Inr (cx, assign)"
    and ins: "table_insert_prepared \<lparr>pr_resource = resource_slot_new resource, pr_context_id = context_id,
          pr_resident_bytes = resident_bytes, pr_in_flight = 0\<rparr> (ds_programs s) = (oid, table)"
    and r: "r = Inr oid"
    and s': "s' = s\<lparr>ds_programs := table,
          ds_retained := (ds_retained s)\<lparr>rt_program_resident :=
            saturating_add (rt_program_resident (ds_retained s)) (ucast resident_bytes)\<rparr>,
          ds_contexts := assign (cx\<lparr>cx_children :=
            (cx_children cx)\<lparr>ch_programs := ch_programs (cx_children cx) + 1\<rparr>\<rparr>)\<rparr>"
  note I = inserted_phase [OF state_invD(3) [OF inv] res ins, of pr_resource]
    and C = children_phase [OF state_invD(1) [OF inv] mut]
  have "creates OK_Program oid s s'"
  proof (rule createsI)
    show "phase s' k = phase s k" if "k \<noteq> OK_Program" for k
      using that by (cases k) (simp_all add: s' C)
  qed (use I in \<open>simp_all add: s'\<close>)
  then show ?thesis
    by (simp add: r s')
qed simp

lemma create_queue_phase:
  assumes inv: "state_inv s" and run: "create_queue_with alloc context_id create s w = (r, s', w')"
  shows "case r of Inl _ \<Rightarrow> s' = s | Inr oid \<Rightarrow> creates OK_Queue oid s s' \<and> ds_retained s' = ds_retained s"
  using create_queue_cases [OF run]
proof (elim disjE exE conjE)
  fix handle cx assign resource oid table u
  assume res: "table_try_reserve_insert alloc (ds_queues s) = Inr u"
    and mut: "table_get_mut (ds_contexts s) context_id = Inr (cx, assign)"
    and ins: "table_insert_prepared \<lparr>qu_resource = resource_slot_new resource, qu_context_id = context_id,
          qu_in_flight = 0\<rparr> (ds_queues s) = (oid, table)"
    and r: "r = Inr oid"
    and s': "s' = s\<lparr>ds_queues := table,
          ds_contexts := assign (cx\<lparr>cx_children :=
            (cx_children cx)\<lparr>ch_queues := ch_queues (cx_children cx) + 1\<rparr>\<rparr>)\<rparr>"
  note I = inserted_phase [OF state_invD(4) [OF inv] res ins, of qu_resource]
    and C = children_phase [OF state_invD(1) [OF inv] mut]
  have "creates OK_Queue oid s s'"
  proof (rule createsI)
    show "phase s' k = phase s k" if "k \<noteq> OK_Queue" for k
      using that by (cases k) (simp_all add: s' C)
  qed (use I in \<open>simp_all add: s'\<close>)
  then show ?thesis
    by (simp add: r s')
qed simp

text \<open>
  A buffer whose actual backing does not match the request or exceeds the policy is inserted all the
  same, for the caller to release: the sum of the other buffers is what it was.
\<close>

lemma create_buffer_phase:
  assumes inv: "state_inv s" and run: "create_buffer_with alloc context_id desc create s w = (r, s', w')"
  shows "case r of Inl _ \<Rightarrow> s' = s
    | Inr (BCO_Admitted oid) \<Rightarrow> creates OK_Buffer oid s s'
        \<and> rt_buffer_backing (ds_retained s') \<le> ucast (po_max_buffer_backing_bytes (ds_policy s))
    | Inr (BCO_CleanupRequired oid e) \<Rightarrow> creates OK_Buffer oid s s'
        \<and> (\<exists>v. buffers_of s' = (buffers_of s)(oid \<mapsto> v))"
  using create_buffer_cases [OF run]
proof (elim disjE exE conjE)
  fix handle cx assign resource oid buffers u and info :: buffer_info
  let ?sum = "saturating_add (rt_buffer_backing (ds_retained s)) (ucast (bi_allocation_bytes info))"
  assume res: "table_try_reserve_insert alloc (ds_buffers s) = Inr u"
    and mut: "table_get_mut (ds_contexts s) context_id = Inr (cx, assign)"
    and ins: "table_insert_prepared \<lparr>bu_resource = resource_slot_new resource, bu_context_id = context_id,
          bu_info = info, bu_in_flight = 0\<rparr> (ds_buffers s) = (oid, buffers)"
    and r: "r = Inr (if bi_desc info \<noteq> desc then BCO_CleanupRequired oid BE_Incompatible
          else if ucast (po_max_buffer_backing_bytes (ds_policy s)) < ?sum
          then BCO_CleanupRequired oid BE_ResourceLimit else BCO_Admitted oid)"
    and s': "s' = s\<lparr>ds_buffers := buffers,
          ds_retained := (ds_retained s)\<lparr>rt_buffer_backing := ?sum\<rparr>,
          ds_contexts := assign (cx\<lparr>cx_children :=
            (cx_children cx)\<lparr>ch_buffers := ch_buffers (cx_children cx) + 1\<rparr>\<rparr>)\<rparr>"
  note I = inserted_phase [OF state_invD(2) [OF inv] res ins, of bu_resource]
    and C = children_phase [OF state_invD(1) [OF inv] mut]
    and L = insert_prepared_law(3) [OF state_invD(2) [OF inv] res ins]
  have "creates OK_Buffer oid s s'"
  proof (rule createsI)
    show "phase s' k = phase s k" if "k \<noteq> OK_Buffer" for k
      using that by (cases k) (simp_all add: s' C)
  qed (use I in \<open>simp_all add: s'\<close>)
  then show ?thesis
    using L by (auto simp: r s' not_less)
qed simp

lemma commit_event_phase_law:
  assumes inv: "state_inv s" and res: "table_try_reserve_insert alloc (ds_events s) = Inr u"
    and run: "commit_event resources create context_id queue_id program_ids sequence buffer_ids s w = (Inr oid, s', w')"
  shows "creates OK_Event oid s s' \<and> ds_retained s' = ds_retained s"
proof -
  note D = state_invD [OF inv]
  obtain r1 s1 where inc: "increment_event_references context_id queue_id program_ids buffer_ids s = (r1, s1)"
    by fastforce
  note A = adjust_references_phase [OF D(4,3,2,1) inc [unfolded increment_event_references_def]]
  have ev: "ds_events s1 = ds_events s"
    using inc by (auto simp: increment_event_references_def adjust_references_def split: prod.splits sum.splits)
  obtain event events where ins: "table_insert_prepared
        \<lparr>ev_resource = resource_slot_new event, ev_context_id = context_id, ev_queue_id = queue_id,
         ev_program_id = hd program_ids, ev_sequence_program_ids = sequence, ev_buffer_ids = buffer_ids\<rparr>
        (ds_events s) = (oid, events)" and s': "s' = s1\<lparr>ds_events := events\<rparr>"
    using run unfolding commit_event_def inc
    by (auto simp: ev Let_def split: sum.splits prod.splits)
  note I = inserted_phase [OF D(5) res ins, of ev_resource]
  have "creates OK_Event oid s s'"
  proof (rule createsI)
    show "phase s' k = phase s k" if "k \<noteq> OK_Event" for k
      using that A [THEN conjunct1, THEN fun_cong, of k] by (cases k) (simp_all add: s')
  qed (use I in \<open>simp_all add: s'\<close>)
  then show ?thesis
    using A by (simp add: s')
qed

lemma create_event_phase:
  assumes inv: "state_inv s" and run: "create_event_with alloc queue_id program_id buffer_ids create s w = (r, s', w')"
  shows "case r of Inl _ \<Rightarrow> s' = s | Inr oid \<Rightarrow> creates OK_Event oid s s' \<and> ds_retained s' = ds_retained s"
proof (cases r)
  case (Inl e)
  then show ?thesis
    using create_event_inv [OF inv run] by simp
next
  case (Inr oid)
  with run obtain ctx where ctx: "admit_event alloc queue_id [program_id] (sort buffer_ids)
        (validate_submission s queue_id program_id buffer_ids) s = Inr ctx"
      "commit_event (submission_resources_of ctx queue_id program_id (sort buffer_ids)) create ctx queue_id
        [program_id] None (sort buffer_ids) s w = (Inr oid, s', w')"
    unfolding create_event_with_def by (auto split: if_splits sum.splits)
  from ctx(1) obtain u where "table_try_reserve_insert alloc (ds_events s) = Inr u"
    by (auto simp: admit_event_def split: if_splits)
  from commit_event_phase_law [OF inv this ctx(2)] show ?thesis
    by (simp add: Inr)
qed

text \<open>A transfer replaces the handle of a live buffer and moves no phase.\<close>

lemma write_buffer_phase:
  assumes inv: "state_inv s" and mut: "ds_buffer_record_mut s oid = Inr (v, assign)"
  shows "phase (assign (v\<lparr>bu_resource := (bu_resource v)\<lparr>rs_resource := Some h\<rparr>\<rparr>)) = phase s"
    "ds_retained (assign v') = ds_retained s"
proof -
  obtain a where a: "table_get_mut (ds_buffers s) oid = Inr (v, a)" "assign = (\<lambda>x. s\<lparr>ds_buffers := a x\<rparr>)"
    using mut by (auto simp: ds_buffer_record_mut_def)
  note M = get_mut_law [OF state_invD(2) [OF inv] a(1)] and L = get_mut_lookup [OF a(1)]
  have "table_phase bu_resource (a (v\<lparr>bu_resource := (bu_resource v)\<lparr>rs_resource := Some h\<rparr>\<rparr>))
      = table_phase bu_resource (ds_buffers s)"
    using M(2) L by (auto simp: table_phase_def fun_eq_iff)
  then show "phase (assign (v\<lparr>bu_resource := (bu_resource v)\<lparr>rs_resource := Some h\<rparr>\<rparr>)) = phase s"
    by (intro phase_eqI) (simp_all add: a(2))
  show "ds_retained (assign v') = ds_retained s"
    by (simp add: a(2))
qed

end
