(* ===== verification/Engine_Inv.thy ===== *)
theory Engine_Inv
  imports Engine_Reset Device_Phases
begin

text \<open>
  The invariant of the command engine and that every command and every reset preserves it, with any
  backend, any guest and any response sink. While the backend need not be discarded, no release is
  in progress, nothing is quarantined, and the backing of the buffers is within the policy.
\<close>

section \<open>The invariant\<close>

definition backing_ok :: "('c, 'b, 'p, 'q, 'e) ds \<Rightarrow> bool" where
  "backing_ok s \<longleftrightarrow> rt_buffer_backing (ds_retained s) \<le> ucast (po_max_buffer_backing_bytes (ds_policy s))"

text \<open>The configuration is one that the constructor accepts.\<close>

definition configured :: "('c, 'b, 'p, 'q, 'e, 'k, 'w) cp \<Rightarrow> bool" where
  "configured cp \<longleftrightarrow> device_info_validate (cp_info cp) = Inr ()
     \<and> (\<exists>config. decoder_limits_new config (cp_info cp) = Inr (cp_decoder cp))
     \<and> (\<forall>namespace. \<exists>s :: ('c, 'b, 'p, 'q, 'e) ds.
          device_state_new namespace (di_limits (cp_info cp)) (cp_policy cp) = Inr s)"

definition consistent :: "('c, 'b, 'p, 'q, 'e, 'k, 'w) cp \<Rightarrow> bool" where
  "consistent cp \<longleftrightarrow> configured cp \<and> state_inv (cp_state cp)
     \<and> ds_limits (cp_state cp) = di_limits (cp_info cp) \<and> ds_policy (cp_state cp) = cp_policy cp"

definition orderly :: "('c, 'b, 'p, 'q, 'e, 'k, 'w) cp \<Rightarrow> bool" where
  "orderly cp \<longleftrightarrow> settled (cp_state cp) \<and> backing_ok (cp_state cp) \<and> cp_quarantined cp = resource_counts_default
     \<and> cp_quarantined_bytes cp = retained_bytes_default \<and> cp_last_reset cp = None"

definition engine_inv :: "('c, 'b, 'p, 'q, 'e, 'k, 'w) cp \<Rightarrow> bool" where
  "engine_inv cp \<longleftrightarrow> consistent cp \<and> (cp_health cp \<noteq> BackendDiscardRequired \<longrightarrow> orderly cp)"

lemma consistent_state:
  assumes "consistent cp" "state_inv s" "state_advances (cp_state cp) s"
  shows "consistent (cp\<lparr>cp_state := s\<rparr>)"
  using assms by (simp add: consistent_def configured_def state_advances_def)

lemma engine_inv_state:
  assumes "engine_inv cp" "state_inv s" "state_advances (cp_state cp) s"
    and "settled (cp_state cp) \<Longrightarrow> settled s" "backing_ok (cp_state cp) \<Longrightarrow> backing_ok s"
  shows "engine_inv (cp\<lparr>cp_state := s\<rparr>)"
  using assms consistent_state by (auto simp: engine_inv_def orderly_def)

lemma engine_inv_same:
  assumes "engine_inv cp" "state_inv s" "state_advances (cp_state cp) s" "phase s = phase (cp_state cp)"
    "rt_buffer_backing (ds_retained s) \<le> rt_buffer_backing (ds_retained (cp_state cp))"
  shows "engine_inv (cp\<lparr>cp_state := s\<rparr>)"
  by (rule engine_inv_state [OF assms(1-3)])
    (use assms in \<open>auto simp: settled_def backing_ok_def state_advances_def\<close>)

lemma engine_inv_created:
  assumes "engine_inv cp" "state_inv s" "state_advances (cp_state cp) s" "creates kind oid (cp_state cp) s"
    "rt_buffer_backing (ds_retained s) = rt_buffer_backing (ds_retained (cp_state cp))"
  shows "engine_inv (cp\<lparr>cp_state := s\<rparr>)"
  by (rule engine_inv_state [OF assms(1-3)])
    (use assms settled_set_phase [of "cp_state cp" s kind oid "Some Live"] in
      \<open>auto simp: creates_def backing_ok_def state_advances_def\<close>)

lemma commits_backing: "commits kind oid s s' \<Longrightarrow> rt_buffer_backing (ds_retained s') \<le> rt_buffer_backing (ds_retained s)"
  by (auto simp: commits_def word_le_nat_alt)

lemma engine_inv_committed:
  assumes "engine_inv cp" "state_inv s" "state_advances (cp_state cp) s" "commits kind oid (cp_state cp) s"
  shows "engine_inv (cp\<lparr>cp_state := s\<rparr>)"
  by (rule engine_inv_state [OF assms(1-3)])
    (use assms settled_set_phase [of "cp_state cp" s kind oid None] commits_backing [OF assms(4)] in
      \<open>auto simp: commits_def backing_ok_def state_advances_def\<close>)

lemma discard_inv [intro]: "consistent cp \<Longrightarrow> engine_inv (require_backend_discard cp)"
  by (simp add: engine_inv_def require_backend_discard_def consistent_def configured_def)

section \<open>Answers change the health only\<close>

definition answered :: "('c, 'b, 'p, 'q, 'e, 'k, 'w) cp \<Rightarrow> ('c, 'b, 'p, 'q, 'e, 'k, 'w) cp \<Rightarrow> bool" where
  "answered cp cp' \<longleftrightarrow> (\<exists>h l. cp' = cp\<lparr>cp_health := h, cp_last_reset := l\<rparr>
     \<and> (h \<noteq> BackendDiscardRequired \<longrightarrow> cp_health cp \<noteq> BackendDiscardRequired \<and> (l = cp_last_reset cp \<or> l = None)))"

lemma answered_refl [simp, intro]: "answered cp cp"
  unfolding answered_def by (intro exI [of _ "cp_health cp"] exI [of _ "cp_last_reset cp"]) simp

lemma answered_trans: "answered cp cp1 \<Longrightarrow> answered cp1 cp2 \<Longrightarrow> answered cp cp2"
  unfolding answered_def by (elim exE) auto

lemma answered_inv: "engine_inv cp \<Longrightarrow> answered cp cp' \<Longrightarrow> engine_inv cp'"
  by (auto simp: answered_def engine_inv_def orderly_def consistent_def configured_def)

lemma answered_discard [simp]: "answered cp (require_backend_discard cp)"
  unfolding answered_def require_backend_discard_def
  by (intro exI [of _ BackendDiscardRequired] exI [of _ None]) simp

text \<open>The processor after an answer.\<close>

abbreviation after :: "'r \<times> 's \<times> 'x \<Rightarrow> 's" where
  "after a \<equiv> fst (snd a)"

lemma after_in_world [simp]: "after (in_world w a) = after a"
  by (simp add: in_world_def)

lemma after_completed: "answered cp (after (completed cp written status request_id mutated))"
proof -
  have "answered cp (cp\<lparr>cp_health := NeedsReset, cp_last_reset := None\<rparr>)" if "cp_health cp = Running"
    unfolding answered_def using that by (intro exI [of _ NeedsReset] exI [of _ None]) simp
  then show ?thesis
    by (cases "fst written") (simp_all add: completed_def complete_response_def)
qed

lemma after_responses:
  "answered cp (after (respond_empty cp response k status request_id mutated))"
  "answered cp (after (respond_bytes cp response k status request_id payload mutated))"
  "answered cp (after (respond_object cp response k request_id oid mutated))"
  "answered cp (after (respond_event_id cp response k status request_id oid mutated))"
  "answered cp (after (respond_state_error cp response k request_id e))"
  by (simp_all add: respond_empty_def respond_bytes_def respond_object_def respond_event_id_def
      respond_state_error_def after_completed)

lemma after_backend_error: "answered cp (after (respond_backend_error cp response k request_id e mutated))"
  by (auto simp: respond_backend_error_def backend_status_def after_responses
      intro: answered_trans [OF answered_discard after_responses(1)])

lemma after_create_error: "answered cp (after (respond_create_error cp response k request_id e))"
  by (cases e) (simp_all add: respond_create_error_def after_responses after_backend_error)

lemma after_discard [simp]: "after (discard_response cp response k request_id) = require_backend_discard cp"
  by (cases "write_empty (response_writer_new response (dl_max_response_bytes (cp_decoder cp))) k STATUS_DEVICE_LOST request_id")
    (auto simp: discard_response_def respond_empty_def completed_def complete_response_def require_backend_discard_def
      split: sum.splits)

lemmas answers = after_responses after_backend_error after_create_error

lemmas answer_inv = answers [THEN answered_inv [rotated]]

lemmas completed_inv = after_completed [THEN answered_inv [rotated]]

lemma discarded_response_inv:
  "consistent cp \<Longrightarrow> engine_inv (after (respond_empty (require_backend_discard cp) response k status request_id mutated))"
  "consistent cp \<Longrightarrow> engine_inv (after (respond_bytes (require_backend_discard cp) response k status request_id payload mutated))"
  by (auto intro: answer_inv)

lemma engine_inv_consistent [dest]: "engine_inv cp \<Longrightarrow> consistent cp"
  by (simp add: engine_inv_def)

lemma consistent_quarantine:
  "consistent (cp\<lparr>cp_quarantined := q\<rparr>) = consistent cp" "consistent (cp\<lparr>cp_quarantined_bytes := b\<rparr>) = consistent cp"
  by (simp_all add: consistent_def configured_def)

section \<open>Commands that release an object\<close>

text \<open>The five release commands have one shape; they differ in the kind of object and in what they quarantine.\<close>

definition release_flow ::
  "(('c, 'b, 'p, 'q, 'e) ds \<Rightarrow> object_id \<Rightarrow> (device_state_error + 'r) \<times> ('c, 'b, 'p, 'q, 'e) ds)
    \<Rightarrow> (('c, 'b, 'p, 'q, 'e) ds \<Rightarrow> object_id \<Rightarrow> 'r \<Rightarrow> ((device_state_error \<times> 'r) + unit) \<times> ('c, 'b, 'p, 'q, 'e) ds)
    \<Rightarrow> (('c, 'b, 'p, 'q, 'e) ds \<Rightarrow> object_id \<Rightarrow> (device_state_error + unit) \<times> ('c, 'b, 'p, 'q, 'e) ds)
    \<Rightarrow> ('r \<Rightarrow> 'w \<Rightarrow> ('r release_failure + unit) \<times> 'w)
    \<Rightarrow> (('c, 'b, 'p, 'q, 'e) ds \<Rightarrow> ('c, 'b, 'p, 'q, 'e, 'k, 'w) cp)
    \<Rightarrow> ('c, 'b, 'p, 'q, 'e, 'k, 'w) cp \<Rightarrow> 'k byte_sink \<Rightarrow> 'k \<Rightarrow> 'w \<Rightarrow> u64 \<Rightarrow> object_id
    \<Rightarrow> (('c, 'b, 'p, 'q, 'e, 'k, 'w) cp, 'k, 'w) handled" where
  "release_flow begin_release restore_release commit_release destroy quarantine cp response k w request_id oid =
     (case begin_release (cp_state cp) oid of
        (Inl e, s) \<Rightarrow> in_world w (respond_state_error (cp\<lparr>cp_state := s\<rparr>) response k request_id e)
      | (Inr resource, s) \<Rightarrow>
        (case destroy resource w of
          (Inr _, w') \<Rightarrow>
            (case commit_release s oid of
               (Inr _, s') \<Rightarrow> in_world w' (respond_empty (cp\<lparr>cp_state := s'\<rparr>) response k STATUS_OK request_id True)
             | (Inl _, s') \<Rightarrow> in_world w' (discard_response (cp\<lparr>cp_state := s'\<rparr>) response k request_id))
        | (Inl (RF_Rejected e resource'), w') \<Rightarrow>
            (case restore_release s oid resource' of
               (Inr _, s') \<Rightarrow> in_world w' (respond_backend_error (cp\<lparr>cp_state := s'\<rparr>) response k request_id e False)
             | (Inl _, s') \<Rightarrow> in_world w' (discard_response (cp\<lparr>cp_state := s'\<rparr>) response k request_id))
        | (Inl (RF_Indeterminate _), w') \<Rightarrow>
            (case commit_release s oid of
               (Inr _, s') \<Rightarrow> in_world w' (discard_response (quarantine s') response k request_id)
             | (Inl _, s') \<Rightarrow> in_world w' (discard_response (cp\<lparr>cp_state := s'\<rparr>) response k request_id))))"

text \<open>How a release ended, in terms of the object graph and the answer.\<close>

context release_protocol
begin

lemma release_flow_cases:
  fixes cp :: "('c, 'b, 'p, 'q, 'e, 'k, 'w) cp"
  assumes inv: "state_inv (cp_state cp)"
  obtains
    (refused) e where "release_flow begin_release restore_release commit_release destroy quarantine cp response k w request_id oid
      = in_world w (respond_state_error cp response k request_id e)"
  | (released) s w' where "state_inv s" "state_advances (cp_state cp) s" "commits kind oid (cp_state cp) s"
      "release_flow begin_release restore_release commit_release destroy quarantine cp response k w request_id oid
        = in_world w' (respond_empty (cp\<lparr>cp_state := s\<rparr>) response k STATUS_OK request_id True)"
  | (rejected) s w' e where "state_inv s" "state_advances (cp_state cp) s" "phase s = phase (cp_state cp)"
      "ds_retained s = ds_retained (cp_state cp)"
      "release_flow begin_release restore_release commit_release destroy quarantine cp response k w request_id oid
        = in_world w' (respond_backend_error (cp\<lparr>cp_state := s\<rparr>) response k request_id e False)"
  | (unknown) s w' where "state_inv s" "state_advances (cp_state cp) s" "commits kind oid (cp_state cp) s"
      "release_flow begin_release restore_release commit_release destroy quarantine cp response k w request_id oid
        = in_world w' (discard_response (quarantine s) response k request_id)"
proof (cases "begin_release (cp_state cp) oid")
  case (Pair r s1)
  show thesis
  proof (cases r)
    case (Inl e)
    then have "s1 = cp_state cp"
      using begin_refused [OF inv] Pair by blast
    with Pair Inl refused [of e] show thesis
      by (simp add: release_flow_def)
  next
    case (Inr h)
    note run = Pair [unfolded Inr] and B = begun [OF inv Pair [unfolded Inr]]
    obtain s3 where s3: "commit_release s1 oid = (Inr (), s3)" "state_inv s3" "state_advances (cp_state cp) s3"
        "commits kind oid (cp_state cp) s3"
      using B(5) by blast
    obtain d w' where d: "destroy h w = (d, w')"
      by fastforce
    show thesis
    proof (cases d)
      case (Inl f)
      show thesis
      proof (cases f)
        case (RF_Rejected e h')
        obtain s2 where "restore_release s1 oid h' = (Inr (), s2)" "state_inv s2" "state_advances (cp_state cp) s2"
            "phase s2 = phase (cp_state cp)" "ds_retained s2 = ds_retained (cp_state cp)"
          using B(4) [of h'] by blast
        with rejected [of s2 w' e] show thesis
          using run d Inl RF_Rejected by (simp add: release_flow_def)
      next
        case (RF_Indeterminate e)
        with unknown [of s3 w'] show thesis
          using run d Inl s3 by (simp add: release_flow_def)
      qed
    next
      case (Inr u)
      with released [of s3 w'] show thesis
        using run d s3 by (simp add: release_flow_def)
    qed
  qed
qed

lemma release_flow_inv:
  assumes inv: "engine_inv cp" and q: "\<And>s. consistent (quarantine s) = consistent (cp\<lparr>cp_state := s\<rparr>)"
  shows "engine_inv (after (release_flow begin_release restore_release commit_release destroy quarantine cp response k w request_id oid))"
proof -
  note con = engine_inv_consistent [OF inv]
  then have s: "state_inv (cp_state cp)"
    by (simp add: consistent_def)
  show ?thesis
  proof (cases rule: release_flow_cases [OF s, of destroy quarantine response k w request_id oid,
        case_names refused released rejected unknown])
    case (refused e)
    then show ?thesis
      using inv by (simp add: answer_inv)
  next
    case (released s w')
    from answer_inv(1) [OF engine_inv_committed [OF inv released(1-3)]] show ?thesis
      by (simp add: released(4))
  next
    case (rejected s w' e)
    from answer_inv(6) [OF engine_inv_same [OF inv rejected(1-3)]] show ?thesis
      using rejected(4) by (simp add: rejected(5))
  next
    case (unknown s w')
    then show ?thesis
      using consistent_state [OF con unknown(1,2)] by (simp add: q discard_inv)
  qed
qed

end

lemma destroy_context_flow:
  "destroy_context cp = release_flow begin_context_release restore_context_release commit_context_release
     (ac_destroy_context (cp_accelerator cp))
     (\<lambda>s. cp\<lparr>cp_state := s, cp_quarantined := (cp_quarantined cp)\<lparr>rc_contexts := rc_contexts (cp_quarantined cp) + 1\<rparr>\<rparr>) cp"
  by (simp add: fun_eq_iff destroy_context_def release_flow_def)

lemma destroy_queue_flow:
  "destroy_queue cp = release_flow begin_queue_release restore_queue_release commit_queue_release
     (ac_destroy_queue (cp_accelerator cp))
     (\<lambda>s. cp\<lparr>cp_state := s, cp_quarantined := (cp_quarantined cp)\<lparr>rc_queues := rc_queues (cp_quarantined cp) + 1\<rparr>\<rparr>) cp"
  by (simp add: fun_eq_iff destroy_queue_def release_flow_def)

lemma release_event_flow:
  "release_event cp = release_flow begin_event_release restore_event_release commit_event_release
     (ac_destroy_event (cp_accelerator cp))
     (\<lambda>s. cp\<lparr>cp_state := s, cp_quarantined := (cp_quarantined cp)\<lparr>rc_events := rc_events (cp_quarantined cp) + 1\<rparr>\<rparr>) cp"
  by (simp add: fun_eq_iff release_event_def release_flow_def)

lemma free_buffer_flow:
  "free_buffer cp response k w request_id oid =
     (case ds_buffer_record (cp_state cp) oid of
        Inl e \<Rightarrow> in_world w (respond_state_error cp response k request_id e)
      | Inr record \<Rightarrow> release_flow begin_buffer_release restore_buffer_release commit_buffer_release
          (ac_free_buffer (cp_accelerator cp))
          (\<lambda>s. cp\<lparr>cp_state := s, cp_quarantined := (cp_quarantined cp)\<lparr>rc_buffers := rc_buffers (cp_quarantined cp) + 1\<rparr>,
             cp_quarantined_bytes := (cp_quarantined_bytes cp)\<lparr>rt_buffer_backing :=
               rt_buffer_backing (cp_quarantined_bytes cp) + ucast (bi_allocation_bytes (bu_info record))\<rparr>\<rparr>)
          cp response k w request_id oid)"
  unfolding free_buffer_def release_flow_def by (rule refl)

lemma unload_program_flow:
  "unload_program cp response k w request_id oid =
     (case ds_program_record (cp_state cp) oid of
        Inl e \<Rightarrow> in_world w (respond_state_error cp response k request_id e)
      | Inr record \<Rightarrow> release_flow begin_program_release restore_program_release commit_program_release
          (ac_unload_program (cp_accelerator cp))
          (\<lambda>s. cp\<lparr>cp_state := s, cp_quarantined := (cp_quarantined cp)\<lparr>rc_programs := rc_programs (cp_quarantined cp) + 1\<rparr>,
             cp_quarantined_bytes := (cp_quarantined_bytes cp)\<lparr>rt_program_resident :=
               rt_program_resident (cp_quarantined_bytes cp) + ucast (pr_resident_bytes record)\<rparr>\<rparr>)
          cp response k w request_id oid)"
  unfolding unload_program_def release_flow_def by (rule refl)

lemmas flows = destroy_context_flow destroy_queue_flow release_event_flow free_buffer_flow unload_program_flow

lemma release_commands_inv:
  assumes "engine_inv cp"
  shows "engine_inv (after (destroy_context cp response k w request_id oid))"
    "engine_inv (after (destroy_queue cp response k w request_id oid))"
    "engine_inv (after (release_event cp response k w request_id oid))"
    "engine_inv (after (free_buffer cp response k w request_id oid))"
    "engine_inv (after (unload_program cp response k w request_id oid))"
  unfolding flows
  by (auto simp: consistent_def configured_def assms answer_inv split: sum.splits intro!: cxp.release_flow_inv
      qup.release_flow_inv evp.release_flow_inv bup.release_flow_inv prp.release_flow_inv)

section \<open>Commands that read and transfer\<close>

lemma event_commands_inv:
  assumes "engine_inv cp"
  shows "engine_inv (after (poll_event cp response k w request_id oid))"
    "engine_inv (after (cancel_event cp response k w request_id oid))"
    "engine_inv (after (destroy_event cp response k w request_id oid))"
  using assms
  by (auto simp: poll_event_def cancel_event_def destroy_event_def split: sum.splits prod.splits
      intro!: answer_inv release_commands_inv discard_inv)

lemma write_buffer_inv_engine:
  assumes inv: "engine_inv cp"
  shows "engine_inv (after (write_buffer cp response k w request_id oid rng data))"
proof -
  have s: "state_inv (cp_state cp)"
    using engine_inv_consistent [OF inv] by (simp add: consistent_def)
  have "engine_inv (cp\<lparr>cp_state := assign (v\<lparr>bu_resource := (bu_resource v)\<lparr>rs_resource := Some h'\<rparr>\<rparr>)\<rparr>)"
    if mut: "ds_buffer_record_mut (cp_state cp) oid = Inr (v, assign)" and h: "resource_slot_get (bu_resource v) = Inr h"
    for v assign h h'
    using write_buffer_inv [OF s mut, of h h'] write_buffer_phase [OF s mut] h
    by (intro engine_inv_same [OF inv]) (simp_all add: resource_slot_get_eq)
  then show ?thesis
    using inv by (auto simp: write_buffer_def Let_def split: sum.splits prod.splits intro!: answer_inv)
qed

lemma read_buffer_inv:
  assumes "engine_inv cp"
  shows "engine_inv (after (read_buffer cp response k w request_id oid rng))"
  using assms
  by (auto simp: read_buffer_def Let_def backend_status_def split: sum.splits prod.splits
      intro!: answer_inv completed_inv discard_inv)

section \<open>Commands that create an object\<close>

lemma created_context_inv:
  assumes inv: "engine_inv cp" and run: "create_context_with alloc create (cp_state cp) w = (r, s, w')"
  shows "engine_inv (cp\<lparr>cp_state := s\<rparr>)"
proof -
  have "state_inv (cp_state cp)"
    using engine_inv_consistent [OF inv] by (simp add: consistent_def)
  then show ?thesis
    using create_context_inv [OF _ run] create_context_phase [OF _ run] inv
    by (cases r) (auto intro: engine_inv_created)
qed

lemma create_context_command_inv:
  assumes inv: "engine_inv cp"
  shows "engine_inv (after (dispatch_create_context cp alloc response k w request_id desc))"
proof -
  obtain r s' w' where run: "create_context_with (alloc Reserve_Table) (ac_create_context (cp_accelerator cp) desc)
      (cp_state cp) w = (r, s', w')"
    using prod_cases3 by blast
  show ?thesis
    using inv created_context_inv [OF inv run]
    by (auto simp: dispatch_create_context_def run split: sum.splits intro!: answer_inv)
qed

lemma create_queue_command_inv:
  assumes inv: "engine_inv cp"
  shows "engine_inv (after (dispatch_create_queue cp alloc response k w request_id context_id desc))"
proof -
  have s: "state_inv (cp_state cp)"
    using engine_inv_consistent [OF inv] by (simp add: consistent_def)
  obtain r s' w' where run: "create_queue_with (alloc Reserve_Table) context_id
      (\<lambda>context. ac_create_queue (cp_accelerator cp) context desc) (cp_state cp) w = (r, s', w')"
    using prod_cases3 by blast
  have "engine_inv (cp\<lparr>cp_state := s'\<rparr>)"
    using create_queue_inv [OF s run] create_queue_phase [OF s run] inv
    by (cases r) (auto intro: engine_inv_created)
  then show ?thesis
    using inv by (auto simp: dispatch_create_queue_def run split: sum.splits intro!: answer_inv)
qed

lemma load_program_command_inv:
  assumes inv: "engine_inv cp"
  shows "engine_inv (after (dispatch_load_program cp alloc response k w request_id context_id format target payload resident_bytes))"
proof -
  have s: "state_inv (cp_state cp)"
    using engine_inv_consistent [OF inv] by (simp add: consistent_def)
  obtain r s' w' where run: "create_program_with (alloc Reserve_Table) context_id (bs_len (readable_region_port payload))
      resident_bytes (\<lambda>context. ac_load_program (cp_accelerator cp) context
        \<lparr>ar_format = format, ar_target = target, ar_payload = readable_region_port payload,
         ar_resident_bytes = resident_bytes\<rparr>) (cp_state cp) w = (r, s', w')"
    using prod_cases3 by blast
  have "engine_inv (cp\<lparr>cp_state := s'\<rparr>)"
    using create_program_inv [OF s run] create_program_phase [OF s run] inv
    by (cases r) (auto intro: engine_inv_created)
  then show ?thesis
    using inv by (auto simp: dispatch_load_program_def run split: sum.splits intro!: answer_inv)
qed

text \<open>
  A buffer that must not be published is released before the answer, or the backend is given up.
  Releasing it brings the backing back to what it was before the command.
\<close>

lemma creates_commits:
  assumes "creates kind oid s s1" "commits kind oid s1 s2"
  shows "phase s2 = phase s"
  using assms unfolding creates_def commits_def by (simp add: set_phase_def fun_upd_idem)

lemma release_unpublished_inv:
  assumes inv: "engine_inv cp" and s: "state_inv s" "state_advances (cp_state cp) s"
    and new: "creates OK_Buffer oid (cp_state cp) s" "buffers_of s = (buffers_of (cp_state cp))(oid \<mapsto> v)"
  shows "engine_inv (after (release_unpublished_buffer (cp\<lparr>cp_state := s\<rparr>) response k w request_id oid e))"
proof -
  have con: "consistent (cp\<lparr>cp_state := s'\<rparr>)" if "state_inv s'" "state_advances s s'" for s'
    using consistent_state [OF engine_inv_consistent [OF inv]] that state_advances_trans s(2) by blast
  obtain r s1 where begin_run: "begin_buffer_release s oid = (r, s1)"
    by fastforce
  show ?thesis
  proof (cases r)
    case (Inl err)
    then have "s1 = s"
      using bup.begin_refused [OF s(1)] begin_run by blast
    then show ?thesis
      using con [OF s(1) state_advances_refl] begin_run Inl
      by (auto simp: release_unpublished_buffer_def split: sum.splits intro!: discard_inv)
  next
    case (Inr h)
    note run = begin_run [unfolded Inr] and B = bup.begun [OF s(1) begin_run [unfolded Inr]]
    obtain s3 where s3: "commit_buffer_release s1 oid = (Inr (), s3)" "state_inv s3" "state_advances s s3"
        "commits OK_Buffer oid s s3" "buffers_of s3 = (buffers_of s)(oid := None)"
      using B(5) buffer_release_completes [OF s(1) run] by auto
    have old: "buffers_of s3 = buffers_of (cp_state cp)"
      using s3(5) new by (auto simp: creates_def table_phase_def fun_eq_iff)
    have "state_inv (cp_state cp)"
      using engine_inv_consistent [OF inv] by (simp add: consistent_def)
    then have "unat (rt_buffer_backing (ds_retained s3)) = unat (rt_buffer_backing (ds_retained (cp_state cp)))"
      using state_invD(7) [of "cp_state cp"] state_invD(7) [OF s3(2)] old by (simp add: charges_ok_def)
    moreover have "phase s3 = phase (cp_state cp)"
      by (rule creates_commits [OF new(1) s3(4)])
    ultimately have "engine_inv (cp\<lparr>cp_state := s3\<rparr>)"
      using engine_inv_same [OF inv s3(2) state_advances_trans [OF s(2) s3(3)]] by (simp add: word_le_nat_alt)
    moreover have "consistent (cp\<lparr>cp_state := s2\<rparr>)" if "restore_buffer_release s1 oid h' = (r', s2)" for h' r' s2
      using B(4) [of h'] that con by auto
    ultimately show ?thesis
      using run s3(1) con [OF s3(2,3)] con [OF s(1) state_advances_refl] unfolding release_unpublished_buffer_def
      by (auto simp: consistent_def configured_def split: sum.splits prod.splits release_failure.splits
          intro!: discard_inv answer_inv)
  qed
qed

lemma allocate_buffer_command_inv:
  assumes inv: "engine_inv cp"
  shows "engine_inv (after (dispatch_allocate_buffer cp alloc response k w request_id context_id desc))"
proof -
  have s: "state_inv (cp_state cp)"
    using engine_inv_consistent [OF inv] by (simp add: consistent_def)
  obtain r s' w' where run: "create_buffer_with (alloc Reserve_Table) context_id desc (allocate_parts (cp_accelerator cp))
      (cp_state cp) w = (r, s', w')"
    using prod_cases3 by blast
  have s': "state_inv s'" "state_advances (cp_state cp) s'"
    using create_buffer_inv [OF s run] by blast+
  note P = create_buffer_phase [OF s run]
  show ?thesis
  proof (cases r)
    case (Inl e)
    then show ?thesis
      using P inv by (auto simp: dispatch_allocate_buffer_def run split: sum.splits intro!: answer_inv)
  next
    case (Inr outcome)
    show ?thesis
    proof (cases outcome)
      case (BCO_Admitted oid)
      have "engine_inv (cp\<lparr>cp_state := s'\<rparr>)"
        by (rule engine_inv_state [OF inv s'])
          (use P s'(2) Inr BCO_Admitted settled_set_phase [of "cp_state cp" s' OK_Buffer oid "Some Live"] in
            \<open>auto simp: creates_def backing_ok_def state_advances_def\<close>)
      then show ?thesis
        using inv Inr BCO_Admitted by (auto simp: dispatch_allocate_buffer_def run split: sum.splits intro!: answer_inv)
    next
      case (BCO_CleanupRequired oid e)
      then obtain v where "creates OK_Buffer oid (cp_state cp) s'" "buffers_of s' = (buffers_of (cp_state cp))(oid \<mapsto> v)"
        using P Inr by auto
      from release_unpublished_inv [OF inv s' this] show ?thesis
        using inv Inr BCO_CleanupRequired
        by (auto simp: dispatch_allocate_buffer_def run split: sum.splits intro!: answer_inv)
    qed
  qed
qed

lemma submit_inv:
  assumes inv: "engine_inv cp"
  shows "engine_inv (after (submit cp alloc response k w request_id queue_id program_id bindings timeout))"
proof -
  have s: "state_inv (cp_state cp)"
    using engine_inv_consistent [OF inv] by (simp add: consistent_def)
  obtain r s' w' st d where run: "create_event_with (alloc Reserve_Table) queue_id program_id (map db_buffer_id bindings)
      (admit_submission (cp_accelerator cp) (alloc Reserve_Bindings) bindings
        (max_bindings_per_submission (di_limits (cp_info cp))) timeout)
      (cp_state cp) (w, STATUS_OK, False) = (r, s', w', st, d)"
    using prod_cases5 by blast
  have "engine_inv (cp\<lparr>cp_state := s'\<rparr>)"
    using create_event_outcome [OF s run] create_event_phase [OF s run] inv
    by (cases r) (auto intro: engine_inv_created)
  then show ?thesis
    using inv unfolding submit_def run
    by (auto simp: Let_def split: sum.splits create_error.splits submit_create_error.splits
        intro!: answer_inv discard_inv)
qed

section \<open>Every command\<close>

lemma dispatch_inv:
  assumes "engine_inv cp"
  shows "engine_inv (after (dispatch cp alloc response k w request_id body))"
  using assms
  by (cases body) (simp_all add: answer_inv release_commands_inv event_commands_inv write_buffer_inv_engine
      read_buffer_inv create_context_command_inv create_queue_command_inv load_program_command_inv
      allocate_buffer_command_inv submit_inv)

lemma process_inv:
  assumes inv: "engine_inv cp"
  shows "engine_inv (after (process cp alloc regions request response k w))"
proof -
  have "engine_inv (cp\<lparr>cp_last_reset := None\<rparr>)"
    using inv by (simp add: engine_inv_def orderly_def consistent_def configured_def)
  then show ?thesis
    using inv unfolding process_def
    by (auto split: prod.splits sum.splits frame_preflight.splits intro!: answer_inv dispatch_inv)
qed

lemma device_state_new_any:
  assumes "device_state_new namespace limits policy = Inr (s :: ('c, 'b, 'p, 'q, 'e) ds)"
  shows "\<exists>s' :: ('c, 'b, 'p, 'q, 'e) ds. device_state_new namespace' limits policy = Inr s'"
  using assms by (auto simp: device_state_new_def split: if_splits)

lemma fresh_settled:
  assumes "device_state_new namespace limits policy = Inr s"
  shows "settled s" "backing_ok s"
proof -
  obtain b p q e where "s = \<lparr>ds_namespace = namespace, ds_limits = limits, ds_policy = policy,
       ds_retained = retained_bytes_default,
       ds_contexts = table_with_namespace OK_Context (max_contexts limits) namespace,
       ds_buffers = table_with_namespace OK_Buffer b namespace,
       ds_programs = table_with_namespace OK_Program p namespace,
       ds_queues = table_with_namespace OK_Queue q namespace,
       ds_events = table_with_namespace OK_Event e namespace\<rparr>"
    using device_state_new_fields(4) [OF assms] by blast
  then have "phase s kind x = None" "rt_buffer_backing (ds_retained s) = 0" for kind x
    by (cases kind; simp add: table_phase_def table_lookup_new retained_bytes_default_def)+
  then show "settled s" "backing_ok s"
    by (simp_all add: settled_def backing_ok_def)
qed

lemma processor_new_inv:
  assumes "processor_new accelerator config namespace policy w = (Inr cp, w')"
  shows "engine_inv cp" "cp_health cp = Running"
proof -
  obtain info limits s where new: "device_info_validate info = Inr ()" "decoder_limits_new config info = Inr limits"
      "device_state_new namespace (di_limits info) policy = Inr s"
      "cp = \<lparr>cp_state = s, cp_accelerator = accelerator, cp_info = info, cp_policy = policy,
         cp_decoder = limits, cp_health = Running, cp_quarantined = resource_counts_default,
         cp_quarantined_bytes = retained_bytes_default, cp_last_reset = None\<rparr>"
    using assms by (auto simp: processor_new_def split: sum.splits prod.splits)
  then show "cp_health cp = Running"
    by simp
  show "engine_inv cp"
    using new device_state_new_inv [OF new(3)] device_state_new_fields(2,3) [OF new(3)] fresh_settled [OF new(3)]
      device_state_new_any [OF new(3)]
    by (auto simp: engine_inv_def consistent_def configured_def orderly_def)
qed

end
