(* ===== verification/Engine_Recovery.thy ===== *)
theory Engine_Recovery
  imports Engine_Inv
begin

text \<open>
  What a reset pass does. Every object that was live before the pass is afterwards either counted
  as released or still in the graph, with its bytes; the engine runs again exactly when the pass
  drained the whole graph; and a backend that completes its events and accepts every release is
  always drained, because events go first and contexts last.
\<close>

section \<open>Counting objects\<close>

fun rc_of :: "object_kind \<Rightarrow> resource_counts \<Rightarrow> u64" where
  "rc_of OK_Context = rc_contexts"
| "rc_of OK_Buffer = rc_buffers"
| "rc_of OK_Program = rc_programs"
| "rc_of OK_Queue = rc_queues"
| "rc_of OK_Event = rc_events"

definition live_count :: "('c, 'b, 'p, 'q, 'e) ds \<Rightarrow> object_kind \<Rightarrow> nat" where
  "live_count s kind = card (dom (phase s kind))"

lemma table_phase_dom [simp]: "dom (table_phase slot_of t) = dom (table_lookup t)"
  by (auto simp: table_phase_def)

lemma phase_finite:
  assumes "state_inv s"
  shows "finite (dom (phase s kind))"
  using tbl.count_lookups [OF state_invD(1) [OF assms]] tbl.count_lookups [OF state_invD(2) [OF assms]]
    tbl.count_lookups [OF state_invD(3) [OF assms]] tbl.count_lookups [OF state_invD(4) [OF assms]]
    tbl.count_lookups [OF state_invD(5) [OF assms]]
  by (cases kind) simp_all

lemma live_count_resources:
  assumes "state_inv s"
  shows "unat (rc_of kind (ds_resource_counts s)) = live_count s kind"
proof -
  note D = state_invD [OF assms]
  show ?thesis
    using tbl.count_lookups [OF D(1)] tbl.count_lookups [OF D(2)] tbl.count_lookups [OF D(3)]
      tbl.count_lookups [OF D(4)] tbl.count_lookups [OF D(5)]
    by (cases kind) (simp_all add: ds_resource_counts_def live_count_def table_len_def)
qed

lemma live_count_less:
  assumes "state_inv s"
  shows "live_count s kind < 2 ^ 32"
proof -
  have "unat (rc_of kind (ds_resource_counts s)) < 2 ^ 32"
    using unat_u32_less by (cases kind) (simp_all add: ds_resource_counts_def)
  then show ?thesis
    by (simp add: live_count_resources [OF assms])
qed

lemma live_count_removed:
  assumes "finite (dom (phase s kind))" "phase s kind oid \<noteq> None" "phase s' = set_phase kind oid None (phase s)"
  shows "live_count s k = live_count s' k + of_bool (k = kind)"
proof (cases "k = kind")
  case True
  have "oid \<in> dom (phase s kind)"
    using assms(2) by blast
  then have "Suc (card (dom (phase s kind) - {oid})) = card (dom (phase s kind))"
    by (rule card_Suc_Diff1 [OF assms(1)])
  then show ?thesis
    using True assms(3) by (simp add: live_count_def set_phase_def del: phase.simps)
next
  case False
  then show ?thesis
    using assms(3) by (simp add: live_count_def set_phase_def del: phase.simps)
qed

lemma live_count_same: "phase s' = phase s \<Longrightarrow> live_count s' k = live_count s k"
  by (simp add: live_count_def)

lemma live_count_moved:
  assumes "phase s kind oid \<noteq> None" "phase s' = set_phase kind oid (Some p) (phase s)"
  shows "live_count s' k = live_count s k"
proof -
  have "dom ((phase s kind)(oid \<mapsto> p)) = dom (phase s kind)"
    using assms(1) by auto
  then show ?thesis
    using assms(2) by (simp add: live_count_def set_phase_def del: phase.simps)
qed

section \<open>One release of a pass\<close>

text \<open>
  The accounting of a pass from the state \<open>s0\<close> it started in: an object is released or still
  there, never both, and so are its bytes.
\<close>

definition accounted ::
  "('c, 'b, 'p, 'q, 'e) ds \<Rightarrow> ('c, 'b, 'p, 'q, 'e, 'w) ru \<Rightarrow> bool" where
  "accounted s0 x \<longleftrightarrow> state_inv (ru_state x) \<and> state_advances s0 (ru_state x)
     \<and> (\<forall>kind. unat (rc_of kind (ru_released x)) + live_count (ru_state x) kind = live_count s0 kind)
     \<and> unat (rt_buffer_backing (ru_released_bytes x)) + unat (rt_buffer_backing (ds_retained (ru_state x)))
         = unat (rt_buffer_backing (ds_retained s0))
     \<and> unat (rt_program_resident (ru_released_bytes x)) + unat (rt_program_resident (ds_retained (ru_state x)))
         = unat (rt_program_resident (ds_retained s0))"

lemma note_fields [simp]:
  "ru_world (not_reusable x) = ru_world x" "ru_world (not_callable x) = ru_world x" "ru_world (note_error e x) = ru_world x"
  "ru_released (not_reusable x) = ru_released x" "ru_released (not_callable x) = ru_released x"
  "ru_released (note_error e x) = ru_released x"
  "ru_released_bytes (not_reusable x) = ru_released_bytes x" "ru_released_bytes (not_callable x) = ru_released_bytes x"
  "ru_released_bytes (note_error e x) = ru_released_bytes x"
  "\<not> pg_backend_reusable (ru_progress (not_reusable x))"
  "pg_backend_reusable (ru_progress (not_callable x)) = pg_backend_reusable (ru_progress x)"
  "\<not> pg_backend_reusable (ru_progress (note_error e x))"
  "\<not> pg_backend_callable (ru_progress (not_callable x))"
  "pg_backend_callable (ru_progress (not_reusable x)) = pg_backend_callable (ru_progress x)"
  by (simp_all add: not_reusable_def not_callable_def note_error_def)

lemma accounted_note [simp]:
  "accounted s0 (not_reusable x) = accounted s0 x" "accounted s0 (not_callable x) = accounted s0 x"
  "accounted s0 (note_error e x) = accounted s0 x"
  by (simp_all add: accounted_def)

lemma accounted_same:
  assumes "accounted s0 x" "state_inv s" "state_advances (ru_state x) s" "\<And>kind. live_count s kind = live_count (ru_state x) kind"
    "ds_retained s = ds_retained (ru_state x)"
  shows "accounted s0 (x\<lparr>ru_state := s, ru_world := w\<rparr>)"
  using assms state_advances_trans by (auto simp: accounted_def)

lemma accounted_world [simp]: "accounted s0 (x\<lparr>ru_world := w\<rparr>) = accounted s0 x"
  by (simp add: accounted_def)

text \<open>The rounds of all loops have one shape.\<close>

definition round_flow ::
  "(('c, 'b, 'p, 'q, 'e) ds \<Rightarrow> object_id \<Rightarrow> (device_state_error + 'r) \<times> ('c, 'b, 'p, 'q, 'e) ds)
    \<Rightarrow> (('c, 'b, 'p, 'q, 'e) ds \<Rightarrow> object_id \<Rightarrow> 'r \<Rightarrow> ((device_state_error \<times> 'r) + unit) \<times> ('c, 'b, 'p, 'q, 'e) ds)
    \<Rightarrow> (('c, 'b, 'p, 'q, 'e) ds \<Rightarrow> object_id \<Rightarrow> (device_state_error + unit) \<times> ('c, 'b, 'p, 'q, 'e) ds)
    \<Rightarrow> ('r \<Rightarrow> 'w \<Rightarrow> ('r release_failure + unit) \<times> 'w)
    \<Rightarrow> (('c, 'b, 'p, 'q, 'e) ds \<Rightarrow> 'w \<Rightarrow> ('c, 'b, 'p, 'q, 'e, 'w) ru)
    \<Rightarrow> object_id \<Rightarrow> ('c, 'b, 'p, 'q, 'e, 'w) ru \<Rightarrow> loop_control \<times> ('c, 'b, 'p, 'q, 'e, 'w) ru" where
  "round_flow begin_release restore_release commit_release destroy tally oid x =
     (case begin_release (ru_state x) oid of
        (Inl _, s) \<Rightarrow> (Proceed, not_reusable (x\<lparr>ru_state := s\<rparr>))
      | (Inr h, s) \<Rightarrow>
        (case destroy h (ru_world x) of
           (Inr _, w) \<Rightarrow>
             (case commit_release s oid of
                (Inr _, s') \<Rightarrow> (Proceed, tally s' w)
              | (Inl _, s') \<Rightarrow> (Leave, not_callable (not_reusable (x\<lparr>ru_state := s', ru_world := w\<rparr>))))
         | (Inl (RF_Rejected e h'), w) \<Rightarrow>
             (case restore_release s oid h' of
                (Inr _, s') \<Rightarrow> (Proceed, note_error e (x\<lparr>ru_state := s', ru_world := w\<rparr>))
              | (Inl _, s') \<Rightarrow> (Leave, not_callable (note_error e (x\<lparr>ru_state := s', ru_world := w\<rparr>))))
         | (Inl (RF_Indeterminate _), w) \<Rightarrow>
             (Leave, not_callable (not_reusable (x\<lparr>ru_state := s, ru_world := w\<rparr>)))))"

lemma queue_round_flow:
  "reset_queue_round accelerator oid x = round_flow begin_queue_release restore_queue_release commit_queue_release
     (ac_destroy_queue accelerator) (\<lambda>s w. x\<lparr>ru_state := s, ru_world := w, ru_released := (ru_released x)
       \<lparr>rc_queues := rc_queues (ru_released x) + 1\<rparr>\<rparr>) oid x"
  unfolding reset_queue_round_def round_flow_def by (rule refl)

lemma context_round_flow:
  "reset_context_round accelerator oid x = round_flow begin_context_release restore_context_release commit_context_release
     (ac_destroy_context accelerator) (\<lambda>s w. x\<lparr>ru_state := s, ru_world := w, ru_released := (ru_released x)
       \<lparr>rc_contexts := rc_contexts (ru_released x) + 1\<rparr>\<rparr>) oid x"
  unfolding reset_context_round_def round_flow_def by (rule refl)

lemma program_round_flow:
  "reset_program_round accelerator oid x =
     (case ds_program_record (ru_state x) oid of
        Inl _ \<Rightarrow> (Proceed, not_reusable x)
      | Inr record \<Rightarrow> round_flow begin_program_release restore_program_release commit_program_release
          (ac_unload_program accelerator) (\<lambda>s w. x\<lparr>ru_state := s, ru_world := w, ru_released := (ru_released x)
            \<lparr>rc_programs := rc_programs (ru_released x) + 1\<rparr>, ru_released_bytes := (ru_released_bytes x)
            \<lparr>rt_program_resident := rt_program_resident (ru_released_bytes x) + ucast (pr_resident_bytes record)\<rparr>\<rparr>) oid x)"
  unfolding reset_program_round_def round_flow_def by (rule refl)

lemma buffer_round_flow:
  "reset_buffer_round accelerator oid x =
     (case ds_buffer_record (ru_state x) oid of
        Inl _ \<Rightarrow> (Proceed, not_reusable x)
      | Inr record \<Rightarrow> round_flow begin_buffer_release restore_buffer_release commit_buffer_release
          (ac_free_buffer accelerator) (\<lambda>s w. x\<lparr>ru_state := s, ru_world := w, ru_released := (ru_released x)
            \<lparr>rc_buffers := rc_buffers (ru_released x) + 1\<rparr>, ru_released_bytes := (ru_released_bytes x)
            \<lparr>rt_buffer_backing := rt_buffer_backing (ru_released_bytes x) + ucast (bi_allocation_bytes (bu_info record))\<rparr>\<rparr>) oid x)"
  unfolding reset_buffer_round_def round_flow_def by (rule refl)

lemma event_round_flow:
  "reset_event_release accelerator oid x = snd (round_flow begin_event_release restore_event_release commit_event_release
     (ac_destroy_event accelerator) (\<lambda>s w. x\<lparr>ru_state := s, ru_world := w, ru_released := (ru_released x)
       \<lparr>rc_events := rc_events (ru_released x) + 1\<rparr>\<rparr>) oid x)"
  unfolding reset_event_release_def round_flow_def
  by (simp add: prod.case_distrib [of snd] sum.case_distrib [of snd] release_failure.case_distrib [of snd]
      cong: sum.case_cong prod.case_cong release_failure.case_cong)

lemma accounted_tally:
  assumes acc: "accounted s0 x" and s: "state_inv s" "state_advances (ru_state x) s"
    and com: "commits kind oid (ru_state x) s" "phase (ru_state x) kind oid \<noteq> None"
    and y: "ru_state y = s" "\<And>k. unat (rc_of k (ru_released y)) = unat (rc_of k (ru_released x)) + of_bool (k = kind)"
      "unat (rt_buffer_backing (ru_released_bytes y))
        = unat (rt_buffer_backing (ru_released_bytes x)) + buffer_charge (ru_state x) kind oid"
      "unat (rt_program_resident (ru_released_bytes y))
        = unat (rt_program_resident (ru_released_bytes x)) + program_charge (ru_state x) kind oid"
  shows "accounted s0 y"
proof -
  have "state_inv (ru_state x)"
    using acc by (simp add: accounted_def)
  from live_count_removed [OF phase_finite [OF this] com(2), of s] com(1)
  have live: "live_count (ru_state x) k = live_count s k + of_bool (k = kind)" for k
    by (simp add: commits_def)
  have before: "unat (rc_of k (ru_released x)) + live_count (ru_state x) k = live_count s0 k" for k
    using acc by (simp add: accounted_def)
  have "unat (rc_of k (ru_released y)) + live_count s k = live_count s0 k" for k
    using y(2) [of k] live [of k] before [of k] by linarith
  moreover have "state_advances s0 s"
    using acc s(2) state_advances_trans by (auto simp: accounted_def)
  ultimately show ?thesis
    using acc s(1) com(1) y(3,4) unfolding accounted_def y(1) commits_def by simp
qed

lemma accounted_room:
  assumes "accounted s0 x" "phase (ru_state x) kind oid \<noteq> None" "state_inv s0"
  shows "unat (rc_of kind (ru_released x) + 1) = unat (rc_of kind (ru_released x)) + 1"
proof -
  have "unat (rc_of kind (ru_released x)) \<le> live_count s0 kind"
    using assms(1) by (metis accounted_def le_add1)
  then have "unat (rc_of kind (ru_released x)) < 2 ^ 32"
    using live_count_less [OF assms(3), of kind] by simp
  then show ?thesis
    by (subst unat_add_no_overflow) simp_all
qed

lemma accounted_bytes_room:
  assumes "accounted s0 x" "commits kind oid (ru_state x) s"
  shows "unat (b :: u64) = buffer_charge (ru_state x) kind oid \<Longrightarrow>
      unat (rt_buffer_backing (ru_released_bytes x) + ucast b) = unat (rt_buffer_backing (ru_released_bytes x)) + unat b"
    "unat (b :: u64) = program_charge (ru_state x) kind oid \<Longrightarrow>
      unat (rt_program_resident (ru_released_bytes x) + ucast b) = unat (rt_program_resident (ru_released_bytes x)) + unat b"
proof -
  have small: "unat c < 2 ^ 128" for c :: u128
    using unsigned_less [of c] by simp
  have wide: "unat (ucast b :: u128) = unat b"
    using unat_u64_less [of b] by (simp add: unsigned_ucast_eq take_bit_nat_eq_self)
  show "unat (b :: u64) = buffer_charge (ru_state x) kind oid \<Longrightarrow>
      unat (rt_buffer_backing (ru_released_bytes x) + ucast b) = unat (rt_buffer_backing (ru_released_bytes x)) + unat b"
    using assms small [of "rt_buffer_backing (ds_retained s0)"]
    by (subst unat_add_no_overflow) (simp_all add: accounted_def commits_def wide)
  show "unat (b :: u64) = program_charge (ru_state x) kind oid \<Longrightarrow>
      unat (rt_program_resident (ru_released_bytes x) + ucast b) = unat (rt_program_resident (ru_released_bytes x)) + unat b"
    using assms small [of "rt_program_resident (ds_retained s0)"]
    by (subst unat_add_no_overflow) (simp_all add: accounted_def commits_def wide)
qed

context release_protocol
begin

lemma round_flow_cases:
  fixes x :: "('c, 'b, 'p, 'q, 'e, 'w) ru"
  assumes inv: "state_inv (ru_state x)"
  obtains
    (refused) "round_flow begin_release restore_release commit_release destroy tally oid x = (Proceed, not_reusable x)"
  | (released) s w where "state_inv s" "state_advances (ru_state x) s" "commits kind oid (ru_state x) s"
      "phase (ru_state x) kind oid \<noteq> None"
      "round_flow begin_release restore_release commit_release destroy tally oid x = (Proceed, tally s w)"
  | (rejected) s w e where "state_inv s" "state_advances (ru_state x) s" "phase s = phase (ru_state x)"
      "ds_retained s = ds_retained (ru_state x)"
      "round_flow begin_release restore_release commit_release destroy tally oid x
        = (Proceed, note_error e (x\<lparr>ru_state := s, ru_world := w\<rparr>))"
  | (unknown) s w where "state_inv s" "state_advances (ru_state x) s" "begins kind oid (ru_state x) s"
      "round_flow begin_release restore_release commit_release destroy tally oid x
        = (Leave, not_callable (not_reusable (x\<lparr>ru_state := s, ru_world := w\<rparr>)))"
proof (cases "begin_release (ru_state x) oid")
  case (Pair r s1)
  show thesis
  proof (cases r)
    case (Inl e)
    then have "s1 = ru_state x"
      using begin_refused [OF inv] Pair by blast
    with Pair Inl refused show thesis
      by (simp add: round_flow_def)
  next
    case (Inr h)
    note run = Pair [unfolded Inr]
    note B = begun [OF inv run] and bg = begin_ok [OF inv run]
    obtain s3 where s3: "commit_release s1 oid = (Inr (), s3)" "state_inv s3" "state_advances (ru_state x) s3"
        "commits kind oid (ru_state x) s3"
      using B(5) by blast
    obtain d w where d: "destroy h (ru_world x) = (d, w)"
      by fastforce
    show thesis
    proof (cases d)
      case (Inl f)
      show thesis
      proof (cases f)
        case (RF_Rejected e h')
        obtain s2 where "restore_release s1 oid h' = (Inr (), s2)" "state_inv s2" "state_advances (ru_state x) s2"
            "phase s2 = phase (ru_state x)" "ds_retained s2 = ds_retained (ru_state x)"
          using B(4) [of h'] by blast
        with rejected [of s2 e w] show thesis
          using run d Inl RF_Rejected by (simp add: round_flow_def)
      next
        case (RF_Indeterminate e)
        with unknown [of s1 w] show thesis
          using run d Inl bg by (simp add: round_flow_def)
      qed
    next
      case (Inr u)
      with released [of s3 w] show thesis
        using run d s3 bg by (simp add: round_flow_def begins_def)
    qed
  qed
qed

lemma round_flow_accounted:
  assumes acc: "accounted s0 x"
    and tally: "\<And>s w. state_inv s \<Longrightarrow> state_advances (ru_state x) s \<Longrightarrow> commits kind oid (ru_state x) s \<Longrightarrow>
      phase (ru_state x) kind oid \<noteq> None \<Longrightarrow> accounted s0 (tally s w)"
  shows "accounted s0 (snd (round_flow begin_release restore_release commit_release destroy tally oid x))"
proof -
  have inv: "state_inv (ru_state x)"
    using acc by (simp add: accounted_def)
  show ?thesis
  proof (cases rule: round_flow_cases [OF inv, of destroy tally oid, case_names refused released rejected unknown])
    case refused
    then show ?thesis
      using acc by simp
  next
    case (released s w)
    then show ?thesis
      using tally [of s w] by simp
  next
    case (rejected s w e)
    then show ?thesis
      using accounted_same [OF acc rejected(1,2)] live_count_same [OF rejected(3)] by simp
  next
    case (unknown s w)
    then show ?thesis
      using accounted_same [OF acc unknown(1,2)] live_count_moved [of "ru_state x" kind oid s Releasing]
      by (simp add: begins_def del: phase.simps)
  qed
qed

end

lemma queue_round_accounted:
  assumes acc: "accounted s0 x" and s0: "state_inv s0"
  shows "accounted s0 (snd (reset_queue_round accelerator oid x))"
  unfolding queue_round_flow
proof (rule qup.round_flow_accounted [OF acc])
  fix s w
  assume H: "state_inv s" "state_advances (ru_state x) s" "commits OK_Queue oid (ru_state x) s"
    "phase (ru_state x) OK_Queue oid \<noteq> None"
  show "accounted s0 (x\<lparr>ru_state := s, ru_world := w, ru_released := (ru_released x)
      \<lparr>rc_queues := rc_queues (ru_released x) + 1\<rparr>\<rparr>)" (is "accounted s0 ?y")
  proof (rule accounted_tally [OF acc H])
    show "unat (rc_of k (ru_released ?y)) = unat (rc_of k (ru_released x)) + of_bool (k = OK_Queue)" for k
      using accounted_room [OF acc H(4) s0] by (cases k) simp_all
  qed (simp_all add: buffer_charge_def program_charge_def)
qed

lemma context_round_accounted:
  assumes acc: "accounted s0 x" and s0: "state_inv s0"
  shows "accounted s0 (snd (reset_context_round accelerator oid x))"
  unfolding context_round_flow
proof (rule cxp.round_flow_accounted [OF acc])
  fix s w
  assume H: "state_inv s" "state_advances (ru_state x) s" "commits OK_Context oid (ru_state x) s"
    "phase (ru_state x) OK_Context oid \<noteq> None"
  show "accounted s0 (x\<lparr>ru_state := s, ru_world := w, ru_released := (ru_released x)
      \<lparr>rc_contexts := rc_contexts (ru_released x) + 1\<rparr>\<rparr>)" (is "accounted s0 ?y")
  proof (rule accounted_tally [OF acc H])
    show "unat (rc_of k (ru_released ?y)) = unat (rc_of k (ru_released x)) + of_bool (k = OK_Context)" for k
      using accounted_room [OF acc H(4) s0] by (cases k) simp_all
  qed (simp_all add: buffer_charge_def program_charge_def)
qed

lemma event_round_accounted:
  assumes acc: "accounted s0 x" and s0: "state_inv s0"
  shows "accounted s0 (reset_event_release accelerator oid x)"
  unfolding event_round_flow
proof (rule evp.round_flow_accounted [OF acc])
  fix s w
  assume H: "state_inv s" "state_advances (ru_state x) s" "commits OK_Event oid (ru_state x) s"
    "phase (ru_state x) OK_Event oid \<noteq> None"
  show "accounted s0 (x\<lparr>ru_state := s, ru_world := w, ru_released := (ru_released x)
      \<lparr>rc_events := rc_events (ru_released x) + 1\<rparr>\<rparr>)" (is "accounted s0 ?y")
  proof (rule accounted_tally [OF acc H])
    show "unat (rc_of k (ru_released ?y)) = unat (rc_of k (ru_released x)) + of_bool (k = OK_Event)" for k
      using accounted_room [OF acc H(4) s0] by (cases k) simp_all
  qed (simp_all add: buffer_charge_def program_charge_def)
qed

lemma program_round_accounted:
  assumes acc: "accounted s0 x" and s0: "state_inv s0"
  shows "accounted s0 (snd (reset_program_round accelerator oid x))"
proof (cases "ds_program_record (ru_state x) oid")
  case (Inr v)
  have "accounted s0 (x\<lparr>ru_state := s, ru_world := w, ru_released := (ru_released x)
      \<lparr>rc_programs := rc_programs (ru_released x) + 1\<rparr>, ru_released_bytes := (ru_released_bytes x)
      \<lparr>rt_program_resident := rt_program_resident (ru_released_bytes x) + ucast (pr_resident_bytes v)\<rparr>\<rparr>)" (is "accounted s0 ?y")
    if H: "state_inv s" "state_advances (ru_state x) s" "commits OK_Program oid (ru_state x) s"
      "phase (ru_state x) OK_Program oid \<noteq> None" for s w
  proof (rule accounted_tally [OF acc H])
    show "unat (rc_of k (ru_released ?y)) = unat (rc_of k (ru_released x)) + of_bool (k = OK_Program)" for k
      using accounted_room [OF acc H(4) s0] by (cases k) simp_all
  qed (use Inr accounted_bytes_room(2) [OF acc H(3), of "pr_resident_bytes v"] in
      \<open>simp_all add: buffer_charge_def program_charge_def\<close>)
  then show ?thesis
    unfolding program_round_flow Inr sum.case by (rule prp.round_flow_accounted [OF acc])
qed (use acc in \<open>simp add: program_round_flow\<close>)

lemma buffer_round_accounted:
  assumes acc: "accounted s0 x" and s0: "state_inv s0"
  shows "accounted s0 (snd (reset_buffer_round accelerator oid x))"
proof (cases "ds_buffer_record (ru_state x) oid")
  case (Inr v)
  have "accounted s0 (x\<lparr>ru_state := s, ru_world := w, ru_released := (ru_released x)
      \<lparr>rc_buffers := rc_buffers (ru_released x) + 1\<rparr>, ru_released_bytes := (ru_released_bytes x)
      \<lparr>rt_buffer_backing := rt_buffer_backing (ru_released_bytes x) + ucast (bi_allocation_bytes (bu_info v))\<rparr>\<rparr>)" (is "accounted s0 ?y")
    if H: "state_inv s" "state_advances (ru_state x) s" "commits OK_Buffer oid (ru_state x) s"
      "phase (ru_state x) OK_Buffer oid \<noteq> None" for s w
  proof (rule accounted_tally [OF acc H])
    show "unat (rc_of k (ru_released ?y)) = unat (rc_of k (ru_released x)) + of_bool (k = OK_Buffer)" for k
      using accounted_room [OF acc H(4) s0] by (cases k) simp_all
  qed (use Inr accounted_bytes_room(1) [OF acc H(3), of "bi_allocation_bytes (bu_info v)"] in
      \<open>simp_all add: buffer_charge_def program_charge_def\<close>)
  then show ?thesis
    unfolding buffer_round_flow Inr sum.case by (rule bup.round_flow_accounted [OF acc])
qed (use acc in \<open>simp add: buffer_round_flow\<close>)

section \<open>The loops\<close>

text \<open>The slot an identifier points to, and what the cursor of a loop knows about the slots.\<close>

definition id_index :: "object_id \<Rightarrow> nat" where
  "id_index oid = unat (id_slot_number oid - 1)"

lemma id_index_at:
  assumes "table_wf t" "i < slot_count t"
  shows "id_index (table_id_at t i) = i"
  using table_wf_index [OF assms] by (simp add: id_index_def table_id_at_def id_slot_number_new)

lemma next_id_None_empty:
  assumes "table_wf t" "table_next_id_from t start = None" "\<And>oid. oid \<in> dom (table_lookup t) \<Longrightarrow> start \<le> id_index oid"
  shows "dom (table_lookup t) = {}"
proof (rule ccontr)
  assume "dom (table_lookup t) \<noteq> {}"
  then obtain oid v where "table_lookup t oid = Some v"
    by blast
  then obtain i where i: "i < slot_count t" "oid = table_id_at t i" "sl_value (ot_slots t ! i) = Some v"
    using table_lookup_Some [OF assms(1)] by blast
  then have "start \<le> i"
    using assms(3) [of oid] \<open>table_lookup t oid = Some v\<close> id_index_at [OF assms(1) i(1)] by auto
  then show False
    using table_next_id_from_None [OF assms(1,2) _ i(1)] i(3) by simp
qed

lemma next_id_Some_first:
  assumes wf: "table_wf t" and next_id: "table_next_id_from t start = Some (next, oid)"
    and below: "\<And>oid'. oid' \<in> dom (table_lookup t) \<Longrightarrow> start \<le> id_index oid'"
  shows "oid \<in> dom (table_lookup t)" "\<And>oid'. oid' \<in> dom (table_lookup t) \<Longrightarrow> oid' \<noteq> oid \<Longrightarrow> next \<le> id_index oid'"
proof -
  note N = table_next_id_from_Some [OF wf next_id]
  then show "oid \<in> dom (table_lookup t)"
    by auto
  fix oid'
  assume o: "oid' \<in> dom (table_lookup t)" "oid' \<noteq> oid"
  then obtain v i where i: "i < slot_count t" "oid' = table_id_at t i" "sl_value (ot_slots t ! i) = Some v"
    using table_lookup_Some [OF wf] by blast
  have "start \<le> i" "i \<noteq> next - 1"
    using below [OF o(1)] id_index_at [OF wf i(1)] i(2) o(2) N by auto
  moreover have "slot_present (ot_slots t ! i)"
    using i(3) table_wf_slot(2) [OF wf i(1)] by (auto simp: slot_present_def)
  ultimately have "\<not> i < next - 1"
    using next_id i(1) by (auto simp: table_next_id_from_def find_Some_iff nth_upt)
      (metis add_diff_inverse_nat le_add_diff_inverse nat_add_left_cancel_less not_less)
  then show "next \<le> id_index oid'"
    using \<open>i \<noteq> next - 1\<close> N id_index_at [OF wf i(1)] i(2) by simp
qed

text \<open>A loop over one table: how it walks, and what a round of it leaves in place.\<close>

locale reset_loop =
  fixes kind :: object_kind
    and table_of :: "('c, 'b, 'p, 'q, 'e) ds \<Rightarrow> 'v object_table"
    and slot_of :: "'v \<Rightarrow> 'r resource_slot"
    and round :: "object_id \<Rightarrow> ('c, 'b, 'p, 'q, 'e, 'w) ru \<Rightarrow> loop_control \<times> ('c, 'b, 'p, 'q, 'e, 'w) ru"
    and loop :: "nat \<Rightarrow> ('c, 'b, 'p, 'q, 'e, 'w) ru \<Rightarrow> ('c, 'b, 'p, 'q, 'e, 'w) ru"
  assumes phase_table: "phase s kind = table_phase slot_of (table_of s)"
    and table_inv: "state_inv s \<Longrightarrow> table_wf (table_of s)"
    and round_slot_count: "slot_count (table_of (ru_state (snd (round oid x)))) = slot_count (table_of (ru_state x))"
    and loop_step: "loop cursor x = (case table_next_id_from (table_of (ru_state x)) cursor of
        None \<Rightarrow> x
      | Some (next, oid) \<Rightarrow> (case round oid x of (Leave, x') \<Rightarrow> x' | (Proceed, x') \<Rightarrow> loop next x'))"
begin

lemma loop_cases:
  obtains (done_walking) "table_next_id_from (table_of (ru_state x)) cursor = None" "loop cursor x = x"
  | (left) "next" oid x' where "table_next_id_from (table_of (ru_state x)) cursor = Some (next, oid)"
      "round oid x = (Leave, x')" "loop cursor x = x'"
  | (proceeded) "next" oid x' where "table_next_id_from (table_of (ru_state x)) cursor = Some (next, oid)"
      "round oid x = (Proceed, x')" "loop cursor x = loop next x'"
      "slot_count (table_of (ru_state x')) - next < slot_count (table_of (ru_state x)) - cursor"
proof (cases "table_next_id_from (table_of (ru_state x)) cursor")
  case None
  then show thesis
    using done_walking loop_step by simp
next
  case (Some p)
  obtain nx oid c x' where p: "p = (nx, oid)" "round oid x = (c, x')"
    by (metis surj_pair)
  note N = next_id_forward [OF Some [unfolded p(1)]]
  have "slot_count (table_of (ru_state x')) = slot_count (table_of (ru_state x))"
    using round_slot_count [of oid x] p(2) by simp
  then show thesis
    using left [of nx oid x'] proceeded [of nx oid x'] N Some p loop_step [of cursor x] by (cases c) auto
qed

lemma loop_invariant:
  assumes "J x" "\<And>oid x. J x \<Longrightarrow> J (snd (round oid x))"
  shows "J (loop cursor x)"
  using assms(1)
proof (induction "slot_count (table_of (ru_state x)) - cursor" arbitrary: cursor x rule: less_induct)
  case less
  show ?case
  proof (cases rule: loop_cases [of x cursor, case_names none left proceeded])
    case (left nx oid x')
    then show ?thesis
      using assms(2) [OF less.prems, of oid] by simp
  next
    case (proceeded nx oid x')
    then show ?thesis
      using less.hyps [of x' nx] assms(2) [OF less.prems, of oid] by simp
  qed (use less.prems in simp)
qed

text \<open>A loop whose every round releases its object empties the table.\<close>

lemma loop_drains:
  assumes "J x" and inv: "\<And>x. J x \<Longrightarrow> state_inv (ru_state x)"
    and rel: "\<And>oid x. J x \<Longrightarrow> oid \<in> dom (phase (ru_state x) kind) \<Longrightarrow>
      \<exists>x'. round oid x = (Proceed, x') \<and> J x' \<and> phase (ru_state x') kind = (phase (ru_state x) kind)(oid := None)"
    and start: "\<And>oid. oid \<in> dom (phase (ru_state x) kind) \<Longrightarrow> cursor \<le> id_index oid"
  shows "J (loop cursor x) \<and> dom (phase (ru_state (loop cursor x)) kind) = {}"
  using assms(1) start
proof (induction "slot_count (table_of (ru_state x)) - cursor" arbitrary: cursor x rule: less_induct)
  case less
  note wf = table_inv [OF inv [OF less.prems(1)]]
  have dom_table: "dom (phase (ru_state y) kind) = dom (table_lookup (table_of (ru_state y)))" for y
    by (simp add: phase_table)
  show ?case
  proof (cases rule: loop_cases [of x cursor, case_names none left proceeded])
    case none
    then show ?thesis
      using next_id_None_empty [OF wf none(1)] less.prems by (simp add: dom_table)
  next
    case (left nx oid x')
    then show ?thesis
      using rel [OF less.prems(1), of oid] next_id_Some_first(1) [OF wf left(1)] less.prems(2) by (auto simp: dom_table)
  next
    case (proceeded nx oid x')
    note F = next_id_Some_first [OF wf proceeded(1)]
    have here: "oid \<in> dom (phase (ru_state x) kind)"
      using F(1) less.prems(2) by (simp add: dom_table)
    have x': "J x'" "phase (ru_state x') kind = (phase (ru_state x) kind)(oid := None)"
      using rel [OF less.prems(1) here] proceeded(2) by auto
    have "nx \<le> id_index oid'" if "oid' \<in> dom (phase (ru_state x') kind)" for oid'
      using that F(2) [of oid'] less.prems(2) by (auto simp: x'(2) dom_table split: if_splits)
    then show ?thesis
      using less.hyps [OF proceeded(4) x'(1)] proceeded(3) by simp
  qed
qed

end

text \<open>The round of the event loop checks first whether the backend may still be called.\<close>

definition reset_event_round ::
  "('c, 'b, 'p, 'q, 'e, 'k, 'w) accelerator \<Rightarrow> device_info \<Rightarrow> object_id \<Rightarrow> ('c, 'b, 'p, 'q, 'e, 'w) ru
    \<Rightarrow> loop_control \<times> ('c, 'b, 'p, 'q, 'e, 'w) ru" where
  "reset_event_round accelerator info oid x =
     (if pg_backend_callable (ru_progress x) then (Proceed, reset_event accelerator info oid x) else (Leave, x))"

interpretation evl: reset_loop OK_Event ds_events ev_resource "reset_event_round accelerator info"
    "reset_events accelerator info" for accelerator info
proof
  show "reset_events accelerator info cursor x = (case table_next_id_from (ds_events (ru_state x)) cursor of
      None \<Rightarrow> x
    | Some (next, oid) \<Rightarrow> (case reset_event_round accelerator info oid x of
        (Leave, x') \<Rightarrow> x' | (Proceed, x') \<Rightarrow> reset_events accelerator info next x'))" for cursor x
    by (subst reset_events.simps) (simp add: ds_next_event_id_def reset_event_round_def split: option.split)
qed (simp_all add: state_invD reset_event_slots reset_event_round_def)

interpretation qul: reset_loop OK_Queue ds_queues qu_resource "reset_queue_round accelerator" "reset_queues accelerator"
    for accelerator
proof
  show "reset_queues accelerator cursor x = (case table_next_id_from (ds_queues (ru_state x)) cursor of
      None \<Rightarrow> x
    | Some (next, oid) \<Rightarrow> (case reset_queue_round accelerator oid x of
        (Leave, x') \<Rightarrow> x' | (Proceed, x') \<Rightarrow> reset_queues accelerator next x'))" for cursor x
    by (subst reset_queues.simps) (simp add: ds_next_queue_id_def)
qed (simp_all add: state_invD round_slots)

interpretation prl: reset_loop OK_Program ds_programs pr_resource "reset_program_round accelerator" "reset_programs accelerator"
    for accelerator
proof
  show "reset_programs accelerator cursor x = (case table_next_id_from (ds_programs (ru_state x)) cursor of
      None \<Rightarrow> x
    | Some (next, oid) \<Rightarrow> (case reset_program_round accelerator oid x of
        (Leave, x') \<Rightarrow> x' | (Proceed, x') \<Rightarrow> reset_programs accelerator next x'))" for cursor x
    by (subst reset_programs.simps) (simp add: ds_next_program_id_def)
qed (simp_all add: state_invD round_slots)

interpretation bul: reset_loop OK_Buffer ds_buffers bu_resource "reset_buffer_round accelerator" "reset_buffers accelerator"
    for accelerator
proof
  show "reset_buffers accelerator cursor x = (case table_next_id_from (ds_buffers (ru_state x)) cursor of
      None \<Rightarrow> x
    | Some (next, oid) \<Rightarrow> (case reset_buffer_round accelerator oid x of
        (Leave, x') \<Rightarrow> x' | (Proceed, x') \<Rightarrow> reset_buffers accelerator next x'))" for cursor x
    by (subst reset_buffers.simps) (simp add: ds_next_buffer_id_def)
qed (simp_all add: state_invD round_slots)

interpretation cxl: reset_loop OK_Context ds_contexts cx_resource "reset_context_round accelerator" "reset_contexts accelerator"
    for accelerator
proof
  show "reset_contexts accelerator cursor x = (case table_next_id_from (ds_contexts (ru_state x)) cursor of
      None \<Rightarrow> x
    | Some (next, oid) \<Rightarrow> (case reset_context_round accelerator oid x of
        (Leave, x') \<Rightarrow> x' | (Proceed, x') \<Rightarrow> reset_contexts accelerator next x'))" for cursor x
    by (subst reset_contexts.simps) (simp add: ds_next_context_id_def)
qed (simp_all add: state_invD round_slots)

section \<open>The accounting of a pass\<close>

lemma reset_poll_accounted: "reset_poll accelerator oid x = (r, x') \<Longrightarrow> accounted s0 x' = accounted s0 x"
  by (auto simp: reset_poll_def split: prod.splits sum.splits)

lemma reset_settle_accounted: "reset_settle accelerator info oid x = (r, x') \<Longrightarrow> accounted s0 x' = accounted s0 x"
  by (auto simp: reset_settle_def split: prod.splits sum.splits option.splits if_splits
      dest!: reset_poll_accounted [where ?s0.0 = s0])

lemma reset_event_accounted:
  assumes "accounted s0 x" "state_inv s0"
  shows "accounted s0 (reset_event accelerator info oid x)"
proof -
  obtain r x1 where settle: "reset_settle accelerator info oid x = (r, x1)"
    by fastforce
  have "accounted s0 x1"
    using reset_settle_accounted [OF settle] assms(1) by simp
  then show ?thesis
    by (auto simp: reset_event_def settle event_round_accounted assms(2) split: option.splits)
qed

lemma loops_accounted:
  assumes s0: "state_inv s0" and x: "accounted s0 x"
  shows "accounted s0 (reset_events accelerator info cursor x)" "accounted s0 (reset_queues accelerator cursor x)"
    "accounted s0 (reset_programs accelerator cursor x)" "accounted s0 (reset_buffers accelerator cursor x)"
    "accounted s0 (reset_contexts accelerator cursor x)"
proof -
  have "accounted s0 (snd (reset_event_round accelerator info oid y))" if "accounted s0 y" for oid y
    using that by (simp add: reset_event_round_def reset_event_accounted [OF _ s0])
  from evl.loop_invariant [where J = "accounted s0", OF x this]
  show "accounted s0 (reset_events accelerator info cursor x)" .
  show "accounted s0 (reset_queues accelerator cursor x)"
    by (rule qul.loop_invariant [where J = "accounted s0", OF x queue_round_accounted [OF _ s0]])
  show "accounted s0 (reset_programs accelerator cursor x)"
    by (rule prl.loop_invariant [where J = "accounted s0", OF x program_round_accounted [OF _ s0]])
  show "accounted s0 (reset_buffers accelerator cursor x)"
    by (rule bul.loop_invariant [where J = "accounted s0", OF x buffer_round_accounted [OF _ s0]])
  show "accounted s0 (reset_contexts accelerator cursor x)"
    by (rule cxl.loop_invariant [where J = "accounted s0", OF x context_round_accounted [OF _ s0]])
qed

lemma reset_pass_accounted: "state_inv s0 \<Longrightarrow> accounted s0 x \<Longrightarrow> accounted s0 (reset_pass accelerator info x)"
  by (simp add: reset_pass_def Let_def loops_accounted)

text \<open>The pass as \<open>reset\<close> starts it.\<close>

definition reset_start :: "('c, 'b, 'p, 'q, 'e) ds \<Rightarrow> 'w \<Rightarrow> ('c, 'b, 'p, 'q, 'e, 'w) ru" where
  "reset_start s w = \<lparr>ru_state = s, ru_world = w, ru_released = resource_counts_default,
     ru_released_bytes = retained_bytes_default, ru_progress = reset_progress_default\<rparr>"

lemma reset_start_accounted: "state_inv s \<Longrightarrow> accounted s (reset_start s w)"
proof -
  have "unat (rc_of kind resource_counts_default) = 0" for kind
    by (cases kind) (simp_all add: resource_counts_default_def)
  then show "state_inv s \<Longrightarrow> accounted s (reset_start s w)"
    by (simp add: accounted_def reset_start_def retained_bytes_default_def)
qed

section \<open>A backend that cooperates is drained\<close>

fun terminal_state :: "event_state \<Rightarrow> bool" where
  "terminal_state ES_Pending = False"
| "terminal_state (ES_Failed e) = (e \<noteq> BE_DeviceLost)"
| "terminal_state _ = True"

text \<open>
  What a healthy backend promises: an event is terminal when it is polled or can be cancelled,
  where completion may win the race, and every release is accepted.
\<close>

definition settles :: "('c, 'b, 'p, 'q, 'e, 'k, 'w) accelerator \<Rightarrow> device_info \<Rightarrow> 'e \<Rightarrow> 'w \<Rightarrow> bool" where
  "settles accelerator info event w \<longleftrightarrow>
     (\<exists>state w1. ac_poll_event accelerator event w = (Inr state, w1)
        \<and> (terminal_state state
           \<or> state = ES_Pending \<and> flags_contain (di_capabilities info) EVENT_CANCELLATION
             \<and> ((\<exists>w2. ac_cancel_event accelerator event w1 = (Inr (), w2))
               \<or> (\<exists>w2 state' w3. ac_cancel_event accelerator event w1 = (Inl BE_Busy, w2)
                    \<and> ac_poll_event accelerator event w2 = (Inr state', w3) \<and> terminal_state state'))))"

definition cooperative :: "('c, 'b, 'p, 'q, 'e, 'k, 'w) accelerator \<Rightarrow> device_info \<Rightarrow> bool" where
  "cooperative accelerator info \<longleftrightarrow>
     (\<forall>event w. settles accelerator info event w)
   \<and> (\<forall>event w. \<exists>w'. ac_destroy_event accelerator event w = (Inr (), w'))
   \<and> (\<forall>queue w. \<exists>w'. ac_destroy_queue accelerator queue w = (Inr (), w'))
   \<and> (\<forall>program w. \<exists>w'. ac_unload_program accelerator program w = (Inr (), w'))
   \<and> (\<forall>buffer w. \<exists>w'. ac_free_buffer accelerator buffer w = (Inr (), w'))
   \<and> (\<forall>context w. \<exists>w'. ac_destroy_context accelerator context w = (Inr (), w'))"

text \<open>A pass that has met no obstacle and has emptied the tables of some kinds.\<close>

definition calm :: "object_kind set \<Rightarrow> ('c, 'b, 'p, 'q, 'e, 'w) ru \<Rightarrow> bool" where
  "calm K x \<longleftrightarrow> state_inv (ru_state x) \<and> settled (ru_state x) \<and> ru_progress x = reset_progress_default
     \<and> (\<forall>k\<in>K. dom (phase (ru_state x) k) = {})"

lemma calm_released:
  assumes "calm K x" "state_inv s" "commits kind oid (ru_state x) s" "ru_state y = s" "ru_progress y = ru_progress x"
  shows "calm K y" "phase (ru_state y) kind = (phase (ru_state x) kind)(oid := None)"
proof -
  have ph: "phase s = set_phase kind oid None (phase (ru_state x))"
    using assms(3) by (simp add: commits_def)
  then show "phase (ru_state y) kind = (phase (ru_state x) kind)(oid := None)"
    by (simp add: assms(4) set_phase_def del: phase.simps)
  have "settled s"
    by (rule settled_set_phase [OF _ ph]) (use assms(1) in \<open>simp_all add: calm_def\<close>)
  moreover have "dom (phase s k) = {}" if "k \<in> K" for k
    using assms(1) that unfolding ph by (auto simp: calm_def set_phase_def simp del: phase.simps split: if_splits)
  ultimately show "calm K y"
    using assms by (simp add: calm_def)
qed

context release_protocol
begin

lemma round_flow_released:
  assumes x: "calm K x" and run: "begin_release (ru_state x) oid = (Inr h, s1)" "destroy h (ru_world x) = (Inr (), w)"
    and tally: "\<And>s w. ru_state (tally s w) = s" "\<And>s w. ru_progress (tally s w) = ru_progress x"
  shows "\<exists>x'. round_flow begin_release restore_release commit_release destroy tally oid x = (Proceed, x')
    \<and> calm K x' \<and> phase (ru_state x') kind = (phase (ru_state x) kind)(oid := None)"
proof -
  have "state_inv (ru_state x)"
    using x by (simp add: calm_def)
  then obtain s where s: "commit_release s1 oid = (Inr (), s)" "state_inv s" "commits kind oid (ru_state x) s"
    using begun(5) [OF _ run(1)] by blast
  have "round_flow begin_release restore_release commit_release destroy tally oid x = (Proceed, tally s w)"
    using run s(1) by (simp add: round_flow_def)
  then show ?thesis
    using calm_released [OF x s(2,3), of "tally s w"] tally by blast
qed

end

lemma live_slot:
  assumes "state_inv s" "settled s"
  shows "contexts_of s x = Some c \<Longrightarrow> rs_resource (cx_resource c) \<noteq> None"
    "buffers_of s x = Some b \<Longrightarrow> rs_resource (bu_resource b) \<noteq> None"
    "programs_of s x = Some p \<Longrightarrow> rs_resource (pr_resource p) \<noteq> None"
    "queues_of s x = Some q \<Longrightarrow> rs_resource (qu_resource q) \<noteq> None"
    "events_of s x = Some e \<Longrightarrow> rs_resource (ev_resource e) \<noteq> None"
proof -
  have live: "phase s kind x \<noteq> Some Releasing" for kind
    using assms(2) by (simp add: settled_def del: phase.simps)
  show "contexts_of s x = Some c \<Longrightarrow> rs_resource (cx_resource c) \<noteq> None"
    using live [of OK_Context] record_slots_ok(1) [OF assms(1)] by (auto simp: table_phase_def slot_ok_def)
  show "buffers_of s x = Some b \<Longrightarrow> rs_resource (bu_resource b) \<noteq> None"
    using live [of OK_Buffer] record_slots_ok(2) [OF assms(1)] by (auto simp: table_phase_def slot_ok_def)
  show "programs_of s x = Some p \<Longrightarrow> rs_resource (pr_resource p) \<noteq> None"
    using live [of OK_Program] record_slots_ok(3) [OF assms(1)] by (auto simp: table_phase_def slot_ok_def)
  show "queues_of s x = Some q \<Longrightarrow> rs_resource (qu_resource q) \<noteq> None"
    using live [of OK_Queue] record_slots_ok(4) [OF assms(1)] by (auto simp: table_phase_def slot_ok_def)
  show "events_of s x = Some e \<Longrightarrow> rs_resource (ev_resource e) \<noteq> None"
    using live [of OK_Event] record_slots_ok(5) [OF assms(1)] by (auto simp: table_phase_def slot_ok_def)
qed

lemma begin_when_drained:
  assumes x: "calm K x" and oid: "oid \<in> dom (phase (ru_state x) kind)" and ev: "OK_Event \<in> K"
  shows "kind = OK_Queue \<Longrightarrow> \<exists>h s1. begin_queue_release (ru_state x) oid = (Inr h, s1)"
    "kind = OK_Program \<Longrightarrow> \<exists>h s1. begin_program_release (ru_state x) oid = (Inr h, s1)"
    "kind = OK_Buffer \<Longrightarrow> \<exists>h s1. begin_buffer_release (ru_state x) oid = (Inr h, s1)"
    "kind = OK_Context \<Longrightarrow> {OK_Buffer, OK_Program, OK_Queue} \<subseteq> K \<Longrightarrow> \<exists>h s1. begin_context_release (ru_state x) oid = (Inr h, s1)"
proof -
  have inv: "state_inv (ru_state x)" and settled: "settled (ru_state x)"
    using x by (simp_all add: calm_def)
  have none: "phase (ru_state x) k y = None" if "k \<in> K" for k y
    using x that by (auto simp: calm_def simp del: phase.simps)
  have no_events: "events_of (ru_state x) y = None" for y
    using none [OF ev, of y] by (simp add: table_phase_def)
  note obj = graph_objects_ok [OF state_invD(6) [OF inv]]
  have free: "unreferenced oids (ru_state x) y" for oids y
    by (simp add: unreferenced_def no_events)
  note idle = in_flight_unreferenced [OF obj(1) _ obj(5)] in_flight_unreferenced [OF obj(2) _ obj(5)]
    in_flight_unreferenced [OF obj(3) _ obj(5)]
  show "kind = OK_Queue \<Longrightarrow> \<exists>h s1. begin_queue_release (ru_state x) oid = (Inr h, s1)"
    unfolding begin_queue_live [OF inv] using oid idle(3) free live_slot(4) [OF inv settled] by auto
  show "kind = OK_Program \<Longrightarrow> \<exists>h s1. begin_program_release (ru_state x) oid = (Inr h, s1)"
    unfolding begin_program_live [OF inv] using oid idle(2) free live_slot(3) [OF inv settled] by auto
  show "kind = OK_Buffer \<Longrightarrow> \<exists>h s1. begin_buffer_release (ru_state x) oid = (Inr h, s1)"
    unfolding begin_buffer_live [OF inv] using oid idle(1) free live_slot(2) [OF inv settled] by auto
  assume kinds: "kind = OK_Context" "{OK_Buffer, OK_Program, OK_Queue} \<subseteq> K"
  have "buffers_of (ru_state x) y = None" "programs_of (ru_state x) y = None" "queues_of (ru_state x) y = None" for y
    using none [of OK_Buffer y] none [of OK_Program y] none [of OK_Queue y] kinds(2) by (simp_all add: table_phase_def)
  then have "unused_context (ru_state x) oid"
    by (simp add: unused_context_def owned_def no_events)
  then show "\<exists>h s1. begin_context_release (ru_state x) oid = (Inr h, s1)"
    unfolding begin_context_live [OF inv] using oid kinds(1) empty_unused [OF inv] live_slot(1) [OF inv settled] by auto
qed

lemma queue_round_drains:
  assumes "cooperative accelerator info" "calm {OK_Event} x" "oid \<in> dom (phase (ru_state x) OK_Queue)"
  shows "\<exists>x'. reset_queue_round accelerator oid x = (Proceed, x') \<and> calm {OK_Event} x'
    \<and> phase (ru_state x') OK_Queue = (phase (ru_state x) OK_Queue)(oid := None)"
proof -
  obtain h s1 where b: "begin_queue_release (ru_state x) oid = (Inr h, s1)"
    using begin_when_drained(1) [OF assms(2,3)] by blast
  obtain w where "ac_destroy_queue accelerator h (ru_world x) = (Inr (), w)"
    using assms(1) unfolding cooperative_def by blast
  then show ?thesis
    unfolding queue_round_flow by (rule qup.round_flow_released [OF assms(2) b]) simp_all
qed

lemma program_round_drains:
  assumes "cooperative accelerator info" "calm {OK_Queue, OK_Event} x" "oid \<in> dom (phase (ru_state x) OK_Program)"
  shows "\<exists>x'. reset_program_round accelerator oid x = (Proceed, x') \<and> calm {OK_Queue, OK_Event} x'
    \<and> phase (ru_state x') OK_Program = (phase (ru_state x) OK_Program)(oid := None)"
proof -
  obtain v where v: "programs_of (ru_state x) oid = Some v"
    using assms(3) by auto
  obtain h s1 where b: "begin_program_release (ru_state x) oid = (Inr h, s1)"
    using begin_when_drained(2) [OF assms(2,3)] by blast
  obtain w where "ac_unload_program accelerator h (ru_world x) = (Inr (), w)"
    using assms(1) unfolding cooperative_def by blast
  then show ?thesis
    unfolding program_round_flow record_lookup(3) [OF v] sum.case
    by (rule prp.round_flow_released [OF assms(2) b]) simp_all
qed

lemma buffer_round_drains:
  assumes "cooperative accelerator info" "calm {OK_Program, OK_Queue, OK_Event} x"
    "oid \<in> dom (phase (ru_state x) OK_Buffer)"
  shows "\<exists>x'. reset_buffer_round accelerator oid x = (Proceed, x') \<and> calm {OK_Program, OK_Queue, OK_Event} x'
    \<and> phase (ru_state x') OK_Buffer = (phase (ru_state x) OK_Buffer)(oid := None)"
proof -
  obtain v where v: "buffers_of (ru_state x) oid = Some v"
    using assms(3) by auto
  obtain h s1 where b: "begin_buffer_release (ru_state x) oid = (Inr h, s1)"
    using begin_when_drained(3) [OF assms(2,3)] by blast
  obtain w where "ac_free_buffer accelerator h (ru_world x) = (Inr (), w)"
    using assms(1) unfolding cooperative_def by blast
  then show ?thesis
    unfolding buffer_round_flow record_lookup(2) [OF v] sum.case
    by (rule bup.round_flow_released [OF assms(2) b]) simp_all
qed

lemma context_round_drains:
  assumes "cooperative accelerator info" "calm {OK_Buffer, OK_Program, OK_Queue, OK_Event} x"
    "oid \<in> dom (phase (ru_state x) OK_Context)"
  shows "\<exists>x'. reset_context_round accelerator oid x = (Proceed, x') \<and> calm {OK_Buffer, OK_Program, OK_Queue, OK_Event} x'
    \<and> phase (ru_state x') OK_Context = (phase (ru_state x) OK_Context)(oid := None)"
proof -
  obtain h s1 where b: "begin_context_release (ru_state x) oid = (Inr h, s1)"
    using begin_when_drained(4) [OF assms(2,3)] by blast
  obtain w where "ac_destroy_context accelerator h (ru_world x) = (Inr (), w)"
    using assms(1) unfolding cooperative_def by blast
  then show ?thesis
    unfolding context_round_flow by (rule cxp.round_flow_released [OF assms(2) b]) simp_all
qed

lemma terminal_state_iff: "terminal_state state \<longleftrightarrow> state \<noteq> ES_Pending \<and> state \<noteq> ES_Failed BE_DeviceLost"
  by (cases state) auto

lemma reset_settle_cooperative:
  assumes "settles accelerator info event (ru_world x)" "event_handle (ru_state x) oid = Inr event"
  shows "\<exists>state w. reset_settle accelerator info oid x = (Some state, x\<lparr>ru_world := w\<rparr>) \<and> terminal_state state"
proof -
  obtain state w1 where poll: "ac_poll_event accelerator event (ru_world x) = (Inr state, w1)"
      "terminal_state state
       \<or> state = ES_Pending \<and> flags_contain (di_capabilities info) EVENT_CANCELLATION
         \<and> ((\<exists>w2. ac_cancel_event accelerator event w1 = (Inr (), w2))
           \<or> (\<exists>w2 state' w3. ac_cancel_event accelerator event w1 = (Inl BE_Busy, w2)
                \<and> ac_poll_event accelerator event w2 = (Inr state', w3) \<and> terminal_state state'))"
    using assms(1) unfolding settles_def by blast
  from poll(2) show ?thesis
    using assms(2) poll(1) by (auto simp: reset_settle_def reset_poll_def terminal_state_iff)
qed

lemma event_round_drains:
  assumes "cooperative accelerator info" "calm {} x" "oid \<in> dom (phase (ru_state x) OK_Event)"
  shows "\<exists>x'. reset_event_round accelerator info oid x = (Proceed, x') \<and> calm {} x'
    \<and> phase (ru_state x') OK_Event = (phase (ru_state x) OK_Event)(oid := None)"
proof -
  have inv: "state_inv (ru_state x)" "settled (ru_state x)"
    using assms(2) by (simp_all add: calm_def)
  obtain v where v: "events_of (ru_state x) oid = Some v"
    using assms(3) by auto
  obtain event where event: "rs_resource (ev_resource v) = Some event"
    using live_slot(5) [OF inv v] by blast
  have handle: "event_handle (ru_state x) oid = Inr event"
    using record_lookup(5) [OF v] event by (simp add: event_handle_def resource_slot_get_def)
  have "settles accelerator info event (ru_world x)"
    using assms(1) by (simp add: cooperative_def)
  from reset_settle_cooperative [OF this handle]
  obtain state w where settle: "reset_settle accelerator info oid x = (Some state, x\<lparr>ru_world := w\<rparr>)" "terminal_state state"
    by blast
  have calm: "calm {} (x\<lparr>ru_world := w\<rparr>)"
    using assms(2) by (simp add: calm_def)
  obtain h s1 where b: "begin_event_release (ru_state (x\<lparr>ru_world := w\<rparr>)) oid = (Inr h, s1)"
    using begin_event_live [OF inv(1), of oid] v event by auto
  obtain w' where d: "ac_destroy_event accelerator h (ru_world (x\<lparr>ru_world := w\<rparr>)) = (Inr (), w')"
    using assms(1) unfolding cooperative_def by blast
  have "\<exists>x'. round_flow begin_event_release restore_event_release commit_event_release (ac_destroy_event accelerator)
      (\<lambda>s w'. x\<lparr>ru_world := w, ru_state := s, ru_world := w', ru_released := (ru_released (x\<lparr>ru_world := w\<rparr>))
        \<lparr>rc_events := rc_events (ru_released (x\<lparr>ru_world := w\<rparr>)) + 1\<rparr>\<rparr>) oid (x\<lparr>ru_world := w\<rparr>) = (Proceed, x')
    \<and> calm {} x' \<and> phase (ru_state x') OK_Event = (phase (ru_state (x\<lparr>ru_world := w\<rparr>)) OK_Event)(oid := None)"
    by (rule evp.round_flow_released [where destroy = "ac_destroy_event accelerator", OF calm b d]) simp_all
  then have "calm {} (reset_event_release accelerator oid (x\<lparr>ru_world := w\<rparr>))
    \<and> phase (ru_state (reset_event_release accelerator oid (x\<lparr>ru_world := w\<rparr>))) OK_Event
        = (phase (ru_state x) OK_Event)(oid := None)"
    unfolding event_round_flow by fastforce
  then show ?thesis
    using assms(2) settle by (simp add: reset_event_round_def reset_event_def terminal_state_iff calm_def reset_progress_default_def)
qed

lemma calm_insert: "calm K x \<and> dom (phase (ru_state x) kind) = {} \<Longrightarrow> calm (insert kind K) x"
  by (simp add: calm_def)

lemma calm_callable: "calm K x \<Longrightarrow> pg_backend_callable (ru_progress x) \<and> pg_backend_reusable (ru_progress x)"
  by (simp add: calm_def reset_progress_default_def)

lemma calm_inv: "calm K x \<Longrightarrow> state_inv (ru_state x)"
  by (simp add: calm_def)

lemma reset_pass_drains:
  assumes coop: "cooperative accelerator info" and x: "calm {} x"
  shows "calm UNIV (reset_pass accelerator info x)"
proof -
  have x1: "calm {OK_Event} (reset_events accelerator info 0 x)" (is "calm _ ?x1")
    by (rule calm_insert, rule evl.loop_drains [OF x calm_inv event_round_drains [OF coop]]) simp_all
  have x2: "calm {OK_Queue, OK_Event} (reset_queues accelerator 0 ?x1)" (is "calm _ ?x2")
    by (rule calm_insert, rule qul.loop_drains [OF x1 calm_inv queue_round_drains [OF coop]]) simp_all
  have x3: "calm {OK_Program, OK_Queue, OK_Event} (reset_programs accelerator 0 ?x2)" (is "calm _ ?x3")
    by (rule calm_insert, rule prl.loop_drains [OF x2 calm_inv program_round_drains [OF coop]]) simp_all
  have x4: "calm {OK_Buffer, OK_Program, OK_Queue, OK_Event} (reset_buffers accelerator 0 ?x3)" (is "calm _ ?x4")
    by (rule calm_insert, rule bul.loop_drains [OF x3 calm_inv buffer_round_drains [OF coop]]) simp_all
  have x5: "calm {OK_Context, OK_Buffer, OK_Program, OK_Queue, OK_Event} (reset_contexts accelerator 0 ?x4)"
    by (rule calm_insert, rule cxl.loop_drains [OF x4 calm_inv context_round_drains [OF coop]]) simp_all
  moreover have "reset_pass accelerator info x = reset_contexts accelerator 0 ?x4"
    using calm_callable [OF x1] calm_callable [OF x2] calm_callable [OF x3] calm_callable [OF x4]
    by (simp add: reset_pass_def Let_def)
  moreover have "{OK_Context, OK_Buffer, OK_Program, OK_Queue, OK_Event} = UNIV"
    by (auto intro: object_kind.exhaust)
  ultimately show ?thesis
    by simp
qed

end
