(* ===== verification/Frame_Exact.thy ===== *)
theory Frame_Exact
  imports Frame_Decoder
begin

text \<open>
  What the frame decoder accepts. \<open>encodes_body\<close> describes the payload bytes that stand for a
  decoded request; the decoder accepts exactly the frames that it describes, within the limits.
\<close>

section \<open>Reading from a conforming source\<close>

text \<open>The payload of a request is what follows its 16-byte header.\<close>

definition payload_of :: "byte_source \<Rightarrow> u8 list" where
  "payload_of request = drop 16 (source_content request)"

definition frame_view :: "byte_source \<Rightarrow> u32 \<Rightarrow> bool" where
  "frame_view request n \<longleftrightarrow> source_ok request \<and> unat (bs_len request) = 16 + unat n"

lemma request_header_bytes [simp]: "REQUEST_HEADER_BYTES = 16"
  by (simp add: REQUEST_HEADER_BYTES_def size_request_header_def)

lemma max_fixed_prefix_bytes [simp]: "MAX_FIXED_PREFIX_BYTES = 80"
  by (simp add: MAX_FIXED_PREFIX_BYTES_def size_load_program_request_def)

lemma length_payload_of: "frame_view request n \<Longrightarrow> length (payload_of request) = unat n"
  using source_ok_len [of request] by (simp add: frame_view_def payload_of_def)

context wire_codec
begin

lemma read_wire_Inr:
  assumes "source_ok source" "unat offset + width \<le> unat (bs_len source)" "width \<le> 80"
  shows "read_wire source offset width decode = Inr x \<longleftrightarrow>
    valid x \<and> take width (drop (unat offset) (source_content source)) = encode x"
  using source_ok_read [OF assms(1,2)] assms(3) by (auto simp: read_wire_def decode_iff)

lemma read_wire_ok:
  assumes "source_ok source" "unat offset + width \<le> unat (bs_len source)" "width \<le> 80"
  shows "\<exists>x. read_wire source offset width decode = Inr x"
proof -
  have "length (take width (drop (unat offset) (source_content source))) = width"
    using source_ok_len [OF assms(1)] assms(2) by simp
  then obtain x where "decode (take width (drop (unat offset) (source_content source))) = Inr x"
    using decode_full [of "take width (drop (unat offset) (source_content source))"] by (auto simp: is_ok_iff)
  then show ?thesis
    unfolding read_wire_Inr [OF assms] decode_iff by auto
qed

lemma read_payload_Inr:
  assumes "frame_view request n" "width \<le> unat n" "width \<le> 80"
  shows "read_payload request width decode = Inr x \<longleftrightarrow> valid x \<and> take width (payload_of request) = encode x"
  using assms unfolding frame_view_def read_payload_def payload_of_def
  by (subst read_wire_Inr) simp_all

lemma read_payload_ok:
  assumes "frame_view request n" "width \<le> unat n" "width \<le> 80"
  shows "\<exists>x. read_payload request width decode = Inr x"
  using assms unfolding frame_view_def read_payload_def
  by (intro read_wire_ok) simp_all

text \<open>A payload that is one structure.\<close>

lemma read_payload_whole:
  assumes "frame_view request n" "unat n = width" "width \<le> 80"
  shows "read_payload request width decode = Inr x \<longleftrightarrow> valid x \<and> payload_of request = encode x"
  using read_payload_Inr [OF assms(1) _ assms(3)] length_payload_of [OF assms(1)] assms(2) by simp

text \<open>A payload that starts with one structure.\<close>

lemma read_payload_front:
  assumes "frame_view request n" "width \<le> unat n" "width \<le> 80"
  shows "read_payload request width decode = Inr x \<longleftrightarrow>
    valid x \<and> (\<exists>rest. payload_of request = encode x @ rest)"
proof -
  have "take width (payload_of request) = encode x \<longleftrightarrow> (\<exists>rest. payload_of request = encode x @ rest)"
    if "valid x"
  proof
    assume "take width (payload_of request) = encode x"
    then have "payload_of request = encode x @ drop width (payload_of request)"
      by (metis append_take_drop_id)
    then show "\<exists>rest. payload_of request = encode x @ rest" ..
  qed (use length_encode [OF that] in auto)
  then show ?thesis
    using read_payload_Inr [OF assms] by auto
qed

end

lemma expect_payload_bytes_Inr:
  "e < 2 ^ 32 \<Longrightarrow> expect_payload_bytes n e = Inr () \<longleftrightarrow> unat n = e"
  by (auto simp: expect_payload_bytes_def unat_eq_iff unat_of_nat_u64)

lemma decode_object_id_Inr [simp]: "decode_object_id raw = Inr oid \<longleftrightarrow> raw = oid \<and> oid \<noteq> 0"
  by (auto simp: decode_object_id_def object_id_from_raw_def)

text \<open>A payload of exactly one structure is the encoding of the value that is read.\<close>

context wire_codec
begin

lemma whole_payload:
  assumes "frame_view request n" "unat n = width" "width \<le> 80"
  obtains v where "read_payload request width decode = Inr v" "payload_of request = encode v" "valid v"
  using read_payload_ok [OF assms(1) _ assms(3)] read_payload_whole [OF assms] assms(2) by auto

lemma front_payload:
  assumes "frame_view request n" "width \<le> unat n" "width \<le> 80"
  obtains v where "read_payload request width decode = Inr v"
    "payload_of request = encode v @ drop width (payload_of request)" "valid v"
proof -
  obtain v where v: "read_payload request width decode = Inr v"
    using read_payload_ok [OF assms] by blast
  then have "valid v" "take width (payload_of request) = encode v"
    using read_payload_Inr [OF assms] by auto
  with v that show ?thesis
    by (metis append_take_drop_id)
qed

lemma encode_append_inject:
  "valid x \<Longrightarrow> valid y \<Longrightarrow> encode x @ xs = encode y @ ys \<longleftrightarrow> x = y \<and> xs = ys"
  by (simp add: append_eq_append_conv length_encode encode_inject)

lemma not_whole:
  assumes "frame_view request n" "unat n \<noteq> width" "valid w"
  shows "payload_of request \<noteq> encode w"
  using length_payload_of [OF assms(1)] length_encode [OF assms(3)] assms(2) by metis

end

lemma decode_object_Inr:
  assumes "frame_view request n"
  shows "decode_object request n = Inr oid \<longleftrightarrow>
    oid \<noteq> 0 \<and> payload_of request = encode_object_payload \<lparr>op_object_id = oid\<rparr>"
proof (cases "unat n = size_object_payload")
  case True
  obtain v where "read_payload request size_object_payload decode_object_payload = Inr v"
      "payload_of request = encode_object_payload v"
    by (rule op.whole_payload [OF assms True]) (simp add: size_object_payload_def)
  then show ?thesis
    using True by (cases v) (auto simp: decode_object_def expect_payload_bytes_Inr size_object_payload_def
        op.encode_inject)
next
  case False
  then show ?thesis
    using op.not_whole [OF assms False]
    by (auto simp: decode_object_def expect_payload_bytes_Inr size_object_payload_def)
qed

lemma decode_create_context_Inr:
  assumes "frame_view request n"
  shows "decode_create_context request n = Inr body \<longleftrightarrow>
    body = DR_CreateContext 0 \<and> payload_of request = encode_create_context_request \<lparr>cc_flags = 0, cc_reserved = 0\<rparr>"
proof (cases "unat n = size_create_context_request")
  case True
  obtain v where "read_payload request size_create_context_request decode_create_context_request = Inr v"
      "payload_of request = encode_create_context_request v"
    by (rule cc.whole_payload [OF assms True]) (simp add: size_create_context_request_def)
  then show ?thesis
    using True by (cases v) (auto simp: decode_create_context_def expect_payload_bytes_Inr
        size_create_context_request_def cc.encode_inject)
next
  case False
  then show ?thesis
    using cc.not_whole [OF assms False]
    by (auto simp: decode_create_context_def expect_payload_bytes_Inr size_create_context_request_def)
qed

lemma decode_create_queue_Inr:
  assumes "frame_view request n"
  shows "decode_create_queue request n = Inr body \<longleftrightarrow>
    (\<exists>ctx. body = DR_CreateQueue ctx 0 \<and> ctx \<noteq> 0
      \<and> payload_of request = encode_create_queue_request \<lparr>cq_context_id = ctx, cq_flags = 0, cq_reserved = 0\<rparr>)"
proof (cases "unat n = size_create_queue_request")
  case True
  obtain v where "read_payload request size_create_queue_request decode_create_queue_request = Inr v"
      "payload_of request = encode_create_queue_request v"
    by (rule cq.whole_payload [OF assms True]) (simp add: size_create_queue_request_def)
  then show ?thesis
    using True by (cases v) (auto simp: decode_create_queue_def expect_payload_bytes_Inr
        size_create_queue_request_def cq.encode_inject)
next
  case False
  then show ?thesis
    using cq.not_whole [OF assms False]
    by (auto simp: decode_create_queue_def expect_payload_bytes_Inr size_create_queue_request_def)
qed

text \<open>The wire codes of a memory domain and of an access mode.\<close>

fun memory_domain_code :: "memory_domain \<Rightarrow> u8" where
  "memory_domain_code Host = 1"
| "memory_domain_code Device = 2"
| "memory_domain_code Shared = 3"

fun access_mode_code :: "access_mode \<Rightarrow> u8" where
  "access_mode_code AM_Read = 1"
| "access_mode_code AM_Write = 2"
| "access_mode_code AM_ReadWrite = 3"

lemma memory_domain_try_from_Inr: "memory_domain_try_from c = Inr d \<longleftrightarrow> c = memory_domain_code d"
  by (cases d) (auto simp: memory_domain_try_from_def)

lemma memory_domain_roundtrip: "memory_domain_try_from (memory_domain_code d) = Inr d"
  by (simp add: memory_domain_try_from_Inr)

lemma access_mode_try_from_Inr: "access_mode_try_from c = Inr a \<longleftrightarrow> c = access_mode_code a"
  by (cases a) (auto simp: access_mode_try_from_def)

definition allocate_wire :: "object_id \<Rightarrow> buffer_desc \<Rightarrow> allocate_buffer_request" where
  "allocate_wire ctx desc =
     \<lparr>ab_context_id = ctx, ab_bytes = bd_bytes desc, ab_alignment = bd_alignment desc,
      ab_memory_domain = memory_domain_code (bd_domain desc), ab_reserved0 = replicate 7 0,
      ab_usage = bd_usage desc, ab_reserved1 = 0\<rparr>"

lemma buffer_desc_new_Inr:
  "buffer_desc_new b a d u = Inr x \<longleftrightarrow>
     x = \<lparr>bd_bytes = b, bd_alignment = a, bd_domain = d, bd_usage = u\<rparr> \<and> buffer_desc_ok x"
  by (auto simp: buffer_desc_new_def buffer_desc_ok_def dest: is_power_of_two_nonzero split: if_splits)

lemma usage_from_bits_ok: "buffer_desc_ok d \<Longrightarrow> buffer_usage_from_bits (bd_usage d) = Some (bd_usage d)"
proof -
  assume "buffer_desc_ok d"
  then have "BUFFER_USAGE_ALL AND bd_usage d = bd_usage d"
    by (simp add: buffer_desc_ok_def flags_contain_def)
  then have "bd_usage d AND NOT BUFFER_USAGE_ALL = (BUFFER_USAGE_ALL AND bd_usage d) AND NOT BUFFER_USAGE_ALL"
    by simp
  also have "\<dots> = 0"
    by (rule bit_word_eqI) (simp add: bit_and_iff bit_not_iff)
  finally show ?thesis
    by (simp add: buffer_usage_from_bits_def)
qed

lemma decode_allocate_buffer_Inr:
  assumes "frame_view request n"
  shows "decode_allocate_buffer limits request n = Inr body \<longleftrightarrow>
    (\<exists>ctx desc. body = DR_AllocateBuffer ctx desc \<and> ctx \<noteq> 0 \<and> buffer_desc_ok desc
      \<and> bd_bytes desc \<le> dl_max_buffer_bytes limits
      \<and> supports_memory_domain (dl_capabilities limits) (bd_domain desc)
      \<and> payload_of request = encode_allocate_buffer_request (allocate_wire ctx desc))"
proof (cases "unat n = size_allocate_buffer_request")
  case True
  obtain v where v: "read_payload request size_allocate_buffer_request decode_allocate_buffer_request = Inr v"
      "payload_of request = encode_allocate_buffer_request v" "valid_allocate_buffer_request v"
    by (rule ab.whole_payload [OF assms True]) (simp add: size_allocate_buffer_request_def)
  have ex: "expect_payload_bytes n size_allocate_buffer_request = Inr ()"
    using True by (simp add: expect_payload_bytes_Inr size_allocate_buffer_request_def)
  have "payload_of request = encode_allocate_buffer_request (allocate_wire ctx desc) \<longleftrightarrow> v = allocate_wire ctx desc"
    for ctx desc
    unfolding v(2) by (rule ab.encode_inject [OF v(3)]) (simp add: allocate_wire_def valid_allocate_buffer_request_def)
  moreover have "decode_allocate_buffer limits request n = Inr body \<longleftrightarrow>
    (\<exists>ctx desc. body = DR_AllocateBuffer ctx desc \<and> ctx \<noteq> 0 \<and> buffer_desc_ok desc
      \<and> bd_bytes desc \<le> dl_max_buffer_bytes limits
      \<and> supports_memory_domain (dl_capabilities limits) (bd_domain desc) \<and> v = allocate_wire ctx desc)"
    (is "_ \<longleftrightarrow> (\<exists>ctx desc. ?ok ctx desc)")
  proof
    assume "decode_allocate_buffer limits request n = Inr body"
    then show "\<exists>ctx desc. ?ok ctx desc"
      by (cases v) (auto simp: decode_allocate_buffer_def ex v(1) memory_domain_try_from_Inr buffer_desc_new_Inr
          buffer_usage_from_bits_def allocate_wire_def not_less split: if_splits)
  next
    assume "\<exists>ctx desc. ?ok ctx desc"
    then obtain ctx desc where ok: "?ok ctx desc"
      by blast
    then have "bd_usage desc \<noteq> 0"
      by (simp add: buffer_desc_ok_def)
    with ok usage_from_bits_ok [of desc] show "decode_allocate_buffer limits request n = Inr body"
      by (cases desc) (simp add: decode_allocate_buffer_def ex v(1) memory_domain_roundtrip buffer_desc_new_Inr
          allocate_wire_def not_less)
  qed
  ultimately show ?thesis
    by simp
next
  case False
  then show ?thesis
    using ab.not_whole [OF assms False, of "allocate_wire _ _"]
    by (auto simp: decode_allocate_buffer_def expect_payload_bytes_Inr size_allocate_buffer_request_def
        allocate_wire_def valid_allocate_buffer_request_def)
qed

text \<open>A length field that has to match the size of the frame.\<close>

lemma checked_expected:
  assumes "k < 2 ^ 32"
  shows "checked_add (of_nat k) b = Some (ucast (n :: u32) :: u64) \<longleftrightarrow> k + unat b = unat n"
proof -
  have k: "unat (of_nat k :: u64) = k"
    using assms by (intro unat_of_nat_u64) simp
  show ?thesis
  proof
    assume "checked_add (of_nat k) b = Some (ucast n :: u64)"
    from checked_add_SomeD [OF this] show "k + unat b = unat n"
      by (simp add: k)
  next
    assume eq: "k + unat b = unat n"
    then have "unat (of_nat k :: u64) + unat b < 2 ^ LENGTH(64)"
      using unat_u32_less [of n] by (simp add: k)
    then show "checked_add (of_nat k) b = Some (ucast n :: u64)"
      using eq by (simp add: checked_add_Some unat_eq_iff unat_add_no_overflow k)
  qed
qed

lemma buffer_range_decoded:
  "buffer_range_new offset bytes = Inr r \<longleftrightarrow> r = \<lparr>br_offset = offset, br_bytes = bytes\<rparr> \<and> buffer_range_ok r"
  by (auto simp: buffer_range_new_def buffer_range_ok_def checked_add_def split: option.splits if_splits)

definition transfer_wire :: "object_id \<Rightarrow> buffer_range \<Rightarrow> transfer_buffer_request" where
  "transfer_wire oid rng = \<lparr>tb_buffer_id = oid, tb_offset = br_offset rng, tb_bytes = br_bytes rng\<rparr>"

lemma decode_transfer_Inr:
  assumes "frame_view request n"
  shows "decode_transfer request n has_data = Inr (oid, rng) \<longleftrightarrow>
    oid \<noteq> 0 \<and> buffer_range_ok rng
    \<and> (\<exists>bytes. payload_of request = encode_transfer_buffer_request (transfer_wire oid rng) @ bytes
        \<and> length bytes = (if has_data then unat (br_bytes rng) else 0))"
proof (cases "24 \<le> unat n")
  case True
  obtain v where v: "read_payload request size_transfer_buffer_request decode_transfer_buffer_request = Inr v"
      "payload_of request = encode_transfer_buffer_request v @ drop 24 (payload_of request)"
    using tb.front_payload [OF assms] True by (auto simp: size_transfer_buffer_request_def)
  let ?rest = "drop 24 (payload_of request)"
  have len: "unat n = 24 + length ?rest"
    using length_payload_of [OF assms] True by simp
  have short: "\<not> (ucast n :: u64) < 24"
    using True by (simp add: word_less_nat_alt)
  have eq: "payload_of request = encode_transfer_buffer_request w @ bytes \<longleftrightarrow> v = w \<and> bytes = ?rest" for w bytes
    by (subst v(2)) (auto simp: tb.encode_append_inject)
  have none: "(24 = (ucast n :: u64)) \<longleftrightarrow> length ?rest = 0"
    using len by (auto simp: unat_eq_iff)
  have some: "checked_add 24 b = Some (ucast n :: u64) \<longleftrightarrow> unat b = length ?rest" for b
    using checked_expected [of 24 b n] len by auto
  show ?thesis
    by (cases v; cases rng) (auto simp: decode_transfer_def size_transfer_buffer_request_def short
        v(1) [unfolded size_transfer_buffer_request_def] eq
        transfer_wire_def buffer_range_decoded none some buffer_range_ok_def checked_add_None split: if_splits)
next
  case False
  then have "(ucast n :: u64) < 24"
    by (simp add: word_less_nat_alt)
  moreover have "payload_of request \<noteq> encode_transfer_buffer_request (transfer_wire oid rng) @ bytes" for bytes
    using length_payload_of [OF assms] tb.length_encode [of "transfer_wire oid rng"] False
    by (auto simp: size_transfer_buffer_request_def)
  ultimately show ?thesis
    by (auto simp: decode_transfer_def size_transfer_buffer_request_def)
qed

text \<open>Borrowed tails of the request.\<close>

lemma tail_region:
  assumes "frame_view request n" "k + unat len = unat n" "k < 2 ^ 32"
  shows "readable_region_new request (16 + of_nat k) len
    = Inr \<lparr>rr_source = request, rr_offset = 16 + of_nat k, rr_len = len\<rparr>"
proof -
  have k: "unat (16 + of_nat k :: u64) = 16 + k"
    using assms(3) by (subst unat_add_no_overflow) (simp_all add: unat_of_nat_u64)
  have "unat (16 + of_nat k :: u64) + unat len \<le> unat (bs_len request)"
    using assms(1,2) by (simp add: k frame_view_def)
  then show ?thesis
    by (simp add: readable_region_new_def checked_range_u64_eq)
qed

lemma decode_write_buffer_Inr:
  assumes "frame_view request n"
  shows "decode_write_buffer request n = Inr body \<longleftrightarrow>
    (\<exists>oid rng bytes. body = DR_WriteBuffer oid rng \<lparr>rr_source = request, rr_offset = 40, rr_len = br_bytes rng\<rparr>
      \<and> oid \<noteq> 0 \<and> buffer_range_ok rng
      \<and> payload_of request = encode_transfer_buffer_request (transfer_wire oid rng) @ bytes
      \<and> length bytes = unat (br_bytes rng))"
proof -
  have region: "readable_region_new request 40 (br_bytes rng)
      = Inr \<lparr>rr_source = request, rr_offset = 40, rr_len = br_bytes rng\<rparr>"
    if tr: "decode_transfer request n True = Inr (oid, rng)" for oid rng
  proof -
    obtain bytes where "payload_of request = encode_transfer_buffer_request (transfer_wire oid rng) @ bytes"
        "length bytes = unat (br_bytes rng)"
      using tr unfolding decode_transfer_Inr [OF assms] by auto
    then have "24 + unat (br_bytes rng) = unat n"
      using length_payload_of [OF assms] tb.length_encode [of "transfer_wire oid rng"]
      by (simp add: size_transfer_buffer_request_def)
    then show ?thesis
      using tail_region [OF assms, of 24] by simp
  qed
  have "decode_write_buffer request n = Inr body \<longleftrightarrow>
      (\<exists>oid rng. body = DR_WriteBuffer oid rng \<lparr>rr_source = request, rr_offset = 40, rr_len = br_bytes rng\<rparr>
        \<and> decode_transfer request n True = Inr (oid, rng))"
    using region by (auto simp: decode_write_buffer_def size_transfer_buffer_request_def)
  then show ?thesis
    by (auto simp: decode_transfer_Inr [OF assms])
qed

definition load_wire :: "object_id \<Rightarrow> u32 \<Rightarrow> u32 list \<Rightarrow> u64 \<Rightarrow> u64 \<Rightarrow> load_program_request" where
  "load_wire ctx format target payload_bytes resident_bytes =
     \<lparr>lp_context_id = ctx, lp_format = format, lp_flags = 0, lp_target = target,
      lp_payload_bytes = payload_bytes, lp_resident_bytes = resident_bytes\<rparr>"

lemma decode_load_program_Inr:
  assumes "frame_view request n"
  shows "decode_load_program limits request n = Inr body \<longleftrightarrow>
    (\<exists>ctx format target len resident bytes.
      body = DR_LoadProgram ctx format target \<lparr>rr_source = request, rr_offset = 96, rr_len = len\<rparr> resident
      \<and> ctx \<noteq> 0 \<and> format \<noteq> 0 \<and> length target = 12 \<and> len \<noteq> 0 \<and> resident \<noteq> 0
      \<and> len \<le> dl_max_artifact_bytes limits
      \<and> payload_of request = encode_load_program_request (load_wire ctx format target len resident) @ bytes
      \<and> length bytes = unat len)"
proof (cases "80 \<le> unat n")
  case True
  obtain v where v: "read_payload request 80 decode_load_program_request = Inr v"
      "payload_of request = encode_load_program_request v @ drop 80 (payload_of request)" "length (lp_target v) = 12"
    using lp.front_payload [OF assms] True
    by (auto simp: size_load_program_request_def valid_load_program_request_def)
  let ?rest = "drop 80 (payload_of request)"
  have len: "unat n = 80 + length ?rest"
    using length_payload_of [OF assms] True by simp
  have short: "\<not> (ucast n :: u64) < 80"
    using True by (simp add: word_less_nat_alt)
  have eq: "payload_of request = encode_load_program_request w @ bytes \<longleftrightarrow> v = w \<and> bytes = ?rest"
    if "length (lp_target w) = 12" for w bytes
    by (subst v(2)) (use v(3) that in \<open>auto simp: lp.encode_append_inject valid_load_program_request_def\<close>)
  have some: "checked_add 80 b = Some (ucast n :: u64) \<longleftrightarrow> unat b = length ?rest" for b
    using checked_expected [of 80 b n] len by auto
  have region: "readable_region_new request 96 b = Inr \<lparr>rr_source = request, rr_offset = 96, rr_len = b\<rparr>"
    if "unat b = length ?rest" for b
    using tail_region [OF assms, of 80 b] len that by simp
  show ?thesis
  proof
    assume "decode_load_program limits request n = Inr body"
    then show "\<exists>ctx format target len resident bytes.
        body = DR_LoadProgram ctx format target \<lparr>rr_source = request, rr_offset = 96, rr_len = len\<rparr> resident
        \<and> ctx \<noteq> 0 \<and> format \<noteq> 0 \<and> length target = 12 \<and> len \<noteq> 0 \<and> resident \<noteq> 0
        \<and> len \<le> dl_max_artifact_bytes limits
        \<and> payload_of request = encode_load_program_request (load_wire ctx format target len resident) @ bytes
        \<and> length bytes = unat len"
      by (cases v) (use v(3) in \<open>auto simp: decode_load_program_def size_load_program_request_def short v(1) eq
          load_wire_def artifact_format_new_def some region not_less split: if_splits\<close>)
  next
    assume "\<exists>ctx format target len resident bytes.
        body = DR_LoadProgram ctx format target \<lparr>rr_source = request, rr_offset = 96, rr_len = len\<rparr> resident
        \<and> ctx \<noteq> 0 \<and> format \<noteq> 0 \<and> length target = 12 \<and> len \<noteq> 0 \<and> resident \<noteq> 0
        \<and> len \<le> dl_max_artifact_bytes limits
        \<and> payload_of request = encode_load_program_request (load_wire ctx format target len resident) @ bytes
        \<and> length bytes = unat len"
    then show "decode_load_program limits request n = Inr body"
      by (auto simp: decode_load_program_def size_load_program_request_def short v(1) eq load_wire_def
          artifact_format_new_def some region not_less)
  qed
next
  case False
  then have "(ucast n :: u64) < 80"
    by (simp add: word_less_nat_alt)
  moreover have "payload_of request \<noteq> encode_load_program_request (load_wire ctx format target len resident) @ bytes"
    if "length target = 12" for ctx format target len resident bytes
    using length_payload_of [OF assms] lp.length_encode [of "load_wire ctx format target len resident"] False that
    by (auto simp: size_load_program_request_def load_wire_def valid_load_program_request_def)
  ultimately show ?thesis
    by (auto simp: decode_load_program_def size_load_program_request_def)
qed

text \<open>Bindings.\<close>

definition binding_wire :: "decoded_binding \<Rightarrow> wire_binding" where
  "binding_wire d =
     \<lparr>wb_buffer_id = db_buffer_id d, wb_offset = br_offset (db_range d), wb_bytes = br_bytes (db_range d),
      wb_slot = db_slot d, wb_access = access_mode_code (db_access d), wb_reserved = [0, 0, 0]\<rparr>"

definition binding_ok :: "decoded_binding \<Rightarrow> bool" where
  "binding_ok d \<longleftrightarrow> db_buffer_id d \<noteq> 0 \<and> buffer_range_ok (db_range d)"

lemma valid_binding_wire [simp]: "valid_wire_binding (binding_wire d)"
  by (simp add: valid_wire_binding_def binding_wire_def)

lemma length_encode_binding [simp]: "length (encode_wire_binding (binding_wire d)) = 32"
  using wb.length_encode [of "binding_wire d"] by (simp add: size_wire_binding_def)

lemma decode_binding_Inr:
  assumes "source_ok request" "unat offset + 32 \<le> unat (bs_len request)"
  shows "decode_binding request offset = Inr d \<longleftrightarrow>
    binding_ok d \<and> take 32 (drop (unat offset) (source_content request)) = encode_wire_binding (binding_wire d)"
proof -
  obtain v where v: "read_wire request offset 32 decode_wire_binding = Inr v"
    using wb.read_wire_ok [OF assms(1), of offset] assms(2) by (auto simp: size_wire_binding_def)
  then have enc: "take 32 (drop (unat offset) (source_content request)) = encode_wire_binding v" "valid_wire_binding v"
    using wb.read_wire_Inr [OF assms(1), of offset v] assms(2) by (simp_all add: size_wire_binding_def)
  have "decode_binding request offset = Inr d \<longleftrightarrow> binding_ok d \<and> v = binding_wire d"
    by (cases v; cases d; cases "db_range d")
      (auto simp: decode_binding_def size_wire_binding_def v binding_wire_def binding_ok_def buffer_range_decoded
        access_mode_try_from_Inr checked_add_None buffer_range_ok_def split: if_splits)
  then show ?thesis
    using enc by (auto simp: wb.encode_inject)
qed

lemma decode_bindings_Inr:
  assumes "frame_view request n" "unat n = 32 + 32 * c"
  shows "i \<le> c \<Longrightarrow> decode_bindings request 48 [i..<c] = Inr ds \<longleftrightarrow>
    list_all binding_ok ds \<and> length ds = c - i
    \<and> drop (32 + 32 * i) (payload_of request) = concat (map (encode_wire_binding \<circ> binding_wire) ds)"
proof (induction "c - i" arbitrary: i ds)
  case 0
  then show ?case
    using length_payload_of [OF assms(1)] assms(2) by auto
next
  case (Suc k)
  then have i: "i < c" "[i..<c] = i # [Suc i..<c]"
    by (simp_all add: upt_conv_Cons)
  let ?off = "48 + of_nat (i * 32) :: u64"
  have "16 + (32 + 32 * c) < 2 ^ 64"
    using assms unat_u64_less [of "bs_len request"] by (simp add: frame_view_def)
  then have bound: "48 + i * 32 < 2 ^ 64" "i * 32 < 2 ^ 64"
    using i(1) by simp_all
  then have "unat (of_nat (i * 32) :: u64) = i * 32"
    by (intro unat_of_nat_u64)
  with bound have off: "unat ?off = 48 + 32 * i"
    by (subst unat_add_no_overflow) (simp_all del: of_nat_mult)
  have one: "decode_binding request ?off = Inr d \<longleftrightarrow>
      binding_ok d \<and> take 32 (drop (32 + 32 * i) (payload_of request)) = encode_wire_binding (binding_wire d)" for d
    using decode_binding_Inr [of request ?off d] assms i(1)
    by (simp add: frame_view_def off payload_of_def del: of_nat_mult)
  have rest: "decode_bindings request 48 [Suc i..<c] = Inr es \<longleftrightarrow> list_all binding_ok es \<and> length es = c - Suc i
      \<and> drop (64 + 32 * i) (payload_of request) = concat (map (encode_wire_binding \<circ> binding_wire) es)" for es
    using Suc.hyps(1) [of "Suc i" es] Suc.hyps(2) i(1) by (simp add: algebra_simps)
  have split: "drop (32 + 32 * i) (payload_of request) =
      take 32 (drop (32 + 32 * i) (payload_of request)) @ drop (64 + 32 * i) (payload_of request)"
    using append_take_drop_id [of 32 "drop (32 + 32 * i) (payload_of request)"] by simp
  have join: "drop (32 + 32 * i) (payload_of request) = encode_wire_binding (binding_wire d) @ bs \<longleftrightarrow>
      take 32 (drop (32 + 32 * i) (payload_of request)) = encode_wire_binding (binding_wire d)
      \<and> drop (64 + 32 * i) (payload_of request) = bs" for d bs
    by (subst split, rule append_eq_append_conv) (use length_payload_of [OF assms(1)] assms(2) i(1) in simp)
  have "c - i = Suc (c - Suc i)"
    using i(1) by simp
  then show ?case
    unfolding i(2) decode_bindings.simps size_wire_binding_def
    by (cases ds) (auto simp only: and_then_eq_Inr one rest join list.pred_inject list.map concat.simps comp_apply
        list.size add_Suc_right add_0_right sum.inject list.inject nat.inject list.distinct nat.distinct)
qed

lemma sorted_windows_distinct:
  fixes f :: "'a \<Rightarrow> 'b::linorder"
  assumes "sorted (map f xs)"
  shows "windows_all (\<lambda>a b. f a \<noteq> f b) xs \<longleftrightarrow> distinct (map f xs)"
  using assms
proof (induction "\<lambda>a b. f a \<noteq> f b" xs rule: windows_all.induct)
  case (1 x y zs)
  have le: "\<forall>z \<in> set zs. f y \<le> f z" "f x \<le> f y" "sorted (map f (y # zs))"
    using 1(2) by simp_all
  have "f x \<notin> f ` set (y # zs)" if "f x \<noteq> f y"
    using le(1,2) that by (auto dest: order_antisym)
  moreover have "windows_all (\<lambda>a b. f a \<noteq> f b) (y # zs) \<longleftrightarrow> distinct (map f (y # zs))"
    by (rule 1(1) [OF le(3)])
  ultimately show ?case
    by auto
qed simp_all

lemma distinct_sort_key: "distinct (map f (sort_key f xs)) \<longleftrightarrow> distinct (map f xs)"
  by (simp add: distinct_map)

definition submit_wire :: "object_id \<Rightarrow> object_id \<Rightarrow> nat \<Rightarrow> u64 \<Rightarrow> submit_request" where
  "submit_wire queue_id program_id count timeout_ns =
     \<lparr>sq_queue_id = queue_id, sq_program_id = program_id, sq_binding_count = of_nat count, sq_flags = 0,
      sq_timeout_ns = timeout_ns\<rparr>"

text \<open>The binding count and the frame size that it asks for.\<close>

lemma binding_count_expected:
  assumes "c \<le> HARD_MAX_BINDINGS"
  shows "(\<exists>b. checked_mul (ucast c) (32 :: u64) = Some b \<and> checked_add 32 b = Some (ucast (n :: u32)))
    \<longleftrightarrow> unat n = 32 + 32 * unat c"
proof -
  have c: "unat c \<le> 4096"
    using assms by (simp add: word_le_nat_alt HARD_MAX_BINDINGS_def)
  then have mul: "checked_mul (ucast c) (32 :: u64) = Some (ucast c * 32)" "unat (ucast c * (32 :: u64)) = unat c * 32"
    by (simp_all add: checked_mul_def unat_word_ariths)
  have "(\<exists>b. checked_mul (ucast c) (32 :: u64) = Some b \<and> checked_add 32 b = Some (ucast n))
      \<longleftrightarrow> checked_add (of_nat 32) (ucast c * 32) = Some (ucast n :: u64)"
    by (simp add: mul(1))
  also have "\<dots> \<longleftrightarrow> 32 + unat (ucast c * (32 :: u64)) = unat n"
    by (rule checked_expected) simp
  finally show ?thesis
    by (auto simp: mul(2))
qed

definition submit_payload ::
  "decoder_limits \<Rightarrow> object_id \<Rightarrow> object_id \<Rightarrow> decoded_binding list \<Rightarrow> u64 \<Rightarrow> u8 list \<Rightarrow> bool" where
  "submit_payload limits queue_id program_id ds timeout_ns payload \<longleftrightarrow>
     queue_id \<noteq> 0 \<and> program_id \<noteq> 0 \<and> ds \<noteq> [] \<and> length ds \<le> unat (dl_max_bindings limits) \<and> length ds \<le> 4096
   \<and> list_all binding_ok ds \<and> distinct (map db_slot ds)
   \<and> payload = encode_submit_request (submit_wire queue_id program_id (length ds) timeout_ns)
       @ concat (map (encode_wire_binding \<circ> binding_wire) ds)"

lemma decode_submit_value:
  assumes fv: "frame_view request n" and n: "32 \<le> unat n"
    and v: "read_payload request 32 decode_submit_request = Inr v"
  shows "decode_submit limits True request n = Inr (q, p, bs, t) \<longleftrightarrow>
    sq_flags v = 0 \<and> sq_binding_count v \<noteq> 0 \<and> sq_binding_count v \<le> dl_max_bindings limits
    \<and> sq_binding_count v \<le> HARD_MAX_BINDINGS \<and> unat n = 32 + 32 * unat (sq_binding_count v)
    \<and> sq_queue_id v = q \<and> q \<noteq> 0 \<and> sq_program_id v = p \<and> p \<noteq> 0 \<and> t = timeout_from_wire_ns (sq_timeout_ns v)
    \<and> (\<exists>ds. decode_bindings request 48 [0..<unat (sq_binding_count v)] = Inr ds
        \<and> distinct (map db_slot ds) \<and> bs = sort_key db_slot ds)"
    (is "_ \<longleftrightarrow> ?ok")
proof (cases "sq_flags v = 0 \<and> sq_binding_count v \<noteq> 0 \<and> sq_binding_count v \<le> dl_max_bindings limits
    \<and> sq_binding_count v \<le> HARD_MAX_BINDINGS")
  case True
  have short: "\<not> (ucast n :: u64) < 32"
    using n by (simp add: word_less_nat_alt)
  have windows: "windows_all (\<lambda>a b. db_slot a \<noteq> db_slot b) (sort_key db_slot ds) \<longleftrightarrow> distinct (map db_slot ds)" for ds
    using sorted_windows_distinct [of db_slot "sort_key db_slot ds"] by (simp add: distinct_sort_key)
  have "decode_submit limits True request n = Inr (q, p, bs, t) \<longleftrightarrow>
      (\<exists>b. checked_mul (ucast (sq_binding_count v)) (32 :: u64) = Some b \<and> checked_add 32 b = Some (ucast n))
    \<and> (\<exists>ds. decode_bindings request 48 [0..<unat (sq_binding_count v)] = Inr ds \<and> distinct (map db_slot ds)
        \<and> bs = sort_key db_slot ds)
    \<and> sq_queue_id v = q \<and> q \<noteq> 0 \<and> sq_program_id v = p \<and> p \<noteq> 0 \<and> t = timeout_from_wire_ns (sq_timeout_ns v)"
    using True by (auto simp: decode_submit_def size_submit_request_def size_wire_binding_def short v not_less Let_def
        windows split: if_splits)
  also have "\<dots> \<longleftrightarrow> ?ok"
    using True binding_count_expected [of "sq_binding_count v" n] by blast
  finally show ?thesis .
next
  case False
  then show ?thesis
    by (auto simp: decode_submit_def size_submit_request_def v not_less split: if_splits)
qed

lemma decode_submit_Inr:
  assumes fv: "frame_view request n"
  shows "decode_submit limits True request n = Inr (q, p, bs, t) \<longleftrightarrow>
    (\<exists>ds ns. submit_payload limits q p ds ns (payload_of request)
      \<and> bs = sort_key db_slot ds \<and> t = timeout_from_wire_ns ns)"
proof (cases "32 \<le> unat n")
  case True
  obtain v where v: "read_payload request 32 decode_submit_request = Inr v"
      "payload_of request = encode_submit_request v @ drop 32 (payload_of request)"
    using sq.front_payload [OF fv] True by (auto simp: size_submit_request_def)
  have eq: "payload_of request = encode_submit_request w @ bytes \<longleftrightarrow> v = w \<and> drop 32 (payload_of request) = bytes"
    for w bytes
    by (subst v(2)) (auto simp: sq.encode_append_inject)
  have wire: "sq_queue_id v = q \<and> sq_program_id v = p \<and> sq_flags v = 0 \<and> unat (sq_binding_count v) = c
      \<and> sq_timeout_ns v = ns \<longleftrightarrow> v = submit_wire q p c ns" if "c < 2 ^ 32" for c ns
    using that by (cases v) (auto simp: submit_wire_def unat_of_nat take_bit_eq_mod)
  have len: "length (drop 32 (payload_of request)) = 32 * length ds"
    if "drop 32 (payload_of request) = concat (map (encode_wire_binding \<circ> binding_wire) ds)" for ds
    unfolding that by (induction ds) simp_all
  show ?thesis
    unfolding decode_submit_value [OF fv True v(1)]
  proof (intro iffI)
    assume L: "sq_flags v = 0 \<and> sq_binding_count v \<noteq> 0 \<and> sq_binding_count v \<le> dl_max_bindings limits
      \<and> sq_binding_count v \<le> HARD_MAX_BINDINGS \<and> unat n = 32 + 32 * unat (sq_binding_count v)
      \<and> sq_queue_id v = q \<and> q \<noteq> 0 \<and> sq_program_id v = p \<and> p \<noteq> 0 \<and> t = timeout_from_wire_ns (sq_timeout_ns v)
      \<and> (\<exists>ds. decode_bindings request 48 [0..<unat (sq_binding_count v)] = Inr ds
          \<and> distinct (map db_slot ds) \<and> bs = sort_key db_slot ds)"
    then obtain ds where ds: "decode_bindings request 48 [0..<unat (sq_binding_count v)] = Inr ds"
        "distinct (map db_slot ds)" "bs = sort_key db_slot ds"
      by blast
    have dec: "list_all binding_ok ds" "length ds = unat (sq_binding_count v)"
        "drop 32 (payload_of request) = concat (map (encode_wire_binding \<circ> binding_wire) ds)"
      using decode_bindings_Inr [OF fv, of "unat (sq_binding_count v)" 0 ds] ds(1) L by simp_all
    have small: "length ds \<le> 4096" "length ds \<le> unat (dl_max_bindings limits)" "ds \<noteq> []"
      using L dec(2) by (auto simp: word_le_nat_alt HARD_MAX_BINDINGS_def unat_eq_iff)
    then have "v = submit_wire q p (length ds) (sq_timeout_ns v)"
      using wire [of "length ds" "sq_timeout_ns v"] L dec(2) by simp
    then have "submit_payload limits q p ds (sq_timeout_ns v) (payload_of request)"
      unfolding submit_payload_def eq using dec small ds(2) L by blast
    with ds(3) L show "\<exists>ds ns. submit_payload limits q p ds ns (payload_of request)
        \<and> bs = sort_key db_slot ds \<and> t = timeout_from_wire_ns ns"
      by blast
  next
    assume "\<exists>ds ns. submit_payload limits q p ds ns (payload_of request)
        \<and> bs = sort_key db_slot ds \<and> t = timeout_from_wire_ns ns"
    then obtain ds ns where S: "submit_payload limits q p ds ns (payload_of request)"
        "bs = sort_key db_slot ds" "t = timeout_from_wire_ns ns"
      by blast
    note P = S(1) [unfolded submit_payload_def eq]
    have v': "sq_queue_id v = q" "sq_program_id v = p" "sq_flags v = 0" "unat (sq_binding_count v) = length ds"
        "sq_timeout_ns v = ns"
      using wire [of "length ds" ns] P by simp_all
    have n: "unat n = 32 + 32 * length ds"
    proof -
      have "length (drop 32 (payload_of request)) = 32 * length ds"
        using len P by blast
      then show ?thesis
        using length_payload_of [OF fv] True by simp
    qed
    have "decode_bindings request 48 [0..<length ds] = Inr ds"
      using decode_bindings_Inr [OF fv n, of 0 ds] P by simp
    moreover have "sq_binding_count v \<noteq> 0" "sq_binding_count v \<le> dl_max_bindings limits"
        "sq_binding_count v \<le> HARD_MAX_BINDINGS"
      using P v'(4) by (auto simp: word_le_nat_alt HARD_MAX_BINDINGS_def)
    ultimately show "sq_flags v = 0 \<and> sq_binding_count v \<noteq> 0 \<and> sq_binding_count v \<le> dl_max_bindings limits
      \<and> sq_binding_count v \<le> HARD_MAX_BINDINGS \<and> unat n = 32 + 32 * unat (sq_binding_count v)
      \<and> sq_queue_id v = q \<and> q \<noteq> 0 \<and> sq_program_id v = p \<and> p \<noteq> 0 \<and> t = timeout_from_wire_ns (sq_timeout_ns v)
      \<and> (\<exists>ds. decode_bindings request 48 [0..<unat (sq_binding_count v)] = Inr ds
          \<and> distinct (map db_slot ds) \<and> bs = sort_key db_slot ds)"
      using P v' n S(2,3) by simp
  qed
next
  case False
  then have "(ucast n :: u64) < 32"
    by (simp add: word_less_nat_alt)
  moreover have "\<not> submit_payload limits q p ds ns (payload_of request)" for ds ns
    using length_payload_of [OF fv] sq.length_encode [of "submit_wire q p (length ds) ns"] False
    by (auto simp: submit_payload_def size_submit_request_def)
  ultimately show ?thesis
    by (auto simp: decode_submit_def size_submit_request_def)
qed

section \<open>Whole bodies\<close>

fun encodes_body :: "decoder_limits \<Rightarrow> byte_source \<Rightarrow> decoded_request_body \<Rightarrow> u8 list \<Rightarrow> bool" where
  "encodes_body limits request DR_GetDeviceInfo payload \<longleftrightarrow> payload = []"
| "encodes_body limits request (DR_CreateContext flags) payload \<longleftrightarrow>
     flags = 0 \<and> payload = encode_create_context_request \<lparr>cc_flags = 0, cc_reserved = 0\<rparr>"
| "encodes_body limits request (DR_DestroyContext oid) payload \<longleftrightarrow>
     oid \<noteq> 0 \<and> payload = encode_object_payload \<lparr>op_object_id = oid\<rparr>"
| "encodes_body limits request (DR_AllocateBuffer ctx desc) payload \<longleftrightarrow>
     ctx \<noteq> 0 \<and> buffer_desc_ok desc \<and> bd_bytes desc \<le> dl_max_buffer_bytes limits
   \<and> supports_memory_domain (dl_capabilities limits) (bd_domain desc)
   \<and> payload = encode_allocate_buffer_request (allocate_wire ctx desc)"
| "encodes_body limits request (DR_FreeBuffer oid) payload \<longleftrightarrow>
     oid \<noteq> 0 \<and> payload = encode_object_payload \<lparr>op_object_id = oid\<rparr>"
| "encodes_body limits request (DR_WriteBuffer oid rng data) payload \<longleftrightarrow>
     oid \<noteq> 0 \<and> buffer_range_ok rng \<and> data = \<lparr>rr_source = request, rr_offset = 40, rr_len = br_bytes rng\<rparr>
   \<and> (\<exists>bytes. payload = encode_transfer_buffer_request (transfer_wire oid rng) @ bytes
        \<and> length bytes = unat (br_bytes rng))"
| "encodes_body limits request (DR_ReadBuffer oid rng) payload \<longleftrightarrow>
     oid \<noteq> 0 \<and> buffer_range_ok rng \<and> 16 + unat (br_bytes rng) < 2 ^ 64
   \<and> payload = encode_transfer_buffer_request (transfer_wire oid rng)"
| "encodes_body limits request (DR_LoadProgram ctx format target data resident) payload \<longleftrightarrow>
     ctx \<noteq> 0 \<and> format \<noteq> 0 \<and> length target = 12 \<and> rr_len data \<noteq> 0 \<and> resident \<noteq> 0
   \<and> rr_len data \<le> dl_max_artifact_bytes limits
   \<and> data = \<lparr>rr_source = request, rr_offset = 96, rr_len = rr_len data\<rparr>
   \<and> (\<exists>bytes. payload = encode_load_program_request (load_wire ctx format target (rr_len data) resident) @ bytes
        \<and> length bytes = unat (rr_len data))"
| "encodes_body limits request (DR_UnloadProgram oid) payload \<longleftrightarrow>
     oid \<noteq> 0 \<and> payload = encode_object_payload \<lparr>op_object_id = oid\<rparr>"
| "encodes_body limits request (DR_CreateQueue ctx flags) payload \<longleftrightarrow>
     ctx \<noteq> 0 \<and> flags = 0
   \<and> payload = encode_create_queue_request \<lparr>cq_context_id = ctx, cq_flags = 0, cq_reserved = 0\<rparr>"
| "encodes_body limits request (DR_DestroyQueue oid) payload \<longleftrightarrow>
     oid \<noteq> 0 \<and> payload = encode_object_payload \<lparr>op_object_id = oid\<rparr>"
| "encodes_body limits request (DR_Submit queue_id program_id bindings timeout) payload \<longleftrightarrow>
     (\<exists>ds ns. submit_payload limits queue_id program_id ds ns payload
        \<and> bindings = sort_key db_slot ds \<and> timeout = timeout_from_wire_ns ns)"
| "encodes_body limits request (DR_PollEvent oid) payload \<longleftrightarrow>
     oid \<noteq> 0 \<and> payload = encode_object_payload \<lparr>op_object_id = oid\<rparr>"
| "encodes_body limits request (DR_CancelEvent oid) payload \<longleftrightarrow>
     oid \<noteq> 0 \<and> payload = encode_object_payload \<lparr>op_object_id = oid\<rparr>"
| "encodes_body limits request (DR_DestroyEvent oid) payload \<longleftrightarrow>
     oid \<noteq> 0 \<and> payload = encode_object_payload \<lparr>op_object_id = oid\<rparr>"

text \<open>The payload bytes of the largest success response.\<close>

fun response_payload_bytes :: "decoded_request_body \<Rightarrow> u64" where
  "response_payload_bytes DR_GetDeviceInfo = 76"
| "response_payload_bytes (DR_CreateContext _) = 8"
| "response_payload_bytes (DR_AllocateBuffer _ _) = 8"
| "response_payload_bytes (DR_ReadBuffer _ rng) = br_bytes rng"
| "response_payload_bytes (DR_LoadProgram _ _ _ _ _) = 8"
| "response_payload_bytes (DR_CreateQueue _ _) = 8"
| "response_payload_bytes (DR_Submit _ _ _ _) = 8"
| "response_payload_bytes (DR_PollEvent _) = 8"
| "response_payload_bytes _ = 0"

lemma decode_body_Inr:
  assumes fv: "frame_view request n"
  shows "decode_body limits True request n opcode = Inr (body, required) \<longleftrightarrow>
    body_opcode body = opcode \<and> encodes_body limits request body (payload_of request)
    \<and> required = 16 + response_payload_bytes body"
proof -
  have empty: "expect_payload_bytes n 0 = Inr () \<longleftrightarrow> payload_of request = []"
    using length_payload_of [OF fv] by (simp add: expect_payload_bytes_Inr flip: length_0_conv)
  note arms = decode_object_Inr [OF fv] decode_create_context_Inr [OF fv] decode_create_queue_Inr [OF fv]
    decode_allocate_buffer_Inr [OF fv] decode_write_buffer_Inr [OF fv] decode_load_program_Inr [OF fv]
    decode_submit_Inr [OF fv] decode_transfer_Inr [OF fv]
  show ?thesis
    by (cases opcode; cases body)
      (auto simp: with_response_def arms empty size_wire_device_info_def size_object_payload_def
        size_submit_response_def size_wire_event_state_def checked_add_Some)
qed

section \<open>Whole frames\<close>

lemma response_payload_small:
  "encodes_body limits request body payload \<Longrightarrow> 16 + unat (response_payload_bytes body) < 2 ^ 64"
  by (cases body) auto

definition request_frame :: "known_opcode \<Rightarrow> u64 \<Rightarrow> u8 list \<Rightarrow> u8 list" where
  "request_frame opcode request_id payload =
     encode_request_header (request_header_new opcode 0 (of_nat (length payload)) request_id) @ payload"

lemma decode_frame_header:
  assumes src: "source_ok request" and cap: "16 \<le> unat cap" and len: "16 \<le> unat (bs_len request)"
  obtains h where "read_wire request 0 size_request_header decode_request_header = Inr h"
    "source_content request = encode_request_header h @ payload_of request"
    "decode_frame limits True request cap = Inr r \<longleftrightarrow>
       unat (bs_len request) \<le> unat (dl_max_request_bytes limits) \<and> frame_view request (rq_payload_bytes h)
     \<and> rq_request_id h = dq_request_id r \<and> dq_request_id r \<noteq> 0 \<and> rq_flags h = 0
     \<and> (\<exists>opcode required. rq_opcode h = opcode_code opcode
         \<and> decode_body limits True request (rq_payload_bytes h) opcode = Inr (dq_body r, required)
         \<and> required \<le> ucast (dl_max_response_bytes limits) \<and> required \<le> cap
         \<and> dq_required_response_bytes r = ucast required)"
proof -
  obtain h where h: "read_wire request 0 size_request_header decode_request_header = Inr h"
    using rq.read_wire_ok [OF src, of 0] len by (auto simp: size_request_header_def)
  then have "take 16 (source_content request) = encode_request_header h"
    using rq.read_wire_Inr [OF src, of 0 h] len by (simp add: size_request_header_def)
  then have enc: "source_content request = encode_request_header h @ payload_of request"
    unfolding payload_of_def by (metis append_take_drop_id)
  have n: "unat (16 + ucast (rq_payload_bytes h) :: u64) = 16 + unat (rq_payload_bytes h)"
    using unat_u32_less [of "rq_payload_bytes h"] by (subst unat_add_no_overflow) simp_all
  have view: "bs_len request = 16 + ucast (rq_payload_bytes h) \<longleftrightarrow> frame_view request (rq_payload_bytes h)"
    unfolding frame_view_def unat_eq_iff n using src by simp
  have "decode_frame limits True request cap = Inr r \<longleftrightarrow>
       unat (bs_len request) \<le> unat (dl_max_request_bytes limits) \<and> frame_view request (rq_payload_bytes h)
     \<and> rq_request_id h = dq_request_id r \<and> dq_request_id r \<noteq> 0 \<and> rq_flags h = 0
     \<and> (\<exists>opcode required. rq_opcode h = opcode_code opcode
         \<and> decode_body limits True request (rq_payload_bytes h) opcode = Inr (dq_body r, required)
         \<and> required \<le> ucast (dl_max_response_bytes limits) \<and> required \<le> cap
         \<and> dq_required_response_bytes r = ucast required)"
    using cap len
    by (cases r) (auto simp: decode_frame_def Let_def h view word_less_nat_alt not_less word_le_nat_alt
        request_header_known_opcode_def opcode_try_from_Inr split: if_splits)
  with that [OF h enc] show ?thesis .
qed

text \<open>The frames that a decoder with these limits accepts as a request.\<close>

definition accepted_frame :: "decoder_limits \<Rightarrow> byte_source \<Rightarrow> u64 \<Rightarrow> decoded_request \<Rightarrow> bool" where
  "accepted_frame limits request cap r \<longleftrightarrow>
     (\<exists>payload. source_content request = request_frame (body_opcode (dq_body r)) (dq_request_id r) payload
        \<and> length payload < 2 ^ 32 \<and> encodes_body limits request (dq_body r) payload)
   \<and> length (source_content request) \<le> unat (dl_max_request_bytes limits) \<and> dq_request_id r \<noteq> 0
   \<and> unat (dq_required_response_bytes r) = 16 + unat (response_payload_bytes (dq_body r))
   \<and> 16 + unat (response_payload_bytes (dq_body r)) \<le> unat (dl_max_response_bytes limits)
   \<and> 16 + unat (response_payload_bytes (dq_body r)) \<le> unat cap"

lemma required_bounds:
  assumes "16 + unat b < 2 ^ 64"
  shows "16 + b \<le> ucast m \<and> 16 + b \<le> cap \<and> d = ucast (16 + b) \<longleftrightarrow>
    unat (d :: u32) = 16 + unat b \<and> 16 + unat b \<le> unat (m :: u32) \<and> 16 + unat b \<le> unat (cap :: u64)"
proof -
  have sum_b: "unat (16 + b) = 16 + unat b"
    using assms by (simp add: unat_add_no_overflow)
  have "unat (ucast (16 + b) :: u32) = 16 + unat b" if "16 + unat b \<le> unat m"
    using that unat_u32_less [of m] by (simp add: unsigned_ucast_eq take_bit_eq_mod sum_b)
  then show ?thesis
    by (auto simp: word_le_nat_alt sum_b unat_eq_iff)
qed

lemma decode_frame_Inr:
  assumes src: "source_ok request"
  shows "decode_frame limits True request cap = Inr r \<longleftrightarrow> accepted_frame limits request cap r"
proof (cases "16 \<le> unat cap \<and> 16 \<le> unat (bs_len request)")
  case False
  moreover have "\<not> accepted_frame limits request cap r"
    using False source_ok_len [OF src] rq.length_encode
    by (auto simp: accepted_frame_def request_frame_def size_request_header_def)
  ultimately show ?thesis
    by (auto simp: decode_frame_def word_less_nat_alt)
next
  case True
  then have cap: "16 \<le> unat cap" and size: "16 \<le> unat (bs_len request)"
    by simp_all
  obtain h where "read_wire request 0 size_request_header decode_request_header = Inr h"
    and h: "source_content request = encode_request_header h @ payload_of request"
    and dec: "decode_frame limits True request cap = Inr r \<longleftrightarrow>
       unat (bs_len request) \<le> unat (dl_max_request_bytes limits) \<and> frame_view request (rq_payload_bytes h)
     \<and> rq_request_id h = dq_request_id r \<and> dq_request_id r \<noteq> 0 \<and> rq_flags h = 0
     \<and> (\<exists>opcode required. rq_opcode h = opcode_code opcode
         \<and> decode_body limits True request (rq_payload_bytes h) opcode = Inr (dq_body r, required)
         \<and> required \<le> ucast (dl_max_response_bytes limits) \<and> required \<le> cap
         \<and> dq_required_response_bytes r = ucast required)"
    using decode_frame_header [OF src cap size, of limits r] .
  let ?body = "dq_body r"
  have frame: "source_content request = request_frame (body_opcode ?body) (dq_request_id r) payload \<longleftrightarrow>
      h = request_header_new (body_opcode ?body) 0 (of_nat (length payload)) (dq_request_id r)
      \<and> payload = payload_of request" for payload
    by (subst h) (auto simp: request_frame_def rq.encode_append_inject)
  have view: "frame_view request n \<longleftrightarrow> length (payload_of request) = unat n" for n
    using True src source_ok_len [OF src] by (auto simp: frame_view_def payload_of_def)
  have head: "frame_view request (rq_payload_bytes h) \<and> rq_request_id h = dq_request_id r \<and> rq_flags h = 0
      \<and> rq_opcode h = opcode_code (body_opcode ?body) \<longleftrightarrow>
      h = request_header_new (body_opcode ?body) 0 (of_nat (length (payload_of request))) (dq_request_id r)
      \<and> length (payload_of request) < 2 ^ 32"
    by (cases h) (use unat_u32_less in \<open>auto simp: request_header_new_def view unat_of_nat take_bit_eq_mod\<close>)
  have body: "(\<exists>opcode required. rq_opcode h = opcode_code opcode
      \<and> decode_body limits True request (rq_payload_bytes h) opcode = Inr (?body, required)
      \<and> required \<le> ucast (dl_max_response_bytes limits) \<and> required \<le> cap
      \<and> dq_required_response_bytes r = ucast required) \<longleftrightarrow>
    rq_opcode h = opcode_code (body_opcode ?body) \<and> encodes_body limits request ?body (payload_of request)
      \<and> unat (dq_required_response_bytes r) = 16 + unat (response_payload_bytes ?body)
      \<and> 16 + unat (response_payload_bytes ?body) \<le> unat (dl_max_response_bytes limits)
      \<and> 16 + unat (response_payload_bytes ?body) \<le> unat cap"
    if fv: "frame_view request (rq_payload_bytes h)"
    unfolding decode_body_Inr [OF fv]
    using required_bounds [OF response_payload_small, of limits request ?body "payload_of request"] by auto
  show ?thesis
    unfolding dec accepted_frame_def frame using body head source_ok_len [OF src] by auto
qed

section \<open>Refused frames\<close>

text \<open>A conforming source never fails an access of the decoder.\<close>

context wire_codec
begin

lemma read_payload_not_Inl:
  assumes "frame_view request n" "width \<le> unat n" "width \<le> 80"
  shows "read_payload request width decode \<noteq> Inl e"
  using read_payload_ok [OF assms] by auto

end

lemma decode_object_id_Inl: "decode_object_id raw \<noteq> Inl BDE_Access"
  by (simp add: decode_object_id_def object_id_from_raw_def bde_invalid_def)

lemma map_err_not_access: "map_err (\<lambda>_. BDE_Protocol status) r \<noteq> Inl BDE_Access"
  by (cases r) simp_all

lemma ok_or_not_access: "ok_or (BDE_Protocol status) r \<noteq> Inl BDE_Access"
  by (cases r) simp_all

lemmas not_access = decode_object_id_Inl map_err_not_access ok_or_not_access and_then_eq_Inl
  bde_invalid_def bde_resource_limit_def

lemma expect_payload_bytes_access: "expect_payload_bytes n e \<noteq> Inl BDE_Access"
  by (simp add: expect_payload_bytes_def bde_invalid_def)

lemma decode_object_access: "frame_view request n \<Longrightarrow> decode_object request n \<noteq> Inl BDE_Access"
  using op.read_payload_not_Inl [of request n]
  by (auto simp: decode_object_def not_access expect_payload_bytes_access expect_payload_bytes_Inr size_object_payload_def)

lemma decode_create_context_access: "frame_view request n \<Longrightarrow> decode_create_context request n \<noteq> Inl BDE_Access"
  using cc.read_payload_not_Inl [of request n]
  by (auto simp: decode_create_context_def not_access expect_payload_bytes_access expect_payload_bytes_Inr
      size_create_context_request_def)

lemma decode_create_queue_access: "frame_view request n \<Longrightarrow> decode_create_queue request n \<noteq> Inl BDE_Access"
  using cq.read_payload_not_Inl [of request n]
  by (auto simp: decode_create_queue_def not_access expect_payload_bytes_access expect_payload_bytes_Inr
      size_create_queue_request_def split: if_splits)

lemma decode_allocate_buffer_access:
  "frame_view request n \<Longrightarrow> decode_allocate_buffer limits request n \<noteq> Inl BDE_Access"
  using ab.read_payload_not_Inl [of request n]
  by (auto simp: decode_allocate_buffer_def not_access expect_payload_bytes_access expect_payload_bytes_Inr
      size_allocate_buffer_request_def split: if_splits)

lemma decode_transfer_access:
  assumes "frame_view request n"
  shows "decode_transfer request n has_data \<noteq> Inl BDE_Access"
proof (cases "(ucast n :: u64) < 24")
  case True
  then show ?thesis
    by (simp add: decode_transfer_def size_transfer_buffer_request_def bde_invalid_def)
next
  case False
  then have "read_payload request 24 decode_transfer_buffer_request \<noteq> Inl BDE_Access"
    using tb.read_payload_not_Inl [OF assms] by (simp add: size_transfer_buffer_request_def word_less_nat_alt)
  with False show ?thesis
    by (auto simp: decode_transfer_def size_transfer_buffer_request_def not_access split: if_splits)
qed

lemma decode_write_buffer_access:
  assumes "frame_view request n"
  shows "decode_write_buffer request n \<noteq> Inl BDE_Access"
proof
  assume "decode_write_buffer request n = Inl BDE_Access"
  then obtain oid rng where tr: "decode_transfer request n True = Inr (oid, rng)"
      and fail: "\<And>data. readable_region_new request 40 (br_bytes rng) \<noteq> Inr data"
    using decode_transfer_access [OF assms, of True]
    by (auto simp: decode_write_buffer_def and_then_eq_Inl size_transfer_buffer_request_def)
      (metis Inl_Inr_False map_err_simps(2))
  let ?body = "DR_WriteBuffer oid rng \<lparr>rr_source = request, rr_offset = 40, rr_len = br_bytes rng\<rparr>"
  have "decode_write_buffer request n = Inr ?body"
    using tr unfolding decode_write_buffer_Inr [OF assms] decode_transfer_Inr [OF assms] by auto
  with fail show False
    using tr by (auto simp: decode_write_buffer_def size_transfer_buffer_request_def)
qed

lemma decode_load_program_access:
  assumes "frame_view request n"
  shows "decode_load_program limits request n \<noteq> Inl BDE_Access"
proof (cases "(ucast n :: u64) < 80")
  case True
  then show ?thesis
    by (simp add: decode_load_program_def size_load_program_request_def bde_invalid_def)
next
  case False
  then have "read_payload request 80 decode_load_program_request \<noteq> Inl BDE_Access"
    using lp.read_payload_not_Inl [OF assms] by (simp add: size_load_program_request_def word_less_nat_alt)
  moreover have "map_err (\<lambda>_. BDE_Access) (readable_region_new request 96 len) \<noteq> Inl BDE_Access"
    if "checked_add 80 len = Some (ucast n :: u64)" for len
    using tail_region [OF assms, of 80 len] checked_expected [of 80 len n] that by simp
  ultimately show ?thesis
    using False
    by (auto simp: decode_load_program_def size_load_program_request_def not_access split: if_splits)
qed

lemma decode_binding_access:
  assumes "source_ok request" "unat offset + 32 \<le> unat (bs_len request)"
  shows "decode_binding request offset \<noteq> Inl BDE_Access"
proof -
  have "read_wire request offset 32 decode_wire_binding \<noteq> Inl BDE_Access"
    using wb.read_wire_ok [OF assms(1), of offset] assms(2) by (auto simp: size_wire_binding_def)
  then show ?thesis
    by (auto simp: decode_binding_def size_wire_binding_def not_access split: if_splits)
qed

lemma decode_bindings_access:
  assumes "frame_view request n" "unat n = 32 + 32 * c" "set indices \<subseteq> {..<c}"
  shows "decode_bindings request 48 indices \<noteq> Inl BDE_Access"
  using assms(3)
proof (induction indices)
  case (Cons i indices)
  have "16 + (32 + 32 * c) < 2 ^ 64" "i < c"
    using assms(1,2) Cons.prems unat_u64_less [of "bs_len request"] by (simp_all add: frame_view_def)
  then have bound: "48 + i * 32 < 2 ^ 64" "i * 32 < 2 ^ 64"
    by simp_all
  then have "unat (48 + of_nat (i * 32) :: u64) = 48 + i * 32"
    using unat_of_nat_u64 [OF bound(2)] by (subst unat_add_no_overflow) (simp_all del: of_nat_mult)
  then have "unat (48 + of_nat (i * 32) :: u64) + 32 \<le> unat (bs_len request)"
    using assms(1,2) \<open>i < c\<close> by (simp add: frame_view_def del: of_nat_mult)
  with Cons show ?case
    using decode_binding_access [of request "48 + of_nat (i * 32)"] assms(1)
    by (auto simp: and_then_eq_Inl size_wire_binding_def frame_view_def simp del: of_nat_mult)
qed simp

lemma decode_submit_access:
  assumes "frame_view request n"
  shows "decode_submit limits alloc request n \<noteq> Inl BDE_Access"
proof (cases "(ucast n :: u64) < 32")
  case True
  then show ?thesis
    by (simp add: decode_submit_def size_submit_request_def bde_invalid_def)
next
  case False
  then have "read_payload request 32 decode_submit_request \<noteq> Inl BDE_Access"
    using sq.read_payload_not_Inl [OF assms] by (simp add: size_submit_request_def word_less_nat_alt)
  moreover have "decode_bindings request 48 [0..<unat c] \<noteq> Inl BDE_Access"
    if "c \<le> HARD_MAX_BINDINGS" "checked_mul (ucast c) (32 :: u64) = Some b" "checked_add 32 b = Some (ucast n)" for c b
    using binding_count_expected [OF that(1), of n] that(2,3) decode_bindings_access [OF assms, of "unat c"]
    by (auto simp: atLeast0LessThan)
  ultimately show ?thesis
    using False
    by (auto simp: decode_submit_def size_submit_request_def size_wire_binding_def not_access Let_def not_less
        split: if_splits)
qed

lemma decode_body_access:
  assumes "frame_view request n"
  shows "decode_body limits alloc request n opcode \<noteq> Inl BDE_Access"
  using decode_object_access [OF assms] decode_create_context_access [OF assms]
    decode_create_queue_access [OF assms] decode_allocate_buffer_access [OF assms]
    decode_transfer_access [OF assms] decode_write_buffer_access [OF assms]
    decode_load_program_access [OF assms] decode_submit_access [OF assms]
  by (cases opcode) (auto simp: with_response_def not_access expect_payload_bytes_access)

lemma decode_frame_unrecoverable:
  assumes src: "source_ok request"
  shows "decode_frame limits alloc request cap = Inl (FDE_Unrecoverable e) \<longleftrightarrow>
    unat cap < 16 \<and> e = UDE_ResponseHeader \<or> 16 \<le> unat cap \<and> unat (bs_len request) < 16 \<and> e = UDE_RequestHeader"
proof (cases "16 \<le> unat cap \<and> 16 \<le> unat (bs_len request)")
  case False
  then show ?thesis
    by (auto simp: decode_frame_def word_less_nat_alt)
next
  case True
  obtain h where h: "read_wire request 0 size_request_header decode_request_header = Inr h"
    using rq.read_wire_ok [OF src, of 0] True by (auto simp: size_request_header_def)
  have n: "unat (16 + ucast (rq_payload_bytes h) :: u64) = 16 + unat (rq_payload_bytes h)"
    using unat_u32_less [of "rq_payload_bytes h"] by (subst unat_add_no_overflow) simp_all
  have "map_err (map_body_error i) (decode_body limits alloc request (rq_payload_bytes h) opcode)
      \<noteq> Inl (FDE_Unrecoverable e)" if "bs_len request = 16 + ucast (rq_payload_bytes h)" for i opcode
  proof -
    have "frame_view request (rq_payload_bytes h)"
      using src n that by (simp add: frame_view_def)
    then show ?thesis
      using decode_body_access [of request "rq_payload_bytes h" limits alloc opcode]
      by (cases "decode_body limits alloc request (rq_payload_bytes h) opcode"; cases "projl (decode_body limits alloc
        request (rq_payload_bytes h) opcode)") auto
  qed
  moreover have "map_err (\<lambda>_. FDE_Protocol i st) x \<noteq> Inl (FDE_Unrecoverable e)" for i st and x :: "unknown_opcode + known_opcode"
    by (cases x) simp_all
  ultimately have "decode_frame limits alloc request cap \<noteq> Inl (FDE_Unrecoverable e)"
    using True by (auto simp: decode_frame_def Let_def h word_less_nat_alt and_then_eq_Inl split: if_splits)
  with True show ?thesis
    by auto
qed

section \<open>Properties\<close>

lemma decoder_limits_response: "decoder_limits_new config info = Inr limits \<Longrightarrow> 92 \<le> unat (dl_max_response_bytes limits)"
  by (auto simp: decoder_limits_new_def wire_config_validate_Inr word_le_nat_alt split: if_splits)

lemma decode_frame_protocol:
  assumes "decode_frame limits alloc request cap = Inl (FDE_Protocol request_id status)"
  shows "16 \<le> unat cap"
  using assms by (auto simp: decode_frame_def word_less_nat_alt split: if_splits)

lemma preflight_law:
  assumes "byte_sink_port sink content valid" "valid k" "source_ok request"
    and "decoder_limits_new config info = Inr limits"
  shows "\<exists>p k'. preflight_command_frame limits alloc regions request sink k = (Inr p, k')
    \<and> (case p of
         FP_Ready _ \<Rightarrow> k' = k
       | FP_Rejected request_id status used \<Rightarrow> used = 16 \<and> valid k' \<and> 16 \<le> length (content k)
           \<and> content k' = response_frame status request_id [] @ drop 16 (content k)
       | FP_Unusable u \<Rightarrow> k' = k \<and> (\<forall>e. u = UF_Request e \<longrightarrow>
           length (content k) < 16 \<and> e = UDE_ResponseHeader \<or> unat (bs_len request) < 16 \<and> e = UDE_RequestHeader))"
proof -
  have fits: "frame_fits (dl_max_response_bytes limits) 0"
    using decoder_limits_response [OF assms(4)] by (simp add: frame_fits_def frame_bytes_def)
  have cap: "unat (sk_len sink k) = length (content k)"
    by (rule byte_sink_port.sink_len [OF assms(1,2)])
  show ?thesis
  proof (cases "and_then (validate_chain_layout regions (dl_max_chain_descriptors limits)) (\<lambda>layout.
      validate_port_lengths layout (bs_len request) (sk_len sink k))")
    case (Inl e)
    note run = preflight_command_frame_def [of limits alloc regions request sink k, unfolded Inl sum.case]
    show ?thesis
      by (simp add: run)
  next
    case (Inr u)
    note run = preflight_command_frame_def [of limits alloc regions request sink k, unfolded Inr sum.case]
    show ?thesis
    proof (cases "decode_frame limits alloc request (sk_len sink k)")
      case (Inr r)
      then show ?thesis
        by (simp add: run)
    next
      case (Inl e)
      show ?thesis
      proof (cases e)
        case (FDE_Protocol request_id status)
        have long: "16 \<le> length (content k)"
          using decode_frame_protocol Inl cap FDE_Protocol by metis
        then obtain k' where "write_empty (response_writer_new sink (dl_max_response_bytes limits)) k status request_id
            = (Inr 16, k')" "valid k'" "content k' = response_frame status request_id [] @ drop 16 (content k)"
          using byte_sink_port.write_empty_law [OF assms(1,2), of "dl_max_response_bytes limits" status request_id] fits
          by blast
        with Inl FDE_Protocol long show ?thesis
          by (simp add: run)
      next
        case (FDE_Unrecoverable x)
        with Inl decode_frame_unrecoverable [OF assms(3), of limits alloc "sk_len sink k" x]
        show ?thesis
          by (auto simp: run cap)
      next
        case (FDE_InsufficientResponse a b c)
        with Inl show ?thesis
          by (simp add: run)
      qed
    qed
  qed
qed

text \<open>C19: the decoder accepts exactly the well-formed frames. Over any source that keeps the contract
of \<open>ByteSource\<close>, and when the reservation for the bindings of a submission succeeds, a frame decodes to
a request if and only if its bytes are the header of that request's opcode and identifier followed by a
payload that encodes its body (every reserved byte zero, every identifier nonzero, every range nonempty
and without overflow, bindings with distinct slots in any order on the wire and sorted by slot in the
request, the length fields matching the frame), and it is within the negotiated request, response and
resource limits. So a request is never misread, and no well-formed request is refused for its form.\<close>
theorem decode_frame_exact:
  assumes "source_ok request"
  shows "decode_frame limits True request cap = Inr r \<longleftrightarrow> accepted_frame limits request cap r"
  by (rule decode_frame_Inr [OF assms])

definition sample_decoder :: decoder_limits where
  "sample_decoder = \<lparr>dl_max_chain_descriptors = 8, dl_max_request_bytes = 4096, dl_max_response_bytes = 4096,
     dl_max_bindings = 8, dl_max_buffer_bytes = 4096, dl_max_artifact_bytes = 4096, dl_capabilities = 1\<rparr>"

theorem decode_frame_exact_witness:
  "source_ok (slice_source (request_frame Op_DestroyContext 9 (encode_object_payload \<lparr>op_object_id = 5\<rparr>)))
   \<and> decode_frame sample_decoder True
       (slice_source (request_frame Op_DestroyContext 9 (encode_object_payload \<lparr>op_object_id = 5\<rparr>))) 16
     = Inr \<lparr>dq_request_id = 9, dq_required_response_bytes = 16, dq_body = DR_DestroyContext 5\<rparr>"
proof -
  let ?payload = "encode_object_payload \<lparr>op_object_id = 5\<rparr>"
  let ?frame = "request_frame Op_DestroyContext 9 ?payload"
  have len: "length ?payload = 8" "length ?frame = 24"
    using rq.length_encode op.length_encode
    by (simp_all add: request_frame_def size_object_payload_def size_request_header_def)
  then have fits: "slice_fits ?frame"
    by (simp add: slice_fits_def)
  have src: "source_ok (slice_source ?frame)" "source_content (slice_source ?frame) = ?frame"
    using slice_in.port_source_ok [OF fits] slice_in.port_content [OF fits] by simp_all
  have "accepted_frame sample_decoder (slice_source ?frame) 16
      \<lparr>dq_request_id = 9, dq_required_response_bytes = 16, dq_body = DR_DestroyContext 5\<rparr>"
    using len by (auto simp: accepted_frame_def src(2) sample_decoder_def intro!: exI [of _ ?payload])
  with decode_frame_exact [OF src(1)] src(1) show ?thesis
    by blast
qed

text \<open>C20: the preflight of a chain cannot fail, and it writes either nothing or one error header. Over
conforming ports and limits that were negotiated, a chain that is ready or unusable leaves the response
port untouched; a chain that is rejected gets exactly the 16-byte header with the status and the request
identifier, in front of untouched bytes. Only a port too short for a header makes the request itself
unusable.\<close>
theorem preflight_writes_one_header_or_nothing:
  assumes "byte_sink_port sink content valid" "valid k" "source_ok request"
    and "decoder_limits_new config info = Inr limits"
  shows "\<exists>p k'. preflight_command_frame limits alloc regions request sink k = (Inr p, k')
    \<and> (case p of
         FP_Ready _ \<Rightarrow> k' = k
       | FP_Rejected request_id status used \<Rightarrow> used = 16 \<and> valid k' \<and> 16 \<le> length (content k)
           \<and> content k' = response_frame status request_id [] @ drop 16 (content k)
       | FP_Unusable u \<Rightarrow> k' = k \<and> (\<forall>e. u = UF_Request e \<longrightarrow>
           length (content k) < 16 \<and> e = UDE_ResponseHeader \<or> unat (bs_len request) < 16 \<and> e = UDE_RequestHeader))"
  by (rule preflight_law [OF assms])

definition sample_config :: wire_config where
  "sample_config = \<lparr>wc_protocol_major = 1, wc_protocol_minor = 0, wc_command_queue_count = 1,
     wc_max_chain_descriptors = 8, wc_max_request_bytes = 4096, wc_max_response_bytes = 4096\<rparr>"

definition sample_info :: device_info where
  "sample_info = \<lparr>di_identity = \<lparr>di_uuid = replicate 16 0, di_class = 1, di_vendor_id = 2, di_device_id = 3\<rparr>,
     di_capabilities = 1,
     di_limits = \<lparr>max_contexts = 2, max_buffers_per_context = 2, max_programs_per_context = 2,
       max_queues_per_context = 2, max_events_per_context = 2, max_bindings_per_submission = 8,
       max_buffer_bytes = 4096, max_artifact_bytes = 4096\<rparr>\<rparr>"

lemma sample_decoder_new: "decoder_limits_new sample_config sample_info = Inr sample_decoder"
  by (simp add: decoder_limits_new_def sample_config_def sample_info_def sample_decoder_def
      wire_config_validate_def proto_consts)

theorem preflight_writes_one_header_or_nothing_witness:
  "\<exists>p k'. preflight_command_frame sample_decoder True [region_readable 16, region_writable 20]
       (slice_source (replicate 16 0)) slice_sink (replicate 20 7) = (Inr p, k')
     \<and> (case p of FP_Ready _ \<Rightarrow> k' = replicate 20 7
        | FP_Rejected request_id status used \<Rightarrow> used = 16 \<and> slice_fits k' \<and> 16 \<le> length (replicate 20 (7 :: u8))
            \<and> k' = response_frame status request_id [] @ drop 16 (replicate 20 7)
        | FP_Unusable u \<Rightarrow> k' = replicate 20 7 \<and> (\<forall>e. u = UF_Request e \<longrightarrow>
            length (replicate 20 (7 :: u8)) < 16 \<and> e = UDE_ResponseHeader
            \<or> unat (bs_len (slice_source (replicate 16 0))) < 16 \<and> e = UDE_RequestHeader))"
proof -
  have fits: "slice_fits (replicate 20 7)" "slice_fits (replicate 16 0)"
    by (simp_all add: slice_fits_def)
  show ?thesis
    by (rule preflight_writes_one_header_or_nothing [OF slice_out.byte_sink_port_axioms fits(1)
          slice_in.port_source_ok [OF fits(2)] sample_decoder_new])
qed

end
