(* ===== verification/Engine_Runs.thy ===== *)
theory Engine_Runs
  imports Engine_Recovery Frame_Exact
begin

text \<open>
  Runs of the command engine: any sequence of commands and resets, over any backend, any chains and
  any sinks, with the backend progressing on its own in between. The invariant of the engine holds
  along every run, and the section of properties states what that means for the guest and for the
  backend.
\<close>

section \<open>What a reset returns\<close>

lemma saturating_add_default [simp]:
  "resource_counts_saturating_add resource_counts_default c = c"
  "retained_bytes_saturating_add retained_bytes_default r = r"
  by (simp_all add: resource_counts_saturating_add_def resource_counts_default_def
      retained_bytes_saturating_add_def retained_bytes_default_def)

lemma all_kinds: "(\<forall>kind. P kind) \<longleftrightarrow> P OK_Context \<and> P OK_Buffer \<and> P OK_Program \<and> P OK_Queue \<and> P OK_Event"
  by (metis object_kind.exhaust)

lemma ds_is_empty_iff:
  assumes "state_inv s"
  shows "ds_is_empty s \<longleftrightarrow> (\<forall>kind. live_count s kind = 0)"
proof -
  have "ds_is_empty s \<longleftrightarrow> (\<forall>kind. unat (rc_of kind (ds_resource_counts s)) = 0)"
    by (auto simp: ds_is_empty_def table_is_empty_def ds_resource_counts_def table_len_def all_kinds unat_eq_iff)
  then show ?thesis
    by (simp add: live_count_resources [OF assms])
qed

lemma empty_counts:
  assumes inv: "state_inv s" and empty: "ds_is_empty s"
  shows "resource_counts_is_empty (ds_resource_counts s)" "retained_bytes_is_empty (ds_retained s)"
    "phase s kind oid = None"
proof -
  show "resource_counts_is_empty (ds_resource_counts s)"
    using empty by (simp add: resource_counts_is_empty_def ds_resource_counts_def ds_is_empty_def
        table_is_empty_def table_len_def)
  have none: "dom (phase s k) = {}" for k
    using empty phase_finite [OF inv, of k] by (simp add: ds_is_empty_iff [OF inv] live_count_def)
  then show "phase s kind oid = None"
    by blast
  have "buffers_of s = Map.empty" "programs_of s = Map.empty"
    using none [of OK_Buffer] none [of OK_Program] by simp_all
  then show "retained_bytes_is_empty (ds_retained s)"
    using state_invD(7) [OF inv] by (simp add: charges_ok_def retained_bytes_is_empty_def unat_eq_iff)
qed

definition pass_of :: "('c, 'b, 'p, 'q, 'e, 'k, 'w) cp \<Rightarrow> 'w \<Rightarrow> ('c, 'b, 'p, 'q, 'e, 'w) ru" where
  "pass_of cp w = reset_pass (cp_accelerator cp) (cp_info cp) (reset_start (cp_state cp) w)"

lemma pass_of_accounted:
  assumes "engine_inv cp"
  shows "accounted (cp_state cp) (pass_of cp w)"
proof -
  have "state_inv (cp_state cp)"
    using assms by (simp add: engine_inv_def consistent_def)
  then show ?thesis
    by (simp add: pass_of_def reset_pass_accounted reset_start_accounted)
qed

definition report_of :: "reset_disposition \<Rightarrow> ('c, 'b, 'p, 'q, 'e, 'w) ru \<Rightarrow> reset_report" where
  "report_of disposition x = \<lparr>re_disposition = disposition, re_released = ru_released x,
     re_quarantined = ds_resource_counts (ru_state x), re_released_bytes = ru_released_bytes x,
     re_quarantined_bytes = ds_retained (ru_state x)\<rparr>"

text \<open>A pass that met no obstacle and left nothing behind renews the state; any other is final.\<close>

lemma reset_cases:
  assumes inv: "engine_inv cp" and health: "cp_health cp \<noteq> BackendDiscardRequired"
    and fresh: "namespace \<noteq> ds_namespace (cp_state cp)"
  obtains (reusable) s where "pg_backend_reusable (ru_progress (pass_of cp w))" "ds_is_empty (ru_state (pass_of cp w))"
      "device_state_new namespace (di_limits (cp_info cp)) (cp_policy cp) = Inr s"
      "reset cp namespace w = (Inr (report_of RD_BackendReusable (pass_of cp w)),
         cp\<lparr>cp_state := s, cp_health := Running, cp_last_reset := None\<rparr>, ru_world (pass_of cp w))"
  | (discard) "\<not> (pg_backend_reusable (ru_progress (pass_of cp w)) \<and> ds_is_empty (ru_state (pass_of cp w)))"
      "reset cp namespace w = (Inr (report_of RD_BackendDiscardRequired (pass_of cp w)),
         cp\<lparr>cp_state := ru_state (pass_of cp w), cp_health := BackendDiscardRequired,
            cp_last_reset := Some (report_of RD_BackendDiscardRequired (pass_of cp w))\<rparr>, ru_world (pass_of cp w))"
proof -
  have x: "reset_pass (cp_accelerator cp) (cp_info cp) \<lparr>ru_state = cp_state cp, ru_world = w,
       ru_released = resource_counts_default, ru_released_bytes = retained_bytes_default,
       ru_progress = reset_progress_default\<rparr> = pass_of cp w"
    by (simp add: pass_of_def reset_start_def)
  have orderly: "cp_quarantined cp = resource_counts_default" "cp_quarantined_bytes cp = retained_bytes_default"
    using inv health by (simp_all add: engine_inv_def orderly_def)
  have inv': "state_inv (ru_state (pass_of cp w))"
    using pass_of_accounted [OF inv] by (simp add: accounted_def)
  obtain s :: "('a, 'b, 'c, 'd, 'e) ds" where s: "device_state_new namespace (di_limits (cp_info cp)) (cp_policy cp) = Inr s"
    using inv by (auto simp: engine_inv_def consistent_def configured_def)
  show thesis
  proof (cases "pg_backend_reusable (ru_progress (pass_of cp w)) \<and> ds_is_empty (ru_state (pass_of cp w))")
    case True
    then show ?thesis
      using empty_counts(1,2) [OF inv'] reusable s health fresh
      by (simp add: reset_def x Let_def orderly report_of_def)
  next
    case False
    then show ?thesis
      using discard health fresh by (auto simp: reset_def x Let_def orderly report_of_def)
  qed
qed

lemma reset_trivial:
  assumes "cp_health cp = BackendDiscardRequired \<or> namespace = ds_namespace (cp_state cp)"
  shows "\<exists>r l. reset cp namespace w = (r, cp\<lparr>cp_last_reset := l\<rparr>, w)
    \<and> (cp_health cp \<noteq> BackendDiscardRequired \<longrightarrow> l = cp_last_reset cp)"
proof (cases "cp_health cp = BackendDiscardRequired")
  case True
  then show ?thesis
    by (intro exI [of _ "fst (reset cp namespace w)"] exI [of _ "cp_last_reset (fst (snd (reset cp namespace w)))"])
      (simp add: reset_def Let_def split: option.split)
next
  case False
  then show ?thesis
    using assms by (intro exI [of _ "Inl RE_NamespaceReuse"] exI [of _ "cp_last_reset cp"]) (simp add: reset_def)
qed

lemma reset_inv:
  assumes inv: "engine_inv cp"
  shows "engine_inv (fst (snd (reset cp namespace w)))"
proof (cases "cp_health cp = BackendDiscardRequired \<or> namespace = ds_namespace (cp_state cp)")
  case True
  then show ?thesis
    using reset_trivial [OF True, of w] inv
    by (auto simp: engine_inv_def consistent_def configured_def orderly_def)
next
  case False
  then have ready: "cp_health cp \<noteq> BackendDiscardRequired" "namespace \<noteq> ds_namespace (cp_state cp)"
    by simp_all
  note C = inv [unfolded engine_inv_def consistent_def configured_def orderly_def]
  show ?thesis
  proof (cases rule: reset_cases [OF inv ready, where w = w, case_names reusable discard])
    case (reusable s)
    have "state_inv s" "settled s" "backing_ok s" "ds_limits s = di_limits (cp_info cp)" "ds_policy s = cp_policy cp"
      using device_state_new_inv [OF reusable(3)] fresh_settled [OF reusable(3)] device_state_new_fields(2,3) [OF reusable(3)]
      by simp_all
    then show ?thesis
      using C ready(1) unfolding reusable(4)
      by (simp add: engine_inv_def consistent_def configured_def orderly_def)
  next
    case discard
    then show ?thesis
      using C pass_of_accounted [OF inv, of w]
      by (auto simp: engine_inv_def consistent_def configured_def accounted_def state_advances_def)
  qed
qed

section \<open>Runs\<close>

text \<open>One call of the transport: a command, with any chain, sink and outcome of the reservations, or a reset.\<close>

inductive engine_step ::
  "('c, 'b, 'p, 'q, 'e, 'k, 'w) cp \<times> 'w \<Rightarrow> ('c, 'b, 'p, 'q, 'e, 'k, 'w) cp \<times> 'w \<Rightarrow> bool" where
  command: "process cp alloc regions request response k w = (r, cp', k', w') \<Longrightarrow> engine_step (cp, w) (cp', w')"
| renew: "reset cp namespace w = (r, cp', w') \<Longrightarrow> engine_step (cp, w) (cp', w')"

inductive_cases engine_stepE: "engine_step (cp, w) c"

text \<open>A run: calls of the transport, between which the backend may move its world.\<close>

inductive engine_run ::
  "('c, 'b, 'p, 'q, 'e, 'k, 'w) cp \<times> 'w \<Rightarrow> ('c, 'b, 'p, 'q, 'e, 'k, 'w) cp \<times> 'w \<Rightarrow> bool" where
  run_start: "engine_run c c"
| run_step: "engine_run c c' \<Longrightarrow> engine_step c' c'' \<Longrightarrow> engine_run c c''"
| run_backend: "engine_run c (cp, w) \<Longrightarrow> engine_run c (cp, w')"

lemma engine_step_inv:
  assumes "engine_step (cp, w) c" "engine_inv cp"
  shows "engine_inv (fst c)"
  using assms(1)
proof (rule engine_stepE)
  fix alloc regions request response k r cp' k' w'
  assume "c = (cp', w')" "process cp alloc regions request response k w = (r, cp', k', w')"
  then show "engine_inv (fst c)"
    using process_inv [OF assms(2), of alloc regions request response k w] by simp
next
  fix namespace r cp' w'
  assume "c = (cp', w')" "reset cp namespace w = (r, cp', w')"
  then show "engine_inv (fst c)"
    using reset_inv [OF assms(2), of namespace w] by simp
qed

lemma engine_run_inv: "engine_run c c' \<Longrightarrow> engine_inv (fst c) \<Longrightarrow> engine_inv (fst c')"
proof (induction rule: engine_run.induct)
  case (run_step c c' c'')
  then show ?case
    using engine_step_inv [of "fst c'" "snd c'" c''] by simp
qed simp_all

lemma table_phase_token:
  "table_wf t \<Longrightarrow> table_phase slot_of t oid \<noteq> None \<Longrightarrow> token_namespace (id_token oid) = ot_namespace t"
  by (auto simp: table_phase_def dest: table_lookup_token(1))

lemma engine_namespace:
  assumes "engine_inv cp" "phase (cp_state cp) kind oid \<noteq> None"
  shows "token_namespace (id_token oid) = ds_namespace (cp_state cp)"
proof -
  have "tables_ok (cp_state cp)"
    using assms(1) by (simp add: engine_inv_def consistent_def state_inv_def)
  then show ?thesis
    using assms(2) by (cases kind; simp only: phase.simps tables_ok_def) (metis table_phase_token)+
qed

section \<open>The calls of a pass\<close>

text \<open>A count of the calls of the backend, in its world: no release or query advances it by more than one.\<close>

definition counts_calls :: "('w \<Rightarrow> nat) \<Rightarrow> ('c, 'b, 'p, 'q, 'e, 'k, 'w) accelerator \<Rightarrow> bool" where
  "counts_calls calls accelerator \<longleftrightarrow> (\<forall>w.
     (\<forall>event. calls (snd (ac_poll_event accelerator event w)) \<le> Suc (calls w)
        \<and> calls (snd (ac_cancel_event accelerator event w)) \<le> Suc (calls w)
        \<and> calls (snd (ac_destroy_event accelerator event w)) \<le> Suc (calls w))
   \<and> (\<forall>queue. calls (snd (ac_destroy_queue accelerator queue w)) \<le> Suc (calls w))
   \<and> (\<forall>program. calls (snd (ac_unload_program accelerator program w)) \<le> Suc (calls w))
   \<and> (\<forall>buffer. calls (snd (ac_free_buffer accelerator buffer w)) \<le> Suc (calls w))
   \<and> (\<forall>context. calls (snd (ac_destroy_context accelerator context w)) \<le> Suc (calls w)))"

lemma counts_callsD:
  assumes "counts_calls calls accelerator"
  shows "calls (snd (ac_destroy_event accelerator event w)) \<le> Suc (calls w)"
    "calls (snd (ac_destroy_queue accelerator queue w)) \<le> Suc (calls w)"
    "calls (snd (ac_unload_program accelerator program w)) \<le> Suc (calls w)"
    "calls (snd (ac_free_buffer accelerator buffer w)) \<le> Suc (calls w)"
    "calls (snd (ac_destroy_context accelerator context w)) \<le> Suc (calls w)"
  using assms by (simp_all add: counts_calls_def)

lemma counts_calls_pair:
  assumes "counts_calls calls accelerator"
  shows "ac_poll_event accelerator event w = (re, w') \<Longrightarrow> calls w' \<le> Suc (calls w)"
    "ac_cancel_event accelerator event w = (rc, w') \<Longrightarrow> calls w' \<le> Suc (calls w)"
  using assms unfolding counts_calls_def by (metis snd_conv)+

lemma round_flow_calls:
  assumes "\<And>h w. calls (snd (destroy h w)) \<le> Suc (calls w)" "\<And>s w. ru_world (tally s w) = w"
  shows "calls (ru_world (snd (round_flow begin_release restore_release commit_release destroy tally oid x)))
    \<le> Suc (calls (ru_world x))"
proof -
  have "calls w' \<le> Suc (calls w)" if "destroy h w = (r, w')" for h w r w'
    using assms(1) [of h w] that by simp
  then show ?thesis
    using assms(2) by (auto simp: round_flow_def split: prod.splits sum.splits release_failure.splits)
qed

lemma round_calls:
  assumes C: "counts_calls calls accelerator"
  shows "calls (ru_world (snd (reset_queue_round accelerator oid x))) \<le> Suc (calls (ru_world x))"
    "calls (ru_world (snd (reset_program_round accelerator oid x))) \<le> Suc (calls (ru_world x))"
    "calls (ru_world (snd (reset_buffer_round accelerator oid x))) \<le> Suc (calls (ru_world x))"
    "calls (ru_world (snd (reset_context_round accelerator oid x))) \<le> Suc (calls (ru_world x))"
    "calls (ru_world (reset_event_release accelerator oid x)) \<le> Suc (calls (ru_world x))"
  by (auto simp: queue_round_flow program_round_flow buffer_round_flow context_round_flow event_round_flow
      intro!: round_flow_calls counts_callsD [OF C] split: sum.split)

lemma reset_poll_calls:
  assumes "counts_calls calls accelerator" "reset_poll accelerator oid x = (r, x')"
  shows "calls (ru_world x') \<le> Suc (calls (ru_world x))"
  using assms(2) counts_calls_pair(1) [OF assms(1)]
  by (auto simp: reset_poll_def split: prod.splits sum.splits)

lemma reset_settle_calls:
  assumes C: "counts_calls calls accelerator" and run: "reset_settle accelerator info oid x = (r, x')"
  shows "calls (ru_world x') \<le> calls (ru_world x) + 3"
proof -
  obtain p x1 where poll: "reset_poll accelerator oid x = (p, x1)"
    by fastforce
  have x1: "calls (ru_world x1) \<le> Suc (calls (ru_world x))"
    by (rule reset_poll_calls [OF C poll])
  have again: "calls (ru_world y) \<le> Suc (calls w)" if "reset_poll accelerator oid (x1\<lparr>ru_world := w\<rparr>) = (q, y)" for q y w
    using reset_poll_calls [OF C that] by simp
  show ?thesis
    using run x1 counts_calls_pair(2) [OF C] again unfolding reset_settle_def poll
    by (auto split: option.splits if_splits sum.splits prod.splits; fastforce)
qed

lemma event_round_calls:
  assumes C: "counts_calls calls accelerator"
  shows "calls (ru_world (snd (reset_event_round accelerator info oid x))) \<le> calls (ru_world x) + 4"
proof -
  obtain r x1 where settle: "reset_settle accelerator info oid x = (r, x1)"
    by fastforce
  show ?thesis
    using reset_settle_calls [OF C settle] round_calls(5) [OF C, of oid x1]
    by (auto simp: reset_event_round_def reset_event_def settle split: option.split)
qed

context reset_loop
begin

lemma loop_cost:
  assumes "\<And>oid x. cost (snd (round oid x)) \<le> cost x + n"
  shows "cost (loop cursor x) \<le> cost x + n * (slot_count (table_of (ru_state x)) - cursor)"
proof (induction "slot_count (table_of (ru_state x)) - cursor" arbitrary: cursor x rule: less_induct)
  case less
  show ?case
  proof (cases rule: loop_cases [of x cursor, case_names none left proceeded])
    case (left nx oid x')
    then have "cost x' \<le> cost x + n" "0 < slot_count (table_of (ru_state x)) - cursor"
      using assms [of oid x] next_id_forward [OF left(1)] by auto
    then show ?thesis
      using left(3) by (cases "slot_count (table_of (ru_state x)) - cursor") simp_all
  next
    case (proceeded nx oid x')
    let ?m = "slot_count (table_of (ru_state x')) - nx"
    have "cost (loop nx x') \<le> cost x' + n * ?m" "cost x' \<le> cost x + n"
      using less.hyps [OF proceeded(4)] assms [of oid x] proceeded(2) by simp_all
    moreover have "n * Suc ?m \<le> n * (slot_count (table_of (ru_state x)) - cursor)"
      using proceeded(4) by (intro mult_le_mono2) simp
    ultimately show ?thesis
      using proceeded(3) by simp
  qed simp
qed

end

definition pass_bound :: "('c, 'b, 'p, 'q, 'e) ds \<Rightarrow> nat" where
  "pass_bound s = 4 * unat (ot_max_slots (ds_events s)) + unat (ot_max_slots (ds_queues s))
     + unat (ot_max_slots (ds_programs s)) + unat (ot_max_slots (ds_buffers s)) + unat (ot_max_slots (ds_contexts s))"

lemma accounted_slots:
  assumes "accounted s0 x"
  shows "slot_count (ds_events (ru_state x)) \<le> unat (ot_max_slots (ds_events s0))"
    "slot_count (ds_queues (ru_state x)) \<le> unat (ot_max_slots (ds_queues s0))"
    "slot_count (ds_programs (ru_state x)) \<le> unat (ot_max_slots (ds_programs s0))"
    "slot_count (ds_buffers (ru_state x)) \<le> unat (ot_max_slots (ds_buffers s0))"
    "slot_count (ds_contexts (ru_state x)) \<le> unat (ot_max_slots (ds_contexts s0))"
  using assms state_invD [of "ru_state x"]
  by (simp_all add: accounted_def state_advances_def table_advances_def table_frame_def table_wf_def)

lemma reset_pass_calls:
  assumes C: "counts_calls calls accelerator" and s0: "state_inv s0" and x: "accounted s0 x"
  shows "calls (ru_world (reset_pass accelerator info x)) \<le> calls (ru_world x) + pass_bound s0"
proof -
  let ?cost = "\<lambda>y. calls (ru_world y)"
  let ?go = "\<lambda>loop y. if pg_backend_callable (ru_progress y) then loop y else y"
  define x1 where "x1 = reset_events accelerator info 0 x"
  define x2 where "x2 = ?go (reset_queues accelerator 0) x1"
  define x3 where "x3 = ?go (reset_programs accelerator 0) x2"
  define x4 where "x4 = ?go (reset_buffers accelerator 0) x3"
  define x5 where "x5 = ?go (reset_contexts accelerator 0) x4"
  have acc: "accounted s0 x1" "accounted s0 x2" "accounted s0 x3" "accounted s0 x4"
    using x by (simp_all add: x1_def x2_def x3_def x4_def loops_accounted [OF s0])
  have "?cost x1 \<le> ?cost x + 4 * unat (ot_max_slots (ds_events s0))"
    using evl.loop_cost [of ?cost accelerator info 4 0 x, OF event_round_calls [OF C]] accounted_slots(1) [OF x]
    by (simp add: x1_def)
  moreover have "?cost x2 \<le> ?cost x1 + unat (ot_max_slots (ds_queues s0))"
    using qul.loop_cost [of ?cost accelerator 1 0 x1] round_calls(1) [OF C] accounted_slots(2) [OF acc(1)]
    by (simp add: x2_def)
  moreover have "?cost x3 \<le> ?cost x2 + unat (ot_max_slots (ds_programs s0))"
    using prl.loop_cost [of ?cost accelerator 1 0 x2] round_calls(2) [OF C] accounted_slots(3) [OF acc(2)]
    by (simp add: x3_def)
  moreover have "?cost x4 \<le> ?cost x3 + unat (ot_max_slots (ds_buffers s0))"
    using bul.loop_cost [of ?cost accelerator 1 0 x3] round_calls(3) [OF C] accounted_slots(4) [OF acc(3)]
    by (simp add: x4_def)
  moreover have "?cost x5 \<le> ?cost x4 + unat (ot_max_slots (ds_contexts s0))"
    using cxl.loop_cost [of ?cost accelerator 1 0 x4] round_calls(4) [OF C] accounted_slots(5) [OF acc(4)]
    by (simp add: x5_def)
  moreover have "reset_pass accelerator info x = x5"
    by (simp add: reset_pass_def Let_def x1_def x2_def x3_def x4_def x5_def)
  ultimately show ?thesis
    by (simp add: pass_bound_def)
qed

section \<open>A sample engine\<close>

text \<open>A backend that counts its calls in its world and accepts every release, for the witnesses.\<close>

definition sample_accelerator :: "(nat, nat, nat, nat, nat, u8 list, nat) accelerator" where
  "sample_accelerator =
     \<lparr>ac_device_info = (\<lambda>w. (Inr sample_info, Suc w)),
      ac_create_context = (\<lambda>_ w. (Inr 7, Suc w)), ac_destroy_context = (\<lambda>_ w. (Inr (), Suc w)),
      ac_allocate_buffer = (\<lambda>_ _ w. (Inl BE_OutOfMemory, Suc w)),
      ac_write_buffer = (\<lambda>buffer _ _ w. (Inr (), buffer, Suc w)),
      ac_read_buffer = (\<lambda>_ _ sink k w. (fst (sk_write_at sink k 0 [1]), snd (sk_write_at sink k 0 [1]), Suc w)),
      ac_free_buffer = (\<lambda>_ w. (Inr (), Suc w)),
      ac_load_program = (\<lambda>_ _ w. (Inl BE_Unsupported, Suc w)), ac_unload_program = (\<lambda>_ w. (Inr (), Suc w)),
      ac_create_queue = (\<lambda>_ _ w. (Inr 8, Suc w)), ac_destroy_queue = (\<lambda>_ w. (Inr (), Suc w)),
      ac_submit = (\<lambda>_ _ _ _ w. (Inl (SF_Rejected BE_Unsupported), Suc w)),
      ac_poll_event = (\<lambda>_ w. (Inr ES_Complete, Suc w)), ac_cancel_event = cancel_event_unsupported,
      ac_destroy_event = (\<lambda>_ w. (Inr (), Suc w))\<rparr>"

definition sample_new_state :: "(nat, nat, nat, nat, nat) ds" where
  "sample_new_state = projr (device_state_new 1 (di_limits sample_info) sample_policy)"

definition sample_engine :: "(nat, nat, nat, nat, nat, u8 list, nat) cp" where
  "sample_engine = \<lparr>cp_state = sample_new_state, cp_accelerator = sample_accelerator, cp_info = sample_info,
     cp_policy = sample_policy, cp_decoder = sample_decoder, cp_health = Running,
     cp_quarantined = resource_counts_default, cp_quarantined_bytes = retained_bytes_default, cp_last_reset = None\<rparr>"

lemma sample_engine_new: "processor_new sample_accelerator sample_config 1 sample_policy 0 = (Inr sample_engine, 1)"
proof -
  have "is_ok (device_state_new 1 (di_limits sample_info) sample_policy ::
      device_state_config_error + (nat, nat, nat, nat, nat) ds)"
    by (simp add: device_state_new_def sample_info_def checked_mul_def aggregate_slots_def HARD_MAX_BINDINGS_def)
  then have "device_state_new 1 (di_limits sample_info) sample_policy = Inr sample_new_state"
    by (auto simp: sample_new_state_def is_ok_iff)
  moreover have "wire_config_validate sample_config = Inr ()" "device_info_validate sample_info = Inr ()"
    by code_simp+
  ultimately show ?thesis
    by (simp add: processor_new_def sample_decoder_new sample_engine_def sample_accelerator_def)
qed

text \<open>The engine with one live context.\<close>

definition sample_busy :: "(nat, nat, nat, nat, nat, u8 list, nat) cp" where
  "sample_busy = sample_engine\<lparr>cp_state :=
     fst (snd (create_context_with True (ac_create_context sample_accelerator 0) sample_new_state 1))\<rparr>"

lemma sample_busy_contexts: "table_len (ds_contexts (cp_state sample_busy)) = 1"
  by code_simp

lemma sample_busy_fields: "cp_health sample_busy = Running \<and> ds_namespace (cp_state sample_busy) = 1"
  by code_simp

lemma sample_busy_inv: "engine_inv sample_busy"
proof -
  have "cp_state sample_engine = sample_new_state"
    by (simp add: sample_engine_def)
  then show ?thesis
    using created_context_inv [OF processor_new_inv(1) [OF sample_engine_new],
        of True "ac_create_context sample_accelerator 0" 1]
    by (cases "create_context_with True (ac_create_context sample_accelerator 0) sample_new_state 1")
      (simp add: sample_busy_def)
qed

lemma sample_accelerator_counts: "counts_calls (\<lambda>n. n) sample_accelerator"
  by (simp add: counts_calls_def sample_accelerator_def cancel_event_unsupported_def)

lemma sample_accelerator_cooperates: "cooperative sample_accelerator sample_info"
  by (simp add: cooperative_def settles_def sample_accelerator_def)

text \<open>A chain with a valid command to destroy a context.\<close>

abbreviation sample_request :: byte_source where
  "sample_request \<equiv> slice_source (request_frame Op_DestroyContext 9 (encode_object_payload \<lparr>op_object_id = 5\<rparr>))"

lemma sample_request_ok:
  "source_ok sample_request" "bs_len sample_request = 24"
  "decode_frame sample_decoder True sample_request 24
     = Inr \<lparr>dq_request_id = 9, dq_required_response_bytes = 16, dq_body = DR_DestroyContext 5\<rparr>"
proof -
  let ?payload = "encode_object_payload \<lparr>op_object_id = 5\<rparr>"
  let ?frame = "request_frame Op_DestroyContext 9 ?payload"
  have len: "length ?payload = 8" "length ?frame = 24"
    using rq.length_encode op.length_encode
    by (simp_all add: request_frame_def size_object_payload_def size_request_header_def)
  then have fits: "slice_fits ?frame"
    by (simp add: slice_fits_def)
  show src: "source_ok sample_request"
    by (rule slice_in.port_source_ok [OF fits])
  show "bs_len sample_request = 24"
    by (simp add: slice_source_def len)
  have "accepted_frame sample_decoder sample_request 24
      \<lparr>dq_request_id = 9, dq_required_response_bytes = 16, dq_body = DR_DestroyContext 5\<rparr>"
    using len slice_in.port_content [OF fits]
    by (auto simp: accepted_frame_def sample_decoder_def intro!: exI [of _ ?payload])
  then show "decode_frame sample_decoder True sample_request 24
      = Inr \<lparr>dq_request_id = 9, dq_required_response_bytes = 16, dq_body = DR_DestroyContext 5\<rparr>"
    using decode_frame_Inr [OF src] by blast
qed

lemma sample_request_ready:
  "preflight_command_frame sample_decoder True [region_readable 24, region_writable 24] sample_request
     slice_sink (replicate 24 0)
   = (Inr (FP_Ready \<lparr>dq_request_id = 9, dq_required_response_bytes = 16, dq_body = DR_DestroyContext 5\<rparr>), replicate 24 0)"
proof -
  have "is_ok (and_then (validate_chain_layout [region_readable 24, region_writable 24] (dl_max_chain_descriptors sample_decoder))
      (\<lambda>layout. validate_port_lengths layout 24 24))"
    by code_simp
  moreover have "sk_len slice_sink (replicate 24 0) = 24"
    by (simp add: slice_sink_def)
  ultimately show ?thesis
    by (auto simp: preflight_command_frame_def sample_request_ok(2,3) is_ok_iff)
qed

end
