(* ===== verification/Engine_Properties.thy ===== *)
theory Engine_Properties
  imports Engine_Runs
begin

text \<open>The properties of the command engine and of its reset, over every backend.\<close>

lemma fresh_is_empty: "device_state_new namespace limits policy = Inr s \<Longrightarrow> ds_is_empty s"
  by (auto dest!: device_state_new_fields(4) simp: ds_is_empty_def table_is_empty_def table_with_namespace_def)

section \<open>Runs\<close>

text \<open>C1: along every run of the engine, whatever the backend answers, whatever the guest sends and
wherever an allocation fails, the device state stays consistent: its tables are well-formed and all
counts are exact. Until the backend has to be discarded, no release is left half done, nothing is
quarantined, and the backing of the buffers stays within the policy of the host.\<close>
theorem engine_run_invariant:
  assumes "processor_new accelerator config namespace policy w0 = (Inr cp0, w)"
    and "engine_run (cp0, w) (cp, w')"
  shows "state_inv (cp_state cp) \<and> ds_limits (cp_state cp) = di_limits (cp_info cp) \<and> ds_policy (cp_state cp) = cp_policy cp
    \<and> (cp_health cp \<noteq> BackendDiscardRequired \<longrightarrow> settled (cp_state cp) \<and> backing_ok (cp_state cp)
         \<and> cp_quarantined cp = resource_counts_default \<and> cp_quarantined_bytes cp = retained_bytes_default)"
proof -
  have "engine_inv cp"
    using engine_run_inv [OF assms(2)] processor_new_inv(1) [OF assms(1)] by simp
  then show ?thesis
    by (simp add: engine_inv_def consistent_def orderly_def)
qed

lemma sample_run_renewed: "engine_run (sample_engine, 1) (fst (snd (reset sample_engine 2 1)), snd (snd (reset sample_engine 2 1)))"
  by (rule run_step [OF run_start], rule renew [where r = "fst (reset sample_engine 2 1)"]) simp

theorem engine_run_invariant_witness:
  "processor_new sample_accelerator sample_config 1 sample_policy 0 = (Inr sample_engine, 1)
   \<and> engine_run (sample_engine, 1) (fst (snd (reset sample_engine 2 1)), snd (snd (reset sample_engine 2 1)))
   \<and> state_inv (cp_state (fst (snd (reset sample_engine 2 1))))"
  using engine_run_invariant [OF sample_engine_new sample_run_renewed] sample_engine_new sample_run_renewed by blast

text \<open>C10: an identifier dies with the namespace it was created in. Once a reset has renewed the
namespace, no object of any kind ever answers to an identifier that was live before.\<close>
theorem ids_die_with_their_namespace:
  assumes "engine_inv cp" "engine_run (cp, w) (cp', w')"
    and "ds_namespace (cp_state cp') \<noteq> ds_namespace (cp_state cp)"
    and "phase (cp_state cp) kind oid \<noteq> None"
  shows "phase (cp_state cp') kind' oid = None"
  using engine_namespace [OF assms(1,4)] engine_namespace [of cp' kind' oid] engine_run_inv [OF assms(2)] assms(1,3)
  by (cases "phase (cp_state cp') kind' oid") auto

lemma sample_busy_id: "table_lookup (ds_contexts (cp_state sample_busy)) (object_id_new 0 1 0 OK_Context) \<noteq> None"
proof -
  have "is_ok (table_get (ds_contexts (cp_state sample_busy)) (object_id_new 0 1 0 OK_Context))"
    by code_simp
  then show ?thesis
    by (auto simp: table_lookup_def is_ok_iff)
qed

lemma sample_fresh_namespace: "ds_namespace (cp_state (fst (snd (reset sample_busy 2 1)))) = 2"
  by code_simp

lemma sample_busy_renewed: "engine_run (sample_busy, 1) (fst (snd (reset sample_busy 2 1)), snd (snd (reset sample_busy 2 1)))"
  by (rule run_step [OF run_start], rule renew [where r = "fst (reset sample_busy 2 1)"]) simp

theorem ids_die_with_their_namespace_witness:
  "engine_inv sample_busy
   \<and> engine_run (sample_busy, 1) (fst (snd (reset sample_busy 2 1)), snd (snd (reset sample_busy 2 1)))
   \<and> phase (cp_state sample_busy) OK_Context (object_id_new 0 1 0 OK_Context) \<noteq> None
   \<and> phase (cp_state (fst (snd (reset sample_busy 2 1)))) OK_Queue (object_id_new 0 1 0 OK_Context) = None"
proof -
  have old: "phase (cp_state sample_busy) OK_Context (object_id_new 0 1 0 OK_Context) \<noteq> None"
    using sample_busy_id by (simp add: table_phase_def)
  have "ds_namespace (cp_state (fst (snd (reset sample_busy 2 1)))) \<noteq> ds_namespace (cp_state sample_busy)"
    using sample_busy_fields sample_fresh_namespace by simp
  from ids_die_with_their_namespace [OF sample_busy_inv sample_busy_renewed this old] old sample_busy_inv sample_busy_renewed
  show ?thesis
    by blast
qed

section \<open>An engine that has stopped\<close>

text \<open>C9: an engine that is not running is isolated from the guest: a command changes neither the
device state nor the health, makes no call of the backend, and if its frame is valid the answer is
DEVICE_LOST or the response could not be written.\<close>
theorem stopped_engine_is_isolated:
  assumes "cp_health cp \<noteq> Running"
  shows "\<exists>r k'. process cp alloc regions request response k w = (r, cp, k', w)
    \<and> (\<forall>decoded k1. preflight_command_frame (cp_decoder cp) (alloc Reserve_Decoded) regions request response k
          = (Inr (FP_Ready decoded), k1) \<longrightarrow>
        (\<exists>used. r = Inr (CO_Response (dq_request_id decoded) STATUS_DEVICE_LOST used))
        \<or> (\<exists>e. r = Inl (CPE_ResponseWrite e)))"
proof -
  have ready: "\<exists>r k'. in_world w (respond_empty cp response k1 STATUS_DEVICE_LOST i False) = (r, cp, k', w)
      \<and> ((\<exists>used. r = Inr (CO_Response i STATUS_DEVICE_LOST used)) \<or> (\<exists>e. r = Inl (CPE_ResponseWrite e)))" for k1 i
    by (auto simp: in_world_def respond_empty_def completed_def complete_response_def split: sum.split)
  show ?thesis
    using assms ready by (auto simp: process_def split: prod.split sum.split frame_preflight.split)
qed

theorem stopped_engine_is_isolated_witness:
  "\<exists>r k'. process (sample_engine\<lparr>cp_health := NeedsReset\<rparr>) (\<lambda>_. True) [region_readable 24, region_writable 24]
       sample_request slice_sink (replicate 24 0) 1 = (r, sample_engine\<lparr>cp_health := NeedsReset\<rparr>, k', 1)
     \<and> ((\<exists>used. r = Inr (CO_Response 9 STATUS_DEVICE_LOST used)) \<or> (\<exists>e. r = Inl (CPE_ResponseWrite e)))"
proof -
  have "cp_health (sample_engine\<lparr>cp_health := NeedsReset\<rparr>) \<noteq> Running"
    by simp
  from stopped_engine_is_isolated [OF this, of "\<lambda>_. True" "[region_readable 24, region_writable 24]" sample_request
      slice_sink "replicate 24 0" 1]
  show ?thesis
    using sample_request_ready by (fastforce simp: sample_engine_def)
qed

definition final_report :: "('c, 'b, 'p, 'q, 'e, 'k, 'w) cp \<Rightarrow> reset_report" where
  "final_report cp = (case cp_last_reset cp of
     Some report \<Rightarrow> report | None \<Rightarrow> discard_report cp resource_counts_default retained_bytes_default)"

lemma reset_discarded:
  assumes "cp_health cp = BackendDiscardRequired"
  shows "reset cp namespace w = (Inr (final_report cp), cp\<lparr>cp_last_reset := Some (final_report cp)\<rparr>, w)"
  using assms by (auto simp: reset_def final_report_def Let_def split: option.split)

lemma engine_step_discarded:
  assumes "engine_step (cp, w) c" "cp_health cp = BackendDiscardRequired"
  shows "c = (cp, w) \<or> c = (cp\<lparr>cp_last_reset := Some (final_report cp)\<rparr>, w)"
proof -
  have "process cp alloc regions request response k w = (r, cp', k', w') \<Longrightarrow> cp' = cp \<and> w' = w"
    for alloc regions request response k r cp' k' w'
    using assms(2) by (auto simp: process_def respond_empty_def completed_def complete_response_def in_world_def
        split: prod.splits sum.splits frame_preflight.splits)
  then show ?thesis
    using assms reset_discarded [OF assms(2)] by (auto elim!: engine_stepE)
qed

text \<open>C8: the decision to discard the backend is final: whatever commands and resets follow, the
backend is not called again, the device state stays as it is, and every reset returns the same report.\<close>
theorem discard_is_final:
  assumes "cp_health cp = BackendDiscardRequired" "engine_step\<^sup>*\<^sup>* (cp, w) (cp', w')"
  shows "w' = w \<and> cp_health cp' = BackendDiscardRequired \<and> cp_state cp' = cp_state cp
    \<and> (\<exists>report. \<forall>namespace. fst (reset cp namespace w) = Inr report \<and> fst (reset cp' namespace w') = Inr report)"
proof -
  have "fst (cp', w') = cp \<or> fst (cp', w') = cp\<lparr>cp_last_reset := Some (final_report cp)\<rparr>" "snd (cp', w') = w"
    using assms(2)
  proof (induction rule: rtranclp_induct)
    case (step c c')
    obtain cp1 where c: "c = (cp1, w)" "cp1 = cp \<or> cp1 = cp\<lparr>cp_last_reset := Some (final_report cp)\<rparr>"
      using step.IH by (cases c) auto
    then have "cp_health cp1 = BackendDiscardRequired" "final_report cp1 = final_report cp"
      using assms(1) by (auto simp: final_report_def)
    then show "fst c' = cp \<or> fst c' = cp\<lparr>cp_last_reset := Some (final_report cp)\<rparr>" "snd c' = w"
      using engine_step_discarded [of cp1 w c'] step.hyps(2) c by auto
  qed simp_all
  then have "w' = w" "cp_health cp' = BackendDiscardRequired" "cp_state cp' = cp_state cp" "final_report cp' = final_report cp"
    using assms(1) by (auto simp: final_report_def)
  then show ?thesis
    using assms(1) by (simp add: reset_discarded)
qed

lemma sample_discarded:
  "engine_step\<^sup>*\<^sup>* (require_backend_discard sample_busy, 5)
     (fst (snd (reset (require_backend_discard sample_busy) 2 5)), snd (snd (reset (require_backend_discard sample_busy) 2 5)))"
  by (rule r_into_rtranclp, rule renew [where r = "fst (reset (require_backend_discard sample_busy) 2 5)"]) simp

theorem discard_is_final_witness:
  "cp_health (require_backend_discard sample_busy) = BackendDiscardRequired
   \<and> snd (snd (reset (require_backend_discard sample_busy) 2 5)) = 5
   \<and> cp_state (fst (snd (reset (require_backend_discard sample_busy) 2 5))) = cp_state (require_backend_discard sample_busy)"
proof -
  have health: "cp_health (require_backend_discard sample_busy) = BackendDiscardRequired"
    by (simp add: require_backend_discard_def)
  show ?thesis
    using discard_is_final [OF health sample_discarded] health by blast
qed

section \<open>Reset\<close>

text \<open>C4: a reset accounts for everything. With a new namespace it always returns a report, in which
every object that was live is released or quarantined, once, and so is every retained byte. The report
says that the backend is reusable only if all was released, and then the engine runs again on an empty
state in the new namespace; otherwise the backend is to be discarded and the objects that were not
released are still in the state.\<close>
theorem reset_accounts_for_everything:
  assumes "engine_inv cp" "cp_health cp \<noteq> BackendDiscardRequired" "namespace \<noteq> ds_namespace (cp_state cp)"
  shows "\<exists>report cp' w'. reset cp namespace w = (Inr report, cp', w')
    \<and> (\<forall>kind. unat (rc_of kind (re_released report)) + unat (rc_of kind (re_quarantined report)) = live_count (cp_state cp) kind)
    \<and> unat (rt_buffer_backing (re_released_bytes report)) + unat (rt_buffer_backing (re_quarantined_bytes report))
        = unat (rt_buffer_backing (ds_retained (cp_state cp)))
    \<and> unat (rt_program_resident (re_released_bytes report)) + unat (rt_program_resident (re_quarantined_bytes report))
        = unat (rt_program_resident (ds_retained (cp_state cp)))
    \<and> (case re_disposition report of
         RD_BackendReusable \<Rightarrow> cp_health cp' = Running \<and> ds_namespace (cp_state cp') = namespace
           \<and> ds_is_empty (cp_state cp') \<and> resource_counts_is_empty (re_quarantined report)
           \<and> retained_bytes_is_empty (re_quarantined_bytes report)
       | RD_BackendDiscardRequired \<Rightarrow> cp_health cp' = BackendDiscardRequired
           \<and> re_quarantined report = ds_resource_counts (cp_state cp'))"
proof -
  have acc: "accounted (cp_state cp) (pass_of cp w)"
    by (rule pass_of_accounted [OF assms(1)])
  then have inv: "state_inv (ru_state (pass_of cp w))"
    by (simp add: accounted_def)
  have sums: "unat (rc_of kind (re_released (report_of d (pass_of cp w)))) + unat (rc_of kind (re_quarantined (report_of d (pass_of cp w))))
      = live_count (cp_state cp) kind" for d kind
    using acc live_count_resources [OF inv, of kind] by (simp add: accounted_def report_of_def)
  have bytes: "unat (rt_buffer_backing (re_released_bytes (report_of d (pass_of cp w))))
      + unat (rt_buffer_backing (re_quarantined_bytes (report_of d (pass_of cp w)))) = unat (rt_buffer_backing (ds_retained (cp_state cp)))"
    "unat (rt_program_resident (re_released_bytes (report_of d (pass_of cp w))))
      + unat (rt_program_resident (re_quarantined_bytes (report_of d (pass_of cp w)))) = unat (rt_program_resident (ds_retained (cp_state cp)))" for d
    using acc by (simp_all add: accounted_def report_of_def)
  show ?thesis
  proof (cases rule: reset_cases [OF assms, where w = w, case_names reusable discard])
    case (reusable s)
    have "ds_namespace s = namespace" "ds_is_empty s"
      using device_state_new_fields(1) [OF reusable(3)] fresh_is_empty [OF reusable(3)] by simp_all
    then show ?thesis
      using empty_counts [OF inv reusable(2)] sums bytes unfolding reusable(4) by (simp add: report_of_def)
  next
    case discard
    then show ?thesis
      using sums bytes by (simp add: report_of_def)
  qed
qed

theorem reset_accounts_for_everything_witness:
  "engine_inv sample_busy \<and> cp_health sample_busy \<noteq> BackendDiscardRequired \<and> 2 \<noteq> ds_namespace (cp_state sample_busy)
   \<and> (\<exists>report cp' w'. reset sample_busy 2 1 = (Inr report, cp', w')
        \<and> unat (rc_of OK_Context (re_released report)) + unat (rc_of OK_Context (re_quarantined report)) = 1)"
proof -
  have "live_count (cp_state sample_busy) OK_Context = 1"
    using live_count_resources [of "cp_state sample_busy" OK_Context] sample_busy_inv sample_busy_contexts
    by (simp add: engine_inv_def consistent_def ds_resource_counts_def)
  moreover have ready: "cp_health sample_busy \<noteq> BackendDiscardRequired" "2 \<noteq> ds_namespace (cp_state sample_busy)"
    using sample_busy_fields by simp_all
  ultimately show ?thesis
    using reset_accounts_for_everything [OF sample_busy_inv ready, of 1] sample_busy_inv by metis
qed

text \<open>C5: a healthy backend is always recovered. If polling or cancelling settles every event and every
release is accepted, a reset with a new namespace releases all objects and all bytes, and the engine
runs again.\<close>
theorem reset_recovers_a_healthy_backend:
  assumes "engine_inv cp" "cp_health cp \<noteq> BackendDiscardRequired" "namespace \<noteq> ds_namespace (cp_state cp)"
    and "cooperative (cp_accelerator cp) (cp_info cp)"
  shows "\<exists>report cp' w'. reset cp namespace w = (Inr report, cp', w') \<and> re_disposition report = RD_BackendReusable
    \<and> cp_health cp' = Running \<and> (\<forall>kind. unat (rc_of kind (re_released report)) = live_count (cp_state cp) kind)"
proof -
  have acc: "accounted (cp_state cp) (pass_of cp w)"
    by (rule pass_of_accounted [OF assms(1)])
  have "calm {} (reset_start (cp_state cp) w)"
    using assms(1,2) by (simp add: calm_def reset_start_def engine_inv_def consistent_def orderly_def)
  then have calm: "calm UNIV (pass_of cp w)"
    unfolding pass_of_def by (rule reset_pass_drains [OF assms(4)])
  then have inv: "state_inv (ru_state (pass_of cp w))" and none: "live_count (ru_state (pass_of cp w)) kind = 0" for kind
    by (simp_all add: calm_def live_count_def)
  have "pg_backend_reusable (ru_progress (pass_of cp w))" "ds_is_empty (ru_state (pass_of cp w))"
    using calm_callable [OF calm] ds_is_empty_iff [OF inv] none by simp_all
  then show ?thesis
    using acc none by (cases rule: reset_cases [OF assms(1-3), where w = w]) (auto simp: report_of_def accounted_def)
qed

theorem reset_recovers_a_healthy_backend_witness:
  "engine_inv sample_busy \<and> cp_health sample_busy \<noteq> BackendDiscardRequired \<and> 2 \<noteq> ds_namespace (cp_state sample_busy)
   \<and> cooperative (cp_accelerator sample_busy) (cp_info sample_busy)
   \<and> (\<exists>report cp' w'. reset sample_busy 2 1 = (Inr report, cp', w') \<and> re_disposition report = RD_BackendReusable
        \<and> cp_health cp' = Running)"
proof -
  have "cooperative (cp_accelerator sample_busy) (cp_info sample_busy)"
    using sample_accelerator_cooperates by (simp add: sample_busy_def sample_engine_def)
  moreover have ready: "cp_health sample_busy \<noteq> BackendDiscardRequired" "2 \<noteq> ds_namespace (cp_state sample_busy)"
    using sample_busy_fields by simp_all
  ultimately show ?thesis
    using reset_recovers_a_healthy_backend [OF sample_busy_inv ready, of 1] sample_busy_inv by metis
qed

text \<open>C6: a reset is one bounded pass. However the backend answers, a reset calls it at most four
times for each slot of the event table and once for each slot of the other tables; with the limits
that is a constant of the configuration.\<close>
theorem reset_calls_are_bounded:
  assumes "engine_inv cp" "counts_calls calls (cp_accelerator cp)"
  shows "calls (snd (snd (reset cp namespace w))) \<le> calls w + pass_bound (cp_state cp)"
proof (cases "cp_health cp = BackendDiscardRequired \<or> namespace = ds_namespace (cp_state cp)")
  case True
  then show ?thesis
    using reset_trivial [OF True, of w] by auto
next
  case False
  have "state_inv (cp_state cp)"
    using assms(1) by (simp add: engine_inv_def consistent_def)
  then have "calls (ru_world (pass_of cp w)) \<le> calls w + pass_bound (cp_state cp)"
    using reset_pass_calls [OF assms(2) _ reset_start_accounted, of "cp_state cp" "cp_info cp" w]
    by (simp add: pass_of_def reset_start_def)
  then show ?thesis
    using False by (cases rule: reset_cases [OF assms(1), of namespace w]) auto
qed

theorem reset_calls_are_bounded_witness:
  "engine_inv sample_busy \<and> counts_calls (\<lambda>n. n) (cp_accelerator sample_busy)
   \<and> snd (snd (reset sample_busy 2 1)) \<le> 1 + pass_bound (cp_state sample_busy)"
proof -
  have "counts_calls (\<lambda>n. n) (cp_accelerator sample_busy)"
    using sample_accelerator_counts by (simp add: sample_busy_def sample_engine_def)
  then show ?thesis
    using reset_calls_are_bounded [OF sample_busy_inv, of "\<lambda>n. n" 2 1] sample_busy_inv by simp
qed

section \<open>A lost backend is called again\<close>

text \<open>
  When a release is rejected with \<open>DeviceLost\<close>, the reset notes that the backend may not be called.
  The loop over the events looks at that note before each event. The loops over the other tables do
  not: with two queues, the second is destroyed although the first call has lost the device.
\<close>

definition lost_accelerator :: "(nat, nat, nat, nat, nat, u8 list, nat) accelerator" where
  "lost_accelerator = sample_accelerator\<lparr>ac_destroy_queue := (\<lambda>queue w. (Inl (RF_Rejected BE_DeviceLost queue), Suc w))\<rparr>"

definition sample_two_queues :: "(nat, nat, nat, nat, nat) ds" where
  "sample_two_queues =
     fst (snd (create_queue_with True (object_id_new 0 1 0 OK_Context) (\<lambda>_. ac_create_queue sample_accelerator 7 0)
       sample_queue 0))"

lemma lost_backend_is_called_again:
  "ru_world (reset_queues lost_accelerator 0 (reset_start sample_two_queues 0)) = 2"
  by code_simp

lemma lost_backend_is_not_callable:
  "\<not> pg_backend_callable (ru_progress (snd (reset_queue_round lost_accelerator (object_id_new 0 1 0 OK_Queue)
     (reset_start sample_two_queues 0))))"
  by code_simp

end
