(* ===== verification/Engine_Answers.thy ===== *)
theory Engine_Answers
  imports Engine_Runs
begin

text \<open>
  Every valid command is answered. The preflight has checked that the response port has room for the
  largest answer of the command before the device state or the backend is touched; here it is shown
  that each handler, on each of its paths, then succeeds in writing one response frame, and writes
  nothing beyond that room.
\<close>

section \<open>Answers\<close>

text \<open>Room for a frame with \<open>n\<close> bytes of payload, in the port and in the negotiated limit.\<close>

definition room :: "('k \<Rightarrow> u8 list) \<Rightarrow> ('k \<Rightarrow> bool) \<Rightarrow> u32 \<Rightarrow> nat \<Rightarrow> 'k \<Rightarrow> bool" where
  "room content valid m n k \<longleftrightarrow> valid k \<and> 16 + n \<le> unat m \<and> 16 + n \<le> length (content k)"

text \<open>The outcome is a response, the port holds its frame, and what lies beyond the room is as it was.\<close>

definition answers ::
  "('k \<Rightarrow> u8 list) \<Rightarrow> ('k \<Rightarrow> bool) \<Rightarrow> nat \<Rightarrow> u64 \<Rightarrow> 'k \<Rightarrow> (command_process_error + command_outcome) \<times> 'k \<Rightarrow> bool" where
  "answers content valid n request_id k a \<longleftrightarrow>
     (\<exists>status payload. fst a = Inr (CO_Response request_id status (of_nat (16 + length payload)))
        \<and> length payload \<le> n \<and> valid (snd a) \<and> length (content (snd a)) = length (content k)
        \<and> take (16 + length payload) (content (snd a)) = response_frame status request_id payload
        \<and> drop (16 + n) (content (snd a)) = drop (16 + n) (content k))"

definition answer_part :: "('s, 'k) answer \<Rightarrow> (command_process_error + command_outcome) \<times> 'k" where
  "answer_part a = (fst a, snd (snd a))"

definition handled_part :: "('s, 'k, 'w) handled \<Rightarrow> (command_process_error + command_outcome) \<times> 'k" where
  "handled_part a = (fst a, fst (snd (snd a)))"

lemma handled_in_world [simp]: "handled_part (in_world w a) = answer_part a"
  by (simp add: handled_part_def in_world_def answer_part_def)

lemma completed_part:
  "answer_part (completed cp written status request_id mutated) =
     (case fst written of Inr used \<Rightarrow> Inr (CO_Response request_id status used) | Inl e \<Rightarrow> Inl (CPE_ResponseWrite e), snd written)"
  by (simp add: answer_part_def completed_def complete_response_def split: sum.split)

lemma encoded_lengths [simp]:
  "length (encode_object_payload p) = 8" "length (encode_submit_response r) = 8" "length (encode_wire_event_state e) = 8"
  using op.length_encode sr.length_encode we.length_encode
  by (simp_all add: size_object_payload_def size_submit_response_def size_wire_event_state_def)

text \<open>
  A backend gets the response port as a trait object: it can only write through it. So whatever every
  write of the port preserves, the backend preserves.
\<close>

definition writes_through :: "('c, 'b, 'p, 'q, 'e, 'k, 'w) accelerator \<Rightarrow> bool" where
  "writes_through accelerator \<longleftrightarrow> (\<forall>buffer offset sink k w P.
     (\<forall>k offset src. P k \<longrightarrow> P (snd (sk_write_at sink k offset src))) \<longrightarrow> P k
       \<longrightarrow> P (fst (snd (ac_read_buffer accelerator buffer offset sink k w))))"

text \<open>What the backend leaves of the port when it fills the payload: only the payload has changed.\<close>

definition payload_only :: "('k \<Rightarrow> u8 list) \<Rightarrow> ('k \<Rightarrow> bool) \<Rightarrow> nat \<Rightarrow> 'k \<Rightarrow> 'k \<Rightarrow> bool" where
  "payload_only content valid n k0 k \<longleftrightarrow> valid k \<and> length (content k) = length (content k0)
     \<and> drop (16 + n) (content k) = drop (16 + n) (content k0)"

context byte_sink_port
begin

lemma respond_empty_answers:
  assumes "room content valid (dl_max_response_bytes (cp_decoder cp)) n k"
  shows "answers content valid n request_id k (answer_part (respond_empty cp sink k status request_id mutated))"
proof -
  have fits: "frame_fits (dl_max_response_bytes (cp_decoder cp)) 0" "16 \<le> length (content k)" "valid k"
    using assms by (simp_all add: room_def frame_fits_def frame_bytes_def)
  then obtain k' where k': "write_empty (response_writer_new sink (dl_max_response_bytes (cp_decoder cp))) k status request_id = (Inr 16, k')"
      "valid k'" "content k' = response_frame status request_id [] @ drop 16 (content k)"
    using write_empty_law by blast
  then show ?thesis
    using fits by (auto simp: answers_def respond_empty_def completed_part add.commute intro!: exI [of _ status] exI [of _ "[]"])
qed

lemma write_bytes_law:
  assumes "room content valid m (length payload) k"
  obtains k' where "write_bytes (response_writer_new sink m) k status request_id payload = (Inr (of_nat (16 + length payload)), k')"
    "valid k'" "content k' = response_frame status request_id payload @ drop (16 + length payload) (content k)"
proof -
  let ?n = "of_nat (length payload) :: u64"
  have k: "valid k" and size: "16 + length payload \<le> unat m" "16 + length payload \<le> length (content k)"
    using assms by (simp_all add: room_def)
  have small: "length payload < 2 ^ 32"
    using size(1) unat_u32_less [of m] by simp
  then have n: "unat ?n = length payload"
    by (intro unat_of_nat_u64) simp
  have "(ucast ?n :: u32) = of_nat (unat ?n)"
    by simp
  then have cast: "(ucast ?n :: u32) = of_nat (length payload)"
    by (simp only: n)
  let ?p = "\<lparr>rp_sink = sink, rp_payload_bytes = ucast ?n, rp_used = of_nat (frame_bytes ?n)\<rparr>"
  have dest: "response_payload_of (response_writer_new sink m) k ?n = Inr ?p"
    using size by (simp add: response_payload_of_eq [OF k] frame_fits_def frame_bytes_def n)
  have plen: "payload_len ?p = ?n"
    unfolding payload_len_def using small n by (simp only: response_payload.simps narrow_u64)
  have "unat (16 :: u64) + length payload \<le> length (content k)"
    using size by simp
  then obtain k1 where k1: "sk_write_at sink k 16 payload = (Inr (), k1)" "valid k1"
      "content k1 = overwrite (content k) 16 payload"
    using sink_write [OF k, of 16 payload] by auto
  have put: "payload_write_at ?p k 0 payload = (Inr (), k1)"
    using small n k1(1) by (simp add: payload_write_at_def checked_add_def plen)
  obtain k' where k': "payload_commit ?p k1 status request_id = (Inr (rp_used ?p), k')" "valid k'"
      "content k' = response_frame status request_id payload @ drop (16 + length payload) (content k)"
    by (rule payload_commit_law [OF k1(2,3), of ?p]) (use size cast in simp_all)
  then show thesis
    using that small dest put by (simp add: write_bytes_def frame_bytes_def n)
qed

lemma respond_bytes_answers:
  assumes "room content valid (dl_max_response_bytes (cp_decoder cp)) n k" "length payload \<le> n"
  shows "answers content valid n request_id k (answer_part (respond_bytes cp sink k status request_id payload mutated))"
proof -
  let ?m = "dl_max_response_bytes (cp_decoder cp)"
  have r: "room content valid ?m (length payload) k"
    using assms by (simp add: room_def)
  obtain k' where "write_bytes (response_writer_new sink ?m) k status request_id payload = (Inr (of_nat (16 + length payload)), k')"
    "valid k'" "content k' = response_frame status request_id payload @ drop (16 + length payload) (content k)"
    by (rule write_bytes_law [OF r])
  then show ?thesis
    using assms by (auto simp: answers_def respond_bytes_def completed_part room_def add.commute intro!: exI [of _ status] exI [of _ payload])
qed

lemma respond_error_answers:
  assumes "room content valid (dl_max_response_bytes (cp_decoder cp)) n k"
  shows "answers content valid n request_id k (answer_part (respond_state_error cp sink k request_id e))"
    "answers content valid n request_id k (answer_part (respond_backend_error cp sink k request_id be mutated))"
    "answers content valid n request_id k (answer_part (respond_create_error cp sink k request_id ce))"
    "answers content valid n request_id k (answer_part (discard_response cp sink k request_id))"
proof -
  have r: "room content valid (dl_max_response_bytes (cp_decoder (require_backend_discard cp))) n k"
    using assms by (simp add: require_backend_discard_def)
  show state: "answers content valid n request_id k (answer_part (respond_state_error cp sink k request_id e))" for e
    unfolding respond_state_error_def by (rule respond_empty_answers [OF assms])
  show backend: "answers content valid n request_id k (answer_part (respond_backend_error cp sink k request_id be mutated))"
    for be mutated
    using respond_empty_answers [OF assms] respond_empty_answers [OF r]
    by (simp add: respond_backend_error_def backend_status_def)
  show "answers content valid n request_id k (answer_part (respond_create_error cp sink k request_id ce))"
    using state backend by (simp add: respond_create_error_def split: create_error.split)
  show "answers content valid n request_id k (answer_part (discard_response cp sink k request_id))"
    unfolding discard_response_def by (rule respond_empty_answers [OF r])
qed

lemma respond_id_answers:
  assumes "room content valid (dl_max_response_bytes (cp_decoder cp)) n k" "8 \<le> n"
  shows "answers content valid n request_id k (answer_part (respond_object cp sink k request_id oid mutated))"
    "answers content valid n request_id k (answer_part (respond_event_id cp sink k status request_id oid mutated))"
  using assms by (simp_all add: respond_object_def respond_event_id_def respond_bytes_answers)

lemmas answered = respond_empty_answers respond_error_answers respond_id_answers

lemma release_flow_answers:
  assumes "room content valid (dl_max_response_bytes (cp_decoder cp)) n k"
    and "\<And>s. cp_decoder (quarantine s) = cp_decoder cp"
  shows "answers content valid n request_id k
    (handled_part (release_flow begin_release restore_release commit_release destroy quarantine cp sink k w request_id oid))"
  using assms by (auto simp: release_flow_def split: prod.split sum.split release_failure.split intro!: answered)

lemma release_unpublished_answers:
  assumes "room content valid (dl_max_response_bytes (cp_decoder cp)) n k"
  shows "answers content valid n request_id k (handled_part (release_unpublished_buffer cp sink k w request_id oid e))"
  using assms
  by (auto simp: release_unpublished_buffer_def split: prod.split sum.split release_failure.split intro!: answered)

lemma release_commands_answer:
  assumes "room content valid (dl_max_response_bytes (cp_decoder cp)) n k"
  shows "answers content valid n request_id k (handled_part (destroy_context cp sink k w request_id oid))"
    "answers content valid n request_id k (handled_part (free_buffer cp sink k w request_id oid))"
    "answers content valid n request_id k (handled_part (unload_program cp sink k w request_id oid))"
    "answers content valid n request_id k (handled_part (destroy_queue cp sink k w request_id oid))"
    "answers content valid n request_id k (handled_part (release_event cp sink k w request_id oid))"
  using assms by (auto simp: flows split: sum.split intro!: release_flow_answers answered)

lemma event_commands_answer:
  assumes "room content valid (dl_max_response_bytes (cp_decoder cp)) n k"
  shows "8 \<le> n \<Longrightarrow> answers content valid n request_id k (handled_part (poll_event cp sink k w request_id oid))"
    "answers content valid n request_id k (handled_part (cancel_event cp sink k w request_id oid))"
    "answers content valid n request_id k (handled_part (destroy_event cp sink k w request_id oid))"
  using assms
  by (auto simp: poll_event_def cancel_event_def destroy_event_def require_backend_discard_def
      split: sum.split prod.split intro!: answered respond_bytes_answers release_commands_answer)

lemma create_commands_answer:
  assumes "room content valid (dl_max_response_bytes (cp_decoder cp)) n k" "8 \<le> n"
  shows "answers content valid n request_id k (handled_part (dispatch_create_context cp alloc sink k w request_id desc))"
    "answers content valid n request_id k (handled_part (dispatch_allocate_buffer cp alloc sink k w request_id oid bdesc))"
    "answers content valid n request_id k
       (handled_part (dispatch_load_program cp alloc sink k w request_id oid format target payload resident))"
    "answers content valid n request_id k (handled_part (dispatch_create_queue cp alloc sink k w request_id oid qdesc))"
  using assms
  by (auto simp: dispatch_create_context_def dispatch_allocate_buffer_def dispatch_load_program_def
      dispatch_create_queue_def split: sum.split prod.split buffer_create_outcome.split
      intro!: answered release_unpublished_answers)

lemma submit_answers:
  assumes "room content valid (dl_max_response_bytes (cp_decoder cp)) n k" "8 \<le> n"
  shows "answers content valid n request_id k
    (handled_part (submit cp alloc sink k w request_id queue_id program_id bindings timeout))"
  using assms
  by (auto simp: submit_def Let_def require_backend_discard_def
      split: sum.split prod.split create_error.split submit_create_error.split intro!: answered)

lemma write_buffer_answers:
  assumes "room content valid (dl_max_response_bytes (cp_decoder cp)) n k"
  shows "answers content valid n request_id k (handled_part (write_buffer cp sink k w request_id oid rng data))"
  using assms by (auto simp: write_buffer_def Let_def split: sum.split prod.split intro!: answered)

lemma payload_write_only:
  assumes "payload_only content valid (unat (payload_len p)) k0 k" "rp_sink p = sink"
  shows "payload_only content valid (unat (payload_len p)) k0 (snd (payload_write_at p k offset src))"
proof (cases "unat offset + length src \<le> unat (payload_len p)")
  case False
  then show ?thesis
    using assms by (simp add: payload_write_at_region writable_region_write_at_def checked_range_eq)
next
  case True
  have k: "valid k" "length (content k) = length (content k0)"
      "drop (16 + unat (payload_len p)) (content k) = drop (16 + unat (payload_len p)) (content k0)"
    using assms(1) by (simp_all add: payload_only_def)
  have small: "unat (payload_len p) < 2 ^ 32"
    using unat_u32_less [of "rp_payload_bytes p"] by (simp add: payload_len_def)
  then have off: "unat (16 + offset) = 16 + unat offset"
    using True by (subst unat_add_no_overflow) simp_all
  have "payload_write_at p k offset src = sk_write_at sink k (16 + offset) src"
    using True small assms(2)
    by (simp add: payload_write_at_region writable_region_write_at_def checked_range_eq checked_add_def)
  moreover have "payload_only content valid (unat (payload_len p)) k0 (snd (sk_write_at sink k (16 + offset) src))"
  proof (cases "unat (16 + offset) + length src \<le> length (content k)")
    case False
    then show ?thesis
      using assms(1) sink_refuse [OF k(1), of "16 + offset" src] by simp
  next
    case fits: True
    obtain k' where k': "sk_write_at sink k (16 + offset) src = (Inr (), k')" "valid k'"
        "content k' = overwrite (content k) (16 + unat offset) src"
      using sink_write [OF k(1) fits] by (auto simp: off)
    have "drop (16 + unat (payload_len p)) (content k') = drop (16 + unat (payload_len p)) (content k)"
      using True fits by (simp add: k'(3) off overwrite_def) (simp add: add.commute)
    then show ?thesis
      using k k' fits by (simp add: payload_only_def off)
  qed
  ultimately show ?thesis
    by simp
qed

lemma emptied_answers:
  assumes "16 + n \<le> unat m" "16 + n \<le> length (content k)" "payload_only content valid n k k'"
  shows "answers content valid n request_id k
    (answer_part (completed cp (write_empty (response_writer_new sink m) k' status request_id) status request_id mutated))"
proof -
  have fits: "frame_fits m 0" "16 \<le> length (content k')" "valid k'"
    using assms by (simp_all add: payload_only_def frame_fits_def frame_bytes_def)
  then obtain k2 where "write_empty (response_writer_new sink m) k' status request_id = (Inr 16, k2)"
      "valid k2" "content k2 = response_frame status request_id [] @ drop 16 (content k')"
    using write_empty_law by blast
  then show ?thesis
    using assms(3) fits
    by (auto simp: answers_def completed_part payload_only_def add.commute intro!: exI [of _ status] exI [of _ "[]"])
qed

lemma committed_answers:
  assumes "16 + n \<le> unat m" "16 + n \<le> length (content k)" "payload_only content valid n k k'"
    and "rp_sink p = sink" "unat (rp_payload_bytes p) = n" "rp_used p = of_nat (16 + n)"
  shows "answers content valid n request_id k
    (answer_part (completed cp (payload_commit p k' status request_id) status request_id mutated))"
proof -
  define payload where "payload = take n (drop 16 (content k'))"
  have k': "valid k'" "length (content k') = length (content k)" "drop (16 + n) (content k') = drop (16 + n) (content k)"
    using assms(3) by (simp_all add: payload_only_def)
  then have len: "length payload = n" "16 + length payload \<le> length (content k')"
    using assms(2) by (simp_all add: payload_def)
  have same: "content k' = overwrite (content k') 16 payload"
    using len by (simp add: overwrite_def payload_def) (metis append_take_drop_id drop_drop add.commute)
  have "rp_payload_bytes p = of_nat (length payload)"
    unfolding len(1) assms(5) [symmetric] by simp
  then obtain k2 where "payload_commit p k' status request_id = (Inr (rp_used p), k2)" "valid k2"
      "content k2 = response_frame status request_id payload @ drop (16 + length payload) (content k')"
    using payload_commit_law [OF k'(1) same len(2) assms(4)] by blast
  then show ?thesis
    using k' len assms(2,6)
    by (auto simp: answers_def completed_part intro!: exI [of _ status] exI [of _ payload])
qed

lemma read_buffer_answers:
  assumes r: "room content valid (dl_max_response_bytes (cp_decoder cp)) (unat (br_bytes rng)) k"
    and through: "writes_through (cp_accelerator cp)"
  shows "answers content valid (unat (br_bytes rng)) request_id k (handled_part (read_buffer cp sink k w request_id oid rng))"
proof -
  let ?m = "dl_max_response_bytes (cp_decoder cp)" and ?n = "br_bytes rng"
  let ?p = "\<lparr>rp_sink = sink, rp_payload_bytes = ucast ?n, rp_used = of_nat (frame_bytes ?n)\<rparr>"
  have k: "valid k" and size: "16 + unat ?n \<le> unat ?m" "16 + unat ?n \<le> length (content k)"
    using r by (simp_all add: room_def)
  have dest: "response_payload_of (response_writer_new sink ?m) k ?n = Inr ?p"
    using size by (simp add: response_payload_of_eq [OF k] frame_fits_def frame_bytes_def)
  have small: "unat ?n < 2 ^ 32"
    using size(1) unat_u32_less [of ?m] by simp
  have plen: "payload_len ?p = ?n"
    unfolding payload_len_def using small by (simp only: response_payload.simps narrow_u64)
  have narrow: "unat (ucast ?n :: u32) = unat ?n"
    using plen by (metis payload_len_def response_payload.select_convs(2) unat_ucast_u32)
  have kept: "payload_only content valid (unat ?n) k k'"
    if "ac_read_buffer (cp_accelerator cp) buffer offset (payload_port ?p) k w0 = (res, k', w')" for buffer offset w0 res k' w'
  proof -
    have "payload_only content valid (unat ?n) k (snd (sk_write_at (payload_port ?p) j off src))" if "payload_only content valid (unat ?n) k j" for j off src
      using payload_write_only [of ?p k j off src] that plen by (simp add: payload_port_def)
    moreover have "payload_only content valid (unat ?n) k k"
      using k by (simp add: payload_only_def)
    ultimately have "payload_only content valid (unat ?n) k
        (fst (snd (ac_read_buffer (cp_accelerator cp) buffer offset (payload_port ?p) k w0)))"
      using through unfolding writes_through_def by blast
    then show ?thesis
      by (simp add: that)
  qed
  show ?thesis
    using r kept narrow unfolding read_buffer_def Let_def dest
    by (auto simp: backend_status_def dest small frame_bytes_def split: sum.split prod.split
        intro!: answered committed_answers [OF size] emptied_answers [OF size])
qed

lemma dispatch_answers:
  assumes "room content valid (dl_max_response_bytes (cp_decoder cp)) (unat (response_payload_bytes body)) k"
    and "writes_through (cp_accelerator cp)" "length (di_uuid (di_identity (cp_info cp))) = 16"
  shows "answers content valid (unat (response_payload_bytes body)) request_id k
    (handled_part (dispatch cp alloc sink k w request_id body))"
proof (cases body)
  case DR_GetDeviceInfo
  have "length (encode_wire_device_info (wire_device_info_of (cp_info cp))) = 76"
    using assms(3) by (subst wd.length_encode)
      (simp_all add: valid_wire_device_info_def wire_device_info_of_def size_wire_device_info_def)
  then show ?thesis
    using assms(1) by (simp add: DR_GetDeviceInfo respond_bytes_answers)
qed (use assms in \<open>simp_all add: release_commands_answer event_commands_answer create_commands_answer submit_answers
  write_buffer_answers read_buffer_answers\<close>)

end

lemma and_then_mono: "and_then r f = Inr y \<Longrightarrow> (\<And>x. f x = Inr y \<Longrightarrow> g x = Inr y) \<Longrightarrow> and_then r g = Inr y"
  by auto

lemma and_then_err_mono:
  "and_then (map_err h r) f = Inr y \<Longrightarrow> (\<And>x. r = Inr x \<Longrightarrow> r' = Inr x) \<Longrightarrow> and_then (map_err h r') f = Inr y"
  by auto

text \<open>What is decoded when a reservation failed is what would have been decoded without the failure.\<close>

lemma decode_frame_alloc:
  assumes "decode_frame limits alloc request cap = Inr r"
  shows "decode_frame limits True request cap = Inr r"
proof -
  have "decode_submit limits False request n \<noteq> Inr x" for n x
    by (auto simp: decode_submit_def split: if_splits)
  then have body: "decode_body limits alloc request n opcode = Inr x \<Longrightarrow> decode_body limits True request n opcode = Inr x" for n opcode x
    by (cases alloc; cases opcode) (auto simp: with_response_def)
  show ?thesis
    using assms unfolding decode_frame_def Let_def
    by (auto simp del: and_then_eq_Inr split: if_splits elim!: and_then_mono elim!: and_then_err_mono intro: body)
qed

lemma ready_room:
  assumes "byte_sink_port sink content valid" "valid k" "source_ok request"
    and "preflight_command_frame limits alloc regions request sink k = (Inr (FP_Ready decoded), k')"
  shows "k' = k" "room content valid (dl_max_response_bytes limits) (unat (response_payload_bytes (dq_body decoded))) k"
proof -
  have ready: "k' = k \<and> decode_frame limits alloc request (sk_len sink k) = Inr decoded"
    using assms(4) by (auto simp: preflight_command_frame_def split: sum.splits frame_decode_error.splits prod.splits)
  then show "k' = k"
    by simp
  have "accepted_frame limits request (sk_len sink k) decoded"
    using ready decode_frame_alloc decode_frame_Inr [OF assms(3)] by blast
  then show "room content valid (dl_max_response_bytes limits) (unat (response_payload_bytes (dq_body decoded))) k"
    using assms(2) byte_sink_port.sink_len [OF assms(1,2)] by (simp add: room_def accepted_frame_def)
qed

lemma answers_result:
  assumes "answers content valid n request_id k (handled_part h)" "room content valid m n k"
  shows "\<exists>status payload cp' k' w'. h = (Inr (CO_Response request_id status (of_nat (16 + length payload))), cp', k', w')
    \<and> valid k' \<and> length (content k') = length (content k)
    \<and> 16 + length payload \<le> unat m \<and> 16 + length payload \<le> length (content k)
    \<and> take (16 + length payload) (content k') = response_frame status request_id payload"
proof -
  obtain r cp' k' w' where h: "h = (r, cp', k', w')"
    using prod_cases4 by blast
  then show ?thesis
    using assms by (fastforce simp: answers_def handled_part_def room_def)
qed

lemma process_answers:
  assumes "engine_inv cp" "byte_sink_port sink content valid" "valid k" "source_ok request"
    and "writes_through (cp_accelerator cp)" "length (di_uuid (di_identity (cp_info cp))) = 16"
  shows "\<exists>out cp' k' w'. process cp alloc regions request sink k w = (Inr out, cp', k', w')
    \<and> (case out of
         CO_Unusable u \<Rightarrow> cp' = cp \<and> k' = k \<and> w' = w
       | CO_Response request_id status used \<Rightarrow> valid k' \<and> length (content k') = length (content k)
           \<and> (\<exists>payload. used = of_nat (16 + length payload)
               \<and> 16 + length payload \<le> unat (dl_max_response_bytes (cp_decoder cp)) \<and> 16 + length payload \<le> length (content k)
               \<and> take (16 + length payload) (content k') = response_frame status request_id payload))"
proof -
  obtain config where limits: "decoder_limits_new config (cp_info cp) = Inr (cp_decoder cp)"
    using assms(1) by (auto simp: engine_inv_def consistent_def configured_def)
  let ?pre = "preflight_command_frame (cp_decoder cp) (alloc Reserve_Decoded) regions request sink k"
  obtain p k1 where pre: "?pre = (Inr p, k1)"
    and p: "case p of
         FP_Ready _ \<Rightarrow> k1 = k
       | FP_Rejected request_id status used \<Rightarrow> used = 16 \<and> valid k1 \<and> 16 \<le> length (content k)
           \<and> content k1 = response_frame status request_id [] @ drop 16 (content k)
       | FP_Unusable u \<Rightarrow> k1 = k \<and> (\<forall>e. u = UF_Request e \<longrightarrow>
           length (content k) < 16 \<and> e = UDE_ResponseHeader \<or> unat (bs_len request) < 16 \<and> e = UDE_RequestHeader)"
    using preflight_law [OF assms(2-4) limits] by blast
  show ?thesis
  proof (cases p)
    case (FP_Ready decoded)
    note R = ready_room [OF assms(2-4) pre [unfolded FP_Ready]]
    have running: "answers content valid (unat (response_payload_bytes (dq_body decoded))) (dq_request_id decoded) k
        (handled_part (dispatch (cp\<lparr>cp_last_reset := None\<rparr>) alloc sink k w (dq_request_id decoded) (dq_body decoded)))"
      by (rule byte_sink_port.dispatch_answers [OF assms(2)]) (use R(2) assms(5,6) in simp_all)
    have stopped: "answers content valid (unat (response_payload_bytes (dq_body decoded))) (dq_request_id decoded) k
        (handled_part (in_world w (respond_empty cp sink k STATUS_DEVICE_LOST (dq_request_id decoded) False)))"
      using byte_sink_port.respond_empty_answers [OF assms(2) R(2)] by simp
    show ?thesis
      using answers_result [OF running R(2)] answers_result [OF stopped R(2)]
      by (auto simp: process_def pre FP_Ready R(1))
  next
    case (FP_Rejected request_id status used)
    then show ?thesis
      using p decoder_limits_response [OF limits] by (auto simp: process_def pre intro!: exI [of _ "[]"])
  next
    case (FP_Unusable u)
    then show ?thesis
      using p by (simp add: process_def pre)
  qed
qed

section \<open>Property\<close>

text \<open>C2: every command is answered. Over a response port and a request port that keep their
contracts, and with a backend that touches the response port only by writing to it, the engine never
fails to process a chain, whatever the allocator and the backend do. Either the chain cannot carry a
response, and then nothing at all has changed; or the outcome is a response, and the port then begins
with exactly one well-formed frame that carries the status and the identifier of the outcome, as long
as the outcome says, within the negotiated limit and within the port.\<close>
theorem process_answers_every_command:
  assumes "engine_inv cp" "byte_sink_port sink content valid" "valid k" "source_ok request"
    and "writes_through (cp_accelerator cp)" "length (di_uuid (di_identity (cp_info cp))) = 16"
  shows "\<exists>out cp' k' w'. process cp alloc regions request sink k w = (Inr out, cp', k', w')
    \<and> (case out of
         CO_Unusable u \<Rightarrow> cp' = cp \<and> k' = k \<and> w' = w
       | CO_Response request_id status used \<Rightarrow> valid k' \<and> length (content k') = length (content k)
           \<and> (\<exists>payload. used = of_nat (16 + length payload)
               \<and> 16 + length payload \<le> unat (dl_max_response_bytes (cp_decoder cp)) \<and> 16 + length payload \<le> length (content k)
               \<and> take (16 + length payload) (content k') = response_frame status request_id payload))"
  using assms by (rule process_answers)

theorem process_answers_every_command_witness:
  "engine_inv sample_engine \<and> source_ok sample_request \<and> writes_through (cp_accelerator sample_engine)
   \<and> (\<exists>out cp' k' w'. process sample_engine (\<lambda>_. True) [region_readable 24, region_writable 24] sample_request
        slice_sink (replicate 24 0) 1 = (Inr out, cp', k', w'))"
proof -
  have inv: "engine_inv sample_engine"
    by (rule processor_new_inv(1) [OF sample_engine_new])
  have fits: "slice_fits (replicate 24 0)"
    by (simp add: slice_fits_def)
  have through: "writes_through (cp_accelerator sample_engine)"
    by (simp add: writes_through_def sample_engine_def sample_accelerator_def)
  have "length (di_uuid (di_identity (cp_info sample_engine))) = 16"
    by (simp add: sample_engine_def sample_info_def)
  with process_answers_every_command [OF inv slice_out.byte_sink_port_axioms fits sample_request_ok(1) through,
      of "\<lambda>_. True" "[region_readable 24, region_writable 24]" 1] inv through sample_request_ok(1)
  show ?thesis
    by blast
qed

end
