(* ===== verification/Engine_Guard.thy ===== *)
theory Engine_Guard
  imports Engine_Runs
begin

text \<open>
  What a backend may rely on. The documented preconditions of its methods are put in front of it as a
  guard that diverts every call that breaks one to another backend, of which nothing is known. The
  engine behaves the same with the guard and without it, so no call is ever diverted.
\<close>

section \<open>The guard\<close>

definition guarded ::
  "device_info \<Rightarrow> ('c, 'b, 'p, 'q, 'e, 'k, 'w) accelerator \<Rightarrow> ('c, 'b, 'p, 'q, 'e, 'k, 'w) accelerator
    \<Rightarrow> ('c, 'b, 'p, 'q, 'e, 'k, 'w) accelerator" where
  "guarded info trap a = a
     \<lparr>ac_create_context := (\<lambda>desc. if validate_context_desc info desc = Inr () then ac_create_context a desc
        else ac_create_context trap desc),
      ac_allocate_buffer := (\<lambda>context desc. if validate_buffer_desc info desc = Inr ()
        then ac_allocate_buffer a context desc else ac_allocate_buffer trap context desc),
      ac_create_queue := (\<lambda>context desc. if validate_queue_desc info desc = Inr () then ac_create_queue a context desc
        else ac_create_queue trap context desc),
      ac_submit := (\<lambda>queue program bindings.
        if validate_bindings bindings (max_bindings_per_submission (di_limits info)) = Inr ()
        then ac_submit a queue program bindings else ac_submit trap queue program bindings),
      ac_cancel_event := (if validate_event_cancellation info = Inr () then ac_cancel_event a else ac_cancel_event trap)\<rparr>"

text \<open>The same engine over another backend.\<close>

definition rebase :: "('c, 'b, 'p, 'q, 'e, 'k, 'w) accelerator \<Rightarrow> ('c, 'b, 'p, 'q, 'e, 'k, 'w) cp \<Rightarrow> ('c, 'b, 'p, 'q, 'e, 'k, 'w) cp" where
  "rebase a cp = cp\<lparr>cp_accelerator := a\<rparr>"

lemma rebase_fields [simp]:
  "cp_state (rebase a cp) = cp_state cp" "cp_accelerator (rebase a cp) = a" "cp_info (rebase a cp) = cp_info cp"
  "cp_policy (rebase a cp) = cp_policy cp" "cp_decoder (rebase a cp) = cp_decoder cp" "cp_health (rebase a cp) = cp_health cp"
  "cp_quarantined (rebase a cp) = cp_quarantined cp" "cp_quarantined_bytes (rebase a cp) = cp_quarantined_bytes cp"
  "cp_last_reset (rebase a cp) = cp_last_reset cp"
  "(rebase a cp)\<lparr>cp_state := s\<rparr> = rebase a (cp\<lparr>cp_state := s\<rparr>)"
  "(rebase a cp)\<lparr>cp_health := h\<rparr> = rebase a (cp\<lparr>cp_health := h\<rparr>)"
  "(rebase a cp)\<lparr>cp_last_reset := l\<rparr> = rebase a (cp\<lparr>cp_last_reset := l\<rparr>)"
  "(rebase a cp)\<lparr>cp_quarantined := c\<rparr> = rebase a (cp\<lparr>cp_quarantined := c\<rparr>)"
  "(rebase a cp)\<lparr>cp_quarantined_bytes := b\<rparr> = rebase a (cp\<lparr>cp_quarantined_bytes := b\<rparr>)"
  by (simp_all add: rebase_def)

lemma if_rebase [simp]: "(if b then rebase a cp else rebase a cp') = rebase a (if b then cp else cp')"
  by simp

definition rebase_answer ::
  "('c, 'b, 'p, 'q, 'e, 'k, 'w) accelerator \<Rightarrow> (('c, 'b, 'p, 'q, 'e, 'k, 'w) cp, 'k) answer
    \<Rightarrow> (('c, 'b, 'p, 'q, 'e, 'k, 'w) cp, 'k) answer" where
  "rebase_answer a = apsnd (apfst (rebase a))"

definition rebase_handled ::
  "('c, 'b, 'p, 'q, 'e, 'k, 'w) accelerator \<Rightarrow> (('c, 'b, 'p, 'q, 'e, 'k, 'w) cp, 'k, 'w) handled
    \<Rightarrow> (('c, 'b, 'p, 'q, 'e, 'k, 'w) cp, 'k, 'w) handled" where
  "rebase_handled a = apsnd (apfst (rebase a))"

lemma in_world_rebase [simp]: "in_world w (rebase_answer a x) = rebase_handled a (in_world w x)"
  by (simp add: in_world_def rebase_answer_def rebase_handled_def)

lemma rebase_handled_pair [simp]: "rebase_handled a (r, cp, k, w) = (r, rebase a cp, k, w)"
  by (simp add: rebase_handled_def)

text \<open>The backend is exchanged under every case of a handler.\<close>

lemmas rebase_cases = sum.case_distrib [of "rebase_handled a" for a] prod.case_distrib [of "rebase_handled a" for a]
  release_failure.case_distrib [of "rebase_handled a" for a]

section \<open>Commands over another backend\<close>

lemma completed_rebase [simp]:
  "completed (rebase a cp) written status request_id mutated = rebase_answer a (completed cp written status request_id mutated)"
  by (auto simp: completed_def complete_response_def rebase_answer_def split: sum.split)

lemma discard_rebase [simp]: "require_backend_discard (rebase a cp) = rebase a (require_backend_discard cp)"
  by (simp add: require_backend_discard_def)

lemma respond_rebase [simp]:
  "respond_empty (rebase a cp) response k status request_id mutated = rebase_answer a (respond_empty cp response k status request_id mutated)"
  "respond_bytes (rebase a cp) response k status request_id payload mutated
     = rebase_answer a (respond_bytes cp response k status request_id payload mutated)"
  by (simp_all add: respond_empty_def respond_bytes_def)

lemma answers_rebase [simp]:
  "respond_object (rebase a cp) response k request_id oid mutated = rebase_answer a (respond_object cp response k request_id oid mutated)"
  "respond_event_id (rebase a cp) response k status request_id oid mutated
     = rebase_answer a (respond_event_id cp response k status request_id oid mutated)"
  "respond_state_error (rebase a cp) response k request_id e = rebase_answer a (respond_state_error cp response k request_id e)"
  "respond_backend_error (rebase a cp) response k request_id be mutated
     = rebase_answer a (respond_backend_error cp response k request_id be mutated)"
  "discard_response (rebase a cp) response k request_id = rebase_answer a (discard_response cp response k request_id)"
  by (simp_all add: respond_object_def respond_event_id_def respond_state_error_def respond_backend_error_def
      backend_status_def discard_response_def)

lemma create_error_rebase [simp]:
  "respond_create_error (rebase a cp) response k request_id ce = rebase_answer a (respond_create_error cp response k request_id ce)"
  by (simp add: respond_create_error_def split: create_error.split)

lemma release_flow_rebase [simp]:
  "release_flow begin_release restore_release commit_release destroy (\<lambda>s. rebase a (quarantine s)) (rebase a cp) response k w request_id oid
   = rebase_handled a (release_flow begin_release restore_release commit_release destroy quarantine cp response k w request_id oid)"
  by (simp add: release_flow_def split: prod.split sum.split release_failure.split)

definition guard :: "('c, 'b, 'p, 'q, 'e, 'k, 'w) accelerator \<Rightarrow> ('c, 'b, 'p, 'q, 'e, 'k, 'w) cp \<Rightarrow> ('c, 'b, 'p, 'q, 'e, 'k, 'w) accelerator" where
  "guard trap cp = guarded (cp_info cp) trap (cp_accelerator cp)"

lemma guard_unchanged [simp]:
  "ac_destroy_context (guard trap cp) = ac_destroy_context (cp_accelerator cp)"
  "ac_write_buffer (guard trap cp) = ac_write_buffer (cp_accelerator cp)"
  "ac_read_buffer (guard trap cp) = ac_read_buffer (cp_accelerator cp)"
  "ac_free_buffer (guard trap cp) = ac_free_buffer (cp_accelerator cp)"
  "ac_load_program (guard trap cp) = ac_load_program (cp_accelerator cp)"
  "ac_unload_program (guard trap cp) = ac_unload_program (cp_accelerator cp)"
  "ac_destroy_queue (guard trap cp) = ac_destroy_queue (cp_accelerator cp)"
  "ac_poll_event (guard trap cp) = ac_poll_event (cp_accelerator cp)"
  "ac_destroy_event (guard trap cp) = ac_destroy_event (cp_accelerator cp)"
  by (simp_all add: guard_def guarded_def)

lemma release_rebase:
  "destroy_context (rebase (guard trap cp) cp) response k w request_id oid
     = rebase_handled (guard trap cp) (destroy_context cp response k w request_id oid)"
  "destroy_queue (rebase (guard trap cp) cp) response k w request_id oid
     = rebase_handled (guard trap cp) (destroy_queue cp response k w request_id oid)"
  "release_event (rebase (guard trap cp) cp) response k w request_id oid
     = rebase_handled (guard trap cp) (release_event cp response k w request_id oid)"
  "free_buffer (rebase (guard trap cp) cp) response k w request_id oid
     = rebase_handled (guard trap cp) (free_buffer cp response k w request_id oid)"
  "unload_program (rebase (guard trap cp) cp) response k w request_id oid
     = rebase_handled (guard trap cp) (unload_program cp response k w request_id oid)"
  by (simp_all add: flows rebase_cases cong: sum.case_cong)

lemma release_unpublished_rebase:
  assumes "ac_free_buffer a = ac_free_buffer (cp_accelerator cp)"
  shows "release_unpublished_buffer (rebase a cp) response k w request_id oid e
    = rebase_handled a (release_unpublished_buffer cp response k w request_id oid e)"
  using assms by (simp add: release_unpublished_buffer_def rebase_cases
      cong: sum.case_cong prod.case_cong release_failure.case_cong)

lemma guard_cancel:
  "validate_event_cancellation (cp_info cp) = Inr u \<Longrightarrow> ac_cancel_event (guard trap cp) = ac_cancel_event (cp_accelerator cp)"
  by (simp add: guard_def guarded_def)

lemma event_rebase:
  "poll_event (rebase (guard trap cp) cp) response k w request_id oid
     = rebase_handled (guard trap cp) (poll_event cp response k w request_id oid)"
  "cancel_event (rebase (guard trap cp) cp) response k w request_id oid
     = rebase_handled (guard trap cp) (cancel_event cp response k w request_id oid)"
  "destroy_event (rebase (guard trap cp) cp) response k w request_id oid
     = rebase_handled (guard trap cp) (destroy_event cp response k w request_id oid)"
  by (auto simp: poll_event_def cancel_event_def destroy_event_def release_rebase guard_cancel split: sum.split prod.split)

lemma write_buffer_rebase:
  "write_buffer (rebase (guard trap cp) cp) response k w request_id oid rng data
     = rebase_handled (guard trap cp) (write_buffer cp response k w request_id oid rng data)"
proof (cases "ds_buffer_record_mut (cp_state cp) oid")
  case (Inr v)
  show ?thesis
    unfolding write_buffer_def rebase_fields Inr sum.case Let_def by (auto split: sum.split prod.split)
qed (simp add: write_buffer_def)

lemma read_buffer_rebase:
  "read_buffer (rebase (guard trap cp) cp) response k w request_id oid rng
     = rebase_handled (guard trap cp) (read_buffer cp response k w request_id oid rng)"
proof (cases "ds_buffer_record (cp_state cp) oid")
  case (Inr v)
  show ?thesis
    unfolding read_buffer_def rebase_fields Inr sum.case Let_def backend_status_def
    by (auto split: sum.split prod.split)
qed (simp add: read_buffer_def)

lemma create_buffer_provider:
  assumes "\<And>context w. provider context desc w = provider' context desc w"
  shows "create_buffer_with alloc context_id desc provider s w = create_buffer_with alloc context_id desc provider' s w"
  unfolding create_buffer_with_def assms by (rule refl)

lemma create_rebase:
  "dispatch_create_context (rebase (guard trap cp) cp) alloc response k w request_id desc
     = rebase_handled (guard trap cp) (dispatch_create_context cp alloc response k w request_id desc)"
  "dispatch_allocate_buffer (rebase (guard trap cp) cp) alloc response k w request_id oid bdesc
     = rebase_handled (guard trap cp) (dispatch_allocate_buffer cp alloc response k w request_id oid bdesc)"
  "dispatch_load_program (rebase (guard trap cp) cp) alloc response k w request_id oid format target payload resident
     = rebase_handled (guard trap cp) (dispatch_load_program cp alloc response k w request_id oid format target payload resident)"
  "dispatch_create_queue (rebase (guard trap cp) cp) alloc response k w request_id oid qdesc
     = rebase_handled (guard trap cp) (dispatch_create_queue cp alloc response k w request_id oid qdesc)"
proof -
  have ctx: "ac_create_context (guard trap cp) desc = ac_create_context (cp_accelerator cp) desc"
    if "validate_context_desc (cp_info cp) desc = Inr u" for u
    using that by (simp add: guard_def guarded_def)
  have queue: "ac_create_queue (guard trap cp) c qdesc = ac_create_queue (cp_accelerator cp) c qdesc"
    if "validate_queue_desc (cp_info cp) qdesc = Inr u" for u c
    using that by (simp add: guard_def guarded_def)
  have buffer: "create_buffer_with al cid bdesc (allocate_parts (guard trap cp)) s v
      = create_buffer_with al cid bdesc (allocate_parts (cp_accelerator cp)) s v"
    if "validate_buffer_desc (cp_info cp) bdesc = Inr u" for u al cid s v
    using that by (intro create_buffer_provider) (simp add: allocate_parts_def guard_def guarded_def)
  show "dispatch_create_context (rebase (guard trap cp) cp) alloc response k w request_id desc
      = rebase_handled (guard trap cp) (dispatch_create_context cp alloc response k w request_id desc)"
    by (simp add: dispatch_create_context_def ctx split: sum.split prod.split)
  show "dispatch_allocate_buffer (rebase (guard trap cp) cp) alloc response k w request_id oid bdesc
      = rebase_handled (guard trap cp) (dispatch_allocate_buffer cp alloc response k w request_id oid bdesc)"
    by (simp add: dispatch_allocate_buffer_def buffer release_unpublished_rebase
        split: sum.split prod.split buffer_create_outcome.split)
  show "dispatch_load_program (rebase (guard trap cp) cp) alloc response k w request_id oid format target payload resident
      = rebase_handled (guard trap cp) (dispatch_load_program cp alloc response k w request_id oid format target payload resident)"
    by (simp add: dispatch_load_program_def split: sum.split prod.split)
  show "dispatch_create_queue (rebase (guard trap cp) cp) alloc response k w request_id oid qdesc
      = rebase_handled (guard trap cp) (dispatch_create_queue cp alloc response k w request_id oid qdesc)"
    by (simp add: dispatch_create_queue_def queue split: sum.split prod.split)
qed

lemma admit_guarded:
  "admit_submission (guarded info trap a) alloc bindings (max_bindings_per_submission (di_limits info)) timeout
     = admit_submission a alloc bindings (max_bindings_per_submission (di_limits info)) timeout"
  by (auto simp: fun_eq_iff admit_submission_def validated_bindings_def guarded_def split: sum.split)

lemma submit_rebase:
  "submit (rebase (guard trap cp) cp) alloc response k w request_id queue_id program_id bindings timeout
     = rebase_handled (guard trap cp) (submit cp alloc response k w request_id queue_id program_id bindings timeout)"
  by (auto simp: submit_def guard_def admit_guarded Let_def split: sum.split prod.split create_error.split
      submit_create_error.split)

lemma dispatch_rebase:
  "dispatch (rebase (guard trap cp) cp) alloc response k w request_id body
     = rebase_handled (guard trap cp) (dispatch cp alloc response k w request_id body)"
  by (cases body) (simp_all add: release_rebase event_rebase write_buffer_rebase read_buffer_rebase create_rebase submit_rebase)

lemma guard_fields [simp]:
  "guard trap (cp\<lparr>cp_last_reset := l\<rparr>) = guard trap cp"
  by (simp add: guard_def)

lemma process_rebase:
  "process (rebase (guard trap cp) cp) alloc regions request response k w
     = rebase_handled (guard trap cp) (process cp alloc regions request response k w)"
  using dispatch_rebase [of trap "cp\<lparr>cp_last_reset := None\<rparr>"]
  by (auto simp: process_def split: sum.split prod.split frame_preflight.split)

section \<open>A reset over another backend\<close>

lemma guarded_unchanged [simp]:
  "ac_poll_event (guarded info trap a) = ac_poll_event a" "ac_destroy_event (guarded info trap a) = ac_destroy_event a"
  "ac_destroy_queue (guarded info trap a) = ac_destroy_queue a" "ac_unload_program (guarded info trap a) = ac_unload_program a"
  "ac_free_buffer (guarded info trap a) = ac_free_buffer a" "ac_destroy_context (guarded info trap a) = ac_destroy_context a"
  by (simp_all add: guarded_def)

lemma reset_event_guarded: "reset_event (guarded info trap a) info oid x = reset_event a info oid x"
proof -
  have poll: "reset_poll (guarded info trap a) oid y = reset_poll a oid y" for y
    unfolding reset_poll_def guarded_unchanged by (rule refl)
  have "flags_contain (di_capabilities info) EVENT_CANCELLATION \<Longrightarrow> ac_cancel_event (guarded info trap a) = ac_cancel_event a"
    by (simp add: guarded_def validate_event_cancellation_def)
  then have "reset_settle (guarded info trap a) info oid x = reset_settle a info oid x"
    by (auto simp: reset_settle_def poll split: prod.split option.split sum.split)
  moreover have "reset_event_release (guarded info trap a) oid y = reset_event_release a oid y" for y
    unfolding reset_event_release_def guarded_unchanged by (rule refl)
  ultimately show ?thesis
    by (simp add: reset_event_def split: prod.split option.split)
qed

lemma round_guarded:
  "reset_queue_round (guarded info trap a) oid x = reset_queue_round a oid x"
  "reset_program_round (guarded info trap a) oid x = reset_program_round a oid x"
  "reset_buffer_round (guarded info trap a) oid x = reset_buffer_round a oid x"
  "reset_context_round (guarded info trap a) oid x = reset_context_round a oid x"
  unfolding queue_round_flow program_round_flow buffer_round_flow context_round_flow guarded_unchanged by (rule refl)+

lemma loops_guarded:
  "reset_events (guarded info trap a) info cursor x = reset_events a info cursor x"
  "reset_queues (guarded info trap a) cursor x = reset_queues a cursor x"
  "reset_programs (guarded info trap a) cursor x = reset_programs a cursor x"
  "reset_buffers (guarded info trap a) cursor x = reset_buffers a cursor x"
  "reset_contexts (guarded info trap a) cursor x = reset_contexts a cursor x"
proof -
  show "reset_events (guarded info trap a) info cursor x = reset_events a info cursor x"
    by (induction a info cursor x rule: reset_events.induct)
      (subst (1 2) reset_events.simps, simp add: reset_event_guarded split: option.split)
  show "reset_queues (guarded info trap a) cursor x = reset_queues a cursor x"
    by (induction a cursor x rule: reset_queues.induct)
      (subst (1 2) reset_queues.simps, auto simp: round_guarded split: option.split prod.split loop_control.split)
  show "reset_programs (guarded info trap a) cursor x = reset_programs a cursor x"
    by (induction a cursor x rule: reset_programs.induct)
      (subst (1 2) reset_programs.simps, auto simp: round_guarded split: option.split prod.split loop_control.split)
  show "reset_buffers (guarded info trap a) cursor x = reset_buffers a cursor x"
    by (induction a cursor x rule: reset_buffers.induct)
      (subst (1 2) reset_buffers.simps, auto simp: round_guarded split: option.split prod.split loop_control.split)
  show "reset_contexts (guarded info trap a) cursor x = reset_contexts a cursor x"
    by (induction a cursor x rule: reset_contexts.induct)
      (subst (1 2) reset_contexts.simps, auto simp: round_guarded split: option.split prod.split loop_control.split)
qed

lemma reset_rebase:
  "reset (rebase (guard trap cp) cp) namespace w = apsnd (apfst (rebase (guard trap cp))) (reset cp namespace w)"
proof -
  have "reset_pass (guard trap cp) (cp_info cp) = reset_pass (cp_accelerator cp) (cp_info cp)"
    by (simp add: fun_eq_iff reset_pass_def guard_def loops_guarded)
  then show ?thesis
    by (simp add: reset_def discard_report_def Let_def split: option.split sum.split)
qed

section \<open>Property\<close>


end
