(* ===== verification/Split_Chain.thy ===== *)
theory Split_Chain
  imports Byte_Ports
begin

text \<open>
  Descriptor chains of the split queue (\<open>virtio-accel-split-queue/src/chain.rs\<close>): the descriptors a
  driver builds, the walk that classifies a chain once at construction, and the byte ports over its
  readable and its writable descriptors. The bytes of a descriptor are shared between the driver and
  the device, so they live in cells, and a descriptor holds the index of its cell. A borrow of a cell
  ends with the access that took it, so no access finds it busy.
\<close>

section \<open>Descriptors\<close>

definition VIRTQ_DESC_F_NEXT :: u16 where "VIRTQ_DESC_F_NEXT = 1"
definition VIRTQ_DESC_F_WRITE :: u16 where "VIRTQ_DESC_F_WRITE = 2"
definition VIRTQ_DESC_F_INDIRECT :: u16 where "VIRTQ_DESC_F_INDIRECT = 4"

definition KNOWN_DESCRIPTOR_FLAGS :: u16 where
  "KNOWN_DESCRIPTOR_FLAGS = VIRTQ_DESC_F_NEXT OR VIRTQ_DESC_F_WRITE OR VIRTQ_DESC_F_INDIRECT"

lemmas descriptor_flags = VIRTQ_DESC_F_NEXT_def VIRTQ_DESC_F_WRITE_def VIRTQ_DESC_F_INDIRECT_def
  KNOWN_DESCRIPTOR_FLAGS_def

type_synonym cells = "u8 list list"

datatype buffer_storage = Mapped nat | Unmapped u64

definition storage_mapped :: "cells \<Rightarrow> u8 list \<Rightarrow> buffer_storage \<times> cells" where
  "storage_mapped cells bytes = (Mapped (length cells), cells @ [bytes])"

fun storage_len :: "cells \<Rightarrow> buffer_storage \<Rightarrow> u64" where
  "storage_len cells (Mapped a) = of_nat (length (cells ! a))"
| "storage_len cells (Unmapped n) = n"

fun storage_is_mapped :: "buffer_storage \<Rightarrow> bool" where
  "storage_is_mapped (Mapped _) = True"
| "storage_is_mapped (Unmapped _) = False"

definition split_checked_range :: "u64 \<Rightarrow> nat \<Rightarrow> nat \<Rightarrow> byte_access_error + (nat \<times> nat)" where
  "split_checked_range offset bytes len =
     (let start = unat offset; e = start + bytes in
      if e < 2 ^ 64 \<and> e \<le> len then Inr (start, e) else Inl BAE_OutOfBounds)"

fun storage_read_at :: "cells \<Rightarrow> buffer_storage \<Rightarrow> u64 \<Rightarrow> nat \<Rightarrow> byte_access_error + u8 list" where
  "storage_read_at cells (Unmapped _) offset n = Inl BAE_Access"
| "storage_read_at cells (Mapped a) offset n =
     and_then (split_checked_range offset n (length (cells ! a)))
       (\<lambda>(start, e). Inr (take (e - start) (drop start (cells ! a))))"

fun storage_write_at ::
  "cells \<Rightarrow> buffer_storage \<Rightarrow> u64 \<Rightarrow> u8 list \<Rightarrow> (byte_access_error + unit) \<times> cells" where
  "storage_write_at cells (Unmapped _) offset src = (Inl BAE_Access, cells)"
| "storage_write_at cells (Mapped a) offset src =
     (case split_checked_range offset (length src) (length (cells ! a)) of
        Inl e \<Rightarrow> (Inl e, cells)
      | Inr (start, _) \<Rightarrow> (Inr (), cells[a := overwrite (cells ! a) start src]))"

record descriptor =
  de_buffer :: buffer_storage
  de_flags :: u16
  de_next :: u16

definition descriptor_raw :: "cells \<Rightarrow> u8 list \<Rightarrow> u16 \<Rightarrow> u16 \<Rightarrow> descriptor \<times> cells" where
  "descriptor_raw cells bytes flags nxt =
     (case storage_mapped cells bytes of (b, cells') \<Rightarrow>
        (\<lparr>de_buffer = b, de_flags = flags, de_next = nxt\<rparr>, cells'))"

definition descriptor_readable :: "cells \<Rightarrow> u8 list \<Rightarrow> descriptor \<times> cells" where
  "descriptor_readable cells bytes = descriptor_raw cells bytes 0 0"

definition descriptor_writable :: "cells \<Rightarrow> u8 list \<Rightarrow> descriptor \<times> cells" where
  "descriptor_writable cells bytes = descriptor_raw cells bytes VIRTQ_DESC_F_WRITE 0"

definition descriptor_unmapped :: "u64 \<Rightarrow> u16 \<Rightarrow> u16 \<Rightarrow> descriptor" where
  "descriptor_unmapped bytes flags nxt = \<lparr>de_buffer = Unmapped bytes, de_flags = flags, de_next = nxt\<rparr>"

definition descriptor_len :: "cells \<Rightarrow> descriptor \<Rightarrow> u64" where
  "descriptor_len cells d = storage_len cells (de_buffer d)"

definition descriptor_is_writable :: "descriptor \<Rightarrow> bool" where
  "descriptor_is_writable d \<longleftrightarrow> de_flags d AND VIRTQ_DESC_F_WRITE \<noteq> 0"

section \<open>The analysis of a chain\<close>

datatype chain_build_error = CBE_Empty | CBE_DescriptorCount | CBE_AllocationFailed | CBE_Malformed malformed_chain

record descriptor_span =
  sp_descriptor :: u16
  sp_end :: u64

datatype chain_analysis =
    CA_Valid chain_layout "descriptor_span list" "chain_region list"
  | CA_Invalid malformed_chain

fun analysis_validation :: "chain_analysis \<Rightarrow> malformed_chain + chain_layout" where
  "analysis_validation (CA_Valid layout _ _) = Inr layout"
| "analysis_validation (CA_Invalid e) = Inl e"

fun analysis_spans :: "chain_analysis \<Rightarrow> bool \<Rightarrow> descriptor_span list" where
  "analysis_spans (CA_Valid layout spans _) writable =
     (let readable = unat (cl_readable_descriptors layout) in
      if writable then drop readable spans else take readable spans)"
| "analysis_spans (CA_Invalid _) writable = []"

fun analysis_regions :: "chain_analysis \<Rightarrow> chain_region list" where
  "analysis_regions (CA_Valid _ _ regions) = regions"
| "analysis_regions (CA_Invalid _) = []"

record chain_data =
  cd_descriptors :: "descriptor list"
  cd_analysis :: chain_analysis

text \<open>The locals of the walk.\<close>

record chain_walk =
  wk_visited :: "u16 list"
  wk_spans :: "descriptor_span list"
  wk_regions :: "chain_region list"
  wk_readable_end :: u64
  wk_writable_end :: u64

text \<open>One descriptor: its flags, its address, and the running end of its direction.\<close>

definition walk_descriptor ::
  "cells \<Rightarrow> descriptor \<Rightarrow> u16 \<Rightarrow> chain_walk \<Rightarrow> malformed_chain + chain_walk" where
  "walk_descriptor cells d current wk =
     (if de_flags d AND NOT KNOWN_DESCRIPTOR_FLAGS \<noteq> 0 then Inl MC_DescriptorFlags
      else if de_flags d AND VIRTQ_DESC_F_INDIRECT \<noteq> 0 then Inl MC_IndirectUnsupported
      else if \<not> storage_is_mapped (de_buffer d) then Inl MC_Address
      else if descriptor_is_writable d
      then case checked_add (wk_writable_end wk) (descriptor_len cells d) of
             None \<Rightarrow> Inl MC_LengthOverflow
           | Some e \<Rightarrow> Inr (wk\<lparr>wk_writable_end := e,
               wk_spans := wk_spans wk @ [\<lparr>sp_descriptor = current, sp_end = e\<rparr>],
               wk_regions := wk_regions wk @ [region_writable (descriptor_len cells d)]\<rparr>)
      else case checked_add (wk_readable_end wk) (descriptor_len cells d) of
             None \<Rightarrow> Inl MC_LengthOverflow
           | Some e \<Rightarrow> Inr (wk\<lparr>wk_readable_end := e,
               wk_spans := wk_spans wk @ [\<lparr>sp_descriptor = current, sp_end = e\<rparr>],
               wk_regions := wk_regions wk @ [region_readable (descriptor_len cells d)]\<rparr>))"

text \<open>
  The loop. Its marks have as many entries as there are descriptors, so the second test of the
  index is never the one that fails.
\<close>

function walk_chain ::
  "cells \<Rightarrow> descriptor list \<Rightarrow> u16 \<Rightarrow> chain_walk \<Rightarrow> (malformed_chain + unit) \<times> chain_walk" where
  "walk_chain cells ds current wk =
     (if length ds \<le> unat current \<or> length (wk_visited wk) \<le> unat current then (Inl MC_DescriptorIndex, wk)
      else if wk_visited wk ! unat current \<noteq> 0 then (Inl MC_DescriptorLoop, wk)
      else
        let d = ds ! unat current;
            marked = wk\<lparr>wk_visited := (wk_visited wk)[unat current := 1]\<rparr>
        in case walk_descriptor cells d current marked of
             Inl e \<Rightarrow> (Inl e, marked)
           | Inr wk' \<Rightarrow>
               if de_flags d AND VIRTQ_DESC_F_NEXT = 0 then (Inr (), wk')
               else walk_chain cells ds (de_next d) wk')"
  by pat_completeness auto

definition unmarked :: "chain_walk \<Rightarrow> nat" where
  "unmarked wk = length (filter (\<lambda>v. v = 0) (wk_visited wk))"

lemma walk_descriptor_visited:
  "walk_descriptor cells d current wk = Inr wk' \<Longrightarrow> wk_visited wk' = wk_visited wk"
  by (auto simp: walk_descriptor_def split: if_splits option.splits)

lemma unmarked_mark:
  assumes "i < length vs" "vs ! i = 0"
  shows "length (filter (\<lambda>v. v = 0) (vs[i := (1 :: u16)])) < length (filter (\<lambda>v. v = 0) vs)"
proof -
  have "filter (\<lambda>v. v = 0) vs = filter (\<lambda>v. v = 0) (take i vs) @ 0 # filter (\<lambda>v. v = 0) (drop (Suc i) vs)"
    by (subst id_take_nth_drop [OF assms(1)]) (simp add: assms(2))
  then show ?thesis
    using assms(1) by (simp add: upd_conv_take_nth_drop)
qed

termination walk_chain
  by (relation "measure (\<lambda>(cells, ds, current, wk). unmarked wk)")
    (auto simp: unmarked_def dest!: walk_descriptor_visited intro!: unmarked_mark)

declare walk_chain.simps [simp del]

definition zeroed_u16_box :: "bool \<Rightarrow> nat \<Rightarrow> chain_build_error + u16 list" where
  "zeroed_u16_box alloc n = (if alloc then Inr (replicate n 0) else Inl CBE_AllocationFailed)"

text \<open>The analysis and the marks it leaves in the slots of the chain.\<close>

definition analyze_chain ::
  "bool \<Rightarrow> cells \<Rightarrow> descriptor list \<Rightarrow> u16 \<Rightarrow> u16 list \<Rightarrow> chain_build_error + (chain_analysis \<times> u16 list)" where
  "analyze_chain alloc cells ds head visited =
     (if \<not> alloc then Inl CBE_AllocationFailed
      else case walk_chain cells ds head \<lparr>wk_visited = visited, wk_spans = [], wk_regions = [],
             wk_readable_end = 0, wk_writable_end = 0\<rparr> of
        (Inl e, wk) \<Rightarrow> Inr (CA_Invalid e, wk_visited wk)
      | (Inr _, wk) \<Rightarrow>
          if length (wk_spans wk) \<noteq> length ds then Inr (CA_Invalid MC_DescriptorCount, wk_visited wk)
          else case validate_chain_layout (wk_regions wk) 0xFFFF of
            Inl e \<Rightarrow> Inr (CA_Invalid (malformed_from_layout e), wk_visited wk)
          | Inr layout \<Rightarrow> Inr (CA_Valid layout (wk_spans wk) (wk_regions wk), wk_visited wk))"

section \<open>Driver chains\<close>

record driver_chain =
  dc_data :: chain_data
  dc_slots :: "u16 list"
  dc_head :: u16

definition driver_chain_raw ::
  "bool \<Rightarrow> cells \<Rightarrow> descriptor list \<Rightarrow> u16 \<Rightarrow> chain_build_error + driver_chain" where
  "driver_chain_raw alloc cells ds head =
     (if ds = [] then Inl CBE_Empty
      else if unat MAX_SPLIT_QUEUE_SIZE < length ds then Inl CBE_DescriptorCount
      else and_then (zeroed_u16_box alloc (length ds)) (\<lambda>slots.
           and_then (analyze_chain alloc cells ds head slots) (\<lambda>(analysis, slots).
           Inr \<lparr>dc_data = \<lparr>cd_descriptors = ds, cd_analysis = analysis\<rparr>, dc_slots = slots, dc_head = head\<rparr>)))"

definition chain_validation :: "driver_chain \<Rightarrow> malformed_chain + chain_layout" where
  "chain_validation c = analysis_validation (cd_analysis (dc_data c))"

text \<open>The relinking pass of \<open>direct\<close>: \<open>i\<close> is the index of the first descriptor of the list.\<close>

definition link_descriptor :: "nat \<Rightarrow> nat \<Rightarrow> descriptor \<Rightarrow> descriptor" where
  "link_descriptor count i d =
     (let flags = de_flags d AND VIRTQ_DESC_F_WRITE in
      if i + 1 < count then d\<lparr>de_flags := flags OR VIRTQ_DESC_F_NEXT, de_next := of_nat (i + 1)\<rparr>
      else d\<lparr>de_flags := flags, de_next := 0\<rparr>)"

definition link_descriptors :: "descriptor list \<Rightarrow> descriptor list" where
  "link_descriptors ds = map (\<lambda>i. link_descriptor (length ds) i (ds ! i)) [0..<length ds]"

definition driver_chain_direct ::
  "bool \<Rightarrow> cells \<Rightarrow> descriptor list \<Rightarrow> chain_build_error + driver_chain" where
  "driver_chain_direct alloc cells ds =
     and_then (driver_chain_raw alloc cells (link_descriptors ds) 0) (\<lambda>chain.
       case chain_validation chain of Inl e \<Rightarrow> Inl (CBE_Malformed e) | Inr _ \<Rightarrow> Inr chain)"

definition descriptor_count :: "driver_chain \<Rightarrow> u16" where
  "descriptor_count c = of_nat (length (cd_descriptors (dc_data c)))"

definition chain_descriptor :: "driver_chain \<Rightarrow> u16 \<Rightarrow> byte_access_error + descriptor" where
  "chain_descriptor c index =
     (if unat index < length (cd_descriptors (dc_data c))
      then Inr (cd_descriptors (dc_data c) ! unat index) else Inl BAE_OutOfBounds)"

definition read_descriptor ::
  "cells \<Rightarrow> driver_chain \<Rightarrow> u16 \<Rightarrow> u64 \<Rightarrow> nat \<Rightarrow> byte_access_error + u8 list" where
  "read_descriptor cells c index offset n =
     and_then (chain_descriptor c index) (\<lambda>d. storage_read_at cells (de_buffer d) offset n)"

definition write_descriptor ::
  "cells \<Rightarrow> driver_chain \<Rightarrow> u16 \<Rightarrow> u64 \<Rightarrow> u8 list \<Rightarrow> (byte_access_error + unit) \<times> cells" where
  "write_descriptor cells c index offset src =
     (case chain_descriptor c index of
        Inl e \<Rightarrow> (Inl e, cells)
      | Inr d \<Rightarrow> storage_write_at cells (de_buffer d) offset src)"

definition queue_head_slot :: "driver_chain \<Rightarrow> u16" where
  "queue_head_slot c =
     (if unat (dc_head c) < length (dc_slots c) then dc_slots c ! unat (dc_head c) else dc_slots c ! 0)"

section \<open>Copies across descriptors\<close>

definition first_touched_span :: "descriptor_span list \<Rightarrow> u64 \<Rightarrow> nat" where
  "first_touched_span spans offset = length (takeWhile (\<lambda>s. sp_end s \<le> offset) spans)"

definition checked_logical_range :: "u64 \<Rightarrow> nat \<Rightarrow> u64 \<Rightarrow> byte_access_error + unit" where
  "checked_logical_range offset bytes len =
     (if 2 ^ 64 \<le> bytes then Inl BAE_OutOfBounds
      else case checked_add offset (of_nat bytes) of
             None \<Rightarrow> Inl BAE_OutOfBounds
           | Some e \<Rightarrow> if len < e then Inl BAE_OutOfBounds else Inr ())"

text \<open>
  Where a copy meets a span: the offset inside the descriptor and the bytes the span still has
  from there.
\<close>

definition span_window ::
  "descriptor_span list \<Rightarrow> nat \<Rightarrow> u64 \<Rightarrow> byte_access_error + (u64 \<times> nat)" where
  "span_window spans index logical_offset =
     (let span_start = (if index = 0 then 0 else sp_end (spans ! (index - 1))) in
      and_then (ok_or BAE_OutOfBounds (checked_sub logical_offset span_start)) (\<lambda>descriptor_offset.
      and_then (ok_or BAE_OutOfBounds (checked_sub (sp_end (spans ! index)) logical_offset)) (\<lambda>span_remaining.
      Inr (descriptor_offset, unat span_remaining))))"

fun copy_from_loop ::
  "cells \<Rightarrow> descriptor list \<Rightarrow> descriptor_span list \<Rightarrow> u64 \<Rightarrow> nat \<Rightarrow> u8 list \<Rightarrow> nat list \<Rightarrow>
     byte_access_error + u8 list" where
  "copy_from_loop cells ds spans offset n copied [] = Inl BAE_OutOfBounds"
| "copy_from_loop cells ds spans offset n copied (index # rest) =
     and_then (span_window spans index (offset + of_nat (length copied))) (\<lambda>(descriptor_offset, available).
     and_then (storage_read_at cells (de_buffer (ds ! unat (sp_descriptor (spans ! index))))
                 descriptor_offset (min available (n - length copied))) (\<lambda>bytes.
     if length (copied @ bytes) = n then Inr (copied @ bytes)
     else copy_from_loop cells ds spans offset n (copied @ bytes) rest))"

definition copy_from_descriptors ::
  "cells \<Rightarrow> chain_data \<Rightarrow> bool \<Rightarrow> u64 \<Rightarrow> nat \<Rightarrow> byte_access_error + u8 list" where
  "copy_from_descriptors cells cd writable offset n =
     (if n = 0 then Inr []
      else let spans = analysis_spans (cd_analysis cd) writable in
        copy_from_loop cells (cd_descriptors cd) spans offset n []
          [first_touched_span spans offset..<length spans])"

fun copy_to_loop ::
  "cells \<Rightarrow> descriptor list \<Rightarrow> descriptor_span list \<Rightarrow> u64 \<Rightarrow> u8 list \<Rightarrow> nat \<Rightarrow> nat list \<Rightarrow>
     (byte_access_error + unit) \<times> cells" where
  "copy_to_loop cells ds spans offset src copied [] = (Inl BAE_OutOfBounds, cells)"
| "copy_to_loop cells ds spans offset src copied (index # rest) =
     (case span_window spans index (offset + of_nat copied) of
        Inl e \<Rightarrow> (Inl e, cells)
      | Inr (descriptor_offset, available) \<Rightarrow>
          let count = min available (length src - copied) in
          case storage_write_at cells (de_buffer (ds ! unat (sp_descriptor (spans ! index))))
                 descriptor_offset (take count (drop copied src)) of
            (Inl e, cells') \<Rightarrow> (Inl e, cells')
          | (Inr _, cells') \<Rightarrow>
              if copied + count = length src then (Inr (), cells')
              else copy_to_loop cells' ds spans offset src (copied + count) rest)"

definition copy_to_descriptors ::
  "cells \<Rightarrow> chain_data \<Rightarrow> bool \<Rightarrow> u64 \<Rightarrow> u8 list \<Rightarrow> (byte_access_error + unit) \<times> cells" where
  "copy_to_descriptors cells cd writable offset src =
     (if src = [] then (Inr (), cells)
      else let spans = analysis_spans (cd_analysis cd) writable in
        copy_to_loop cells (cd_descriptors cd) spans offset src 0
          [first_touched_span spans offset..<length spans])"

section \<open>The ports of a chain\<close>

definition device_readable_len :: "driver_chain \<Rightarrow> u64" where
  "device_readable_len c = (case chain_validation c of Inl _ \<Rightarrow> 0 | Inr l \<Rightarrow> cl_readable_bytes l)"

definition device_writable_len :: "driver_chain \<Rightarrow> u64" where
  "device_writable_len c = (case chain_validation c of Inl _ \<Rightarrow> 0 | Inr l \<Rightarrow> cl_writable_bytes l)"

definition write_device_readable ::
  "cells \<Rightarrow> driver_chain \<Rightarrow> u64 \<Rightarrow> u8 list \<Rightarrow> (byte_access_error + unit) \<times> cells" where
  "write_device_readable cells c offset src =
     (case checked_logical_range offset (length src) (device_readable_len c) of
        Inl e \<Rightarrow> (Inl e, cells)
      | Inr _ \<Rightarrow> copy_to_descriptors cells (dc_data c) False offset src)"

definition read_device_writable ::
  "cells \<Rightarrow> driver_chain \<Rightarrow> u64 \<Rightarrow> nat \<Rightarrow> byte_access_error + u8 list" where
  "read_device_writable cells c offset n =
     and_then (checked_logical_range offset n (device_writable_len c)) (\<lambda>_.
       copy_from_descriptors cells (dc_data c) True offset n)"

text \<open>What the ports of the device share with the queue: the cells and the queue's current epoch.\<close>

record split_shared =
  sh_cells :: cells
  sh_epoch :: queue_epoch

record split_source =
  ss_data :: chain_data
  ss_epoch :: queue_epoch

definition split_source_len :: "split_source \<Rightarrow> u64" where
  "split_source_len s =
     (case analysis_validation (cd_analysis (ss_data s)) of Inl _ \<Rightarrow> 0 | Inr l \<Rightarrow> cl_readable_bytes l)"

definition split_source_check_epoch :: "split_shared \<Rightarrow> split_source \<Rightarrow> byte_access_error + unit" where
  "split_source_check_epoch sh s = (if sh_epoch sh = ss_epoch s then Inr () else Inl BAE_Reset)"

definition split_source_read_at ::
  "split_shared \<Rightarrow> split_source \<Rightarrow> u64 \<Rightarrow> nat \<Rightarrow> byte_access_error + u8 list" where
  "split_source_read_at sh s offset n =
     and_then (split_source_check_epoch sh s) (\<lambda>_.
     and_then (checked_logical_range offset n (split_source_len s)) (\<lambda>_.
       copy_from_descriptors (sh_cells sh) (ss_data s) False offset n))"

record split_sink =
  sn_data :: chain_data
  sn_epoch :: queue_epoch

definition split_sink_len :: "split_sink \<Rightarrow> u64" where
  "split_sink_len s =
     (case analysis_validation (cd_analysis (sn_data s)) of Inl _ \<Rightarrow> 0 | Inr l \<Rightarrow> cl_writable_bytes l)"

definition split_sink_check_epoch :: "split_shared \<Rightarrow> split_sink \<Rightarrow> byte_access_error + unit" where
  "split_sink_check_epoch sh s = (if sh_epoch sh = sn_epoch s then Inr () else Inl BAE_Reset)"

definition split_sink_write_at ::
  "split_sink \<Rightarrow> split_shared \<Rightarrow> u64 \<Rightarrow> u8 list \<Rightarrow> (byte_access_error + unit) \<times> split_shared" where
  "split_sink_write_at s sh offset src =
     (case and_then (split_sink_check_epoch sh s)
             (\<lambda>_. checked_logical_range offset (length src) (split_sink_len s)) of
        Inl e \<Rightarrow> (Inl e, sh)
      | Inr _ \<Rightarrow>
          (case copy_to_descriptors (sh_cells sh) (sn_data s) True offset src of
             (r, cells') \<Rightarrow> (r, sh\<lparr>sh_cells := cells'\<rparr>)))"

text \<open>The two ports as transport byte ports; neither offers a contiguous view.\<close>

definition split_readable :: "split_shared \<times> split_source \<Rightarrow> readable_bytes" where
  "split_readable p =
     \<lparr>rb_len = split_source_len (snd p), rb_read_at = split_source_read_at (fst p) (snd p),
      rb_as_contiguous = None\<rparr>"

definition split_writable :: "split_sink \<Rightarrow> split_shared writable_bytes" where
  "split_writable s = \<lparr>wr_len = (\<lambda>_. split_sink_len s), wr_write_at = split_sink_write_at s\<rparr>"

record split_device_chain =
  sd_id :: chain_id
  sd_data :: chain_data
  sd_max_descriptors :: u16
  sd_source :: split_source
  sd_sink :: split_sink

definition split_device_chain_new :: "chain_id \<Rightarrow> chain_data \<Rightarrow> u16 \<Rightarrow> split_device_chain" where
  "split_device_chain_new cid cd max_descriptors =
     \<lparr>sd_id = cid, sd_data = cd, sd_max_descriptors = max_descriptors,
      sd_source = \<lparr>ss_data = cd, ss_epoch = ci_epoch cid\<rparr>,
      sd_sink = \<lparr>sn_data = cd, sn_epoch = ci_epoch cid\<rparr>\<rparr>"

definition writable_capacity :: "split_device_chain \<Rightarrow> u64" where
  "writable_capacity c =
     (case analysis_validation (cd_analysis (sd_data c)) of Inl _ \<Rightarrow> 0 | Inr l \<Rightarrow> cl_writable_bytes l)"

definition device_chain_check_epoch ::
  "split_shared \<Rightarrow> split_device_chain \<Rightarrow> byte_access_error chain_error + unit" where
  "device_chain_check_epoch sh c =
     (if sh_epoch sh = ci_epoch (sd_id c) then Inr ()
      else Inl (CHE_ResetRace (ci_epoch (sd_id c)) (sh_epoch sh)))"

definition device_chain_io ::
  "split_shared \<Rightarrow> split_device_chain \<Rightarrow>
     byte_access_error chain_error + (chain_region list \<times> split_source \<times> split_sink)" where
  "device_chain_io sh c =
     and_then (device_chain_check_epoch sh c) (\<lambda>_.
     and_then (map_err CHE_Malformed (analysis_validation (cd_analysis (sd_data c)))) (\<lambda>layout.
     if sd_max_descriptors c < cl_descriptor_count layout then Inl (CHE_Malformed MC_DescriptorCount)
     else Inr (analysis_regions (cd_analysis (sd_data c)), sd_source c, sd_sink c)))"

end
