(* ===== verification/Split_Queue.thy ===== *)
theory Split_Queue
  imports Split_Chain
begin

text \<open>
  The split queue (\<open>virtio-accel-split-queue/src/queue.rs\<close>): ring storage of a power-of-two size, its
  descriptor allocator, and every operation of the queue's driver, device and control ports. Tables
  are lists indexed by \<open>usize\<close>, the four ring indices are wrapping \<open>u16\<close> counters. The cell of the
  current epoch, which the queue shares with the ports of its chains, is the field
  \<open>sq_current_epoch\<close>. An allocation takes a boolean that tells whether it succeeds. The indices the
  code uses unchecked stay inside their tables in every state the queue reaches, which is part of
  the invariant of \<open>Split_Inv\<close>.
\<close>

section \<open>Ring storage\<close>

datatype split_queue_init_error = SQI_DescriptorLimit

datatype split_queue_error =
    SQE_AllocationFailed
  | SQE_Busy
  | SQE_ChainLimitExceedsQueue
  | SQE_MalformedDriverChain malformed_chain
  | SQE_InvalidTestState
  | SQE_CorruptState

record ring_counters =
  rg_available :: u16
  rg_consumed_available :: u16
  rg_used :: u16
  rg_consumed_used :: u16

record descriptor_owner =
  ow_head :: u16
  ow_local :: u16

datatype chain_state = CS_Available | CS_InFlight | CS_Used

record chain_record =
  rc_id :: chain_id
  rc_state :: chain_state
  rc_chain :: driver_chain

record used_element =
  ue_head :: u16
  ue_id :: chain_id
  ue_used :: used_length

record ring_storage =
  rs_size :: queue_size
  rs_descriptors :: "descriptor_owner option list"
  rs_records :: "chain_record option list"
  rs_available :: "u16 list"
  rs_used :: "used_element option list"
  rs_available_index :: u16
  rs_consumed_available :: u16
  rs_used_index :: u16
  rs_consumed_used :: u16
  rs_available_count :: u16
  rs_used_count :: u16
  rs_active_chains :: u16
  rs_free_descriptors :: u16
  rs_next_descriptor :: u16

definition boxed_with :: "bool \<Rightarrow> nat \<Rightarrow> 'a \<Rightarrow> split_queue_error + 'a list" where
  "boxed_with alloc n v = (if alloc then Inr (replicate n v) else Inl SQE_AllocationFailed)"

definition ring_storage_new :: "bool \<Rightarrow> queue_size \<Rightarrow> split_queue_error + ring_storage" where
  "ring_storage_new alloc sz =
     and_then (boxed_with alloc (unat sz) None) (\<lambda>descriptors.
     and_then (boxed_with alloc (unat sz) None) (\<lambda>records.
     and_then (boxed_with alloc (unat sz) 0) (\<lambda>available.
     and_then (boxed_with alloc (unat sz) None) (\<lambda>used.
     Inr \<lparr>rs_size = sz, rs_descriptors = descriptors, rs_records = records, rs_available = available,
          rs_used = used, rs_available_index = 0, rs_consumed_available = 0, rs_used_index = 0,
          rs_consumed_used = 0, rs_available_count = 0, rs_used_count = 0, rs_active_chains = 0,
          rs_free_descriptors = sz, rs_next_descriptor = 0\<rparr>))))"

definition ring_slot :: "ring_storage \<Rightarrow> u16 \<Rightarrow> nat" where
  "ring_slot st index = unat (index AND (rs_size st - 1))"

definition storage_counters :: "ring_storage \<Rightarrow> ring_counters" where
  "storage_counters st = \<lparr>rg_available = rs_available_index st, rg_consumed_available = rs_consumed_available st,
     rg_used = rs_used_index st, rg_consumed_used = rs_consumed_used st\<rparr>"

definition wrapping_descriptor_add :: "queue_size \<Rightarrow> u16 \<Rightarrow> u16 \<Rightarrow> u16" where
  "wrapping_descriptor_add sz index amount = (index + amount) AND (sz - 1)"

section \<open>The descriptor allocator\<close>

text \<open>
  The inner scan from \<open>cursor\<close>; \<open>left\<close> is the size less the entries scanned so far, so the scan gives
  up where the code's count reaches the size.
\<close>

fun scan_free :: "queue_size \<Rightarrow> descriptor_owner option list \<Rightarrow> u16 \<Rightarrow> nat \<Rightarrow> u16 option" where
  "scan_free sz table cursor 0 = None"
| "scan_free sz table cursor (Suc left) =
     (if table ! unat cursor = None then Some cursor
      else scan_free sz table (wrapping_descriptor_add sz cursor 1) left)"

definition rollback_allocation ::
  "descriptor_owner option list \<Rightarrow> u16 list \<Rightarrow> nat \<Rightarrow> descriptor_owner option list" where
  "rollback_allocation table slots allocated = fold (\<lambda>s t. t[unat s := None]) (take allocated slots) table"

text \<open>
  The outer loop: \<open>allocated\<close> slots are filled and \<open>n\<close> remain. It returns the table, the slots and
  the cursor, or the table after the rollback and the slots as they are.
\<close>

fun allocate_loop ::
  "queue_size \<Rightarrow> descriptor_owner option list \<Rightarrow> u16 list \<Rightarrow> u16 \<Rightarrow> nat \<Rightarrow> nat \<Rightarrow>
     (descriptor_owner option list \<times> u16 list) + (descriptor_owner option list \<times> u16 list \<times> u16)" where
  "allocate_loop sz table slots cursor allocated 0 = Inr (table, slots, cursor)"
| "allocate_loop sz table slots cursor allocated (Suc n) =
     (case scan_free sz table cursor (unat sz) of
        None \<Rightarrow> Inl (rollback_allocation table slots allocated, slots)
      | Some c \<Rightarrow>
          allocate_loop sz (table[unat c := Some \<lparr>ow_head = 0, ow_local = of_nat allocated\<rparr>])
            (slots[allocated := c]) (wrapping_descriptor_add sz c 1) (allocated + 1) n)"

fun own_slots ::
  "u16 \<Rightarrow> descriptor_owner option list \<Rightarrow> u16 list \<Rightarrow> (split_queue_error + unit) \<times> descriptor_owner option list" where
  "own_slots head table [] = (Inr (), table)"
| "own_slots head table (s # ss) =
     (case table ! unat s of
        None \<Rightarrow> (Inl SQE_CorruptState, table)
      | Some owner \<Rightarrow> own_slots head (table[unat s := Some (owner\<lparr>ow_head := head\<rparr>)]) ss)"

definition allocate_descriptors ::
  "ring_storage \<Rightarrow> driver_chain \<Rightarrow> (split_queue_error + u16) \<times> ring_storage \<times> driver_chain" where
  "allocate_descriptors st chain =
     (if rs_free_descriptors st < descriptor_count chain then (Inl SQE_CorruptState, st, chain)
      else case allocate_loop (rs_size st) (rs_descriptors st) (dc_slots chain) (rs_next_descriptor st) 0
                  (unat (descriptor_count chain)) of
        Inl (table, slots) \<Rightarrow>
          (Inl SQE_CorruptState, st\<lparr>rs_descriptors := table\<rparr>, chain\<lparr>dc_slots := slots\<rparr>)
      | Inr (table, slots, cursor) \<Rightarrow>
          let chain = chain\<lparr>dc_slots := slots\<rparr>; head = queue_head_slot chain in
          case own_slots head table slots of
            (Inl e, table) \<Rightarrow> (Inl e, st\<lparr>rs_descriptors := table\<rparr>, chain)
          | (Inr _, table) \<Rightarrow>
              (Inr head, st\<lparr>rs_descriptors := table, rs_next_descriptor := cursor,
                 rs_free_descriptors := rs_free_descriptors st - descriptor_count chain\<rparr>, chain))"

text \<open>The debug assertions of the release hold wherever it is called, by the same invariant.\<close>

definition release_slot :: "u16 \<Rightarrow> ring_storage \<Rightarrow> ring_storage" where
  "release_slot s st =
     (case rs_descriptors st ! unat s of
        None \<Rightarrow> st
      | Some _ \<Rightarrow> st\<lparr>rs_descriptors := (rs_descriptors st)[unat s := None],
                    rs_free_descriptors := rs_free_descriptors st + 1\<rparr>)"

definition release_descriptors :: "ring_storage \<Rightarrow> driver_chain \<Rightarrow> ring_storage" where
  "release_descriptors st chain = fold release_slot (dc_slots chain) st"

section \<open>The queue\<close>

record split_queue =
  sq_state :: queue_state
  sq_max_chain_descriptors :: u16
  sq_current_epoch :: queue_epoch
  sq_storage :: "ring_storage option"
  sq_available_notifications :: bool
  sq_used_notifications :: bool

definition split_queue_new :: "queue_size \<Rightarrow> u16 \<Rightarrow> split_queue_init_error + split_queue" where
  "split_queue_new max_size max_chain_descriptors =
     (if max_chain_descriptors < 2 \<or> max_size < max_chain_descriptors then Inl SQI_DescriptorLimit
      else Inr \<lparr>sq_state = queue_state_unconfigured max_size EPOCH_INITIAL,
                sq_max_chain_descriptors = max_chain_descriptors, sq_current_epoch = EPOCH_INITIAL,
                sq_storage = None, sq_available_notifications = True, sq_used_notifications = True\<rparr>)"

definition storage_mut :: "split_queue \<Rightarrow> split_queue_error queue_error + ring_storage" where
  "storage_mut q = ok_or QE_NotReady (sq_storage q)"

definition set_empty_ring_index ::
  "split_queue \<Rightarrow> u16 \<Rightarrow> (split_queue_error queue_error + unit) \<times> split_queue" where
  "set_empty_ring_index q index =
     (case storage_mut q of
        Inl e \<Rightarrow> (Inl e, q)
      | Inr st \<Rightarrow>
          if rs_active_chains st \<noteq> 0 then (Inl (QE_Transport SQE_Busy), q)
          else (Inr (), q\<lparr>sq_storage := Some (st\<lparr>rs_available_index := index, rs_consumed_available := index,
                  rs_used_index := index, rs_consumed_used := index,
                  rs_available_count := 0, rs_used_count := 0\<rparr>)\<rparr>))"

definition set_next_descriptor ::
  "split_queue \<Rightarrow> u16 \<Rightarrow> (split_queue_error queue_error + unit) \<times> split_queue" where
  "set_next_descriptor q index =
     (case storage_mut q of
        Inl e \<Rightarrow> (Inl e, q)
      | Inr st \<Rightarrow>
          if rs_size st \<le> index then (Inl (QE_Transport SQE_InvalidTestState), q)
          else (Inr (), q\<lparr>sq_storage := Some (st\<lparr>rs_next_descriptor := index\<rparr>)\<rparr>))"

definition queue_ring_counters :: "split_queue \<Rightarrow> ring_counters option" where
  "queue_ring_counters q = map_option storage_counters (sq_storage q)"

definition queue_free_descriptors :: "split_queue \<Rightarrow> u16 option" where
  "queue_free_descriptors q = map_option rs_free_descriptors (sq_storage q)"

section \<open>The driver's side\<close>

text \<open>A refused publication returns the chain with the reason.\<close>

record 'c publish_error =
  pe_chain :: 'c
  pe_kind :: "split_queue_error publish_error_kind"

record 'c used_chain =
  uc_id :: chain_id
  uc_used :: used_length
  uc_chain :: 'c

record 'c reclaimed_chain =
  rcl_id :: chain_id
  rcl_chain :: 'c

definition refuse_chain ::
  "driver_chain \<Rightarrow> split_queue_error publish_error_kind \<Rightarrow> driver_chain publish_error + published_chain" where
  "refuse_chain chain kind = Inl \<lparr>pe_chain = chain, pe_kind = kind\<rparr>"

text \<open>The part of \<open>publish_inner\<close> after the checks: allocation, the record and the available ring.\<close>

definition publish_chain ::
  "split_queue \<Rightarrow> ring_storage \<Rightarrow> driver_chain \<Rightarrow> (driver_chain publish_error + published_chain) \<times> split_queue" where
  "publish_chain q st chain =
     (case allocate_descriptors st chain of
        (Inl e, st, chain) \<Rightarrow> (refuse_chain chain (PEK_Transport e), q\<lparr>sq_storage := Some st\<rparr>)
      | (Inr head, st, chain) \<Rightarrow>
          let cid = \<lparr>ci_epoch = qs_epoch (sq_state q), ci_token = ucast head\<rparr> in
          if rs_records st ! unat head \<noteq> None
          then (refuse_chain chain (PEK_Transport SQE_CorruptState),
                q\<lparr>sq_storage := Some (release_descriptors st chain)\<rparr>)
          else
            (Inr \<lparr>pc_id = cid, pc_notification = (if sq_available_notifications q then NH_Notify else NH_Suppressed)\<rparr>,
             q\<lparr>sq_storage := Some (st
                 \<lparr>rs_records := (rs_records st)[unat head := Some \<lparr>rc_id = cid, rc_state = CS_Available, rc_chain = chain\<rparr>],
                  rs_available := (rs_available st)[ring_slot st (rs_available_index st) := head],
                  rs_available_index := rs_available_index st + 1,
                  rs_available_count := rs_available_count st + 1,
                  rs_active_chains := rs_active_chains st + 1\<rparr>)\<rparr>))"

definition publish_inner ::
  "split_queue \<Rightarrow> driver_chain \<Rightarrow> bool \<Rightarrow> (driver_chain publish_error + published_chain) \<times> split_queue" where
  "publish_inner q chain inject_malformed =
     (if \<not> qs_ready (sq_state q) then (refuse_chain chain PEK_NotReady, q)
      else case (if inject_malformed then Inr ()
                 else case chain_validation chain of
                        Inl e \<Rightarrow> Inl (PEK_Transport (SQE_MalformedDriverChain e))
                      | Inr _ \<Rightarrow> if sq_max_chain_descriptors q < descriptor_count chain
                                then Inl PEK_InsufficientDescriptors else Inr ()) of
        Inl kind \<Rightarrow> (refuse_chain chain kind, q)
      | Inr _ \<Rightarrow>
          (case sq_storage q of
             None \<Rightarrow> (refuse_chain chain (PEK_Transport SQE_CorruptState), q)
           | Some st \<Rightarrow>
               if rs_available_count st = rs_size st then (refuse_chain chain PEK_QueueFull, q)
               else if rs_free_descriptors st < descriptor_count chain
               then (refuse_chain chain PEK_InsufficientDescriptors, q)
               else publish_chain q st chain))"

definition publish where
  "publish q chain = publish_inner q chain False"

definition inject_available where
  "inject_available q chain = publish_inner q chain True"

definition pop_used ::
  "split_queue \<Rightarrow> (split_queue_error queue_error + driver_chain used_chain option) \<times> split_queue" where
  "pop_used q =
     (if \<not> qs_ready (sq_state q) then (Inl QE_NotReady, q)
      else case storage_mut q of
        Inl e \<Rightarrow> (Inl e, q)
      | Inr st \<Rightarrow>
          if rs_used_count st = 0 then (Inr None, q)
          else
            let slot = ring_slot st (rs_consumed_used st) in
            case rs_used st ! slot of
              None \<Rightarrow> (Inl (QE_Transport SQE_CorruptState), q)
            | Some used \<Rightarrow>
                (case rs_records st ! unat (ue_head used) of
                   None \<Rightarrow> (Inl (QE_Transport SQE_CorruptState), q)
                 | Some rc \<Rightarrow>
                     if rc_id rc \<noteq> ue_id used \<or> rc_state rc \<noteq> CS_Used
                     then (Inl (QE_Transport SQE_CorruptState), q)
                     else
                       let st = release_descriptors
                             (st\<lparr>rs_used := (rs_used st)[slot := None],
                                 rs_records := (rs_records st)[unat (ue_head used) := None]\<rparr>) (rc_chain rc) in
                       (Inr (Some \<lparr>uc_id = rc_id rc, uc_used = ue_used used, uc_chain = rc_chain rc\<rparr>),
                        q\<lparr>sq_storage := Some (st
                            \<lparr>rs_consumed_used := rs_consumed_used st + 1,
                             rs_used_count := rs_used_count st - 1,
                             rs_active_chains := rs_active_chains st - 1\<rparr>)\<rparr>)))"

definition disable_used_notifications ::
  "split_queue \<Rightarrow> (split_queue_error queue_error + unit) \<times> split_queue" where
  "disable_used_notifications q =
     (if \<not> qs_ready (sq_state q) then (Inl QE_NotReady, q)
      else (Inr (), q\<lparr>sq_used_notifications := False\<rparr>))"

definition enable_used_notifications ::
  "split_queue \<Rightarrow> (split_queue_error queue_error + notification_recheck) \<times> split_queue" where
  "enable_used_notifications q =
     (if \<not> qs_ready (sq_state q) then (Inl QE_NotReady, q)
      else let q = q\<lparr>sq_used_notifications := True\<rparr> in
        (and_then (storage_mut q) (\<lambda>st. Inr (if rs_used_count st = 0 then NR_Idle else NR_WorkPending)), q))"

section \<open>Control and reset\<close>

definition configure ::
  "bool \<Rightarrow> split_queue \<Rightarrow> queue_size \<Rightarrow> (split_queue_error queue_error + unit) \<times> split_queue" where
  "configure alloc q sz =
     (if qs_ready (sq_state q) then (Inl (QE_Transport SQE_Busy), q)
      else if qs_max_size (sq_state q) < sz then (Inl (QE_InvalidConfiguration QCE_SizeExceedsMaximum), q)
      else if sz < sq_max_chain_descriptors q then (Inl (QE_Transport SQE_ChainLimitExceedsQueue), q)
      else if (case sq_storage q of None \<Rightarrow> False | Some st \<Rightarrow> rs_active_chains st \<noteq> 0)
      then (Inl (QE_Transport SQE_Busy), q)
      else case ring_storage_new alloc sz of
        Inl e \<Rightarrow> (Inl (QE_Transport e), q)
      | Inr st \<Rightarrow>
          (case queue_state_new (qs_max_size (sq_state q)) (Some sz) False (qs_epoch (sq_state q)) of
             Inl e \<Rightarrow> (Inl (QE_InvalidConfiguration e), q)
           | Inr s \<Rightarrow> (Inr (), q\<lparr>sq_state := s, sq_storage := Some st\<rparr>)))"

definition set_ready :: "split_queue \<Rightarrow> bool \<Rightarrow> (split_queue_error queue_error + unit) \<times> split_queue" where
  "set_ready q ready =
     (case queue_state_new (qs_max_size (sq_state q)) (qs_size (sq_state q)) ready (qs_epoch (sq_state q)) of
        Inl e \<Rightarrow> (Inl (QE_InvalidConfiguration e), q)
      | Inr s \<Rightarrow> (Inr (), q\<lparr>sq_state := s\<rparr>))"

definition advance_epoch ::
  "split_queue \<Rightarrow> queue_epoch \<Rightarrow> (split_queue_error queue_error + ring_storage option) \<times> split_queue" where
  "advance_epoch q next_epoch =
     (if next_epoch \<le> qs_epoch (sq_state q) then (Inl (QE_InvalidConfiguration QCE_NonIncreasingEpoch), q)
      else (Inr (sq_storage q),
            q\<lparr>sq_current_epoch := next_epoch,
              sq_state := queue_state_unconfigured (qs_max_size (sq_state q)) next_epoch,
              sq_available_notifications := True, sq_used_notifications := True, sq_storage := None\<rparr>))"

text \<open>The iterator over reclaimed chains is the list of records it has left.\<close>

definition reclaimed_chains_new :: "ring_storage option \<Rightarrow> chain_record option list" where
  "reclaimed_chains_new storage = (case storage of None \<Rightarrow> [] | Some st \<Rightarrow> rs_records st)"

fun reclaimed_next ::
  "chain_record option list \<Rightarrow> (driver_chain reclaimed_chain \<times> chain_record option list) option" where
  "reclaimed_next [] = None"
| "reclaimed_next (None # rs) = reclaimed_next rs"
| "reclaimed_next (Some rc # rs) = Some (\<lparr>rcl_id = rc_id rc, rcl_chain = rc_chain rc\<rparr>, rs)"

definition driver_reset ::
  "split_queue \<Rightarrow> queue_epoch \<Rightarrow> (split_queue_error queue_error + chain_record option list) \<times> split_queue" where
  "driver_reset q next_epoch =
     (case advance_epoch q next_epoch of
        (r, q') \<Rightarrow> (and_then r (\<lambda>storage. Inr (reclaimed_chains_new storage)), q'))"

definition device_reset ::
  "split_queue \<Rightarrow> queue_epoch \<Rightarrow> (split_queue_error queue_error + unit) \<times> split_queue" where
  "device_reset q next_epoch =
     (case advance_epoch q next_epoch of (r, q') \<Rightarrow> (and_then r (\<lambda>_. Inr ()), q'))"

section \<open>The device's side\<close>

definition pop_available ::
  "split_queue \<Rightarrow> (split_queue_error queue_error + split_device_chain option) \<times> split_queue" where
  "pop_available q =
     (if \<not> qs_ready (sq_state q) then (Inl QE_NotReady, q)
      else case storage_mut q of
        Inl e \<Rightarrow> (Inl e, q)
      | Inr st \<Rightarrow>
          if rs_available_count st = 0 then (Inr None, q)
          else
            let head = rs_available st ! ring_slot st (rs_consumed_available st) in
            case rs_records st ! unat head of
              None \<Rightarrow> (Inl (QE_Transport SQE_CorruptState), q)
            | Some rc \<Rightarrow>
                if ci_epoch (rc_id rc) \<noteq> qs_epoch (sq_state q) \<or> rc_state rc \<noteq> CS_Available
                then (Inl (QE_Transport SQE_CorruptState), q)
                else
                  (Inr (Some (split_device_chain_new (rc_id rc) (dc_data (rc_chain rc)) (sq_max_chain_descriptors q))),
                   q\<lparr>sq_storage := Some (st
                       \<lparr>rs_records := (rs_records st)[unat head := Some (rc\<lparr>rc_state := CS_InFlight\<rparr>)],
                        rs_consumed_available := rs_consumed_available st + 1,
                        rs_available_count := rs_available_count st - 1\<rparr>)\<rparr>))"

definition complete ::
  "split_queue \<Rightarrow> split_device_chain \<Rightarrow> used_length \<Rightarrow>
     (split_queue_error queue_error + notification_hint) \<times> split_queue" where
  "complete q chain used =
     (let cid = sd_id chain; current = qs_epoch (sq_state q); capacity = writable_capacity chain in
      if ci_epoch cid \<noteq> current then (Inl (QE_ResetRace (ci_epoch cid) current), q)
      else if \<not> qs_ready (sq_state q) then (Inl QE_NotReady, q)
      else if capacity < ucast used then (Inl (QE_UsedLengthExceeded used capacity), q)
      else if 0xFFFF < ci_token cid then (Inl (QE_Transport SQE_CorruptState), q)
      else
        let head = ucast (ci_token cid) in
        case storage_mut q of
          Inl e \<Rightarrow> (Inl e, q)
        | Inr st \<Rightarrow>
            (case (if unat head < length (rs_records st) then rs_records st ! unat head else None) of
               None \<Rightarrow> (Inl (QE_Transport SQE_CorruptState), q)
             | Some rc \<Rightarrow>
                 if rc_id rc \<noteq> cid \<or> rc_state rc \<noteq> CS_InFlight then (Inl (QE_Transport SQE_CorruptState), q)
                 else if rs_used_count st = rs_size st then (Inl (QE_Transport SQE_CorruptState), q)
                 else
                   (Inr (if sq_used_notifications q then NH_Notify else NH_Suppressed),
                    q\<lparr>sq_storage := Some (st
                        \<lparr>rs_records := (rs_records st)[unat head := Some (rc\<lparr>rc_state := CS_Used\<rparr>)],
                         rs_used := (rs_used st)[ring_slot st (rs_used_index st) :=
                           Some \<lparr>ue_head = head, ue_id = cid, ue_used = used\<rparr>],
                         rs_used_index := rs_used_index st + 1,
                         rs_used_count := rs_used_count st + 1\<rparr>)\<rparr>)))"

definition disable_available_notifications ::
  "split_queue \<Rightarrow> (split_queue_error queue_error + unit) \<times> split_queue" where
  "disable_available_notifications q =
     (if \<not> qs_ready (sq_state q) then (Inl QE_NotReady, q)
      else (Inr (), q\<lparr>sq_available_notifications := False\<rparr>))"

definition enable_available_notifications ::
  "split_queue \<Rightarrow> (split_queue_error queue_error + notification_recheck) \<times> split_queue" where
  "enable_available_notifications q =
     (if \<not> qs_ready (sq_state q) then (Inl QE_NotReady, q)
      else let q = q\<lparr>sq_available_notifications := True\<rparr> in
        (and_then (storage_mut q) (\<lambda>st. Inr (if rs_available_count st = 0 then NR_Idle else NR_WorkPending)), q))"

end
