(* ===== verification/Split_Ring.thy ===== *)
theory Split_Ring
  imports Split_Queue
begin

text \<open>
  The two mechanisms below the split queue. A ring of a power-of-two size with wrapping indices is a
  first-in-first-out list: its window from the consumed index holds the published entries in order,
  and a slot is not reused while it is in the window. The descriptor allocator finds room whenever
  enough descriptors are free, hands out distinct free ones, and a release gives exactly those back.
\<close>

section \<open>Ring windows\<close>

definition ring_index :: "queue_size \<Rightarrow> u16 \<Rightarrow> nat" where
  "ring_index sz i = unat (i AND (sz - 1))"

definition ring_window :: "queue_size \<Rightarrow> 'a list \<Rightarrow> u16 \<Rightarrow> nat \<Rightarrow> 'a list" where
  "ring_window sz xs c m = map (\<lambda>i. xs ! ring_index sz (c + of_nat i)) [0..<m]"

text \<open>Sizes a queue can have.\<close>

definition ring_size :: "queue_size \<Rightarrow> bool" where
  "ring_size sz \<longleftrightarrow> is_power_of_two sz \<and> unat sz \<le> 32768"

lemma ring_slot_index: "ring_slot st i = ring_index (rs_size st) i"
  by (simp add: ring_slot_def ring_index_def)

lemma ring_size_dvd:
  assumes "ring_size sz"
  shows "unat sz dvd 2 ^ 16" and "0 < unat sz"
proof -
  obtain k where k: "k < 16" "sz = 2 ^ k"
    using is_power_of_two_imp_exp [of sz] assms by (auto simp: ring_size_def)
  then have "unat sz = 2 ^ k"
    using unat_exp [of k, where 'a = 16] by simp
  moreover have "(2 :: nat) ^ k dvd 2 ^ 16"
    using k(1) by (intro le_imp_power_dvd) simp
  ultimately show "unat sz dvd 2 ^ 16" "0 < unat sz"
    by simp_all
qed

lemma ring_index_mod:
  assumes "ring_size sz"
  shows "ring_index sz (c + of_nat i) = (unat c + i) mod unat sz"
proof -
  have "ring_index sz (c + of_nat i) = unat (c + of_nat i) mod unat sz"
    using and_pred_eq_mod [of sz "c + of_nat i"] assms by (simp add: ring_index_def ring_size_def)
  also have "unat (c + of_nat i :: u16) = (unat c + i) mod 2 ^ 16"
    by (simp add: unat_word_ariths unat_of_nat take_bit_eq_mod mod_simps)
  finally show ?thesis
    using ring_size_dvd(1) [OF assms] by (simp add: mod_mod_cancel)
qed

lemma ring_index_less: "ring_size sz \<Longrightarrow> ring_index sz c < unat sz"
  using ring_index_mod [of sz c 0] ring_size_dvd(2) [of sz] by simp

text \<open>Indices less than the size apart fall in different slots.\<close>

lemma mod_window_inj:
  fixes n :: nat
  assumes "i < n" "j < n" "(u + i) mod n = (u + j) mod n"
  shows "i = j"
proof -
  have le: "j' \<le> i'" if "i' \<le> j'" "j' < n" "(u + j') mod n = (u + i') mod n" for i' j'
  proof -
    have "n dvd (u + j') - (u + i')"
      using mod_eq_dvd_iff_nat [OF add_left_mono [OF that(1)]] that(3) by blast
    then have "n dvd j' - i'"
      by simp
    then show ?thesis
      using nat_dvd_not_less [of "j' - i'" n] that(2) by linarith
  qed
  show ?thesis
    using le [of i j] le [of j i] assms by linarith
qed

lemma ring_index_inj:
  "ring_size sz \<Longrightarrow> i < unat sz \<Longrightarrow> j < unat sz \<Longrightarrow>
     ring_index sz (c + of_nat i) = ring_index sz (c + of_nat j) \<longleftrightarrow> i = j"
  using mod_window_inj by (auto simp: ring_index_mod)

lemma length_ring_window [simp]: "length (ring_window sz xs c m) = m"
  by (simp add: ring_window_def)

lemma ring_window_0 [simp]: "ring_window sz xs c 0 = []"
  by (simp add: ring_window_def)

text \<open>Publishing: the entry goes into the slot after the window.\<close>

lemma ring_window_push:
  assumes "ring_size sz" "length xs = unat sz" "m < unat sz"
  shows "ring_window sz (xs[ring_index sz (c + of_nat m) := v]) c (Suc m) = ring_window sz xs c m @ [v]"
proof -
  have "xs[ring_index sz (c + of_nat m) := v] ! ring_index sz (c + of_nat i) = xs ! ring_index sz (c + of_nat i)"
    if "i < m" for i
    using that assms ring_index_inj [of sz m i c] by simp
  moreover have "ring_index sz (c + of_nat m) < length xs"
    using assms by (simp add: ring_index_less)
  ultimately show ?thesis
    by (simp add: ring_window_def)
qed

text \<open>Consuming: the window moves past its first slot, which may then be cleared.\<close>

lemma ring_window_pop: "ring_window sz xs c (Suc m) = xs ! ring_index sz c # ring_window sz xs (c + 1) m"
proof -
  have "[0..<Suc m] = 0 # map Suc [0..<m]"
    by (simp add: map_Suc_upt upt_conv_Cons del: upt_Suc)
  then show ?thesis
    by (simp add: ring_window_def add.assoc comp_def del: upt_Suc)
qed

lemma ring_window_clear:
  assumes "ring_size sz" "m < unat sz"
  shows "ring_window sz (xs[ring_index sz c := v]) (c + 1) m = ring_window sz xs (c + 1) m"
proof -
  have "ring_index sz c \<noteq> ring_index sz (c + 1 + of_nat i)" if "i < m" for i
    using that assms ring_index_inj [of sz 0 "Suc i" c] by (simp add: add.assoc)
  then show ?thesis
    by (simp add: ring_window_def)
qed

section \<open>The descriptor allocator\<close>

definition occupied :: "'a option list \<Rightarrow> nat" where
  "occupied table = length (filter (\<lambda>x. x \<noteq> None) table)"

lemma occupied_le: "occupied table \<le> length table"
  by (simp add: occupied_def)

lemma occupied_free:
  assumes "occupied table < length table"
  shows "\<exists>i<length table. table ! i = None"
proof (rule ccontr)
  assume "\<not> ?thesis"
  then have "filter (\<lambda>x. x \<noteq> None) table = table"
    by (simp add: filter_id_conv all_set_conv_all_nth)
  then show False
    using assms by (simp add: occupied_def)
qed

lemma occupied_update:
  assumes "i < length table"
  shows "occupied (table[i := v]) + (if table ! i = None then 0 else 1) = occupied table + (if v = None then 0 else 1)"
proof -
  have "occupied table = occupied (take i table) + (if table ! i = None then 0 else 1) + occupied (drop (Suc i) table)"
    by (subst id_take_nth_drop [OF assms]) (simp add: occupied_def)
  moreover have "occupied (table[i := v])
      = occupied (take i table) + (if v = None then 0 else 1) + occupied (drop (Suc i) table)"
    using assms by (simp add: occupied_def upd_conv_take_nth_drop)
  ultimately show ?thesis
    by simp
qed

lemma wrapping_descriptor_add_mod:
  "ring_size sz \<Longrightarrow> unat (wrapping_descriptor_add sz c 1) = (unat c + 1) mod unat sz"
  using ring_index_mod [of sz c 1] by (simp add: wrapping_descriptor_add_def ring_index_def)

lemma wrapping_descriptor_add_less: "ring_size sz \<Longrightarrow> unat (wrapping_descriptor_add sz c 1) < unat sz"
  by (simp add: wrapping_descriptor_add_mod ring_size_dvd(2))

lemma scan_free_Some:
  "ring_size sz \<Longrightarrow> unat cursor < unat sz \<Longrightarrow> scan_free sz table cursor m = Some c \<Longrightarrow>
     unat c < unat sz \<and> table ! unat c = None"
  by (induction sz table cursor m rule: scan_free.induct)
    (auto simp: wrapping_descriptor_add_less split: if_splits)

text \<open>A scan that fails has seen every entry from the cursor on occupied.\<close>

lemma scan_free_None:
  "ring_size sz \<Longrightarrow> unat cursor < unat sz \<Longrightarrow> scan_free sz table cursor m = None \<Longrightarrow> i < m \<Longrightarrow>
     table ! ((unat cursor + i) mod unat sz) \<noteq> None"
proof (induction sz table cursor m arbitrary: i rule: scan_free.induct)
  case (2 sz table cursor m)
  show ?case
  proof (cases i)
    case 0
    then show ?thesis
      using 2 by (auto split: if_splits)
  next
    case (Suc j)
    have "table ! ((unat (wrapping_descriptor_add sz cursor 1) + j) mod unat sz) \<noteq> None"
      using 2 Suc by (intro 2(1)) (auto simp: wrapping_descriptor_add_less split: if_splits)
    then show ?thesis
      using 2(2) Suc by (simp add: wrapping_descriptor_add_mod mod_simps)
  qed
qed simp

lemma scan_free_total:
  assumes sz: "ring_size sz" and len: "length table = unat sz" and c: "unat cursor < unat sz"
    and free: "occupied table < length table"
  shows "\<exists>c. scan_free sz table cursor (unat sz) = Some c"
proof (rule ccontr)
  assume "\<not> ?thesis"
  then have none: "scan_free sz table cursor (unat sz) = None"
    by simp
  obtain s where s: "s < unat sz" "table ! s = None"
    using occupied_free [OF free] len by auto
  define i where "i = (s + unat sz - unat cursor) mod unat sz"
  have "i < unat sz"
    using ring_size_dvd(2) [OF sz] by (simp add: i_def)
  moreover have "(unat cursor + i) mod unat sz = s"
    using s(1) c by (simp add: i_def mod_simps)
  ultimately show False
    using scan_free_None [OF sz c none, of i] s(2) by simp
qed

text \<open>
  Slots \<open>a\<close> and up of \<open>slots'\<close> are distinct entries that were free in \<open>table\<close> and are owned in
  \<open>table'\<close>; nothing else changed.
\<close>

definition handed_out ::
  "queue_size \<Rightarrow> nat \<Rightarrow> descriptor_owner option list \<Rightarrow> u16 list \<Rightarrow> descriptor_owner option list \<Rightarrow> u16 list \<Rightarrow> bool"
where
  "handed_out sz a table slots table' slots' \<longleftrightarrow>
     length table' = length table \<and> length slots' = length slots \<and> take a slots' = take a slots
     \<and> distinct (drop a slots')
     \<and> (\<forall>i<length slots. a \<le> i \<longrightarrow> unat (slots' ! i) < unat sz \<and> table ! unat (slots' ! i) = None
          \<and> table' ! unat (slots' ! i) = Some \<lparr>ow_head = 0, ow_local = of_nat i\<rparr>)
     \<and> (\<forall>s. s \<notin> unat ` set (drop a slots') \<longrightarrow> table' ! s = table ! s)
     \<and> occupied table' = occupied table + (length slots - a)"

lemma handed_out_step:
  assumes rest: "handed_out sz (Suc a) (table[unat c := Some \<lparr>ow_head = 0, ow_local = of_nat a\<rparr>]) (slots[a := c])
      table' slots'"
    and c: "unat c < unat sz" "table ! unat c = None" and len: "length table = unat sz" and a: "a < length slots"
  shows "handed_out sz a table slots table' slots'"
proof -
  let ?table1 = "table[unat c := Some \<lparr>ow_head = 0, ow_local = of_nat a\<rparr>]"
  note r = rest [unfolded handed_out_def]
  have slots: "length slots' = length slots" "take (Suc a) slots' = take (Suc a) (slots[a := c])"
    using r by auto
  have ca: "slots' ! a = c"
    using arg_cong [OF slots(2), of "\<lambda>xs. xs ! a"] a slots(1) by simp
  have tk: "take a slots' = take a slots"
    using arg_cong [OF slots(2), of "take a"] by simp
  have dr: "drop a slots' = c # drop (Suc a) slots'"
    using Cons_nth_drop_Suc [of a slots'] ca a slots(1) by simp
  have later: "unat (slots' ! i) < unat sz \<and> ?table1 ! unat (slots' ! i) = None
      \<and> table' ! unat (slots' ! i) = Some \<lparr>ow_head = 0, ow_local = of_nat i\<rparr>" if "Suc a \<le> i" "i < length slots" for i
    using r that by auto
  have ne: "unat (slots' ! i) \<noteq> unat c" if "Suc a \<le> i" "i < length slots" for i
    using later [OF that] c(1) len by auto
  have notin: "c \<notin> set (drop (Suc a) slots')"
  proof
    assume "c \<in> set (drop (Suc a) slots')"
    then obtain j where "j < length slots' - Suc a" "slots' ! (Suc a + j) = c"
      by (auto simp: in_set_conv_nth)
    then show False
      using ne [of "Suc a + j"] slots(1) by (simp add: less_diff_conv add.commute)
  qed
  have "unat c \<notin> unat ` set (drop (Suc a) slots')"
    using notin by (auto dest!: unat_eq_iff [THEN iffD2])
  then have tc: "table' ! unat c = Some \<lparr>ow_head = 0, ow_local = of_nat a\<rparr>"
    using r c(1) len by auto
  have each: "unat (slots' ! i) < unat sz \<and> table ! unat (slots' ! i) = None
      \<and> table' ! unat (slots' ! i) = Some \<lparr>ow_head = 0, ow_local = of_nat i\<rparr>" if "a \<le> i" "i < length slots" for i
    using that later [of i] ne [of i] ca c tc by (cases "i = a") auto
  have "occupied ?table1 = Suc (occupied table)"
    using occupied_update [of "unat c" table "Some \<lparr>ow_head = 0, ow_local = of_nat a\<rparr>"] c len by simp
  then show ?thesis
    unfolding handed_out_def using r tk slots(1) dr notin each a by auto
qed

lemma allocate_loop_ok:
  assumes "ring_size sz" "length table = unat sz" "unat cursor < unat sz"
    and "a + n = length slots" "occupied table + n \<le> unat sz"
  shows "\<exists>table' slots' cursor'. allocate_loop sz table slots cursor a n = Inr (table', slots', cursor')
     \<and> unat cursor' < unat sz \<and> handed_out sz a table slots table' slots'"
  using assms
proof (induction n arbitrary: table slots cursor a)
  case 0
  then show ?case
    by (auto simp: handed_out_def)
next
  case (Suc n)
  obtain c where scan: "scan_free sz table cursor (unat sz) = Some c"
    using scan_free_total [of sz table cursor] Suc.prems by auto
  then have c: "unat c < unat sz" "table ! unat c = None"
    using scan_free_Some [of sz cursor table "unat sz" c] Suc.prems by auto
  let ?table1 = "table[unat c := Some \<lparr>ow_head = 0, ow_local = of_nat a\<rparr>]"
  have "occupied ?table1 = Suc (occupied table)"
    using occupied_update [of "unat c" table "Some \<lparr>ow_head = 0, ow_local = of_nat a\<rparr>"] c Suc.prems(2) by simp
  then obtain table' slots' cursor' where
    rest: "allocate_loop sz ?table1 (slots[a := c]) (wrapping_descriptor_add sz c 1) (Suc a) n
        = Inr (table', slots', cursor')"
      "unat cursor' < unat sz" "handed_out sz (Suc a) ?table1 (slots[a := c]) table' slots'"
    using Suc.IH [of ?table1 "wrapping_descriptor_add sz c 1" "Suc a" "slots[a := c]"] Suc.prems
    by (auto simp: wrapping_descriptor_add_less)
  show ?case
    using rest scan handed_out_step [OF rest(3) c Suc.prems(2)] Suc.prems(4) by simp
qed

lemma own_slots_ok:
  assumes "distinct ss" "\<forall>s\<in>set ss. unat s < length table \<and> table ! unat s \<noteq> None"
  shows "\<exists>table'. own_slots head table ss = (Inr (), table') \<and> length table' = length table
     \<and> (\<forall>s\<in>set ss. table' ! unat s = Some (the (table ! unat s)\<lparr>ow_head := head\<rparr>))
     \<and> (\<forall>i. i \<notin> unat ` set ss \<longrightarrow> table' ! i = table ! i) \<and> occupied table' = occupied table"
  using assms
proof (induction ss arbitrary: table)
  case (Cons s ss)
  obtain ow where ow: "table ! unat s = Some ow" and s: "unat s < length table"
    using Cons.prems(2) by auto
  let ?table1 = "table[unat s := Some (ow\<lparr>ow_head := head\<rparr>)]"
  have ne: "unat s \<noteq> unat s'" if "s' \<in> set ss" for s'
    using that Cons.prems(1) by (auto dest: unat_eq_iff [THEN iffD2])
  have "distinct ss" "\<forall>s'\<in>set ss. unat s' < length ?table1 \<and> ?table1 ! unat s' \<noteq> None"
    using Cons.prems ne by auto
  from Cons.IH [OF this]
  obtain table' where t: "own_slots head ?table1 ss = (Inr (), table')" "length table' = length ?table1"
      "\<forall>s'\<in>set ss. table' ! unat s' = Some (the (?table1 ! unat s')\<lparr>ow_head := head\<rparr>)"
      "\<forall>i. i \<notin> unat ` set ss \<longrightarrow> table' ! i = ?table1 ! i" "occupied table' = occupied ?table1"
    by blast
  have "occupied ?table1 = occupied table"
    using occupied_update [OF s, of "Some (ow\<lparr>ow_head := head\<rparr>)"] ow by simp
  moreover have "unat s \<notin> unat ` set ss"
    using ne by auto
  ultimately show ?case
    using t ow s ne by (auto simp: nth_list_update)
qed simp

text \<open>What the driver hands over: one slot per descriptor, at least one, at most the largest queue.\<close>

definition chain_ok :: "driver_chain \<Rightarrow> bool" where
  "chain_ok c \<longleftrightarrow> length (dc_slots c) = length (cd_descriptors (dc_data c)) \<and> dc_slots c \<noteq> []
     \<and> length (dc_slots c) \<le> 32768"

lemma chain_ok_count: "chain_ok c \<Longrightarrow> unat (descriptor_count c) = length (dc_slots c)"
  by (simp add: chain_ok_def descriptor_count_def unat_of_nat take_bit_eq_mod)

lemma queue_head_slot_mem: "dc_slots c \<noteq> [] \<Longrightarrow> queue_head_slot c \<in> set (dc_slots c)"
  by (simp add: queue_head_slot_def)

text \<open>A chain's slots are distinct and the table names it, with the position, as their owner.\<close>

definition slots_owned :: "descriptor_owner option list \<Rightarrow> u16 \<Rightarrow> u16 list \<Rightarrow> bool" where
  "slots_owned table head slots \<longleftrightarrow> distinct slots \<and>
     (\<forall>i<length slots. unat (slots ! i) < length table
        \<and> table ! unat (slots ! i) = Some \<lparr>ow_head = head, ow_local = of_nat i\<rparr>)"

lemma slots_owned_mem:
  "slots_owned table head slots \<Longrightarrow> s \<in> set slots \<Longrightarrow> unat s < length table \<and> table ! unat s \<noteq> None"
  by (auto simp: slots_owned_def in_set_conv_nth)

definition allocation ::
  "ring_storage \<Rightarrow> driver_chain \<Rightarrow> u16 \<Rightarrow> ring_storage \<Rightarrow> driver_chain \<Rightarrow> bool" where
  "allocation st chain head st' chain' \<longleftrightarrow>
     (\<exists>table slots cursor.
        chain' = chain\<lparr>dc_slots := slots\<rparr> \<and> length slots = length (dc_slots chain) \<and> head = queue_head_slot chain'
        \<and> st' = st\<lparr>rs_descriptors := table, rs_next_descriptor := cursor,
                   rs_free_descriptors := rs_free_descriptors st - descriptor_count chain\<rparr>
        \<and> unat cursor < unat (rs_size st) \<and> length table = length (rs_descriptors st)
        \<and> slots_owned table head slots \<and> (\<forall>s\<in>set slots. rs_descriptors st ! unat s = None)
        \<and> (\<forall>i. i \<notin> unat ` set slots \<longrightarrow> table ! i = rs_descriptors st ! i)
        \<and> occupied table = occupied (rs_descriptors st) + length slots)"

lemma allocate_descriptors_ok:
  assumes sz: "ring_size (rs_size st)" and len: "length (rs_descriptors st) = unat (rs_size st)"
    and cur: "unat (rs_next_descriptor st) < unat (rs_size st)" and c: "chain_ok chain"
    and free: "unat (rs_free_descriptors st) + occupied (rs_descriptors st) = unat (rs_size st)"
    and room: "descriptor_count chain \<le> rs_free_descriptors st"
  shows "\<exists>head st' chain'. allocate_descriptors st chain = (Inr head, st', chain')
     \<and> allocation st chain head st' chain'"
proof -
  note count = chain_ok_count [OF c]
  have "occupied (rs_descriptors st) + length (dc_slots chain) \<le> unat (rs_size st)"
    using free room count by (simp add: word_le_nat_alt)
  then obtain table slots cursor where
    loop: "allocate_loop (rs_size st) (rs_descriptors st) (dc_slots chain) (rs_next_descriptor st) 0
        (length (dc_slots chain)) = Inr (table, slots, cursor)" and cursor: "unat cursor < unat (rs_size st)"
    and out: "handed_out (rs_size st) 0 (rs_descriptors st) (dc_slots chain) table slots"
    using allocate_loop_ok [OF sz len cur, of 0 "length (dc_slots chain)" "dc_slots chain"] by auto
  note o = out [unfolded handed_out_def, simplified]
  have mem: "unat s < length table \<and> table ! unat s \<noteq> None \<and> rs_descriptors st ! unat s = None"
    if "s \<in> set slots" for s
    using that o len by (auto simp: in_set_conv_nth)
  define head where "head = queue_head_slot (chain\<lparr>dc_slots := slots\<rparr>)"
  obtain table' where own: "own_slots head table slots = (Inr (), table')" "length table' = length table"
      "\<forall>s\<in>set slots. table' ! unat s = Some (the (table ! unat s)\<lparr>ow_head := head\<rparr>)"
      "\<forall>i. i \<notin> unat ` set slots \<longrightarrow> table' ! i = table ! i" "occupied table' = occupied table"
    using own_slots_ok [of slots table head] o mem by auto
  have "slots_owned table' head slots"
    using own o len by (auto simp: slots_owned_def)
  then have "allocation st chain head
      (st\<lparr>rs_descriptors := table', rs_next_descriptor := cursor,
          rs_free_descriptors := rs_free_descriptors st - descriptor_count chain\<rparr>) (chain\<lparr>dc_slots := slots\<rparr>)"
    unfolding allocation_def using own o mem cursor
    by (intro exI [of _ table'] exI [of _ slots] exI [of _ cursor]) (simp add: head_def)
  moreover have "allocate_descriptors st chain = (Inr head,
      st\<lparr>rs_descriptors := table', rs_next_descriptor := cursor,
         rs_free_descriptors := rs_free_descriptors st - descriptor_count chain\<rparr>, chain\<lparr>dc_slots := slots\<rparr>)"
    using room count loop own(1)
    by (simp add: allocate_descriptors_def Let_def descriptor_count_def flip: head_def)
  ultimately show ?thesis
    by blast
qed

text \<open>A release clears the slots of the chain and counts them free again.\<close>

lemma release_loop_ok:
  assumes "distinct ss" "\<forall>s\<in>set ss. unat s < length (rs_descriptors st) \<and> rs_descriptors st ! unat s \<noteq> None"
  shows "\<exists>table. fold release_slot ss st
       = st\<lparr>rs_descriptors := table, rs_free_descriptors := rs_free_descriptors st + of_nat (length ss)\<rparr>
     \<and> length table = length (rs_descriptors st) \<and> (\<forall>s\<in>set ss. table ! unat s = None)
     \<and> (\<forall>i. i \<notin> unat ` set ss \<longrightarrow> table ! i = rs_descriptors st ! i)
     \<and> occupied table + length ss = occupied (rs_descriptors st)"
  using assms
proof (induction ss arbitrary: st)
  case (Cons s ss)
  let ?st1 = "st\<lparr>rs_descriptors := (rs_descriptors st)[unat s := None], rs_free_descriptors := rs_free_descriptors st + 1\<rparr>"
  have s: "unat s < length (rs_descriptors st)" "rs_descriptors st ! unat s \<noteq> None" and one: "release_slot s st = ?st1"
    using Cons.prems(2) by (auto simp: release_slot_def)
  have ne: "unat s \<noteq> unat s'" if "s' \<in> set ss" for s'
    using that Cons.prems(1) by (auto dest: unat_eq_iff [THEN iffD2])
  have "distinct ss" "\<forall>s'\<in>set ss. unat s' < length (rs_descriptors ?st1) \<and> rs_descriptors ?st1 ! unat s' \<noteq> None"
    using Cons.prems ne by auto
  from Cons.IH [OF this] obtain table where t: "fold release_slot ss ?st1
        = ?st1\<lparr>rs_descriptors := table, rs_free_descriptors := rs_free_descriptors ?st1 + of_nat (length ss)\<rparr>"
      "length table = length (rs_descriptors ?st1)" "\<forall>s\<in>set ss. table ! unat s = None"
      "\<forall>i. i \<notin> unat ` set ss \<longrightarrow> table ! i = rs_descriptors ?st1 ! i"
      "occupied table + length ss = occupied (rs_descriptors ?st1)"
    by blast
  have "Suc (occupied (rs_descriptors ?st1)) = occupied (rs_descriptors st)"
    using occupied_update [OF s(1), of None] s(2) by simp
  moreover have "unat s \<notin> unat ` set ss"
    using ne by auto
  ultimately show ?case
    using t s one ne by (intro exI [of _ table]) (auto simp: nth_list_update add.assoc)
next
  case Nil
  show ?case
    by (rule exI [of _ "rs_descriptors st"]) simp
qed

end
