(* ===== verification/Split_Inv.thy ===== *)
theory Split_Inv
  imports Split_Ring
begin

text \<open>
  The invariant of the split queue. Ownership: every record owns its descriptors, with its head and
  the position of each written in the table, and every owned descriptor belongs to a record. Lists:
  the available ring and the used ring list, without repetition and in order, exactly the heads of
  the records in the available and the used state. Every operation keeps it, and under it no
  operation finds the queue corrupt.
\<close>

lemma unat_inj [simp]: "unat a = unat b \<longleftrightarrow> a = b" for a b :: "'a::len word"
  by (simp add: unat_eq_iff)

lemma unat_in_image [simp]: "unat s \<in> unat ` S \<longleftrightarrow> s \<in> S" for s :: "'a::len word"
  by auto

section \<open>Ownership of descriptors\<close>

definition record_ok :: "queue_epoch \<Rightarrow> descriptor_owner option list \<Rightarrow> u16 \<Rightarrow> chain_record \<Rightarrow> bool" where
  "record_ok epoch table h rc \<longleftrightarrow> rc_id rc = \<lparr>ci_epoch = epoch, ci_token = ucast h\<rparr> \<and> chain_ok (rc_chain rc)
     \<and> queue_head_slot (rc_chain rc) = h \<and> slots_owned table h (dc_slots (rc_chain rc))"

definition ownership :: "queue_epoch \<Rightarrow> descriptor_owner option list \<Rightarrow> chain_record option list \<Rightarrow> bool" where
  "ownership epoch table recs \<longleftrightarrow> length recs = length table
     \<and> (\<forall>h rc. unat h < length recs \<longrightarrow> recs ! unat h = Some rc \<longrightarrow> record_ok epoch table h rc)
     \<and> (\<forall>s ow. unat s < length table \<longrightarrow> table ! unat s = Some ow \<longrightarrow>
          (\<exists>rc. unat (ow_head ow) < length recs \<and> recs ! unat (ow_head ow) = Some rc
             \<and> s \<in> set (dc_slots (rc_chain rc))))"

lemma ownershipD:
  assumes "ownership epoch table recs"
  shows "length recs = length table"
    and "unat h < length recs \<Longrightarrow> recs ! unat h = Some rc \<Longrightarrow> record_ok epoch table h rc"
    and "unat s < length table \<Longrightarrow> table ! unat s = Some ow \<Longrightarrow>
      \<exists>rc. unat (ow_head ow) < length recs \<and> recs ! unat (ow_head ow) = Some rc \<and> s \<in> set (dc_slots (rc_chain rc))"
  using assms by (auto simp: ownership_def)

lemma record_ok_state [simp]: "record_ok epoch table h (rc\<lparr>rc_state := s\<rparr>) = record_ok epoch table h rc"
  by (simp add: record_ok_def)

lemma record_ok_head: "record_ok epoch table h rc \<Longrightarrow> h \<in> set (dc_slots (rc_chain rc))"
  using queue_head_slot_mem [of "rc_chain rc"] by (auto simp: record_ok_def chain_ok_def)

lemma ownership_free:
  fixes h :: u16
  assumes "ownership epoch table recs" "unat h < length table" "table ! unat h = None"
  shows "recs ! unat h = None"
proof (rule ccontr)
  assume "recs ! unat h \<noteq> None"
  then obtain rc where "record_ok epoch table h rc"
    using ownershipD(1,2) [OF assms(1)] assms(2) by fastforce
  then show False
    using record_ok_head slots_owned_mem [of table h "dc_slots (rc_chain rc)" h] assms(3)
    by (auto simp: record_ok_def)
qed

lemma slots_owned_cong:
  "slots_owned table h slots \<Longrightarrow> length table' = length table \<Longrightarrow>
     (\<And>s. s \<in> set slots \<Longrightarrow> table' ! unat s = table ! unat s) \<Longrightarrow> slots_owned table' h slots"
  by (simp add: slots_owned_def)

text \<open>A publication: a fresh record takes descriptors that were free.\<close>

lemma ownership_publish:
  assumes own: "ownership epoch table recs" and new: "record_ok epoch table' h rc" and h: "unat h < length table"
    and len: "length table' = length table"
    and fresh: "\<forall>s\<in>set (dc_slots (rc_chain rc)). table ! unat s = None"
    and other: "\<forall>i. i \<notin> unat ` set (dc_slots (rc_chain rc)) \<longrightarrow> table' ! i = table ! i"
  shows "ownership epoch table' (recs[unat h := Some rc])"
proof -
  have lr: "length recs = length table"
    by (rule ownershipD(1) [OF own])
  have free: "recs ! unat h = None"
    using ownership_free [OF own h] fresh record_ok_head [OF new] by auto
  have "record_ok epoch table' h' rc'"
    if "unat h' < length recs" "recs[unat h := Some rc] ! unat h' = Some rc'" for h' rc'
  proof (cases "h' = h")
    case True
    then show ?thesis
      using that new h lr by simp
  next
    case False
    then have ok: "record_ok epoch table h' rc'"
      using that ownershipD(2) [OF own] by simp
    have "table' ! unat s = table ! unat s" if "s \<in> set (dc_slots (rc_chain rc'))" for s
    proof -
      have "table ! unat s \<noteq> None"
        using slots_owned_mem [OF _ that, of table h'] ok by (simp add: record_ok_def)
      then show ?thesis
        using fresh other by (metis unat_in_image)
    qed
    then show ?thesis
      using ok slots_owned_cong [OF _ len] by (auto simp: record_ok_def)
  qed
  moreover have "\<exists>rc'. unat (ow_head ow) < length recs \<and> recs[unat h := Some rc] ! unat (ow_head ow) = Some rc'
      \<and> s \<in> set (dc_slots (rc_chain rc'))" if s: "unat s < length table" "table' ! unat s = Some ow" for s ow
  proof (cases "s \<in> set (dc_slots (rc_chain rc))")
    case True
    then have "ow_head ow = h"
      using new s(2) by (auto simp: record_ok_def slots_owned_def in_set_conv_nth)
    then show ?thesis
      using True h lr by simp
  next
    case False
    then obtain rc' where rc': "unat (ow_head ow) < length recs" "recs ! unat (ow_head ow) = Some rc'"
        "s \<in> set (dc_slots (rc_chain rc'))"
      using ownershipD(3) [OF own, of s ow] other s by auto
    moreover have "ow_head ow \<noteq> h"
      using rc'(2) free by auto
    ultimately show ?thesis
      by auto
  qed
  ultimately show ?thesis
    using lr len by (simp add: ownership_def)
qed

text \<open>A record that only changes its state keeps what it owns.\<close>

lemma ownership_state:
  fixes h :: u16
  assumes own: "ownership epoch table recs" and rc: "recs ! unat h = Some rc"
  shows "ownership epoch table (recs[unat h := Some (rc\<lparr>rc_state := s\<rparr>)])"
proof -
  have "record_ok epoch table h' rc'"
    if "unat h' < length recs" "recs[unat h := Some (rc\<lparr>rc_state := s\<rparr>)] ! unat h' = Some rc'" for h' rc'
    using that ownershipD(2) [OF own, of h'] rc
    by (cases "h' = h") auto
  moreover have "\<exists>rc'. unat (ow_head ow) < length recs
      \<and> recs[unat h := Some (rc\<lparr>rc_state := s\<rparr>)] ! unat (ow_head ow) = Some rc' \<and> t \<in> set (dc_slots (rc_chain rc'))"
    if "unat t < length table" "table ! unat t = Some ow" for t ow
    using ownershipD(3) [OF own that] rc by (cases "ow_head ow = h") auto
  ultimately show ?thesis
    using ownershipD(1) [OF own] by (simp add: ownership_def)
qed

text \<open>A release: the record goes, and with it its descriptors.\<close>

lemma ownership_release:
  fixes h :: u16
  assumes own: "ownership epoch table recs" and h: "unat h < length table" and rc: "recs ! unat h = Some rc"
    and len: "length table' = length table"
    and gone: "\<forall>s\<in>set (dc_slots (rc_chain rc)). table' ! unat s = None"
    and other: "\<forall>i. i \<notin> unat ` set (dc_slots (rc_chain rc)) \<longrightarrow> table' ! i = table ! i"
  shows "ownership epoch table' (recs[unat h := None])"
proof -
  have lr: "length recs = length table"
    by (rule ownershipD(1) [OF own])
  have ok: "record_ok epoch table h rc"
    using ownershipD(2) [OF own] h rc lr by simp
  have owner: "table ! unat s = Some ow \<Longrightarrow> ow_head ow = h" if "s \<in> set (dc_slots (rc_chain rc))" for s ow
    using ok that by (auto simp: record_ok_def slots_owned_def in_set_conv_nth)
  have "record_ok epoch table' h' rc'"
    if "unat h' < length recs" "recs[unat h := None] ! unat h' = Some rc'" for h' rc'
  proof -
    have ne: "h' \<noteq> h"
      using that h lr by auto
    then have ok': "record_ok epoch table h' rc'"
      using that ownershipD(2) [OF own] by simp
    have "table' ! unat s = table ! unat s" if s: "s \<in> set (dc_slots (rc_chain rc'))" for s
    proof -
      obtain ow where "table ! unat s = Some ow" "ow_head ow = h'"
        using ok' s by (auto simp: record_ok_def slots_owned_def in_set_conv_nth)
      then have "s \<notin> set (dc_slots (rc_chain rc))"
        using owner ne by auto
      then show ?thesis
        using other by simp
    qed
    then show ?thesis
      using ok' slots_owned_cong [OF _ len] by (auto simp: record_ok_def)
  qed
  moreover have "\<exists>rc'. unat (ow_head ow) < length recs \<and> recs[unat h := None] ! unat (ow_head ow) = Some rc'
      \<and> s \<in> set (dc_slots (rc_chain rc'))" if s: "unat s < length table" "table' ! unat s = Some ow" for s ow
  proof -
    have "s \<notin> set (dc_slots (rc_chain rc))"
      using gone s(2) by auto
    then show ?thesis
      using ownershipD(3) [OF own, of s ow] other s rc by (cases "ow_head ow = h") auto
  qed
  ultimately show ?thesis
    using lr len by (simp add: ownership_def)
qed

section \<open>The records on the rings\<close>

definition in_state :: "chain_record option list \<Rightarrow> chain_state \<Rightarrow> u16 \<Rightarrow> bool" where
  "in_state recs s h \<longleftrightarrow> unat h < length recs \<and> (\<exists>rc. recs ! unat h = Some rc \<and> rc_state rc = s)"

lemma in_state_update:
  "unat h < length recs \<Longrightarrow> in_state (recs[unat h := v]) s h' \<longleftrightarrow>
     (if h' = h then (\<exists>rc. v = Some rc \<and> rc_state rc = s) else in_state recs s h')"
  by (auto simp: in_state_def)

definition used_ids :: "chain_record option list \<Rightarrow> used_element list \<Rightarrow> bool" where
  "used_ids recs used \<longleftrightarrow> (\<forall>u\<in>set used. \<forall>rc. recs ! unat (ue_head u) = Some rc \<longrightarrow> rc_id rc = ue_id u)"

definition ring_lists :: "chain_record option list \<Rightarrow> u16 list \<Rightarrow> used_element list \<Rightarrow> bool" where
  "ring_lists recs avail used \<longleftrightarrow>
     distinct avail \<and> (\<forall>h. h \<in> set avail \<longleftrightarrow> in_state recs CS_Available h)
     \<and> distinct (map ue_head used) \<and> (\<forall>h. h \<in> ue_head ` set used \<longleftrightarrow> in_state recs CS_Used h)
     \<and> used_ids recs used"

lemma used_ids_update: "h \<notin> ue_head ` set used \<Longrightarrow> used_ids (recs[unat h := v]) used = used_ids recs used"
proof -
  assume "h \<notin> ue_head ` set used"
  then have "recs[unat h := v] ! unat (ue_head u) = recs ! unat (ue_head u)" if "u \<in> set used" for u
    using that by (intro nth_list_update_neq) auto
  then show ?thesis
    by (simp add: used_ids_def)
qed

lemma ring_lists_publish:
  assumes "ring_lists recs avail used" "unat h < length recs" "recs ! unat h = None" "rc_state rc = CS_Available"
  shows "ring_lists (recs[unat h := Some rc]) (avail @ [h]) used"
proof -
  have "h \<notin> set avail" "h \<notin> ue_head ` set used"
    using assms(1,3) by (auto simp: ring_lists_def in_state_def)
  then show ?thesis
    using assms by (auto simp: ring_lists_def in_state_update used_ids_update)
qed

lemma ring_lists_take:
  assumes "ring_lists recs (h # avail) used" "unat h < length recs" "recs ! unat h = Some rc"
  shows "ring_lists (recs[unat h := Some (rc\<lparr>rc_state := CS_InFlight\<rparr>)]) avail used"
proof -
  have "h \<notin> set avail" and av: "in_state recs CS_Available h"
    using assms(1) by (auto simp: ring_lists_def)
  then have "h \<notin> ue_head ` set used"
    using assms(1) by (auto simp: ring_lists_def in_state_def)
  then show ?thesis
    using assms av \<open>h \<notin> set avail\<close> by (auto simp: ring_lists_def in_state_update used_ids_update)
qed

lemma ring_lists_complete:
  assumes "ring_lists recs avail used" "unat h < length recs" "recs ! unat h = Some rc" "rc_state rc = CS_InFlight"
  shows "ring_lists (recs[unat h := Some (rc\<lparr>rc_state := CS_Used\<rparr>)]) avail
     (used @ [\<lparr>ue_head = h, ue_id = rc_id rc, ue_used = n\<rparr>])"
proof -
  have "h \<notin> set avail" "h \<notin> ue_head ` set used"
    using assms(1,3,4) by (auto simp: ring_lists_def in_state_def)
  then show ?thesis
    using assms used_ids_update [of h used recs]
    by (auto simp: ring_lists_def in_state_update) (auto simp: used_ids_def)
qed

lemma ring_lists_return:
  assumes "ring_lists recs avail (u # used)" "unat (ue_head u) < length recs"
  shows "ring_lists (recs[unat (ue_head u) := None]) avail used"
proof -
  have "ue_head u \<notin> ue_head ` set used" and us: "in_state recs CS_Used (ue_head u)"
    using assms(1) by (auto simp: ring_lists_def)
  moreover from us have "ue_head u \<notin> set avail"
    using assms(1) by (auto simp: ring_lists_def in_state_def)
  ultimately show ?thesis
    using assms by (auto simp: ring_lists_def in_state_update used_ids_update) (auto simp: used_ids_def)
qed

lemma distinct_heads_bound:
  assumes "distinct hs" "\<forall>h\<in>set hs. unat h < n"
  shows "length hs \<le> n"
proof -
  have "distinct (map unat hs)" "set (map unat hs) \<subseteq> {..<n}"
    using assms by (auto simp: distinct_map inj_on_def)
  then show ?thesis
    by (metis card_lessThan card_mono distinct_card finite_lessThan length_map)
qed

section \<open>The invariant of the storage\<close>

definition avail_heads :: "ring_storage \<Rightarrow> u16 list" where
  "avail_heads st =
     ring_window (rs_size st) (rs_available st) (rs_consumed_available st) (unat (rs_available_count st))"

definition used_window :: "ring_storage \<Rightarrow> used_element option list" where
  "used_window st = ring_window (rs_size st) (rs_used st) (rs_consumed_used st) (unat (rs_used_count st))"

definition ring_inv :: "queue_epoch \<Rightarrow> ring_storage \<Rightarrow> bool" where
  "ring_inv epoch st \<longleftrightarrow> ring_size (rs_size st)
     \<and> length (rs_descriptors st) = unat (rs_size st) \<and> length (rs_available st) = unat (rs_size st)
     \<and> length (rs_used st) = unat (rs_size st) \<and> ownership epoch (rs_descriptors st) (rs_records st)
     \<and> (\<exists>used. used_window st = map Some used \<and> ring_lists (rs_records st) (avail_heads st) used)
     \<and> unat (rs_next_descriptor st) < unat (rs_size st)
     \<and> unat (rs_free_descriptors st) + occupied (rs_descriptors st) = unat (rs_size st)
     \<and> unat (rs_active_chains st) = occupied (rs_records st)
     \<and> rs_available_index st = rs_consumed_available st + rs_available_count st
     \<and> rs_used_index st = rs_consumed_used st + rs_used_count st"

definition used_list :: "ring_storage \<Rightarrow> used_element list" where
  "used_list st = map the (used_window st)"

lemma ring_invD:
  assumes "ring_inv epoch st"
  shows "ring_size (rs_size st)" and "length (rs_descriptors st) = unat (rs_size st)"
    and "length (rs_available st) = unat (rs_size st)" and "length (rs_used st) = unat (rs_size st)"
    and "length (rs_records st) = unat (rs_size st)"
    and "ownership epoch (rs_descriptors st) (rs_records st)"
    and "used_window st = map Some (used_list st)"
    and "ring_lists (rs_records st) (avail_heads st) (used_list st)"
    and "unat (rs_next_descriptor st) < unat (rs_size st)"
    and "unat (rs_free_descriptors st) + occupied (rs_descriptors st) = unat (rs_size st)"
    and "unat (rs_active_chains st) = occupied (rs_records st)"
    and "rs_available_index st = rs_consumed_available st + rs_available_count st"
    and "rs_used_index st = rs_consumed_used st + rs_used_count st"
  using assms by (auto simp: ring_inv_def used_list_def comp_def dest: ownershipD(1))

lemma ring_inv_counts:
  assumes "ring_inv epoch st"
  shows "length (avail_heads st) = unat (rs_available_count st)" and "length (used_list st) = unat (rs_used_count st)"
    and "unat (rs_available_count st) \<le> unat (rs_size st)" and "unat (rs_used_count st) \<le> unat (rs_size st)"
    and "unat (rs_size st) \<le> 32768"
proof -
  show a: "length (avail_heads st) = unat (rs_available_count st)"
    and u: "length (used_list st) = unat (rs_used_count st)"
    by (simp_all add: avail_heads_def used_list_def used_window_def)
  have l: "ring_lists (rs_records st) (avail_heads st) (used_list st)"
    by (rule ring_invD(8) [OF assms])
  then show "unat (rs_available_count st) \<le> unat (rs_size st)" "unat (rs_used_count st) \<le> unat (rs_size st)"
    using distinct_heads_bound [of "avail_heads st" "unat (rs_size st)"]
      distinct_heads_bound [of "map ue_head (used_list st)" "unat (rs_size st)"] a u ring_invD(5) [OF assms]
    by (auto simp: ring_lists_def in_state_def)
  show "unat (rs_size st) \<le> 32768"
    using ring_invD(1) [OF assms] by (simp add: ring_size_def)
qed

lemma word_succ_count: "unat c < 65535 \<Longrightarrow> unat (c + 1) = Suc (unat c)" for c :: u16
  using unat_inc [of c] by simp

lemma count_pos: "c \<noteq> 0 \<Longrightarrow> \<exists>m. unat c = Suc m \<and> unat (c - 1) = m" for c :: u16
  using unat_dec [of c] unat_inj [of c 0] by (cases "unat c") (simp_all del: unat_inj)

section \<open>Operations on the storage\<close>

text \<open>An allocation gives the chain a head no record has, and the chain's record owns its slots.\<close>

lemma allocation_fresh:
  assumes inv: "ring_inv epoch st" and alloc: "allocation st chain head st1 chain1" and c: "chain_ok chain"
    and room: "descriptor_count chain \<le> rs_free_descriptors st"
  defines "rc \<equiv> \<lparr>rc_id = \<lparr>ci_epoch = epoch, ci_token = ucast head\<rparr>, rc_state = CS_Available, rc_chain = chain1\<rparr>"
  shows "unat head < length (rs_records st)" and "rs_records st ! unat head = None"
    and "\<exists>slots. chain1 = chain\<lparr>dc_slots := slots\<rparr>"
    and "\<exists>table cursor free. st1 = st\<lparr>rs_descriptors := table, rs_next_descriptor := cursor, rs_free_descriptors := free\<rparr>
      \<and> unat cursor < unat (rs_size st) \<and> length table = unat (rs_size st)
      \<and> unat free + occupied table = unat (rs_size st)
      \<and> ownership epoch table ((rs_records st)[unat head := Some rc])"
proof -
  note inv' = ring_invD [OF inv]
  obtain table slots cursor where chain1: "chain1 = chain\<lparr>dc_slots := slots\<rparr>"
    and slots: "length slots = length (dc_slots chain)" and head: "head = queue_head_slot chain1"
    and st1: "st1 = st\<lparr>rs_descriptors := table, rs_next_descriptor := cursor,
        rs_free_descriptors := rs_free_descriptors st - descriptor_count chain\<rparr>"
    and cursor: "unat cursor < unat (rs_size st)" and len: "length table = length (rs_descriptors st)"
    and owned: "slots_owned table head slots" and fresh: "\<forall>s\<in>set slots. rs_descriptors st ! unat s = None"
    and other: "\<forall>i. i \<notin> unat ` set slots \<longrightarrow> table ! i = rs_descriptors st ! i"
    and occ: "occupied table = occupied (rs_descriptors st) + length slots"
    using alloc unfolding allocation_def by blast
  show "\<exists>slots. chain1 = chain\<lparr>dc_slots := slots\<rparr>"
    using chain1 by blast
  have c1: "chain_ok chain1"
    using c slots by (auto simp: chain_ok_def chain1)
  then have mem: "head \<in> set slots"
    using queue_head_slot_mem [of chain1] by (simp add: head chain1 chain_ok_def)
  then have lt: "unat head < length (rs_descriptors st)"
    using slots_owned_mem [OF owned mem] len by simp
  then show "unat head < length (rs_records st)"
    using inv'(2,5) by simp
  show "rs_records st ! unat head = None"
    using ownership_free [OF inv'(6) lt] fresh mem by simp
  have "record_ok epoch table head rc"
    using c1 owned by (simp add: record_ok_def rc_def head chain1)
  then have own: "ownership epoch table ((rs_records st)[unat head := Some rc])"
    using ownership_publish [OF inv'(6) _ lt len] fresh other by (simp add: rc_def chain1)
  have "unat (rs_free_descriptors st - descriptor_count chain) = unat (rs_free_descriptors st) - length slots"
    using room chain_ok_count [OF c] slots by (simp add: unat_sub)
  then show "\<exists>table cursor free. st1 = st\<lparr>rs_descriptors := table, rs_next_descriptor := cursor, rs_free_descriptors := free\<rparr>
      \<and> unat cursor < unat (rs_size st) \<and> length table = unat (rs_size st)
      \<and> unat free + occupied table = unat (rs_size st)
      \<and> ownership epoch table ((rs_records st)[unat head := Some rc])"
    using inv'(2,10) occ room chain_ok_count [OF c] slots st1 cursor len own
    by (intro exI [of _ table] exI [of _ cursor] exI [of _ "rs_free_descriptors st - descriptor_count chain"])
      (simp add: word_le_nat_alt)
qed

text \<open>The record and the ring entry of a publication.\<close>

lemma publish_storage:
  assumes inv: "ring_inv epoch st" and alloc: "allocation st chain head st1 chain1" and c: "chain_ok chain"
    and room: "rs_available_count st \<noteq> rs_size st" "descriptor_count chain \<le> rs_free_descriptors st"
  defines "rc \<equiv> \<lparr>rc_id = \<lparr>ci_epoch = epoch, ci_token = ucast head\<rparr>, rc_state = CS_Available, rc_chain = chain1\<rparr>"
  defines "st2 \<equiv> st1\<lparr>rs_records := (rs_records st1)[unat head := Some rc],
     rs_available := (rs_available st1)[ring_slot st1 (rs_available_index st1) := head],
     rs_available_index := rs_available_index st1 + 1, rs_available_count := rs_available_count st1 + 1,
     rs_active_chains := rs_active_chains st1 + 1\<rparr>"
  shows "rs_records st2 = (rs_records st)[unat head := Some rc]" and "rs_size st2 = rs_size st"
    and "ring_inv epoch st2" and "avail_heads st2 = avail_heads st @ [head]" and "used_list st2 = used_list st"
proof -
  note inv' = ring_invD [OF inv] and counts = ring_inv_counts [OF inv]
    and h = allocation_fresh(1) [OF inv alloc c room(2)] and none = allocation_fresh(2) [OF inv alloc c room(2)]
  obtain table cursor free where
    st1: "st1 = st\<lparr>rs_descriptors := table, rs_next_descriptor := cursor, rs_free_descriptors := free\<rparr>"
    and rest: "unat cursor < unat (rs_size st)" "length table = unat (rs_size st)"
      "unat free + occupied table = unat (rs_size st)"
      "ownership epoch table ((rs_records st)[unat head := Some rc])"
    using allocation_fresh(4) [OF inv alloc c room(2)] unfolding rc_def by blast
  show "rs_records st2 = (rs_records st)[unat head := Some rc]" "rs_size st2 = rs_size st"
    by (simp_all add: st2_def st1)
  have less: "unat (rs_available_count st) < unat (rs_size st)"
    using counts(3) room(1) by (metis le_neq_implies_less unat_inj)
  have "ring_index (rs_size st) (rs_available_index st)
      = ring_index (rs_size st) (rs_consumed_available st + of_nat (unat (rs_available_count st)))"
    using inv'(12) by simp
  then show av: "avail_heads st2 = avail_heads st @ [head]"
    using ring_window_push [OF inv'(1,3) less] less counts(5)
    by (simp add: avail_heads_def st2_def st1 ring_slot_index word_succ_count)
  have used: "used_window st2 = used_window st"
    by (simp add: used_window_def st2_def st1)
  then show "used_list st2 = used_list st"
    by (simp add: used_list_def)
  have lists: "ring_lists ((rs_records st)[unat head := Some rc]) (avail_heads st2) (used_list st)"
    using ring_lists_publish [OF inv'(8) h none] av by (simp add: rc_def)
  have "unat (rs_active_chains st + 1) = Suc (occupied (rs_records st))"
    using inv'(5,11) counts(5) occupied_le [of "rs_records st"] by (simp add: word_succ_count)
  then have active: "unat (rs_active_chains st + 1) = occupied ((rs_records st)[unat head := Some rc])"
    using occupied_update [OF h, of "Some rc"] none by simp
  show "ring_inv epoch st2"
    using inv' lists active rest used by (simp add: ring_inv_def st2_def st1)
qed

text \<open>The device takes the first available chain.\<close>

lemma take_storage:
  assumes inv: "ring_inv epoch st" and some: "rs_available_count st \<noteq> 0"
  defines "head \<equiv> rs_available st ! ring_slot st (rs_consumed_available st)"
  shows "\<exists>rc. rs_records st ! unat head = Some rc \<and> unat head < length (rs_records st)
      \<and> rc_state rc = CS_Available \<and> ci_epoch (rc_id rc) = epoch
      \<and> (let st2 = st\<lparr>rs_records := (rs_records st)[unat head := Some (rc\<lparr>rc_state := CS_InFlight\<rparr>)],
            rs_consumed_available := rs_consumed_available st + 1, rs_available_count := rs_available_count st - 1\<rparr>
         in ring_inv epoch st2 \<and> avail_heads st = head # avail_heads st2 \<and> used_list st2 = used_list st)"
proof -
  note inv' = ring_invD [OF inv]
  obtain m where m: "unat (rs_available_count st) = Suc m" "unat (rs_available_count st - 1) = m"
    using count_pos [OF some] by blast
  have av: "avail_heads st = head # ring_window (rs_size st) (rs_available st) (rs_consumed_available st + 1) m"
    by (simp add: avail_heads_def m ring_window_pop head_def ring_slot_index)
  have "in_state (rs_records st) CS_Available head"
    using inv'(8) av by (auto simp: ring_lists_def)
  then obtain rc where rc: "rs_records st ! unat head = Some rc" "unat head < length (rs_records st)"
      "rc_state rc = CS_Available"
    by (auto simp: in_state_def)
  then have "ci_epoch (rc_id rc) = epoch"
    using ownershipD(2) [OF inv'(6) rc(2,1)] by (simp add: record_ok_def)
  moreover define st2 where "st2 = st\<lparr>rs_records := (rs_records st)[unat head := Some (rc\<lparr>rc_state := CS_InFlight\<rparr>)],
      rs_consumed_available := rs_consumed_available st + 1, rs_available_count := rs_available_count st - 1\<rparr>"
  have av2: "avail_heads st = head # avail_heads st2"
    using av by (simp add: avail_heads_def st2_def m)
  have used: "used_window st2 = used_window st"
    by (simp add: used_window_def st2_def)
  have lists: "ring_lists ((rs_records st)[unat head := Some (rc\<lparr>rc_state := CS_InFlight\<rparr>)]) (avail_heads st2) (used_list st)"
    using ring_lists_take [of "rs_records st" head "avail_heads st2"] inv'(8) av2 rc by simp
  have "occupied ((rs_records st)[unat head := Some (rc\<lparr>rc_state := CS_InFlight\<rparr>)]) = occupied (rs_records st)"
    using occupied_update [OF rc(2), of "Some (rc\<lparr>rc_state := CS_InFlight\<rparr>)"] rc(1) by simp
  then have "ring_inv epoch st2"
    using inv' lists used ownership_state [OF inv'(6) rc(1), of CS_InFlight]
    by (simp add: ring_inv_def st2_def)
  ultimately show ?thesis
    using rc av2 used by (auto simp: used_list_def st2_def Let_def)
qed

end
