(* ===== verification/Split_Ops.thy ===== *)
theory Split_Ops
  imports Split_Inv
begin

text \<open>
  The device's completion and the driver's return of a chain, on the storage: the used ring has room
  for every chain in flight, and a returned chain gives back exactly the descriptors it owned.
\<close>

text \<open>The device completes a chain it has in flight; the used ring has room for it.\<close>

lemma complete_storage:
  fixes n :: used_length
  assumes inv: "ring_inv epoch st" and h: "unat h < length (rs_records st)" and rc: "rs_records st ! unat h = Some rc"
    and flight: "rc_state rc = CS_InFlight"
  defines "st2 \<equiv> st\<lparr>rs_records := (rs_records st)[unat h := Some (rc\<lparr>rc_state := CS_Used\<rparr>)],
     rs_used := (rs_used st)[ring_slot st (rs_used_index st) := Some \<lparr>ue_head = h, ue_id = rc_id rc, ue_used = n\<rparr>],
     rs_used_index := rs_used_index st + 1, rs_used_count := rs_used_count st + 1\<rparr>"
  shows "rs_used_count st \<noteq> rs_size st" and "ring_inv epoch st2" and "avail_heads st2 = avail_heads st"
    and "used_list st2 = used_list st @ [\<lparr>ue_head = h, ue_id = rc_id rc, ue_used = n\<rparr>]"
proof -
  note inv' = ring_invD [OF inv] and counts = ring_inv_counts [OF inv]
  have "h \<notin> set (map ue_head (used_list st))"
    using inv'(8) rc flight by (auto simp: ring_lists_def in_state_def)
  then have "length (h # map ue_head (used_list st)) \<le> unat (rs_size st)"
    using inv'(5,8) h by (intro distinct_heads_bound) (auto simp: ring_lists_def in_state_def)
  then have less: "unat (rs_used_count st) < unat (rs_size st)"
    using counts(2) by simp
  then show "rs_used_count st \<noteq> rs_size st"
    by auto
  have index: "ring_index (rs_size st) (rs_used_index st)
      = ring_index (rs_size st) (rs_consumed_used st + of_nat (unat (rs_used_count st)))"
    using inv'(13) by simp
  have win: "used_window st2 = used_window st @ [Some \<lparr>ue_head = h, ue_id = rc_id rc, ue_used = n\<rparr>]"
    using ring_window_push [OF inv'(1,4) less] less counts(5) index
    by (simp add: used_window_def st2_def ring_slot_index word_succ_count)
  then show used: "used_list st2 = used_list st @ [\<lparr>ue_head = h, ue_id = rc_id rc, ue_used = n\<rparr>]"
    by (simp add: used_list_def)
  show av: "avail_heads st2 = avail_heads st"
    by (simp add: avail_heads_def st2_def)
  have "occupied ((rs_records st)[unat h := Some (rc\<lparr>rc_state := CS_Used\<rparr>)]) = occupied (rs_records st)"
    using occupied_update [OF h, of "Some (rc\<lparr>rc_state := CS_Used\<rparr>)"] rc by simp
  moreover have "\<exists>used. used_window st2 = map Some used \<and> ring_lists (rs_records st2) (avail_heads st2) used"
    using ring_lists_complete [OF inv'(8) h rc flight, of n] inv'(7) win av
    by (intro exI [of _ "used_list st2"]) (simp add: used, simp add: st2_def)
  ultimately show "ring_inv epoch st2"
    using inv' ownership_state [OF inv'(6) rc, of CS_Used] unfolding ring_inv_def by (simp add: st2_def)
qed

text \<open>Releasing a record gives back exactly the descriptors it owns.\<close>

lemma release_record:
  fixes h :: u16
  assumes inv: "ring_inv epoch st" and h: "unat h < length (rs_records st)" and rc: "rs_records st ! unat h = Some rc"
    and same: "rs_descriptors st0 = rs_descriptors st" "rs_free_descriptors st0 = rs_free_descriptors st"
  shows "\<exists>table free. release_descriptors st0 (rc_chain rc) = st0\<lparr>rs_descriptors := table, rs_free_descriptors := free\<rparr>
     \<and> length table = unat (rs_size st) \<and> unat free + occupied table = unat (rs_size st)
     \<and> ownership epoch table ((rs_records st)[unat h := None])"
proof -
  note inv' = ring_invD [OF inv] and counts = ring_inv_counts [OF inv]
  let ?slots = "dc_slots (rc_chain rc)"
  have ok: "record_ok epoch (rs_descriptors st) h rc"
    by (rule ownershipD(2) [OF inv'(6) h rc])
  then have "distinct ?slots"
    "\<forall>s\<in>set ?slots. unat s < length (rs_descriptors st0) \<and> rs_descriptors st0 ! unat s \<noteq> None"
    using slots_owned_mem [of "rs_descriptors st" h ?slots] same(1) by (auto simp: record_ok_def slots_owned_def)
  from release_loop_ok [OF this] obtain table where
    rel: "fold release_slot ?slots st0
        = st0\<lparr>rs_descriptors := table, rs_free_descriptors := rs_free_descriptors st0 + of_nat (length ?slots)\<rparr>"
    and table: "length table = length (rs_descriptors st)" "\<forall>s\<in>set ?slots. table ! unat s = None"
      "\<forall>i. i \<notin> unat ` set ?slots \<longrightarrow> table ! i = rs_descriptors st ! i"
      "occupied table + length ?slots = occupied (rs_descriptors st)"
    unfolding same by blast
  have "ownership epoch table ((rs_records st)[unat h := None])"
    using ownership_release [OF inv'(6) _ rc] table(1-3) h inv'(2,5) by simp
  moreover have "unat (rs_free_descriptors st + of_nat (length ?slots)) = unat (rs_free_descriptors st) + length ?slots"
  proof -
    have "unat (rs_free_descriptors st) + length ?slots < 2 ^ 16"
      using inv'(10) table(4) counts(5) by simp
    then show ?thesis
      by (simp add: unat_word_ariths unat_of_nat take_bit_eq_mod)
  qed
  ultimately show ?thesis
    using rel table(1,4) inv'(2,10) same(2)
    by (intro exI [of _ table] exI [of _ "rs_free_descriptors st + of_nat (length ?slots)"])
      (simp add: release_descriptors_def)
qed

text \<open>The driver takes the first used chain; its descriptors are free again.\<close>

definition return_head :: "ring_storage \<Rightarrow> used_element \<Rightarrow> chain_record \<Rightarrow> ring_storage" where
  "return_head st u rc =
     (let st1 = release_descriptors
           (st\<lparr>rs_used := (rs_used st)[ring_slot st (rs_consumed_used st) := None],
               rs_records := (rs_records st)[unat (ue_head u) := None]\<rparr>) (rc_chain rc)
      in st1\<lparr>rs_consumed_used := rs_consumed_used st1 + 1, rs_used_count := rs_used_count st1 - 1,
           rs_active_chains := rs_active_chains st1 - 1\<rparr>)"

lemma used_head:
  assumes inv: "ring_inv epoch st" and some: "rs_used_count st \<noteq> 0"
  obtains u rc where "rs_used st ! ring_slot st (rs_consumed_used st) = Some u" "used_list st = u # tl (used_list st)"
    "rs_records st ! unat (ue_head u) = Some rc" "unat (ue_head u) < length (rs_records st)"
    "rc_id rc = ue_id u" "rc_state rc = CS_Used"
proof -
  note inv' = ring_invD [OF inv]
  obtain m where m: "unat (rs_used_count st) = Suc m"
    using count_pos [OF some] by blast
  then have "rs_used st ! ring_slot st (rs_consumed_used st)
      # ring_window (rs_size st) (rs_used st) (rs_consumed_used st + 1) m = map Some (used_list st)"
    using inv'(7) by (simp add: used_window_def ring_window_pop ring_slot_index)
  then obtain u us where u: "rs_used st ! ring_slot st (rs_consumed_used st) = Some u" "used_list st = u # us"
    by (cases "used_list st") auto
  then have "in_state (rs_records st) CS_Used (ue_head u)"
    using inv'(8) by (auto simp: ring_lists_def)
  then show thesis
    using that [of u] u inv'(8) by (auto simp: in_state_def ring_lists_def used_ids_def)
qed

lemma return_storage:
  assumes inv: "ring_inv epoch st" and some: "rs_used_count st \<noteq> 0"
    and u: "used_list st = u # us" and rc: "rs_records st ! unat (ue_head u) = Some rc"
    and h: "unat (ue_head u) < length (rs_records st)"
  shows "ring_inv epoch (return_head st u rc)" and "used_list (return_head st u rc) = us"
    and "avail_heads (return_head st u rc) = avail_heads st"
    and "rs_records (return_head st u rc) = (rs_records st)[unat (ue_head u) := None]"
    and "rs_size (return_head st u rc) = rs_size st"
proof -
  note inv' = ring_invD [OF inv] and counts = ring_inv_counts [OF inv]
  define slot where "slot = ring_slot st (rs_consumed_used st)"
  define st0 where "st0 = st\<lparr>rs_used := (rs_used st)[slot := None], rs_records := (rs_records st)[unat (ue_head u) := None]\<rparr>"
  obtain table free where rel: "release_descriptors st0 (rc_chain rc) = st0\<lparr>rs_descriptors := table, rs_free_descriptors := free\<rparr>"
    and table: "length table = unat (rs_size st)" "unat free + occupied table = unat (rs_size st)"
      "ownership epoch table ((rs_records st)[unat (ue_head u) := None])"
    using release_record [OF inv h rc, of st0] by (auto simp: st0_def)
  have st2: "return_head st u rc = st0\<lparr>rs_descriptors := table, rs_free_descriptors := free,
      rs_consumed_used := rs_consumed_used st + 1, rs_used_count := rs_used_count st - 1,
      rs_active_chains := rs_active_chains st - 1\<rparr>"
    using rel by (simp add: return_head_def st0_def slot_def)
  show recs: "rs_records (return_head st u rc) = (rs_records st)[unat (ue_head u) := None]"
    and sz: "rs_size (return_head st u rc) = rs_size st"
    and av: "avail_heads (return_head st u rc) = avail_heads st"
    by (simp_all add: st2 st0_def avail_heads_def)
  obtain m where m: "unat (rs_used_count st) = Suc m" "unat (rs_used_count st - 1) = m"
    using count_pos [OF some] by blast
  then have "m < unat (rs_size st)"
    using counts(4) by simp
  then have "used_window (return_head st u rc) = ring_window (rs_size st) (rs_used st) (rs_consumed_used st + 1) m"
    using ring_window_clear [OF inv'(1)] by (simp add: used_window_def st2 st0_def m slot_def ring_slot_index)
  also have "\<dots> = map Some us"
    using inv'(7) u m by (simp add: used_window_def ring_window_pop)
  finally have win: "used_window (return_head st u rc) = map Some us" .
  then show "used_list (return_head st u rc) = us"
    by (simp add: used_list_def comp_def)
  have lists: "ring_lists ((rs_records st)[unat (ue_head u) := None]) (avail_heads st) us"
    using ring_lists_return [OF _ h] inv'(8) u by simp
  have occ: "Suc (occupied ((rs_records st)[unat (ue_head u) := None])) = occupied (rs_records st)"
    using occupied_update [OF h, of None] rc by simp
  then have "rs_active_chains st \<noteq> 0"
    using inv'(11) by auto
  then have "unat (rs_active_chains st - 1) = occupied ((rs_records st)[unat (ue_head u) := None])"
    using count_pos [of "rs_active_chains st"] inv'(11) occ by auto
  moreover have "\<exists>used. used_window (return_head st u rc) = map Some used
      \<and> ring_lists (rs_records (return_head st u rc)) (avail_heads (return_head st u rc)) used"
    using win lists av recs by auto
  ultimately show "ring_inv epoch (return_head st u rc)"
    using inv' table unfolding ring_inv_def by (simp add: st2 st0_def)
qed

end
