(* ===== verification/Split_Runs.thy ===== *)
theory Split_Runs
  imports Split_Ops
begin

text \<open>
  The split queue as its two users see it: an abstract queue of available chains, chains in flight
  and used chains, each with its identifier. Every operation of the split queue is the abstract one,
  refuses without effect, or changes nothing the abstract queue shows. Over runs of the driver, the
  device and the control side, no chain is lost or returned twice.
\<close>

section \<open>The abstract queue\<close>

type_synonym chain_content = "chain_data \<times> u16"

definition chain_body :: "driver_chain \<Rightarrow> chain_content" where
  "chain_body c = (dc_data c, dc_head c)"

record abs_queue =
  aq_available :: "(chain_id \<times> chain_content) list"
  aq_flight :: "(chain_id \<times> chain_content) set"
  aq_used :: "(chain_id \<times> used_length \<times> chain_content) list"

definition aq_empty :: abs_queue where
  "aq_empty = \<lparr>aq_available = [], aq_flight = {}, aq_used = []\<rparr>"

definition aq_publish :: "chain_id \<Rightarrow> chain_content \<Rightarrow> abs_queue \<Rightarrow> abs_queue" where
  "aq_publish i b A = A\<lparr>aq_available := aq_available A @ [(i, b)]\<rparr>"

definition aq_take :: "chain_id \<Rightarrow> chain_content \<Rightarrow> abs_queue \<Rightarrow> abs_queue" where
  "aq_take i b A = A\<lparr>aq_available := tl (aq_available A), aq_flight := insert (i, b) (aq_flight A)\<rparr>"

definition aq_complete :: "chain_id \<Rightarrow> used_length \<Rightarrow> chain_content \<Rightarrow> abs_queue \<Rightarrow> abs_queue" where
  "aq_complete i n b A = A\<lparr>aq_flight := aq_flight A - {(i, b)}, aq_used := aq_used A @ [(i, n, b)]\<rparr>"

definition aq_return :: "abs_queue \<Rightarrow> abs_queue" where
  "aq_return A = A\<lparr>aq_used := tl (aq_used A)\<rparr>"

definition aq_ids :: "abs_queue \<Rightarrow> chain_id set" where
  "aq_ids A = fst ` set (aq_available A) \<union> fst ` aq_flight A \<union> fst ` set (aq_used A)"

definition entry_of :: "chain_record option list \<Rightarrow> u16 \<Rightarrow> chain_id \<times> chain_content" where
  "entry_of recs h = (rc_id (the (recs ! unat h)), chain_body (rc_chain (the (recs ! unat h))))"

definition storage_abs :: "ring_storage \<Rightarrow> abs_queue" where
  "storage_abs st =
     \<lparr>aq_available = map (entry_of (rs_records st)) (avail_heads st),
      aq_flight = entry_of (rs_records st) ` {h. in_state (rs_records st) CS_InFlight h},
      aq_used = map (\<lambda>u. (ue_id u, ue_used u, snd (entry_of (rs_records st) (ue_head u)))) (used_list st)\<rparr>"

definition queue_abs :: "split_queue \<Rightarrow> abs_queue" where
  "queue_abs q = (case sq_storage q of None \<Rightarrow> aq_empty | Some st \<Rightarrow> storage_abs st)"

lemma entry_of_update: "unat h < length recs \<Longrightarrow> entry_of (recs[unat h := Some rc]) h' =
     (if h' = h then (rc_id rc, chain_body (rc_chain rc)) else entry_of recs h')"
  by (auto simp: entry_of_def)

lemma entry_of_None: "h' \<noteq> h \<Longrightarrow> entry_of (recs[unat h := None]) h' = entry_of recs h'"
  by (auto simp: entry_of_def)

lemma entry_of_state: "recs ! unat h = Some rc \<Longrightarrow> entry_of (recs[unat h := Some (rc\<lparr>rc_state := s\<rparr>)]) = entry_of recs"
  by (rule ext) (cases "unat h < length recs"; auto simp: entry_of_def nth_list_update list_update_beyond)

text \<open>Every record is available, in flight or used, and its identifier determines its head.\<close>

lemma entry_id: 
  assumes "ring_inv epoch st" "unat h < length (rs_records st)" "rs_records st ! unat h \<noteq> None"
  shows "fst (entry_of (rs_records st) h) = \<lparr>ci_epoch = epoch, ci_token = ucast h\<rparr>"
  using ownershipD(2) [OF ring_invD(6) [OF assms(1)] assms(2)] assms(3)
  by (auto simp: entry_of_def record_ok_def)

lemma unat_token: "unat (ucast h :: u64) = unat h" for h :: u16
proof -
  have "unat h < 2 ^ 64"
    using unsigned_less [of h, where ?'a = nat] by simp
  then show ?thesis
    by (simp add: unsigned_ucast_eq take_bit_nat_eq_self)
qed

lemma token_back: "ucast (ucast h :: u64) = h" for h :: u16
proof -
  have "unat (ucast (ucast h :: u64) :: u16) = take_bit 16 (unat h)"
    using unsigned_ucast_eq [of "ucast h :: u64", where ?'a = nat and ?'c = 16] by (simp add: unat_token)
  also have "\<dots> = unat h"
    using unsigned_less [of h, where ?'a = nat] by (intro take_bit_nat_eq_self) simp
  finally show ?thesis
    by simp
qed

lemma unat_used_length: "unat (ucast n :: u64) = unat n" for n :: u32
proof -
  have "unat n < 2 ^ 64"
    using unat_u32_less [of n] by simp
  then show ?thesis
    by (simp add: unsigned_ucast_eq take_bit_nat_eq_self)
qed

lemma token_inj: "(ucast h :: u64) = ucast h' \<longleftrightarrow> h = h'" for h h' :: u16
  using unat_inj [of "ucast h :: u64" "ucast h'"] unat_inj [of h h'] by (simp only: unat_token)

lemma entry_inj:
  assumes "ring_inv epoch st" "in_state (rs_records st) s h" "in_state (rs_records st) s' h'"
    "fst (entry_of (rs_records st) h) = fst (entry_of (rs_records st) h')"
  shows "h = h'"
proof -
  have "unat h < length (rs_records st)" "rs_records st ! unat h \<noteq> None"
    "unat h' < length (rs_records st)" "rs_records st ! unat h' \<noteq> None"
    using assms(2,3) by (auto simp: in_state_def)
  then show ?thesis
    using entry_id [OF assms(1)] assms(4) by (simp add: token_inj)
qed

section \<open>What each operation does to the abstract queue\<close>

lemma publish_abs:
  assumes inv: "ring_inv epoch st" and h: "unat h < length (rs_records st)" "rs_records st ! unat h = None"
    and recs: "rs_records st2 = (rs_records st)[unat h := Some rc]" and new: "rc_state rc = CS_Available"
    and lists: "avail_heads st2 = avail_heads st @ [h]" "used_list st2 = used_list st"
  shows "storage_abs st2 = aq_publish (rc_id rc) (chain_body (rc_chain rc)) (storage_abs st)"
proof -
  have notin: "h \<notin> set (avail_heads st)" "h \<notin> ue_head ` set (used_list st)" "\<not> in_state (rs_records st) CS_InFlight h"
    using ring_invD(8) [OF inv] h by (auto simp: ring_lists_def in_state_def)
  have "map (entry_of (rs_records st2)) (avail_heads st) = map (entry_of (rs_records st)) (avail_heads st)"
    using notin(1) h(1) by (auto simp: recs entry_of_update)
  moreover have "{g. in_state (rs_records st2) CS_InFlight g} = {g. in_state (rs_records st) CS_InFlight g}"
    using notin(3) h(1) new by (auto simp: recs in_state_update)
  moreover have "entry_of (rs_records st2) ` {g. in_state (rs_records st) CS_InFlight g}
      = entry_of (rs_records st) ` {g. in_state (rs_records st) CS_InFlight g}"
    using notin(3) h(1) by (intro image_cong) (auto simp: recs entry_of_update)
  moreover have "entry_of (rs_records st2) (ue_head u) = entry_of (rs_records st) (ue_head u)" if "u \<in> set (used_list st)" for u
    using notin(2) h(1) that by (auto simp: recs entry_of_update)
  ultimately show ?thesis
    using h(1) by (simp add: storage_abs_def aq_publish_def lists) (simp add: recs entry_of_update)
qed

lemma take_abs:
  assumes inv: "ring_inv epoch st" and h: "unat h < length (rs_records st)" "rs_records st ! unat h = Some rc"
    and recs: "rs_records st2 = (rs_records st)[unat h := Some (rc\<lparr>rc_state := CS_InFlight\<rparr>)]"
    and lists: "avail_heads st = h # avail_heads st2" "used_list st2 = used_list st"
  shows "aq_available (storage_abs st) = (rc_id rc, chain_body (rc_chain rc)) # aq_available (storage_abs st2)"
    and "storage_abs st2 = aq_take (rc_id rc) (chain_body (rc_chain rc)) (storage_abs st)"
proof -
  have e: "entry_of (rs_records st2) = entry_of (rs_records st)"
    by (simp add: recs entry_of_state [OF h(2)])
  have eh: "entry_of (rs_records st) h = (rc_id rc, chain_body (rc_chain rc))"
    by (simp add: entry_of_def h(2))
  have "{g. in_state (rs_records st2) CS_InFlight g} = insert h {g. in_state (rs_records st) CS_InFlight g}"
    using h(1) by (auto simp: recs in_state_update)
  then show "storage_abs st2 = aq_take (rc_id rc) (chain_body (rc_chain rc)) (storage_abs st)"
    by (simp add: storage_abs_def aq_take_def lists e eh)
  show "aq_available (storage_abs st) = (rc_id rc, chain_body (rc_chain rc)) # aq_available (storage_abs st2)"
    by (simp add: storage_abs_def lists(1) e eh)
qed

lemma complete_abs:
  assumes inv: "ring_inv epoch st" and h: "unat h < length (rs_records st)" "rs_records st ! unat h = Some rc"
    and flight: "rc_state rc = CS_InFlight"
    and recs: "rs_records st2 = (rs_records st)[unat h := Some (rc\<lparr>rc_state := CS_Used\<rparr>)]"
    and lists: "avail_heads st2 = avail_heads st"
      "used_list st2 = used_list st @ [\<lparr>ue_head = h, ue_id = rc_id rc, ue_used = n\<rparr>]"
  shows "(rc_id rc, chain_body (rc_chain rc)) \<in> aq_flight (storage_abs st)"
    and "storage_abs st2 = aq_complete (rc_id rc) n (chain_body (rc_chain rc)) (storage_abs st)"
proof -
  have e: "entry_of (rs_records st2) = entry_of (rs_records st)"
    by (simp add: recs entry_of_state [OF h(2)])
  have eh: "entry_of (rs_records st) h = (rc_id rc, chain_body (rc_chain rc))"
    by (simp add: entry_of_def h(2))
  have hf: "in_state (rs_records st) CS_InFlight h"
    using h flight by (simp add: in_state_def)
  then show "(rc_id rc, chain_body (rc_chain rc)) \<in> aq_flight (storage_abs st)"
    using eh by (force simp: storage_abs_def)
  have set: "{g. in_state (rs_records st2) CS_InFlight g} = {g. in_state (rs_records st) CS_InFlight g} - {h}"
    using h(1) by (auto simp: recs in_state_update)
  have "inj_on (entry_of (rs_records st)) {g. in_state (rs_records st) CS_InFlight g}"
    using entry_inj [OF inv] by (auto simp: inj_on_def)
  then have "entry_of (rs_records st) ` ({g. in_state (rs_records st) CS_InFlight g} - {h})
      = entry_of (rs_records st) ` {g. in_state (rs_records st) CS_InFlight g} - {(rc_id rc, chain_body (rc_chain rc))}"
    using hf eh by (subst inj_on_image_set_diff [of _ "{g. in_state (rs_records st) CS_InFlight g}"]) auto
  then show "storage_abs st2 = aq_complete (rc_id rc) n (chain_body (rc_chain rc)) (storage_abs st)"
    by (simp add: storage_abs_def aq_complete_def lists e eh set)
qed

lemma return_abs:
  assumes inv: "ring_inv epoch st" and rc: "rs_records st ! unat (ue_head u) = Some rc"
    and recs: "rs_records st2 = (rs_records st)[unat (ue_head u) := None]"
    and lists: "avail_heads st2 = avail_heads st" "used_list st = u # used_list st2"
  shows "aq_used (storage_abs st) = (ue_id u, ue_used u, chain_body (rc_chain rc)) # aq_used (storage_abs st2)"
    and "storage_abs st2 = aq_return (storage_abs st)"
proof -
  let ?h = "ue_head u"
  have h: "in_state (rs_records st) CS_Used ?h"
    using ring_invD(8) [OF inv] lists(2) by (auto simp: ring_lists_def)
  then have notin: "?h \<notin> set (avail_heads st)" "?h \<notin> ue_head ` set (used_list st2)" "\<not> in_state (rs_records st) CS_InFlight ?h"
    using ring_invD(8) [OF inv] lists(2) by (auto simp: ring_lists_def in_state_def)
  have "map (entry_of (rs_records st2)) (avail_heads st) = map (entry_of (rs_records st)) (avail_heads st)"
    using notin(1) by (auto simp: recs intro!: entry_of_None)
  moreover have "{g. in_state (rs_records st2) CS_InFlight g} = {g. in_state (rs_records st) CS_InFlight g}"
    using notin(3) h [unfolded in_state_def, THEN conjunct1] by (auto simp: recs in_state_update)
  moreover have "entry_of (rs_records st2) ` {g. in_state (rs_records st) CS_InFlight g}
      = entry_of (rs_records st) ` {g. in_state (rs_records st) CS_InFlight g}"
    using notin(3) by (intro image_cong) (auto simp: recs intro!: entry_of_None)
  moreover have used: "entry_of (rs_records st2) (ue_head v) = entry_of (rs_records st) (ue_head v)"
    if "v \<in> set (used_list st2)" for v
    unfolding recs using notin(2) that by (intro entry_of_None) (metis imageI)
  ultimately show "storage_abs st2 = aq_return (storage_abs st)"
    by (simp add: storage_abs_def aq_return_def lists)
  show "aq_used (storage_abs st) = (ue_id u, ue_used u, chain_body (rc_chain rc)) # aq_used (storage_abs st2)"
    using used by (simp add: storage_abs_def lists(2) entry_of_def [of _ "ue_head u"] rc)
qed

lemma used_entry:
  assumes "ring_inv epoch st" "u \<in> set (used_list st)"
  shows "\<exists>rc. rs_records st ! unat (ue_head u) = Some rc \<and> unat (ue_head u) < length (rs_records st)
     \<and> rc_state rc = CS_Used \<and> rc_id rc = ue_id u"
proof -
  have "in_state (rs_records st) CS_Used (ue_head u)" "used_ids (rs_records st) (used_list st)"
    using ring_invD(8) [OF assms(1)] assms(2) by (auto simp: ring_lists_def)
  then show ?thesis
    using assms(2) by (auto simp: in_state_def used_ids_def)
qed

lemma aq_ids_storage:
  assumes inv: "ring_inv epoch st" and i: "i \<in> aq_ids (storage_abs st)"
  shows "\<exists>h :: u16. i = \<lparr>ci_epoch = epoch, ci_token = ucast h\<rparr> \<and> unat h < length (rs_records st) \<and> rs_records st ! unat h \<noteq> None"
proof -
  have known: ?thesis if "fst (entry_of (rs_records st) h) = i" "in_state (rs_records st) s h" for h s
    using entry_id [OF inv, of h] that by (intro exI [of _ h]) (auto simp: in_state_def)
  consider h where "h \<in> set (avail_heads st)" "i = fst (entry_of (rs_records st) h)"
    | h where "in_state (rs_records st) CS_InFlight h" "i = fst (entry_of (rs_records st) h)"
    | u where "u \<in> set (used_list st)" "i = ue_id u"
    using i by (auto simp: aq_ids_def storage_abs_def)
  then show ?thesis
  proof cases
    case 1
    then have "in_state (rs_records st) CS_Available h"
      using ring_invD(8) [OF inv] by (auto simp: ring_lists_def)
    then show ?thesis
      using known 1 by blast
  next
    case 2
    then show ?thesis
      using known by blast
  next
    case 3
    then show ?thesis
      using used_entry [OF inv 3(1)] known [of "ue_head u" CS_Used] by (auto simp: in_state_def entry_of_def)
  qed
qed

section \<open>The invariant of the queue\<close>

definition queue_inv :: "split_queue \<Rightarrow> bool" where
  "queue_inv q \<longleftrightarrow> qs_epoch (sq_state q) = sq_current_epoch q \<and> sq_current_epoch q \<noteq> 0
     \<and> ring_size (qs_max_size (sq_state q)) \<and> 2 \<le> sq_max_chain_descriptors q
     \<and> (case sq_storage q of
          None \<Rightarrow> qs_size (sq_state q) = None \<and> \<not> qs_ready (sq_state q)
        | Some st \<Rightarrow> qs_size (sq_state q) = Some (rs_size st) \<and> rs_size st \<le> qs_max_size (sq_state q)
            \<and> sq_max_chain_descriptors q \<le> rs_size st \<and> ring_inv (sq_current_epoch q) st)"

lemma queue_inv_storage:
  "queue_inv q \<Longrightarrow> sq_storage q = Some st \<Longrightarrow> ring_inv (qs_epoch (sq_state q)) st"
  by (simp add: queue_inv_def)

lemma queue_inv_ready: "queue_inv q \<Longrightarrow> qs_ready (sq_state q) \<Longrightarrow> \<exists>st. sq_storage q = Some st"
  by (auto simp: queue_inv_def split: option.splits)

lemma queue_inv_update:
  assumes "queue_inv q" "sq_storage q = Some st" "ring_inv (qs_epoch (sq_state q)) st2" "rs_size st2 = rs_size st"
  shows "queue_inv (q\<lparr>sq_storage := Some st2\<rparr>)"
  using assms by (simp add: queue_inv_def)

lemma queue_abs_storage [simp]: "queue_abs (q\<lparr>sq_storage := Some st\<rparr>) = storage_abs st"
  by (simp add: queue_abs_def)

text \<open>
  A publication appends the chain under an identifier of the current epoch that no chain of the
  queue has, or returns the chain untouched and leaves the queue as it was.
\<close>

lemma publish_chain_effect:
  assumes q: "queue_inv q" "sq_storage q = Some st" and c: "chain_ok chain"
    and room: "rs_available_count st \<noteq> rs_size st" "\<not> rs_free_descriptors st < descriptor_count chain"
  shows "\<exists>(head :: u16) q'. publish_chain q st chain
      = (Inr \<lparr>pc_id = \<lparr>ci_epoch = qs_epoch (sq_state q), ci_token = ucast head\<rparr>,
              pc_notification = (if sq_available_notifications q then NH_Notify else NH_Suppressed)\<rparr>, q')
    \<and> queue_inv q' \<and> sq_state q' = sq_state q
    \<and> \<lparr>ci_epoch = qs_epoch (sq_state q), ci_token = ucast head\<rparr> \<notin> aq_ids (queue_abs q)
    \<and> queue_abs q' = aq_publish \<lparr>ci_epoch = qs_epoch (sq_state q), ci_token = ucast head\<rparr> (chain_body chain) (queue_abs q)"
proof -
  note inv = queue_inv_storage [OF q]
  note inv' = ring_invD [OF inv]
  have le: "descriptor_count chain \<le> rs_free_descriptors st"
    using room(2) by (simp add: not_less)
  obtain head st1 chain1 where alloc: "allocate_descriptors st chain = (Inr head, st1, chain1)"
    and a: "allocation st chain head st1 chain1"
    using allocate_descriptors_ok [OF inv'(1,2,9) c inv'(10) le] by blast
  let ?id = "\<lparr>ci_epoch = qs_epoch (sq_state q), ci_token = ucast head\<rparr>"
  define rc where "rc = \<lparr>rc_id = ?id, rc_state = CS_Available, rc_chain = chain1\<rparr>"
  define st2 where "st2 = st1\<lparr>rs_records := (rs_records st1)[unat head := Some rc],
     rs_available := (rs_available st1)[ring_slot st1 (rs_available_index st1) := head],
     rs_available_index := rs_available_index st1 + 1, rs_available_count := rs_available_count st1 + 1,
     rs_active_chains := rs_active_chains st1 + 1\<rparr>"
  note fresh = allocation_fresh [OF inv a c le] and pub = publish_storage [OF inv a c room(1) le, folded rc_def, folded st2_def]
  have "rs_records st1 = rs_records st"
    using fresh(4) by auto
  then have eq: "publish_chain q st chain
      = (Inr \<lparr>pc_id = ?id, pc_notification = (if sq_available_notifications q then NH_Notify else NH_Suppressed)\<rparr>,
         q\<lparr>sq_storage := Some st2\<rparr>)"
    using alloc fresh(2) by (simp add: publish_chain_def Let_def rc_def st2_def)
  have body: "chain_body chain1 = chain_body chain"
    using fresh(3) by (auto simp: chain_body_def)
  have "?id \<notin> aq_ids (queue_abs q)"
    using aq_ids_storage [OF inv, of ?id] fresh(2) q(2) by (auto simp: queue_abs_def token_inj)
  moreover have "storage_abs st2 = aq_publish ?id (chain_body chain) (storage_abs st)"
    using publish_abs [OF inv fresh(1,2) pub(1) _ pub(4,5)] body by (simp add: rc_def)
  ultimately show ?thesis
    using eq queue_inv_update [OF q pub(3,2)] q(2)
    by (intro exI [of _ head] exI [of _ "q\<lparr>sq_storage := Some st2\<rparr>"]) (simp add: queue_abs_def [of q])
qed

lemma publish_effect:
  assumes q: "queue_inv q" and c: "chain_ok chain" and r: "publish_inner q chain inject = (r, q')"
  shows "queue_inv q'" and "sq_state q' = sq_state q"
    and "case r of
       Inl e \<Rightarrow> q' = q \<and> pe_chain e = chain \<and> pe_kind e \<noteq> PEK_Transport SQE_CorruptState
     | Inr p \<Rightarrow> ci_epoch (pc_id p) = sq_current_epoch q \<and> pc_id p \<notin> aq_ids (queue_abs q)
         \<and> queue_abs q' = aq_publish (pc_id p) (chain_body chain) (queue_abs q)"
proof -
  have epoch: "qs_epoch (sq_state q) = sq_current_epoch q"
    using q by (simp add: queue_inv_def)
  consider (refused) e where "r = Inl e" "q' = q" "pe_chain e = chain" "pe_kind e \<noteq> PEK_Transport SQE_CorruptState"
    | (entered) st where "sq_storage q = Some st" "rs_available_count st \<noteq> rs_size st"
        "\<not> rs_free_descriptors st < descriptor_count chain" "publish_chain q st chain = (r, q')"
    using r queue_inv_ready [OF q]
    by (auto simp: publish_inner_def refuse_chain_def split: if_splits sum.splits option.splits)
  then have "queue_inv q' \<and> sq_state q' = sq_state q \<and> (case r of
       Inl e \<Rightarrow> q' = q \<and> pe_chain e = chain \<and> pe_kind e \<noteq> PEK_Transport SQE_CorruptState
     | Inr p \<Rightarrow> ci_epoch (pc_id p) = sq_current_epoch q \<and> pc_id p \<notin> aq_ids (queue_abs q)
         \<and> queue_abs q' = aq_publish (pc_id p) (chain_body chain) (queue_abs q))"
  proof cases
    case refused
    then show ?thesis
      using q by simp
  next
    case (entered st)
    then show ?thesis
      using publish_chain_effect [OF q entered(1) c entered(2,3)] epoch by auto
  qed
  then show "queue_inv q'" "sq_state q' = sq_state q" "case r of
       Inl e \<Rightarrow> q' = q \<and> pe_chain e = chain \<and> pe_kind e \<noteq> PEK_Transport SQE_CorruptState
     | Inr p \<Rightarrow> ci_epoch (pc_id p) = sq_current_epoch q \<and> pc_id p \<notin> aq_ids (queue_abs q)
         \<and> queue_abs q' = aq_publish (pc_id p) (chain_body chain) (queue_abs q)"
    by auto
qed

text \<open>The device takes the oldest available chain; nothing is taken only from an empty ring.\<close>

lemma pop_available_effect:
  assumes q: "queue_inv q" and r: "pop_available q = (r, q')"
  shows "queue_inv q' \<and> sq_state q' = sq_state q \<and> sq_current_epoch q' = sq_current_epoch q \<and> (case r of
       Inl e \<Rightarrow> e = QE_NotReady \<and> \<not> qs_ready (sq_state q) \<and> q' = q
     | Inr None \<Rightarrow> qs_ready (sq_state q) \<and> q' = q \<and> aq_available (queue_abs q) = []
     | Inr (Some t) \<Rightarrow> (\<exists>b. aq_available (queue_abs q) = (sd_id t, b) # aq_available (queue_abs q')
         \<and> t = split_device_chain_new (sd_id t) (fst b) (sq_max_chain_descriptors q)
         \<and> ci_epoch (sd_id t) = sq_current_epoch q
         \<and> queue_abs q' = aq_take (sd_id t) b (queue_abs q)))"
proof (cases "qs_ready (sq_state q)")
  case True
  obtain st where st: "sq_storage q = Some st"
    using queue_inv_ready [OF q True] by blast
  note inv = queue_inv_storage [OF q st]
  show ?thesis
  proof (cases "rs_available_count st = 0")
    case empty: True
    then have "avail_heads st = []"
      by (simp add: avail_heads_def)
    then show ?thesis
      using r q True st empty by (auto simp: pop_available_def storage_mut_def queue_abs_def storage_abs_def)
  next
    case False
    define head where "head = rs_available st ! ring_slot st (rs_consumed_available st)"
    obtain rc where rc: "rs_records st ! unat head = Some rc" "unat head < length (rs_records st)"
        "rc_state rc = CS_Available" "ci_epoch (rc_id rc) = qs_epoch (sq_state q)"
      and after: "let st2 = st\<lparr>rs_records := (rs_records st)[unat head := Some (rc\<lparr>rc_state := CS_InFlight\<rparr>)],
            rs_consumed_available := rs_consumed_available st + 1, rs_available_count := rs_available_count st - 1\<rparr>
         in ring_inv (qs_epoch (sq_state q)) st2 \<and> avail_heads st = head # avail_heads st2 \<and> used_list st2 = used_list st"
      using take_storage [OF inv False, folded head_def] by blast
    define st2 where "st2 = st\<lparr>rs_records := (rs_records st)[unat head := Some (rc\<lparr>rc_state := CS_InFlight\<rparr>)],
        rs_consumed_available := rs_consumed_available st + 1, rs_available_count := rs_available_count st - 1\<rparr>"
    have st2: "ring_inv (qs_epoch (sq_state q)) st2" "avail_heads st = head # avail_heads st2"
        "used_list st2 = used_list st" "rs_size st2 = rs_size st"
        "rs_records st2 = (rs_records st)[unat head := Some (rc\<lparr>rc_state := CS_InFlight\<rparr>)]"
      using after unfolding Let_def st2_def [symmetric] by (auto simp: st2_def)
    have "pop_available q = (Inr (Some (split_device_chain_new (rc_id rc) (dc_data (rc_chain rc)) (sq_max_chain_descriptors q))),
        q\<lparr>sq_storage := Some st2\<rparr>)"
      using True st False rc by (simp add: pop_available_def storage_mut_def Let_def st2_def flip: head_def)
    then show ?thesis
      using r take_abs [OF inv rc(2,1) st2(5,2,3)] queue_inv_update [OF q st st2(1,4)] st rc(4) q
      by (auto simp: queue_abs_def split_device_chain_new_def chain_body_def queue_inv_def [of q])
  qed
next
  case False
  then show ?thesis
    using r q by (auto simp: pop_available_def)
qed

text \<open>
  A completion moves a chain in flight behind the used ones, or is refused without effect. The
  token of a chain in flight is never taken for a corrupt one.
\<close>

definition in_flight :: "split_queue \<Rightarrow> chain_id \<Rightarrow> bool" where
  "in_flight q i \<longleftrightarrow> i \<in> fst ` aq_flight (queue_abs q)"

lemma complete_effect:
  assumes q: "queue_inv q" and r: "complete q t n = (r, q')"
  shows "queue_inv q' \<and> sq_state q' = sq_state q \<and> sq_current_epoch q' = sq_current_epoch q \<and> (case r of
       Inl e \<Rightarrow> q' = q
     | Inr _ \<Rightarrow> unat n \<le> unat (writable_capacity t)
         \<and> (\<exists>b. (sd_id t, b) \<in> aq_flight (queue_abs q) \<and> queue_abs q' = aq_complete (sd_id t) n b (queue_abs q)))"
proof (cases r)
  case (Inl e)
  then show ?thesis
    using r q by (auto simp: complete_def Let_def split: if_splits sum.splits option.splits)
next
  case (Inr hint)
  define head where "head = (ucast (ci_token (sd_id t)) :: u16)"
  obtain st rc where st: "sq_storage q = Some st" and ready: "qs_ready (sq_state q)"
    and h: "unat head < length (rs_records st)" "rs_records st ! unat head = Some rc" "rc_state rc = CS_InFlight"
    and rid: "rc_id rc = sd_id t" and cap: "\<not> writable_capacity t < ucast n"
    and q': "q' = q\<lparr>sq_storage := Some (st
        \<lparr>rs_records := (rs_records st)[unat head := Some (rc\<lparr>rc_state := CS_Used\<rparr>)],
         rs_used := (rs_used st)[ring_slot st (rs_used_index st) := Some \<lparr>ue_head = head, ue_id = sd_id t, ue_used = n\<rparr>],
         rs_used_index := rs_used_index st + 1, rs_used_count := rs_used_count st + 1\<rparr>)\<rparr>"
    using r Inr
    by (auto simp: complete_def Let_def head_def storage_mut_def split: if_splits sum.splits option.splits)
  note inv = queue_inv_storage [OF q st]
  define st2 where "st2 = st\<lparr>rs_records := (rs_records st)[unat head := Some (rc\<lparr>rc_state := CS_Used\<rparr>)],
     rs_used := (rs_used st)[ring_slot st (rs_used_index st) := Some \<lparr>ue_head = head, ue_id = rc_id rc, ue_used = n\<rparr>],
     rs_used_index := rs_used_index st + 1, rs_used_count := rs_used_count st + 1\<rparr>"
  note fin = complete_storage(2-4) [OF inv h, where n = n, folded st2_def]
  have recs: "rs_records st2 = (rs_records st)[unat head := Some (rc\<lparr>rc_state := CS_Used\<rparr>)]" and sz: "rs_size st2 = rs_size st"
    by (simp_all add: st2_def)
  have eq: "q' = q\<lparr>sq_storage := Some st2\<rparr>"
    using q' by (simp add: st2_def rid)
  have "unat n \<le> unat (writable_capacity t)"
    using cap by (simp add: word_less_nat_alt unat_used_length not_less)
  then show ?thesis
    using Inr eq complete_abs [OF inv h recs fin(2,3)] queue_inv_update [OF q st fin(1) sz] st
    by (simp add: queue_abs_def [of q] rid del: split_paired_Ex) blast
qed

lemma in_flight_record:
  assumes q: "queue_inv q" and i: "in_flight q i"
  shows "\<exists>st (h :: u16) rc. sq_storage q = Some st \<and> i = \<lparr>ci_epoch = qs_epoch (sq_state q), ci_token = ucast h\<rparr>
     \<and> \<not> 0xFFFF < (ucast h :: u64) \<and> rs_records st ! unat h = Some rc \<and> unat h < length (rs_records st)
     \<and> rc_id rc = i \<and> rc_state rc = CS_InFlight \<and> rs_used_count st \<noteq> rs_size st"
proof -
  obtain st where st: "sq_storage q = Some st"
    using i by (cases "sq_storage q") (auto simp: in_flight_def queue_abs_def aq_empty_def)
  note inv = queue_inv_storage [OF q st]
  obtain h where h: "in_state (rs_records st) CS_InFlight h" and e: "i = fst (entry_of (rs_records st) h)"
    using i st by (auto simp: in_flight_def queue_abs_def storage_abs_def)
  obtain rc where rc: "rs_records st ! unat h = Some rc" "unat h < length (rs_records st)" "rc_state rc = CS_InFlight"
    using h by (auto simp: in_state_def)
  have "i = \<lparr>ci_epoch = qs_epoch (sq_state q), ci_token = ucast h\<rparr>" "rc_id rc = i"
    using e entry_id [OF inv rc(2)] rc(1) by (simp_all add: entry_of_def)
  moreover have "\<not> 0xFFFF < (ucast h :: u64)"
    using unat_token [of h] unsigned_less [of h, where ?'a = nat] by (simp add: word_less_nat_alt not_less)
  ultimately show ?thesis
    using st rc complete_storage(1) [OF inv rc(2,1,3)] by blast
qed

lemma complete_honest:
  assumes "queue_inv q" "in_flight q (sd_id t)"
  shows "fst (complete q t n) \<noteq> Inl (QE_Transport SQE_CorruptState)"
    and "qs_ready (sq_state q) \<Longrightarrow> unat n \<le> unat (writable_capacity t) \<Longrightarrow> \<exists>hint q'. complete q t n = (Inr hint, q')"
  using in_flight_record [OF assms] token_back
  by (auto simp: complete_def Let_def storage_mut_def word_less_nat_alt unat_used_length)

text \<open>The driver gets the used chains back in the order of their completion.\<close>

lemma pop_used_effect:
  assumes q: "queue_inv q" and r: "pop_used q = (r, q')"
  shows "queue_inv q' \<and> sq_state q' = sq_state q \<and> sq_current_epoch q' = sq_current_epoch q \<and> (case r of
       Inl e \<Rightarrow> e = QE_NotReady \<and> \<not> qs_ready (sq_state q) \<and> q' = q
     | Inr None \<Rightarrow> qs_ready (sq_state q) \<and> q' = q \<and> aq_used (queue_abs q) = []
     | Inr (Some u) \<Rightarrow> chain_ok (uc_chain u)
         \<and> aq_used (queue_abs q) = (uc_id u, uc_used u, chain_body (uc_chain u)) # aq_used (queue_abs q')
         \<and> queue_abs q' = aq_return (queue_abs q))"
proof (cases "qs_ready (sq_state q)")
  case True
  obtain st where st: "sq_storage q = Some st"
    using queue_inv_ready [OF q True] by blast
  note inv = queue_inv_storage [OF q st]
  show ?thesis
  proof (cases "rs_used_count st = 0")
    case empty: True
    then have "used_list st = []"
      by (simp add: used_list_def used_window_def)
    then show ?thesis
      using r q True st empty by (auto simp: pop_used_def storage_mut_def queue_abs_def storage_abs_def)
  next
    case False
    obtain u rc where u: "rs_used st ! ring_slot st (rs_consumed_used st) = Some u" "used_list st = u # tl (used_list st)"
      and rc: "rs_records st ! unat (ue_head u) = Some rc" "unat (ue_head u) < length (rs_records st)"
        "rc_id rc = ue_id u" "rc_state rc = CS_Used"
      using used_head [OF inv False] by blast
    note ret = return_storage [OF inv False u(2) rc(1,2)]
    have "pop_used q = (Inr (Some \<lparr>uc_id = rc_id rc, uc_used = ue_used u, uc_chain = rc_chain rc\<rparr>),
        q\<lparr>sq_storage := Some (return_head st u rc)\<rparr>)"
      using True st False u(1) rc by (simp add: pop_used_def storage_mut_def return_head_def Let_def)
    moreover have "chain_ok (rc_chain rc)"
      using ownershipD(2) [OF ring_invD(6) [OF inv] rc(2,1)] by (simp add: record_ok_def)
    ultimately show ?thesis
      using r return_abs [OF inv rc(1) ret(4,3)] u(2) ret(2) queue_inv_update [OF q st ret(1,5)] st rc(3)
      by (auto simp: queue_abs_def [of q])
  qed
next
  case False
  then show ?thesis
    using r q by (auto simp: pop_used_def)
qed

section \<open>Control and reset\<close>

lemma inactive_empty:
  assumes inv: "ring_inv epoch st" and none: "rs_active_chains st = 0"
  shows "storage_abs st = aq_empty"
proof -
  have "filter (\<lambda>x. x \<noteq> None) (rs_records st) = []"
    using ring_invD(11) [OF inv] none by (simp add: occupied_def)
  then have "\<not> in_state (rs_records st) s h" for s h
    by (auto simp: in_state_def filter_empty_conv all_set_conv_all_nth)
  then show ?thesis
    using ring_invD(8) [OF inv] by (auto simp: storage_abs_def aq_empty_def ring_lists_def)
qed

lemma occupied_replicate [simp]: "occupied (replicate n None) = 0"
  by (simp add: occupied_def)

lemma ring_storage_new_inv:
  assumes "ring_size sz" "ring_storage_new alloc sz = Inr st"
  shows "ring_inv epoch st" and "rs_size st = sz" and "storage_abs st = aq_empty"
proof -
  have st: "st = \<lparr>rs_size = sz, rs_descriptors = replicate (unat sz) None, rs_records = replicate (unat sz) None,
      rs_available = replicate (unat sz) 0, rs_used = replicate (unat sz) None, rs_available_index = 0,
      rs_consumed_available = 0, rs_used_index = 0, rs_consumed_used = 0, rs_available_count = 0,
      rs_used_count = 0, rs_active_chains = 0, rs_free_descriptors = sz, rs_next_descriptor = 0\<rparr>"
    using assms(2) by (auto simp: ring_storage_new_def boxed_with_def split: if_splits)
  show "rs_size st = sz"
    by (simp add: st)
  show inv: "ring_inv epoch st"
    using assms(1) ring_size_dvd(2) [OF assms(1)]
    by (auto simp: st ring_inv_def ownership_def ring_lists_def in_state_def used_ids_def avail_heads_def used_window_def)
  show "storage_abs st = aq_empty"
    by (rule inactive_empty [OF inv]) (simp add: st)
qed

lemma configure_effect:
  assumes q: "queue_inv q" and sz: "ring_size sz" and r: "configure alloc q sz = (r, q')"
  shows "queue_inv q' \<and> queue_abs q' = queue_abs q \<and> sq_current_epoch q' = sq_current_epoch q
     \<and> (case r of Inl _ \<Rightarrow> q' = q | Inr _ \<Rightarrow> qs_size (sq_state q') = Some sz \<and> \<not> qs_ready (sq_state q'))"
proof (cases r)
  case (Inl e)
  then show ?thesis
    using r q by (auto simp: configure_def split: if_splits sum.splits)
next
  case (Inr x)
  then obtain st where st: "ring_storage_new alloc sz = Inr st" and lim: "sq_max_chain_descriptors q \<le> sz"
    "sz \<le> qs_max_size (sq_state q)" and idle: "\<forall>old. sq_storage q = Some old \<longrightarrow> rs_active_chains old = 0"
    and q': "q' = q\<lparr>sq_state := \<lparr>qs_max_size = qs_max_size (sq_state q), qs_size = Some sz, qs_ready = False,
        qs_epoch = qs_epoch (sq_state q)\<rparr>, sq_storage := Some st\<rparr>"
    using r by (auto simp: configure_def queue_state_new_def not_less split: if_splits sum.splits option.splits)
  have "queue_abs q = aq_empty"
    using idle inactive_empty [OF queue_inv_storage [OF q]] by (auto simp: queue_abs_def split: option.splits)
  then show ?thesis
    using Inr q lim q' ring_storage_new_inv [OF sz st] by (auto simp: queue_inv_def queue_abs_def)
qed

lemma set_ready_effect:
  assumes q: "queue_inv q" and r: "set_ready q ready = (r, q')"
  shows "queue_inv q' \<and> queue_abs q' = queue_abs q \<and> sq_current_epoch q' = sq_current_epoch q
     \<and> (case r of Inl _ \<Rightarrow> q' = q | Inr _ \<Rightarrow> qs_ready (sq_state q') = ready)"
  using assms
  by (auto simp: set_ready_def queue_state_new_def queue_inv_def queue_abs_def
      split: if_splits sum.splits option.splits)

lemma switch_simps [simp]:
  "queue_inv (q\<lparr>sq_available_notifications := b\<rparr>) = queue_inv q"
  "queue_inv (q\<lparr>sq_used_notifications := b\<rparr>) = queue_inv q"
  "queue_abs (q\<lparr>sq_available_notifications := b\<rparr>) = queue_abs q"
  "queue_abs (q\<lparr>sq_used_notifications := b\<rparr>) = queue_abs q"
  by (simp_all add: queue_inv_def queue_abs_def split: option.split)

text \<open>The notification switches and the two test hooks leave the abstract queue as it is.\<close>

lemma switch_effect:
  assumes q: "queue_inv q"
    and r: "q' \<in> {snd (disable_used_notifications q), snd (enable_used_notifications q),
      snd (disable_available_notifications q), snd (enable_available_notifications q)}"
  shows "queue_inv q' \<and> queue_abs q' = queue_abs q \<and> sq_current_epoch q' = sq_current_epoch q"
  using assms
  by (auto simp: disable_used_notifications_def enable_used_notifications_def disable_available_notifications_def
      enable_available_notifications_def Let_def split: if_splits)

lemma hook_effect:
  assumes q: "queue_inv q"
    and r: "q' \<in> {snd (set_empty_ring_index q i), snd (set_next_descriptor q i)}"
  shows "queue_inv q' \<and> queue_abs q' = queue_abs q \<and> sq_current_epoch q' = sq_current_epoch q"
proof (cases "sq_storage q")
  case None
  then show ?thesis
    using assms by (auto simp: set_empty_ring_index_def set_next_descriptor_def storage_mut_def)
next
  case (Some st)
  note inv = queue_inv_storage [OF q Some]
  note inv' = ring_invD [OF inv]
  let ?st1 = "st\<lparr>rs_available_index := i, rs_consumed_available := i, rs_used_index := i, rs_consumed_used := i,
      rs_available_count := 0, rs_used_count := 0\<rparr>" and ?st2 = "st\<lparr>rs_next_descriptor := i\<rparr>"
  have "ring_inv (qs_epoch (sq_state q)) ?st1 \<and> storage_abs ?st1 = storage_abs st" if "rs_active_chains st = 0"
  proof -
    have "avail_heads st = []" "used_list st = []"
      using inactive_empty [OF inv that] by (auto simp: storage_abs_def aq_empty_def)
    then show ?thesis
      using inv' by (auto simp: ring_inv_def storage_abs_def avail_heads_def used_window_def used_list_def)
  qed
  moreover have "ring_inv (qs_epoch (sq_state q)) ?st2 \<and> storage_abs ?st2 = storage_abs st" if "i < rs_size st"
    using inv' inv that
    by (auto simp: ring_inv_def storage_abs_def avail_heads_def used_window_def used_list_def word_less_nat_alt)
  ultimately show ?thesis
    using r q Some queue_inv_update [OF q Some]
    by (auto simp: set_empty_ring_index_def set_next_descriptor_def storage_mut_def queue_abs_def not_le split: if_splits)
qed

lemma advance_epoch_effect:
  assumes q: "queue_inv q" and r: "advance_epoch q e = (r, q')" and e: "e \<noteq> 0"
  shows "queue_inv q' \<and> (case r of
       Inl _ \<Rightarrow> q' = q
     | Inr s \<Rightarrow> s = sq_storage q \<and> sq_current_epoch q < e \<and> sq_current_epoch q' = e \<and> queue_abs q' = aq_empty)"
  using assms
  by (auto simp: advance_epoch_def queue_inv_def queue_abs_def queue_state_unconfigured_def not_le
      split: if_splits sum.splits)

lemma split_queue_new_inv:
  assumes "split_queue_new max_size limit = Inr q" "ring_size max_size"
  shows "queue_inv q" and "queue_abs q = aq_empty"
  using assms
  by (auto simp: split_queue_new_def queue_inv_def queue_abs_def queue_state_unconfigured_def EPOCH_INITIAL_def
      not_less split: if_splits)

end
