(* ===== verification/Split_Ports.thy ===== *)
theory Split_Ports
  imports Split_Chain
begin

text \<open>
  The byte ports of a split-queue chain. A span knows where the bytes of its descriptor end in the
  concatenation of its side, so a copy is a window of that concatenation however many descriptors
  it touches; the walk that builds the spans accepts exactly the chains that visit every descriptor
  once. With both, the ports of every chain the driver can build meet the contract of a byte source
  and of a byte sink.
\<close>

section \<open>Spans and the bytes behind them\<close>

definition span_descriptor :: "descriptor list \<Rightarrow> descriptor_span \<Rightarrow> descriptor" where
  "span_descriptor ds s = ds ! unat (sp_descriptor s)"

fun storage_address :: "buffer_storage \<Rightarrow> nat" where
  "storage_address (Mapped a) = a"
| "storage_address (Unmapped _) = 0"

definition span_address :: "descriptor list \<Rightarrow> descriptor_span \<Rightarrow> nat" where
  "span_address ds s = storage_address (de_buffer (span_descriptor ds s))"

definition span_bytes :: "cells \<Rightarrow> descriptor list \<Rightarrow> descriptor_span \<Rightarrow> u8 list" where
  "span_bytes cells ds s = cells ! span_address ds s"

definition spans_bytes :: "cells \<Rightarrow> descriptor list \<Rightarrow> descriptor_span list \<Rightarrow> u8 list" where
  "spans_bytes cells ds spans = concat (map (span_bytes cells ds) spans)"

text \<open>Where the first \<open>k\<close> parts of a concatenation end.\<close>

definition parts_end :: "'a list list \<Rightarrow> nat \<Rightarrow> nat" where
  "parts_end xss k = length (concat (take k xss))"

definition spans_ok :: "cells \<Rightarrow> descriptor list \<Rightarrow> descriptor_span list \<Rightarrow> bool" where
  "spans_ok cells ds spans \<longleftrightarrow>
     (\<forall>s\<in>set spans. storage_is_mapped (de_buffer (span_descriptor ds s)) \<and> span_address ds s < length cells)
     \<and> distinct (map (span_address ds) spans)
     \<and> (\<forall>k<length spans. unat (sp_end (spans ! k)) = parts_end (map (span_bytes cells ds) spans) (Suc k))"

lemma parts_end_0 [simp]: "parts_end xss 0 = 0"
  by (simp add: parts_end_def)

lemma parts_end_Suc: "k < length xss \<Longrightarrow> parts_end xss (Suc k) = parts_end xss k + length (xss ! k)"
  by (simp add: parts_end_def take_Suc_conv_app_nth)

lemma parts_end_all: "length xss \<le> k \<Longrightarrow> parts_end xss k = length (concat xss)"
  by (simp add: parts_end_def)

lemma parts_end_mono: "j \<le> k \<Longrightarrow> parts_end xss j \<le> parts_end xss k"
proof -
  assume "j \<le> k"
  then have "take k xss = take j xss @ take (k - j) (drop j xss)"
    by (metis le_add_diff_inverse take_add)
  then show ?thesis
    by (simp add: parts_end_def)
qed

lemma parts_end_le: "parts_end xss k \<le> length (concat xss)"
  using parts_end_mono [of k "max k (length xss)" xss] by (simp add: parts_end_all)

lemma concat_around:
  "k < length xss \<Longrightarrow> concat xss = concat (take k xss) @ xss ! k @ concat (drop (Suc k) xss)"
  by (metis concat.simps(2) concat_append id_take_nth_drop)

text \<open>A window inside one part is a window of the whole, and so is an overwrite of it.\<close>

lemma part_window:
  assumes "k < length xss" "parts_end xss k \<le> x" "x + n \<le> parts_end xss (Suc k)"
  shows "take n (drop (x - parts_end xss k) (xss ! k)) = take n (drop x (concat xss))"
proof -
  have "drop x (concat xss) = drop (x - parts_end xss k) (xss ! k) @ concat (drop (Suc k) xss)"
    using assms by (simp add: concat_around [OF assms(1)] parts_end_Suc flip: parts_end_def)
  then show ?thesis
    using assms by (simp add: parts_end_Suc)
qed

lemma part_overwrite:
  assumes "k < length xss" "parts_end xss k \<le> x" "x + length ys \<le> parts_end xss (Suc k)"
  shows "concat (xss[k := overwrite (xss ! k) (x - parts_end xss k) ys]) = overwrite (concat xss) x ys"
proof -
  have "concat (xss[k := zs]) = concat (take k xss) @ zs @ concat (drop (Suc k) xss)" for zs
    using assms(1) by (simp add: upd_conv_take_nth_drop)
  moreover have "length (concat (take k xss)) = parts_end xss k"
    by (simp add: parts_end_def)
  ultimately show ?thesis
    using assms by (simp add: concat_around [OF assms(1)] overwrite_append_right overwrite_append_left
        parts_end_Suc)
qed

section \<open>Copies are windows\<close>

definition span_parts :: "cells \<Rightarrow> descriptor list \<Rightarrow> descriptor_span list \<Rightarrow> u8 list list" where
  "span_parts cells ds spans = map (span_bytes cells ds) spans"

lemma length_span_parts [simp]: "length (span_parts cells ds spans) = length spans"
  by (simp add: span_parts_def)

lemma nth_span_parts [simp]:
  "k < length spans \<Longrightarrow> span_parts cells ds spans ! k = span_bytes cells ds (spans ! k)"
  by (simp add: span_parts_def)

lemma concat_span_parts: "concat (span_parts cells ds spans) = spans_bytes cells ds spans"
  by (simp add: span_parts_def spans_bytes_def)

lemma spans_ok_end:
  "spans_ok cells ds spans \<Longrightarrow> k < length spans \<Longrightarrow>
     unat (sp_end (spans ! k)) = parts_end (span_parts cells ds spans) (Suc k)"
  by (simp add: spans_ok_def span_parts_def)

lemma spans_ok_buffer:
  assumes "spans_ok cells ds spans" "k < length spans"
  shows "de_buffer (ds ! unat (sp_descriptor (spans ! k))) = Mapped (span_address ds (spans ! k))"
    and "span_address ds (spans ! k) < length cells"
proof -
  have "storage_is_mapped (de_buffer (span_descriptor ds (spans ! k)))"
    and "span_address ds (spans ! k) < length cells"
    using assms by (auto simp: spans_ok_def)
  then show "de_buffer (ds ! unat (sp_descriptor (spans ! k))) = Mapped (span_address ds (spans ! k))"
    and "span_address ds (spans ! k) < length cells"
    by (cases "de_buffer (span_descriptor ds (spans ! k))";
        simp add: span_address_def span_descriptor_def)+
qed

lemma checked_sub_unat:
  "unat b \<le> unat a \<Longrightarrow> \<exists>c. checked_sub a b = Some c \<and> unat c = unat a - unat b"
  by (auto simp: checked_sub_def unat_sub word_le_nat_alt)

text \<open>The window of the span that holds the logical offset \<open>x\<close>.\<close>

lemma span_window_eq:
  assumes ok: "spans_ok cells ds spans" and k: "k < length spans"
    and x: "parts_end (span_parts cells ds spans) k \<le> unat x"
      "unat x \<le> parts_end (span_parts cells ds spans) (Suc k)"
  obtains d where "span_window spans k x = Inr (d, parts_end (span_parts cells ds spans) (Suc k) - unat x)"
    and "unat d = unat x - parts_end (span_parts cells ds spans) k"
proof -
  define start where "start = (if k = 0 then 0 else sp_end (spans ! (k - 1)))"
  have start: "unat start = parts_end (span_parts cells ds spans) k"
    using spans_ok_end [OF ok, of "k - 1"] k by (simp add: start_def)
  obtain d where d: "checked_sub x start = Some d" "unat d = unat x - unat start"
    using checked_sub_unat [of start x] x(1) start by auto
  obtain r where r: "checked_sub (sp_end (spans ! k)) x = Some r" "unat r = unat (sp_end (spans ! k)) - unat x"
    using checked_sub_unat [of x "sp_end (spans ! k)"] x(2) spans_ok_end [OF ok k] by auto
  show thesis
    using d r start spans_ok_end [OF ok k]
    by (intro that [of d]) (simp_all add: span_window_def start_def)
qed

lemma split_checked_range_ok:
  "unat offset + n \<le> len \<Longrightarrow> len < 2 ^ 64 \<Longrightarrow> split_checked_range offset n len = Inr (unat offset, unat offset + n)"
  by (simp add: split_checked_range_def Let_def)

text \<open>The access a copy makes in that span, for any count of bytes up to the span's end.\<close>

lemma span_access:
  assumes ok: "spans_ok cells ds spans" and fits: "length (spans_bytes cells ds spans) < 2 ^ 64"
    and k: "k < length spans"
    and x: "parts_end (span_parts cells ds spans) k \<le> unat x"
    and d: "unat d = unat x - parts_end (span_parts cells ds spans) k"
    and n: "unat x + n \<le> parts_end (span_parts cells ds spans) (Suc k)"
  shows "split_checked_range d n (length (cells ! span_address ds (spans ! k))) = Inr (unat d, unat d + n)"
proof (rule split_checked_range_ok)
  let ?xss = "span_parts cells ds spans"
  have cell: "length (cells ! span_address ds (spans ! k)) = parts_end ?xss (Suc k) - parts_end ?xss k"
    using k by (simp add: parts_end_Suc span_bytes_def)
  show "unat d + n \<le> length (cells ! span_address ds (spans ! k))"
    using cell d n x by simp
  show "length (cells ! span_address ds (spans ! k)) < 2 ^ 64"
    using cell fits parts_end_le [of ?xss "Suc k"] by (simp add: concat_span_parts)
qed

lemma read_in_span:
  assumes "spans_ok cells ds spans" "length (spans_bytes cells ds spans) < 2 ^ 64" "k < length spans"
    "parts_end (span_parts cells ds spans) k \<le> unat x"
    "unat d = unat x - parts_end (span_parts cells ds spans) k"
    "unat x + n \<le> parts_end (span_parts cells ds spans) (Suc k)"
  shows "storage_read_at cells (de_buffer (ds ! unat (sp_descriptor (spans ! k)))) d n
      = Inr (take n (drop (unat x) (spans_bytes cells ds spans)))"
  using part_window [of k "span_parts cells ds spans" "unat x" n] span_access [OF assms] assms(3-6)
    spans_ok_buffer [OF assms(1,3)]
  by (simp add: concat_span_parts span_bytes_def)

lemma logical_offset:
  "unat offset + n < 2 ^ 64 \<Longrightarrow> unat (offset + of_nat n :: u64) = unat offset + n"
  by (simp add: unat_word_ariths unat_of_nat take_bit_eq_mod)

lemma copy_from_loop_eq:
  assumes ok: "spans_ok cells ds spans" and fits: "length (spans_bytes cells ds spans) < 2 ^ 64"
    and room: "unat offset + n \<le> length (spans_bytes cells ds spans)"
  shows "k \<le> length spans \<Longrightarrow> length copied < n \<Longrightarrow>
    parts_end (span_parts cells ds spans) k \<le> unat offset + length copied \<Longrightarrow>
    (k < length spans \<Longrightarrow> unat offset + length copied \<le> parts_end (span_parts cells ds spans) (Suc k)) \<Longrightarrow>
    copy_from_loop cells ds spans offset n copied [k..<length spans]
      = Inr (copied @ take (n - length copied) (drop (unat offset + length copied) (spans_bytes cells ds spans)))"
proof (induction "length spans - k" arbitrary: k copied)
  case 0
  then show ?case
    using room by (simp add: parts_end_all concat_span_parts)
next
  case (Suc m)
  let ?xss = "span_parts cells ds spans" and ?all = "spans_bytes cells ds spans"
  define x where "x = offset + of_nat (length copied)"
  have k: "k < length spans" and idx: "[k..<length spans] = k # [Suc k..<length spans]"
    using Suc.hyps(2) by (simp_all add: upt_conv_Cons)
  have x: "unat x = unat offset + length copied"
    using Suc.prems(2) room fits by (simp add: x_def logical_offset)
  have below: "parts_end ?xss k \<le> unat x" and above: "unat x \<le> parts_end ?xss (Suc k)"
    using Suc.prems(3,4) k x by auto
  obtain d where w: "span_window spans k x = Inr (d, parts_end ?xss (Suc k) - unat x)"
    and d: "unat d = unat x - parts_end ?xss k"
    using span_window_eq [OF ok k below above] by blast
  define count where "count = min (parts_end ?xss (Suc k) - unat x) (n - length copied)"
  have read: "storage_read_at cells (de_buffer (ds ! unat (sp_descriptor (spans ! k)))) d count
      = Inr (take count (drop (unat x) ?all))"
    using above by (intro read_in_span [OF ok fits k below d]) (simp add: count_def)
  have len: "length (take count (drop (unat x) ?all)) = count"
    using room x Suc.prems(2) by (simp add: count_def)
  let ?c = "copied @ take count (drop (unat x) ?all)"
  have step: "copy_from_loop cells ds spans offset n copied [k..<length spans] =
      (if length copied + count = n then Inr ?c
       else copy_from_loop cells ds spans offset n ?c [Suc k..<length spans])"
    using w read len by (simp add: idx count_def flip: x_def)
  show ?case
  proof (cases "length copied + count = n")
    case False
    then have c: "count = parts_end ?xss (Suc k) - unat x" "count < n - length copied"
      using Suc.prems(2) unfolding count_def by linarith+
    have "copy_from_loop cells ds spans offset n ?c [Suc k..<length spans]
        = Inr (?c @ take (n - length ?c) (drop (unat offset + length ?c) ?all))"
      using Suc.hyps(2) c above x len k parts_end_mono [of "Suc k" "Suc (Suc k)" ?xss]
      by (intro Suc.hyps(1)) simp_all
    then show ?thesis
      using step False x len c(2) take_drop_split [of count "n - length ?c" "unat x" ?all]
      by (simp add: add.assoc)
  qed (use step x in auto)
qed

lemma spans_bytes_update:
  assumes "spans_ok cells ds spans" "k < length spans"
  shows "span_parts (cells[span_address ds (spans ! k) := ys]) ds spans = (span_parts cells ds spans)[k := ys]"
proof (rule nth_equalityI)
  fix j
  assume "j < length (span_parts (cells[span_address ds (spans ! k) := ys]) ds spans)"
  then have j: "j < length spans"
    by simp
  have "span_address ds (spans ! k) = span_address ds (spans ! j) \<longleftrightarrow> k = j"
    using assms j by (auto simp: spans_ok_def distinct_conv_nth)
  then show "span_parts (cells[span_address ds (spans ! k) := ys]) ds spans ! j
      = (span_parts cells ds spans)[k := ys] ! j"
    using j spans_ok_buffer(2) [OF assms] assms(2) by (auto simp: span_bytes_def nth_list_update)
qed simp

text \<open>A write keeps the shape of the cells, so it keeps every fact about spans that speaks of lengths.\<close>

definition same_shape :: "cells \<Rightarrow> cells \<Rightarrow> bool" where
  "same_shape cells cells' \<longleftrightarrow> map length cells' = map length cells"

lemma same_shape_refl [simp]: "same_shape cells cells"
  by (simp add: same_shape_def)

lemma same_shape_trans: "same_shape a b \<Longrightarrow> same_shape b c \<Longrightarrow> same_shape a c"
  by (simp add: same_shape_def)

lemma same_shape_length: "same_shape cells cells' \<Longrightarrow> length cells' = length cells"
  unfolding same_shape_def by (rule map_eq_imp_length_eq)

lemma same_shape_nth: "same_shape cells cells' \<Longrightarrow> a < length cells \<Longrightarrow> length (cells' ! a) = length (cells ! a)"
  by (auto simp: same_shape_def list_eq_iff_nth_eq)

lemma same_shape_update: "length ys = length (cells ! a) \<Longrightarrow> same_shape cells (cells[a := ys])"
  by (cases "a < length cells") (auto simp: same_shape_def list_eq_iff_nth_eq nth_list_update)

lemma parts_end_lengths: "map length yss = map length xss \<Longrightarrow> parts_end yss k = parts_end xss k"
  by (simp add: parts_end_def length_concat flip: take_map)

lemma spans_ok_shape:
  assumes "spans_ok cells ds spans" "same_shape cells cells'"
  shows "spans_ok cells' ds spans"
    and "parts_end (span_parts cells' ds spans) k = parts_end (span_parts cells ds spans) k"
    and "length (spans_bytes cells' ds spans) = length (spans_bytes cells ds spans)"
proof -
  have lens: "map length (span_parts cells' ds spans) = map length (span_parts cells ds spans)"
    using assms by (auto simp: span_parts_def span_bytes_def spans_ok_def same_shape_nth)
  then show ends: "parts_end (span_parts cells' ds spans) k = parts_end (span_parts cells ds spans) k" for k
    by (rule parts_end_lengths)
  show "spans_ok cells' ds spans"
    using assms ends same_shape_length [OF assms(2)]
    by (simp add: spans_ok_def flip: span_parts_def)
  show "length (spans_bytes cells' ds spans) = length (spans_bytes cells ds spans)"
    using lens by (simp add: length_concat flip: concat_span_parts)
qed

text \<open>A write of \<open>ys\<close> at \<open>x\<close> of a side that touches no other cell.\<close>

definition side_written ::
  "descriptor list \<Rightarrow> descriptor_span list \<Rightarrow> nat \<Rightarrow> u8 list \<Rightarrow> cells \<Rightarrow> cells \<Rightarrow> bool" where
  "side_written ds spans x ys cells cells' \<longleftrightarrow> same_shape cells cells'
     \<and> spans_bytes cells' ds spans = overwrite (spans_bytes cells ds spans) x ys
     \<and> (\<forall>a. a \<notin> span_address ds ` set spans \<longrightarrow> cells' ! a = cells ! a)"

lemma side_written_trans:
  assumes "side_written ds spans x ys a b" "side_written ds spans (x + length ys) zs b c"
    "x + length ys + length zs \<le> length (spans_bytes a ds spans)"
  shows "side_written ds spans x (ys @ zs) a c"
  using assms overwrite_overwrite_adjacent [OF assms(3)] same_shape_trans
  by (auto simp: side_written_def)

lemma write_in_span:
  assumes ok: "spans_ok cells ds spans" and fits: "length (spans_bytes cells ds spans) < 2 ^ 64"
    and k: "k < length spans" and below: "parts_end (span_parts cells ds spans) k \<le> unat x"
    and d: "unat d = unat x - parts_end (span_parts cells ds spans) k"
    and above: "unat x + length ys \<le> parts_end (span_parts cells ds spans) (Suc k)"
  shows "\<exists>cells'. storage_write_at cells (de_buffer (ds ! unat (sp_descriptor (spans ! k)))) d ys = (Inr (), cells')
      \<and> side_written ds spans (unat x) ys cells cells'"
proof (intro exI conjI)
  let ?a = "span_address ds (spans ! k)"
  let ?cells' = "cells[?a := overwrite (cells ! ?a) (unat d) ys]"
  show "storage_write_at cells (de_buffer (ds ! unat (sp_descriptor (spans ! k)))) d ys = (Inr (), ?cells')"
    using span_access [OF ok fits k below d above] spans_ok_buffer [OF ok k] by simp
  have "spans_bytes ?cells' ds spans = overwrite (spans_bytes cells ds spans) (unat x) ys"
    using part_overwrite [of k "span_parts cells ds spans" "unat x" ys] k below above d
    by (simp add: span_bytes_def spans_bytes_update [OF ok k] flip: concat_span_parts)
  moreover have "same_shape cells ?cells'"
    using d above below k by (intro same_shape_update) (simp add: parts_end_Suc span_bytes_def)
  moreover have "?cells' ! a = cells ! a" if "a \<notin> span_address ds ` set spans" for a
    using that k by (intro nth_list_update_neq) auto
  ultimately show "side_written ds spans (unat x) ys cells ?cells'"
    by (simp add: side_written_def)
qed

lemma copy_to_loop_eq:
  assumes "spans_ok cells ds spans" "length (spans_bytes cells ds spans) < 2 ^ 64"
    "unat offset + length src \<le> length (spans_bytes cells ds spans)"
    "k \<le> length spans" "copied < length src"
    "parts_end (span_parts cells ds spans) k \<le> unat offset + copied"
    "k < length spans \<Longrightarrow> unat offset + copied \<le> parts_end (span_parts cells ds spans) (Suc k)"
  shows "\<exists>cells'. copy_to_loop cells ds spans offset src copied [k..<length spans] = (Inr (), cells')
    \<and> side_written ds spans (unat offset + copied) (drop copied src) cells cells'"
  using assms
proof (induction "length spans - k" arbitrary: k copied cells)
  case 0
  then show ?case
    by (simp add: parts_end_all concat_span_parts)
next
  case (Suc m)
  note ok = Suc.prems(1) and fits = Suc.prems(2) and room = Suc.prems(3) and left = Suc.prems(5)
  let ?xss = "span_parts cells ds spans"
  define x where "x = offset + of_nat copied"
  have k: "k < length spans" and idx: "[k..<length spans] = k # [Suc k..<length spans]"
    using Suc.hyps(2) by (simp_all add: upt_conv_Cons)
  have x: "unat x = unat offset + copied"
    using left room fits by (simp add: x_def logical_offset)
  have below: "parts_end ?xss k \<le> unat x" and above: "unat x \<le> parts_end ?xss (Suc k)"
    using Suc.prems(6,7) k x by auto
  obtain d where w: "span_window spans k x = Inr (d, parts_end ?xss (Suc k) - unat x)"
    and d: "unat d = unat x - parts_end ?xss k"
    using span_window_eq [OF ok k below above] by blast
  define count where "count = min (parts_end ?xss (Suc k) - unat x) (length src - copied)"
  define ys where "ys = take count (drop copied src)"
  have ys: "length ys = count" and inside: "unat x + length ys \<le> parts_end ?xss (Suc k)"
    using above by (simp_all add: ys_def count_def)
  obtain cells1 where wr: "storage_write_at cells (de_buffer (ds ! unat (sp_descriptor (spans ! k)))) d ys
      = (Inr (), cells1)" and one: "side_written ds spans (unat x) ys cells cells1"
    using write_in_span [OF ok fits k below d inside] by blast
  have step: "copy_to_loop cells ds spans offset src copied [k..<length spans] =
      (if copied + count = length src then (Inr (), cells1)
       else copy_to_loop cells1 ds spans offset src (copied + count) [Suc k..<length spans])"
    using w wr by (simp add: idx count_def ys_def flip: x_def)
  show ?case
  proof (cases "copied + count = length src")
    case False
    then have c: "count = parts_end ?xss (Suc k) - unat x" "count < length src - copied"
      using left unfolding count_def by linarith+
    have "same_shape cells cells1"
      using one by (simp add: side_written_def)
    note keep = spans_ok_shape [OF ok this]
    have "\<exists>cells'. copy_to_loop cells1 ds spans offset src (copied + count) [Suc k..<length spans] = (Inr (), cells')
        \<and> side_written ds spans (unat offset + (copied + count)) (drop (copied + count) src) cells1 cells'"
      using Suc.hyps(2) c above x k keep fits room parts_end_mono [of "Suc k" "Suc (Suc k)" ?xss]
      by (intro Suc.hyps(1)) simp_all
    moreover have "drop copied src = ys @ drop (copied + count) src"
      using append_take_drop_id [of count "drop copied src"] by (simp add: ys_def add.commute)
    ultimately show ?thesis
      using step False x ys room c(2) one
        side_written_trans [of ds spans "unat x" ys cells cells1 "drop (copied + count) src"]
      by (auto simp: add.assoc)
  qed (use step x one in \<open>simp add: ys_def\<close>)
qed

text \<open>The search for the first span a copy touches.\<close>

lemma first_touched_span_bounds:
  fixes offset :: u64
  assumes ok: "spans_ok cells ds spans"
  defines "k \<equiv> first_touched_span spans offset"
  shows "k \<le> length spans" and "parts_end (span_parts cells ds spans) k \<le> unat offset"
    and "k < length spans \<Longrightarrow> unat offset \<le> parts_end (span_parts cells ds spans) (Suc k)"
proof -
  show le: "k \<le> length spans"
    by (simp add: k_def first_touched_span_def length_takeWhile_le)
  show "parts_end (span_parts cells ds spans) k \<le> unat offset"
  proof (cases k)
    case (Suc j)
    have "j < length (takeWhile (\<lambda>s. sp_end s \<le> offset) spans)"
      using Suc by (simp add: k_def first_touched_span_def)
    then have "sp_end (spans ! j) \<le> offset"
      using nth_mem set_takeWhileD takeWhile_nth by metis
    then show ?thesis
      using Suc le spans_ok_end [OF ok, of j] by (simp add: word_le_nat_alt)
  qed simp
  show "unat offset \<le> parts_end (span_parts cells ds spans) (Suc k)" if "k < length spans"
    using nth_length_takeWhile [of "\<lambda>s. sp_end s \<le> offset" spans] that spans_ok_end [OF ok that]
    by (simp add: k_def first_touched_span_def word_le_nat_alt)
qed

lemma copy_from_descriptors_eq:
  assumes "spans_ok cells (cd_descriptors cd) (analysis_spans (cd_analysis cd) w)"
    and "length (spans_bytes cells (cd_descriptors cd) (analysis_spans (cd_analysis cd) w)) < 2 ^ 64"
    and "unat offset + n \<le> length (spans_bytes cells (cd_descriptors cd) (analysis_spans (cd_analysis cd) w))"
  shows "copy_from_descriptors cells cd w offset n =
     Inr (take n (drop (unat offset) (spans_bytes cells (cd_descriptors cd) (analysis_spans (cd_analysis cd) w))))"
  using copy_from_loop_eq [OF assms, of _ "[]"] first_touched_span_bounds [OF assms(1), of offset]
  by (simp add: copy_from_descriptors_def Let_def)

lemma copy_to_descriptors_eq:
  assumes "spans_ok cells (cd_descriptors cd) (analysis_spans (cd_analysis cd) w)"
    and "length (spans_bytes cells (cd_descriptors cd) (analysis_spans (cd_analysis cd) w)) < 2 ^ 64"
    and "unat offset + length src
      \<le> length (spans_bytes cells (cd_descriptors cd) (analysis_spans (cd_analysis cd) w))"
  shows "\<exists>cells'. copy_to_descriptors cells cd w offset src = (Inr (), cells')
     \<and> side_written (cd_descriptors cd) (analysis_spans (cd_analysis cd) w) (unat offset) src cells cells'"
  using copy_to_loop_eq [OF assms, of _ 0] first_touched_span_bounds [OF assms(1), of offset]
  by (auto simp: copy_to_descriptors_def Let_def side_written_def)

lemma checked_logical_range_eq:
  "checked_logical_range offset n len = (if unat offset + n \<le> unat len then Inr () else Inl BAE_OutOfBounds)"
proof (cases "n < 2 ^ 64")
  case True
  then have "unat (of_nat n :: u64) = n"
    by (rule unat_of_nat_u64)
  then show ?thesis
    using True unat_u64_less [of len] checked_add_SomeD [of offset "of_nat n"]
    by (auto simp: checked_logical_range_def checked_add_None word_less_nat_alt not_less split: option.splits)
next
  case False
  then show ?thesis
    using unat_u64_less [of len] by (simp add: checked_logical_range_def)
qed

section \<open>The ports of a well-formed chain\<close>

definition side_bytes :: "cells \<Rightarrow> chain_data \<Rightarrow> bool \<Rightarrow> u8 list" where
  "side_bytes cells cd w = spans_bytes cells (cd_descriptors cd) (analysis_spans (cd_analysis cd) w)"

definition side_len :: "chain_data \<Rightarrow> bool \<Rightarrow> u64" where
  "side_len cd w = (case analysis_validation (cd_analysis cd) of
     Inl _ \<Rightarrow> 0 | Inr l \<Rightarrow> if w then cl_writable_bytes l else cl_readable_bytes l)"

text \<open>
  Both sides have exact spans, the layout states their lengths, and no cell is on both sides.
\<close>

definition chain_wf :: "cells \<Rightarrow> chain_data \<Rightarrow> bool" where
  "chain_wf cells cd \<longleftrightarrow>
     (\<forall>w. spans_ok cells (cd_descriptors cd) (analysis_spans (cd_analysis cd) w)
        \<and> unat (side_len cd w) = length (side_bytes cells cd w))
     \<and> span_address (cd_descriptors cd) ` set (analysis_spans (cd_analysis cd) False)
        \<inter> span_address (cd_descriptors cd) ` set (analysis_spans (cd_analysis cd) True) = {}"

lemma chain_wf_side:
  assumes "chain_wf cells cd"
  shows "spans_ok cells (cd_descriptors cd) (analysis_spans (cd_analysis cd) w)"
    and "unat (side_len cd w) = length (side_bytes cells cd w)"
    and "length (side_bytes cells cd w) < 2 ^ 64"
  using assms unat_u64_less [of "side_len cd w"] by (auto simp: chain_wf_def)

lemma chain_wf_read:
  "chain_wf cells cd \<Longrightarrow> unat offset + n \<le> length (side_bytes cells cd w) \<Longrightarrow>
     copy_from_descriptors cells cd w offset n = Inr (take n (drop (unat offset) (side_bytes cells cd w)))"
  using copy_from_descriptors_eq chain_wf_side unfolding side_bytes_def by blast

text \<open>A write to one side keeps the chain well formed and leaves the other side as it was.\<close>

lemma side_written_other:
  assumes wf: "chain_wf cells cd"
    and wr: "side_written (cd_descriptors cd) (analysis_spans (cd_analysis cd) w) x ys cells cells'"
    and room: "x + length ys \<le> length (side_bytes cells cd w)"
  shows "side_bytes cells' cd w = overwrite (side_bytes cells cd w) x ys"
    and "side_bytes cells' cd (\<not> w) = side_bytes cells cd (\<not> w)"
    and "chain_wf cells' cd"
proof -
  show same: "side_bytes cells' cd w = overwrite (side_bytes cells cd w) x ys"
    using wr by (simp add: side_written_def side_bytes_def)
  have "span_address (cd_descriptors cd) s \<notin> span_address (cd_descriptors cd) ` set (analysis_spans (cd_analysis cd) w)"
    if "s \<in> set (analysis_spans (cd_analysis cd) (\<not> w))" for s
    using wf that by (cases w) (auto simp: chain_wf_def)
  then have "span_bytes cells' (cd_descriptors cd) s = span_bytes cells (cd_descriptors cd) s"
    if "s \<in> set (analysis_spans (cd_analysis cd) (\<not> w))" for s
    using wr that by (simp add: side_written_def span_bytes_def)
  then show other: "side_bytes cells' cd (\<not> w) = side_bytes cells cd (\<not> w)"
    unfolding side_bytes_def spans_bytes_def by (metis (no_types, lifting) map_cong)
  have "length (side_bytes cells' cd v) = length (side_bytes cells cd v)" for v
    using same other room by (cases "v = w") auto
  moreover have "same_shape cells cells'"
    using wr by (simp add: side_written_def)
  ultimately show "chain_wf cells' cd"
    using wf by (auto simp: chain_wf_def intro: spans_ok_shape(1))
qed

lemma chain_wf_write:
  assumes "chain_wf cells cd" "unat offset + length src \<le> length (side_bytes cells cd w)"
  shows "\<exists>cells'. copy_to_descriptors cells cd w offset src = (Inr (), cells') \<and> chain_wf cells' cd
     \<and> side_bytes cells' cd w = overwrite (side_bytes cells cd w) (unat offset) src
     \<and> side_bytes cells' cd (\<not> w) = side_bytes cells cd (\<not> w)"
  using copy_to_descriptors_eq [of cells cd w offset src] chain_wf_side [OF assms(1), of w] assms
    side_written_other [OF assms(1), of w "unat offset" src]
  unfolding side_bytes_def by blast

lemma side_len_eqs:
  "split_source_len s = side_len (ss_data s) False"
  "split_sink_len k = side_len (sn_data k) True"
  "device_readable_len c = side_len (dc_data c) False"
  "device_writable_len c = side_len (dc_data c) True"
  "writable_capacity t = side_len (sd_data t) True"
  by (simp_all add: side_len_def split_source_len_def split_sink_len_def device_readable_len_def
      device_writable_len_def writable_capacity_def chain_validation_def split: sum.split)

definition source_valid :: "split_shared \<times> split_source \<Rightarrow> bool" where
  "source_valid p \<longleftrightarrow> sh_epoch (fst p) = ss_epoch (snd p) \<and> chain_wf (sh_cells (fst p)) (ss_data (snd p))"

definition sink_valid :: "split_sink \<Rightarrow> split_shared \<Rightarrow> bool" where
  "sink_valid s sh \<longleftrightarrow> sh_epoch sh = sn_epoch s \<and> chain_wf (sh_cells sh) (sn_data s)"

interpretation split_in: checked_byte_source_port "\<lambda>p. transport_byte_source (split_readable p)"
  "\<lambda>p. side_bytes (sh_cells (fst p)) (ss_data (snd p)) False" source_valid
proof unfold_locales
  fix p offset n
  assume v: "source_valid p"
  note wf = v [unfolded source_valid_def, THEN conjunct2]
  show "unat (bs_len (transport_byte_source (split_readable p)))
      = length (side_bytes (sh_cells (fst p)) (ss_data (snd p)) False)"
    using chain_wf_side(2) [OF wf, of False]
    by (simp add: side_len_eqs transport_byte_source_def split_readable_def)
  show "bs_read_at (transport_byte_source (split_readable p)) offset n
      = Inr (take n (drop (unat offset) (side_bytes (sh_cells (fst p)) (ss_data (snd p)) False)))"
    if "unat offset + n \<le> length (side_bytes (sh_cells (fst p)) (ss_data (snd p)) False)"
    using v that chain_wf_side(2) [OF wf, of False] chain_wf_read [OF wf that]
    by (simp add: side_len_eqs transport_byte_source_def split_readable_def split_source_read_at_def source_valid_def
        split_source_check_epoch_def checked_logical_range_eq)
  show "bs_read_at (transport_byte_source (split_readable p)) offset n = Inl BE_OutOfBounds"
    if "length (side_bytes (sh_cells (fst p)) (ss_data (snd p)) False) < unat offset + n"
    using v that chain_wf_side(2) [OF wf, of False]
    by (simp add: side_len_eqs transport_byte_source_def split_readable_def split_source_read_at_def source_valid_def
        split_source_check_epoch_def checked_logical_range_eq)
qed (simp add: transport_byte_source_def split_readable_def)


lemma split_sink_write:
  assumes "sink_valid s sh"
  shows "unat offset + length src \<le> length (side_bytes (sh_cells sh) (sn_data s) True) \<Longrightarrow>
     \<exists>cells'. split_sink_write_at s sh offset src = (Inr (), sh\<lparr>sh_cells := cells'\<rparr>) \<and> chain_wf cells' (sn_data s)
       \<and> side_bytes cells' (sn_data s) True = overwrite (side_bytes (sh_cells sh) (sn_data s) True) (unat offset) src
       \<and> side_bytes cells' (sn_data s) False = side_bytes (sh_cells sh) (sn_data s) False"
    and "length (side_bytes (sh_cells sh) (sn_data s) True) < unat offset + length src \<Longrightarrow>
     split_sink_write_at s sh offset src = (Inl BAE_OutOfBounds, sh)"
  using assms chain_wf_side(2) [of "sh_cells sh" "sn_data s" True]
    chain_wf_write [of "sh_cells sh" "sn_data s" offset src True]
  by (auto simp: sink_valid_def split_sink_write_at_def split_sink_check_epoch_def side_len_eqs
      checked_logical_range_eq)

interpretation split_out: byte_sink_port "transport_byte_sink (split_writable s)"
  "\<lambda>sh. side_bytes (sh_cells sh) (sn_data s) True" "sink_valid s" for s
proof unfold_locales
  fix sh offset src
  assume v: "sink_valid s sh"
  show "unat (sk_len (transport_byte_sink (split_writable s)) sh)
      = length (side_bytes (sh_cells sh) (sn_data s) True)"
    using v chain_wf_side(2) [of "sh_cells sh" "sn_data s" True]
    by (simp add: transport_byte_sink_def split_writable_def sink_valid_def side_len_eqs)
  show "\<exists>sh'. sk_write_at (transport_byte_sink (split_writable s)) sh offset src = (Inr (), sh')
      \<and> sink_valid s sh'
      \<and> side_bytes (sh_cells sh') (sn_data s) True
          = overwrite (side_bytes (sh_cells sh) (sn_data s) True) (unat offset) src"
    if "unat offset + length src \<le> length (side_bytes (sh_cells sh) (sn_data s) True)"
    using split_sink_write(1) [OF v that] v
    by (auto simp: transport_byte_sink_def split_writable_def sink_valid_def)
  show "sk_write_at (transport_byte_sink (split_writable s)) sh offset src = (Inl BE_OutOfBounds, sh)"
    if "length (side_bytes (sh_cells sh) (sn_data s) True) < unat offset + length src"
    using split_sink_write(2) [OF v that] by (simp add: transport_byte_sink_def split_writable_def)
qed

end
