(* ===== verification/Split_Analysis.thy ===== *)
theory Split_Analysis
  imports Split_Ports
begin

text \<open>
  What the analysis of a descriptor table decides. The walk from the head ends well exactly when it
  follows a path of distinct usable descriptors to one without a successor, and the chain is valid
  exactly when that path visits the whole table and its regions form a valid layout. A valid chain
  over cells of its own is well formed, so its ports meet their contracts.
\<close>

section \<open>Paths\<close>

definition node :: "descriptor list \<Rightarrow> u16 \<Rightarrow> descriptor" where
  "node ds i = ds ! unat i"

definition node_ok :: "descriptor list \<Rightarrow> u16 \<Rightarrow> bool" where
  "node_ok ds i \<longleftrightarrow> unat i < length ds \<and> de_flags (node ds i) AND NOT KNOWN_DESCRIPTOR_FLAGS = 0
     \<and> de_flags (node ds i) AND VIRTQ_DESC_F_INDIRECT = 0 \<and> storage_is_mapped (de_buffer (node ds i))"

fun linked :: "descriptor list \<Rightarrow> u16 list \<Rightarrow> bool" where
  "linked ds [] \<longleftrightarrow> False"
| "linked ds [i] \<longleftrightarrow> de_flags (node ds i) AND VIRTQ_DESC_F_NEXT = 0"
| "linked ds (i # j # p) \<longleftrightarrow>
     de_flags (node ds i) AND VIRTQ_DESC_F_NEXT \<noteq> 0 \<and> de_next (node ds i) = j \<and> linked ds (j # p)"

definition descriptor_region :: "cells \<Rightarrow> descriptor \<Rightarrow> chain_region" where
  "descriptor_region cells d =
     (if descriptor_is_writable d then region_writable (descriptor_len cells d)
      else region_readable (descriptor_len cells d))"

definition node_region :: "cells \<Rightarrow> descriptor list \<Rightarrow> u16 \<Rightarrow> chain_region" where
  "node_region cells ds i = descriptor_region cells (node ds i)"

definition dir_total :: "cells \<Rightarrow> descriptor list \<Rightarrow> bool \<Rightarrow> u16 list \<Rightarrow> nat" where
  "dir_total cells ds w q =
     (\<Sum>i\<leftarrow>filter (\<lambda>i. descriptor_is_writable (node ds i) = w) q. unat (descriptor_len cells (node ds i)))"

definition node_span :: "cells \<Rightarrow> descriptor list \<Rightarrow> u16 list \<Rightarrow> nat \<Rightarrow> descriptor_span" where
  "node_span cells ds q k = \<lparr>sp_descriptor = q ! k,
     sp_end = of_nat (dir_total cells ds (descriptor_is_writable (node ds (q ! k))) (take (Suc k) q))\<rparr>"

text \<open>The locals of the walk after it has visited \<open>q\<close>.\<close>

definition walk_of :: "cells \<Rightarrow> descriptor list \<Rightarrow> u16 list \<Rightarrow> chain_walk" where
  "walk_of cells ds q =
     \<lparr>wk_visited = map (\<lambda>j. if j \<in> unat ` set q then 1 else 0) [0..<length ds],
      wk_spans = map (node_span cells ds q) [0..<length q],
      wk_regions = map (node_region cells ds) q,
      wk_readable_end = of_nat (dir_total cells ds False q),
      wk_writable_end = of_nat (dir_total cells ds True q)\<rparr>"

definition totals_fit :: "cells \<Rightarrow> descriptor list \<Rightarrow> u16 list \<Rightarrow> bool" where
  "totals_fit cells ds q \<longleftrightarrow> (\<forall>w. dir_total cells ds w q < 2 ^ 64)"

lemma dir_total_simps [simp]:
  "dir_total cells ds w [] = 0"
  "dir_total cells ds w (q @ r) = dir_total cells ds w q + dir_total cells ds w r"
  "dir_total cells ds w [i] =
     (if descriptor_is_writable (node ds i) = w then unat (descriptor_len cells (node ds i)) else 0)"
  by (simp_all add: dir_total_def)

lemma totals_fit_append: "totals_fit cells ds (q @ r) \<Longrightarrow> totals_fit cells ds q"
  unfolding totals_fit_def dir_total_simps by (meson add_lessD1)

lemma walk_of_Nil:
  "walk_of cells ds [] = \<lparr>wk_visited = replicate (length ds) 0, wk_spans = [], wk_regions = [],
     wk_readable_end = 0, wk_writable_end = 0\<rparr>"
  by (simp add: walk_of_def map_replicate_const)

lemma node_span_append: "k < length q \<Longrightarrow> node_span cells ds (q @ r) k = node_span cells ds q k"
  by (simp add: node_span_def nth_append)

lemma walk_marks:
  "unat i < length ds \<Longrightarrow> wk_visited (walk_of cells ds q) ! unat i = 0 \<longleftrightarrow> i \<notin> set q"
  by (auto simp: walk_of_def dest!: unat_eq_iff [THEN iffD2])

text \<open>One visit extends the path, unless the running length of its direction overflows.\<close>

lemma walk_descriptor_of:
  assumes fit: "totals_fit cells ds q" and ok: "node_ok ds i"
  shows "walk_descriptor cells (node ds i) i
      ((walk_of cells ds q)\<lparr>wk_visited := (wk_visited (walk_of cells ds q))[unat i := 1]\<rparr>)
    = (if totals_fit cells ds (q @ [i]) then Inr (walk_of cells ds (q @ [i])) else Inl MC_LengthOverflow)"
proof -
  let ?w = "descriptor_is_writable (node ds i)" and ?n = "descriptor_len cells (node ds i)"
  have add: "checked_add (of_nat (dir_total cells ds w q)) ?n =
      (if dir_total cells ds w q + unat ?n < 2 ^ 64 then Some (of_nat (dir_total cells ds w q + unat ?n)) else None)"
    for w
    using fit by (intro of_nat_add_checked) (simp add: totals_fit_def)
  have fits: "totals_fit cells ds (q @ [i]) \<longleftrightarrow> dir_total cells ds ?w q + unat ?n < 2 ^ 64"
    using fit by (auto simp: totals_fit_def)
  have marks: "(wk_visited (walk_of cells ds q))[unat i := 1] = wk_visited (walk_of cells ds (q @ [i]))"
    using ok by (intro nth_equalityI) (auto simp: walk_of_def nth_list_update node_ok_def)
  have spans: "wk_spans (walk_of cells ds (q @ [i]))
      = wk_spans (walk_of cells ds q) @ [node_span cells ds (q @ [i]) (length q)]"
    by (simp add: walk_of_def node_span_append)
  have last: "node_span cells ds (q @ [i]) (length q)
      = \<lparr>sp_descriptor = i, sp_end = of_nat (dir_total cells ds ?w q + unat ?n)\<rparr>"
    by (simp add: node_span_def)
  show ?thesis
  proof (cases ?w)
    case True
    then show ?thesis
      using ok add [of True] fits marks spans last
      by (simp add: walk_descriptor_def node_ok_def) (simp add: walk_of_def node_region_def descriptor_region_def)
  next
    case False
    then show ?thesis
      using ok add [of False] fits marks spans last
      by (simp add: walk_descriptor_def node_ok_def) (simp add: walk_of_def node_region_def descriptor_region_def)
  qed
qed

definition path_from :: "descriptor list \<Rightarrow> u16 \<Rightarrow> u16 list \<Rightarrow> bool" where
  "path_from ds i p \<longleftrightarrow> p \<noteq> [] \<and> hd p = i \<and> linked ds p \<and> (\<forall>j\<in>set p. node_ok ds j)"

lemma path_from_Cons:
  "path_from ds i (j # p) \<longleftrightarrow> j = i \<and> node_ok ds i \<and>
     (if de_flags (node ds i) AND VIRTQ_DESC_F_NEXT = 0 then p = [] else path_from ds (de_next (node ds i)) p)"
  by (cases p) (auto simp: path_from_def)

lemma path_from_unfold:
  "path_from ds i p \<longleftrightarrow> node_ok ds i \<and>
     (if de_flags (node ds i) AND VIRTQ_DESC_F_NEXT = 0 then p = [i]
      else \<exists>r. p = i # r \<and> path_from ds (de_next (node ds i)) r)"
proof (cases p)
  case Nil
  then show ?thesis
    by (simp add: path_from_def)
next
  case (Cons j r)
  then show ?thesis
    by (auto simp: path_from_Cons)
qed

lemma path_from_ex:
  "node_ok ds i \<Longrightarrow> de_flags (node ds i) AND VIRTQ_DESC_F_NEXT \<noteq> 0 \<Longrightarrow>
     (\<exists>p. path_from ds i p \<and> Q p) \<longleftrightarrow> (\<exists>r. path_from ds (de_next (node ds i)) r \<and> Q (i # r))"
  by (auto simp: path_from_unfold [of ds i])

lemma walk_descriptor_bad:
  "unat i < length ds \<Longrightarrow> \<not> node_ok ds i \<Longrightarrow> \<exists>e. walk_descriptor cells (node ds i) i wk = Inl e"
  by (auto simp: walk_descriptor_def node_ok_def)

lemma walk_chain_unfold:
  assumes "totals_fit cells ds q"
  shows "walk_chain cells ds i (walk_of cells ds q) = (Inr (), wk) \<longleftrightarrow>
     node_ok ds i \<and> i \<notin> set q \<and> totals_fit cells ds (q @ [i]) \<and>
     (if de_flags (node ds i) AND VIRTQ_DESC_F_NEXT = 0 then wk = walk_of cells ds (q @ [i])
      else walk_chain cells ds (de_next (node ds i)) (walk_of cells ds (q @ [i])) = (Inr (), wk))"
proof (cases "unat i < length ds \<and> i \<notin> set q")
  case True
  define marked where
    "marked = (walk_of cells ds q)\<lparr>wk_visited := (wk_visited (walk_of cells ds q))[unat i := 1]\<rparr>"
  have "length (wk_visited (walk_of cells ds q)) = length ds"
    by (simp add: walk_of_def)
  then have eq: "walk_chain cells ds i (walk_of cells ds q) =
      (case walk_descriptor cells (node ds i) i marked of
         Inl e \<Rightarrow> (Inl e, marked)
       | Inr wk' \<Rightarrow>
           if de_flags (node ds i) AND VIRTQ_DESC_F_NEXT = 0 then (Inr (), wk')
           else walk_chain cells ds (de_next (node ds i)) wk')"
    using True walk_marks [of i ds cells q]
    by (subst walk_chain.simps) (simp add: Let_def flip: node_def marked_def)
  show ?thesis
  proof (cases "node_ok ds i")
    case ok: True
    show ?thesis
      using True ok walk_descriptor_of [OF assms ok] by (auto simp: eq marked_def)
  next
    case False
    then obtain e where "walk_descriptor cells (node ds i) i marked = Inl e"
      using True walk_descriptor_bad by blast
    then show ?thesis
      using False by (simp add: eq)
  qed
next
  case False
  then show ?thesis
    using walk_marks [of i ds cells q] by (subst walk_chain.simps) (auto simp: node_ok_def)
qed

lemma walk_chain_ok:
  assumes "totals_fit cells ds q" "distinct q" "\<forall>j\<in>set q. unat j < length ds"
  shows "walk_chain cells ds i (walk_of cells ds q) = (Inr (), wk) \<longleftrightarrow>
     (\<exists>p. path_from ds i p \<and> distinct (q @ p) \<and> totals_fit cells ds (q @ p) \<and> wk = walk_of cells ds (q @ p))"
  using assms
proof (induction "length ds - length q" arbitrary: q i rule: less_induct)
  case less
  show ?case
  proof (cases "node_ok ds i \<and> i \<notin> set q \<and> totals_fit cells ds (q @ [i])
      \<and> de_flags (node ds i) AND VIRTQ_DESC_F_NEXT \<noteq> 0")
    case True
    have "distinct (map unat (q @ [i]))" "set (map unat (q @ [i])) \<subseteq> {..<length ds}"
      using less.prems True by (auto simp: distinct_map inj_on_def node_ok_def dest: unat_eq_iff [THEN iffD2])
    then have "length (q @ [i]) \<le> length ds"
      by (metis card_lessThan card_mono distinct_card finite_lessThan length_map)
    then have "walk_chain cells ds (de_next (node ds i)) (walk_of cells ds (q @ [i])) = (Inr (), wk) \<longleftrightarrow>
        (\<exists>p. path_from ds (de_next (node ds i)) p \<and> distinct ((q @ [i]) @ p)
          \<and> totals_fit cells ds ((q @ [i]) @ p) \<and> wk = walk_of cells ds ((q @ [i]) @ p))"
      using less.prems True by (intro less.hyps) (auto simp: node_ok_def)
    then show ?thesis
      using True by (simp add: walk_chain_unfold [OF less.prems(1)] path_from_ex)
  next
    case False
    then show ?thesis
      using less.prems totals_fit_append [of cells ds "q @ [i]"]
      by (simp only: walk_chain_unfold [OF less.prems(1)] path_from_unfold [of ds i]) (auto split: if_splits)
  qed
qed

section \<open>Valid chains\<close>

definition region_side :: "bool \<Rightarrow> region_direction" where
  "region_side w = (if w then DeviceWritable else DeviceReadable)"

lemma node_region_fields [simp]:
  "cr_bytes (node_region cells ds i) = descriptor_len cells (node ds i)"
  "cr_direction (node_region cells ds i) = region_side (descriptor_is_writable (node ds i))"
  by (simp_all add: node_region_def descriptor_region_def region_writable_def region_readable_def region_side_def)

lemma region_side_eq [simp]: "region_side v = region_side w \<longleftrightarrow> v = w"
  by (cases v; cases w) (simp_all add: region_side_def)

lemma dir_total_regions:
  "dir_total cells ds w p = region_total (filter (\<lambda>r. cr_direction r = region_side w) (map (node_region cells ds) p))"
  by (induction p) (auto simp: dir_total_def)

lemma chain_split_fits: "chain_split (map (node_region cells ds) p) R W \<Longrightarrow> totals_fit cells ds p"
  using chain_split_parts [of "map (node_region cells ds) p" R W]
    region_total_bound [of "map (node_region cells ds) p" R W]
  by (auto simp: totals_fit_def dir_total_regions region_side_def)

lemma layout_fits:
  "validate_chain_layout (map (node_region cells ds) p) m = Inr l \<Longrightarrow> totals_fit cells ds p"
  unfolding validate_chain_layout_Inr using chain_split_fits by blast

lemma analyze_chain_valid:
  "analyze_chain alloc cells ds head (replicate (length ds) 0) = Inr (CA_Valid l spans regions, marks) \<longleftrightarrow>
     alloc \<and> (\<exists>p. path_from ds head p \<and> distinct p \<and> length p = length ds
       \<and> validate_chain_layout (map (node_region cells ds) p) 0xFFFF = Inr l
       \<and> spans = map (node_span cells ds p) [0..<length p] \<and> regions = map (node_region cells ds) p
       \<and> marks = wk_visited (walk_of cells ds p))"
    (is "?lhs \<longleftrightarrow> alloc \<and> (\<exists>p. ?path p)")
proof -
  have start: "totals_fit cells ds []"
    by (simp add: totals_fit_def)
  note walk = walk_chain_ok [OF start, simplified, unfolded walk_of_Nil, of head]
  have fields: "wk_spans (walk_of cells ds p) = map (node_span cells ds p) [0..<length p]"
    "wk_regions (walk_of cells ds p) = map (node_region cells ds) p" for p
    by (simp_all add: walk_of_def)
  have "?lhs \<longleftrightarrow> alloc \<and> (\<exists>wk. walk_chain cells ds head \<lparr>wk_visited = replicate (length ds) 0, wk_spans = [],
        wk_regions = [], wk_readable_end = 0, wk_writable_end = 0\<rparr> = (Inr (), wk)
      \<and> length (wk_spans wk) = length ds \<and> validate_chain_layout (wk_regions wk) 0xFFFF = Inr l
      \<and> spans = wk_spans wk \<and> regions = wk_regions wk \<and> marks = wk_visited wk)"
    by (auto simp: analyze_chain_def split: prod.splits sum.splits if_splits)
  also have "\<dots> \<longleftrightarrow> alloc \<and> (\<exists>p. path_from ds head p \<and> distinct p \<and> totals_fit cells ds p
      \<and> length p = length ds \<and> validate_chain_layout (map (node_region cells ds) p) 0xFFFF = Inr l
      \<and> spans = map (node_span cells ds p) [0..<length p] \<and> regions = map (node_region cells ds) p
      \<and> marks = wk_visited (walk_of cells ds p))"
    by (auto simp: walk fields)
  also have "\<dots> \<longleftrightarrow> alloc \<and> (\<exists>p. ?path p)"
    using layout_fits by blast
  finally show ?thesis .
qed

text \<open>The cells of a table: every mapped descriptor has one of its own, and a cell fits a slice.\<close>

definition descriptors_own :: "cells \<Rightarrow> descriptor list \<Rightarrow> bool" where
  "descriptors_own cells ds \<longleftrightarrow>
     distinct (map (\<lambda>d. storage_address (de_buffer d)) (filter (\<lambda>d. storage_is_mapped (de_buffer d)) ds))
     \<and> (\<forall>d\<in>set ds. storage_is_mapped (de_buffer d) \<longrightarrow> storage_address (de_buffer d) < length cells)
     \<and> (\<forall>bytes\<in>set cells. length bytes < 2 ^ 64)"

definition node_address :: "descriptor list \<Rightarrow> u16 \<Rightarrow> nat" where
  "node_address ds i = storage_address (de_buffer (node ds i))"

lemma distinct_filter_nth:
  "distinct (map f (filter P xs)) \<Longrightarrow> i < length xs \<Longrightarrow> j < length xs \<Longrightarrow> P (xs ! i) \<Longrightarrow> P (xs ! j) \<Longrightarrow>
     f (xs ! i) = f (xs ! j) \<Longrightarrow> i = j"
proof (induction xs arbitrary: i j)
  case (Cons x xs)
  have "f x \<noteq> f (xs ! k)" if "P x" "k < length xs" "P (xs ! k)" for k
    using Cons.prems(1) that by auto
  note ne = this this [symmetric]
  then show ?case
    using Cons ne by (cases i; cases j) (auto split: if_splits)
qed simp

lemma node_address_inj:
  assumes "descriptors_own cells ds" "node_ok ds i" "node_ok ds j" "node_address ds i = node_address ds j"
  shows "i = j"
  using distinct_filter_nth [of "\<lambda>d. storage_address (de_buffer d)" "\<lambda>d. storage_is_mapped (de_buffer d)" ds
      "unat i" "unat j"] assms
  by (simp add: descriptors_own_def node_ok_def node_address_def node_def unat_eq_iff)

lemma descriptor_len_own:
  assumes "descriptors_own cells ds" "node_ok ds i"
  shows "node_address ds i < length cells"
    and "unat (descriptor_len cells (node ds i)) = length (cells ! node_address ds i)"
proof -
  have d: "node ds i \<in> set ds" and m: "storage_is_mapped (de_buffer (node ds i))"
    using assms(2) by (auto simp: node_ok_def node_def)
  then show a: "node_address ds i < length cells"
    using assms(1) by (auto simp: descriptors_own_def node_address_def)
  show "unat (descriptor_len cells (node ds i)) = length (cells ! node_address ds i)"
    using a m assms(1) nth_mem [OF a]
    by (cases "de_buffer (node ds i)")
      (auto simp: descriptor_len_def node_address_def descriptors_own_def intro!: unat_of_nat_u64)
qed

definition side_total :: "cells \<Rightarrow> descriptor list \<Rightarrow> u16 list \<Rightarrow> nat" where
  "side_total cells ds p = (\<Sum>i\<leftarrow>p. unat (descriptor_len cells (node ds i)))"

definition side_spans :: "cells \<Rightarrow> descriptor list \<Rightarrow> u16 list \<Rightarrow> descriptor_span list" where
  "side_spans cells ds p =
     map (\<lambda>k. \<lparr>sp_descriptor = p ! k, sp_end = of_nat (side_total cells ds (take (Suc k) p))\<rparr>) [0..<length p]"

lemma span_address_side_spans:
  "map (span_address ds) (side_spans cells ds p) = map (node_address ds) p"
  by (rule nth_equalityI)
    (simp_all add: side_spans_def span_address_def span_descriptor_def node_address_def node_def)

lemma span_bytes_side_spans:
  "map (span_bytes cells' ds) (side_spans cells ds p) = map (\<lambda>i. cells' ! node_address ds i) p"
  by (rule nth_equalityI)
    (simp_all add: side_spans_def span_bytes_def span_address_def span_descriptor_def node_address_def node_def)

lemma length_concat_nodes:
  assumes "descriptors_own cells ds" "\<forall>i\<in>set p. node_ok ds i"
  shows "length (concat (map (\<lambda>i. cells ! node_address ds i) p)) = side_total cells ds p"
  using assms by (induction p) (simp_all add: side_total_def descriptor_len_own)

lemma side_spans_ok:
  assumes own: "descriptors_own cells ds" and nodes: "\<forall>i\<in>set p. node_ok ds i" and dist: "distinct p"
    and fits: "side_total cells ds p < 2 ^ 64"
  shows "spans_ok cells ds (side_spans cells ds p)"
    and "length (spans_bytes cells ds (side_spans cells ds p)) = side_total cells ds p"
proof -
  have ends: "parts_end (map (\<lambda>i. cells ! node_address ds i) p) k = side_total cells ds (take k p)" for k
    using length_concat_nodes [OF own, of "take k p"] nodes
    by (auto simp: parts_end_def take_map dest: in_set_takeD)
  have "side_total cells ds (take k p) < 2 ^ 64" for k
    using fits ends parts_end_le [of "map (\<lambda>i. cells ! node_address ds i) p" k]
      length_concat_nodes [OF own nodes] by (metis le_less_trans)
  then have "unat (sp_end (side_spans cells ds p ! k)) = parts_end (map (span_bytes cells ds) (side_spans cells ds p)) (Suc k)"
    if "k < length p" for k
    using that by (simp add: span_bytes_side_spans ends) (simp add: side_spans_def unat_of_nat_u64)
  moreover have "distinct (map (span_address ds) (side_spans cells ds p))"
    using nodes dist node_address_inj [OF own]
    by (auto simp: span_address_side_spans distinct_map inj_on_def)
  moreover have "storage_is_mapped (de_buffer (span_descriptor ds s)) \<and> span_address ds s < length cells"
    if s: "s \<in> set (side_spans cells ds p)" for s
  proof -
    obtain k where "k < length p" "sp_descriptor s = p ! k"
      using s by (auto simp: side_spans_def)
    then have "node_ok ds (sp_descriptor s)"
      using nodes by simp
    then show ?thesis
      using descriptor_len_own(1) [OF own]
      by (auto simp: node_ok_def span_address_def span_descriptor_def node_address_def node_def)
  qed
  ultimately show "spans_ok cells ds (side_spans cells ds p)"
    by (simp add: spans_ok_def) (simp add: side_spans_def)
  show "length (spans_bytes cells ds (side_spans cells ds p)) = side_total cells ds p"
    by (simp add: spans_bytes_def span_bytes_side_spans length_concat_nodes [OF own nodes])
qed

text \<open>The spans of a path whose readable nodes \<open>R\<close> come before its writable nodes \<open>W\<close>.\<close>

lemma dir_total_side:
  "\<forall>i\<in>set p. descriptor_is_writable (node ds i) = w \<Longrightarrow> dir_total cells ds w p = side_total cells ds p"
  "\<forall>i\<in>set p. descriptor_is_writable (node ds i) \<noteq> w \<Longrightarrow> dir_total cells ds w p = 0"
  by (simp_all add: dir_total_def side_total_def filter_id_conv)

lemma node_spans_split:
  assumes R: "\<forall>i\<in>set R. \<not> descriptor_is_writable (node ds i)"
    and W: "\<forall>i\<in>set W. descriptor_is_writable (node ds i)"
  shows "map (node_span cells ds (R @ W)) [0..<length (R @ W)] = side_spans cells ds R @ side_spans cells ds W"
proof (rule nth_equalityI)
  fix k
  assume "k < length (map (node_span cells ds (R @ W)) [0..<length (R @ W)])"
  then have k: "k < length R + length W"
    by simp
  show "map (node_span cells ds (R @ W)) [0..<length (R @ W)] ! k = (side_spans cells ds R @ side_spans cells ds W) ! k"
  proof (cases "k < length R")
    case True
    have "dir_total cells ds False (take (Suc k) R) = side_total cells ds (take (Suc k) R)"
      using R by (intro dir_total_side) (auto dest: in_set_takeD)
    then show ?thesis
      using k True R by (simp add: node_span_def side_spans_def nth_append del: upt_Suc)
  next
    case False
    define j where "j = k - length R"
    have j: "k = length R + j" "j < length W"
      using k False by (simp_all add: j_def)
    have "dir_total cells ds True (take (Suc j) W) = side_total cells ds (take (Suc j) W)"
      using W by (intro dir_total_side) (auto dest: in_set_takeD)
    moreover have "dir_total cells ds True R = 0"
      using R by (intro dir_total_side) simp
    ultimately show ?thesis
      using j W by (simp add: node_span_def side_spans_def nth_append del: upt_Suc)
  qed
qed (simp add: side_spans_def)

lemma driver_chain_rawD:
  assumes "driver_chain_raw alloc cells ds head = Inr c"
  shows "cd_descriptors (dc_data c) = ds" and "dc_head c = head" and "ds \<noteq> []" and "length ds \<le> 32768"
    and "analyze_chain alloc cells ds head (replicate (length ds) 0) = Inr (cd_analysis (dc_data c), dc_slots c)"
  using assms
  by (auto simp: driver_chain_raw_def zeroed_u16_box_def MAX_SPLIT_QUEUE_SIZE_def split: if_splits)

text \<open>A path with a valid layout is its readable nodes followed by its writable nodes.\<close>

lemma path_sides:
  assumes "validate_chain_layout (map (node_region cells ds) p) 0xFFFF = Inr l"
  obtains R W where "p = R @ W" and "\<forall>i\<in>set R. \<not> descriptor_is_writable (node ds i)"
    and "\<forall>i\<in>set W. descriptor_is_writable (node ds i)"
    and "unat (cl_readable_descriptors l) = length R"
    and "unat (cl_readable_bytes l) = side_total cells ds R" and "side_total cells ds R < 2 ^ 64"
    and "unat (cl_writable_bytes l) = side_total cells ds W" and "side_total cells ds W < 2 ^ 64"
proof -
  obtain R' W' where split: "chain_split (map (node_region cells ds) p) R' W'" and l: "l = split_layout R' W'"
    and count: "length p \<le> 65535"
    using assms by (auto simp: validate_chain_layout_Inr)
  define R W where "R = take (length R') p" and "W = drop (length R') p"
  have p: "map (node_region cells ds) p = R' @ W'" and bounds: "region_total R' < 2 ^ 64" "region_total W' < 2 ^ 64"
    using split by (simp_all add: chain_split_def)
  have R': "map (node_region cells ds) R = R'" and W': "map (node_region cells ds) W = W'"
    unfolding R_def W_def take_map [symmetric] drop_map [symmetric] p by simp_all
  have total: "region_total (map (node_region cells ds) q) = side_total cells ds q" for q
    by (induction q) (simp_all add: side_total_def)
  have "length R' \<le> length p"
    using arg_cong [OF p, of length] by simp
  then have count: "unat (of_nat (length R') :: u16) = length R'" "length R' = length R"
    using count by (simp_all add: unat_of_nat take_bit_eq_mod R_def)
  have dirs: "\<forall>r\<in>set (map (node_region cells ds) R). cr_direction r = region_side False"
    "\<forall>r\<in>set (map (node_region cells ds) W). cr_direction r = region_side True"
    using split unfolding R' W' by (simp_all add: chain_split_def region_side_def)
  show thesis
  proof (rule that [of R W])
    show "p = R @ W"
      by (simp add: R_def W_def)
    show "\<forall>i\<in>set R. \<not> descriptor_is_writable (node ds i)" "\<forall>i\<in>set W. descriptor_is_writable (node ds i)"
      using dirs by simp_all
  qed (use bounds R' W' total [of R] total [of W] count in \<open>simp_all add: l split_layout_def unat_of_nat_u64\<close>)
qed

lemma valid_path_wf:
  assumes own: "descriptors_own cells ds" and path: "path_from ds head p" "distinct p"
    and layout: "validate_chain_layout (map (node_region cells ds) p) 0xFFFF = Inr l"
  shows "chain_wf cells \<lparr>cd_descriptors = ds,
     cd_analysis = CA_Valid l (map (node_span cells ds p) [0..<length p]) regions\<rparr>"
proof -
  obtain R W where p: "p = R @ W" and R: "\<forall>i\<in>set R. \<not> descriptor_is_writable (node ds i)"
    and W: "\<forall>i\<in>set W. descriptor_is_writable (node ds i)"
    and count: "unat (cl_readable_descriptors l) = length R"
    and bytes: "unat (cl_readable_bytes l) = side_total cells ds R" "side_total cells ds R < 2 ^ 64"
      "unat (cl_writable_bytes l) = side_total cells ds W" "side_total cells ds W < 2 ^ 64"
    using path_sides [OF layout] by blast
  have nodes: "\<forall>i\<in>set R. node_ok ds i" "\<forall>i\<in>set W. node_ok ds i" and dist: "distinct R" "distinct W"
    using path p by (auto simp: path_from_def)
  note okR = side_spans_ok [OF own nodes(1) dist(1) bytes(2)] and okW = side_spans_ok [OF own nodes(2) dist(2) bytes(4)]
  define cd where "cd = \<lparr>cd_descriptors = ds,
     cd_analysis = CA_Valid l (map (node_span cells ds p) [0..<length p]) regions\<rparr>"
  have spans: "analysis_spans (cd_analysis cd) w = side_spans cells ds (if w then W else R)" for w
    using node_spans_split [OF R W, of cells] count
    by (simp add: cd_def p Let_def) (simp add: side_spans_def)
  have "node_address ds i \<noteq> node_address ds j" if "i \<in> set R" "j \<in> set W" for i j
    using node_address_inj [OF own, of i j] nodes path(2) p that by auto
  then have "node_address ds ` set R \<inter> node_address ds ` set W = {}"
    by blast
  moreover have "span_address ds ` set (side_spans cells ds q) = node_address ds ` set q" for q
    using arg_cong [OF span_address_side_spans [of ds cells q], of set] by simp
  moreover have "cd_descriptors cd = ds" "analysis_validation (cd_analysis cd) = Inr l"
    by (simp_all add: cd_def)
  ultimately show ?thesis
    unfolding cd_def [symmetric] chain_wf_def side_bytes_def side_len_def spans
    using okR okW bytes by simp
qed

lemma driver_chain_wf:
  assumes "descriptors_own cells ds" "driver_chain_raw alloc cells ds head = Inr c"
  shows "chain_wf cells (dc_data c)"
proof (cases "cd_analysis (dc_data c)")
  case (CA_Valid l spans regions)
  then obtain p where "path_from ds head p" "distinct p"
    "validate_chain_layout (map (node_region cells ds) p) 0xFFFF = Inr l"
    "spans = map (node_span cells ds p) [0..<length p]"
    using driver_chain_rawD(5) [OF assms(2)] by (auto simp: analyze_chain_valid)
  then show ?thesis
    using valid_path_wf [OF assms(1)] driver_chain_rawD(1) [OF assms(2)] CA_Valid
    by (cases "dc_data c") auto
next
  case (CA_Invalid e)
  then show ?thesis
    by (simp add: chain_wf_def spans_ok_def side_len_def side_bytes_def spans_bytes_def)
qed

section \<open>Direct chains\<close>

lemma link_descriptor_flags:
  "de_flags (link_descriptor n i d) AND NOT KNOWN_DESCRIPTOR_FLAGS = 0"
  "de_flags (link_descriptor n i d) AND VIRTQ_DESC_F_INDIRECT = 0"
  "de_flags (link_descriptor n i d) AND VIRTQ_DESC_F_NEXT = 0 \<longleftrightarrow> n \<le> i + 1"
  "descriptor_is_writable (link_descriptor n i d) = descriptor_is_writable d"
  by (simp_all add: link_descriptor_def descriptor_flags descriptor_is_writable_def Let_def and.assoc
      bit.conj_disj_distrib2)

lemma link_descriptor_fields [simp]:
  "de_buffer (link_descriptor n i d) = de_buffer d"
  "i + 1 < n \<Longrightarrow> de_next (link_descriptor n i d) = of_nat (i + 1)"
  by (simp_all add: link_descriptor_def Let_def)

lemma descriptor_region_link: "descriptor_region cells (link_descriptor n i d) = descriptor_region cells d"
  by (simp add: descriptor_region_def descriptor_len_def link_descriptor_flags(4))

lemma length_link_descriptors [simp]: "length (link_descriptors ds) = length ds"
  by (simp add: link_descriptors_def)

lemma link_descriptors_Nil [simp]: "link_descriptors ds = [] \<longleftrightarrow> ds = []"
  by (simp add: link_descriptors_def)

lemma link_node:
  assumes "i < length ds" "length ds \<le> 32768"
  shows "node (link_descriptors ds) (of_nat i) = link_descriptor (length ds) i (ds ! i)"
    and "unat (of_nat i :: u16) = i"
proof -
  show "unat (of_nat i :: u16) = i"
    using assms by (simp add: unat_of_nat take_bit_eq_mod)
  then show "node (link_descriptors ds) (of_nat i) = link_descriptor (length ds) i (ds ! i)"
    using assms(1) by (simp add: node_def link_descriptors_def)
qed

lemma link_node_ok:
  assumes "i < length ds" "length ds \<le> 32768"
  shows "node_ok (link_descriptors ds) (of_nat i) \<longleftrightarrow> storage_is_mapped (de_buffer (ds ! i))"
  using assms by (simp add: node_ok_def link_node [OF assms] link_descriptor_flags)

text \<open>The only path through a relinked table is the table in order.\<close>

lemma link_path:
  assumes "k < length ds" "length ds \<le> 32768"
  shows "path_from (link_descriptors ds) (of_nat k) p \<longleftrightarrow>
     p = map of_nat [k..<length ds] \<and> (\<forall>i\<in>{k..<length ds}. storage_is_mapped (de_buffer (ds ! i)))"
  using assms(1)
proof (induction "length ds - k" arbitrary: k p)
  case (Suc m)
  note node = link_node [OF Suc.prems assms(2)] and ok = link_node_ok [OF Suc.prems assms(2)]
  have range: "{k..<length ds} = insert k {Suc k..<length ds}" "[k..<length ds] = k # [Suc k..<length ds]"
    using Suc.prems by (auto simp: upt_conv_Cons)
  show ?case
  proof (cases "k + 1 < length ds")
    case True
    then have "path_from (link_descriptors ds) (of_nat (Suc k)) r \<longleftrightarrow>
        r = map of_nat [Suc k..<length ds] \<and> (\<forall>i\<in>{Suc k..<length ds}. storage_is_mapped (de_buffer (ds ! i)))" for r
      using Suc.hyps(2) by (intro Suc.hyps(1)) simp_all
    then show ?thesis
      using True node ok
      by (subst path_from_unfold) (auto simp: range link_descriptor_flags add.commute)
  next
    case False
    then have "length ds = Suc k"
      using Suc.prems by simp
    then show ?thesis
      using node ok by (subst path_from_unfold) (auto simp: link_descriptor_flags)
  qed
qed simp

lemma link_regions:
  assumes "length ds \<le> 32768"
  shows "map (node_region cells (link_descriptors ds)) (map of_nat [0..<length ds]) = map (descriptor_region cells) ds"
  by (rule nth_equalityI) (simp_all add: node_region_def link_node(1) [OF _ assms] descriptor_region_link)

lemma distinct_of_nat_u16: "n \<le> 65536 \<Longrightarrow> distinct (map (of_nat :: nat \<Rightarrow> u16) [0..<n])"
  by (auto simp: distinct_map inj_on_def word_of_nat_eq_iff take_bit_eq_mod)

lemma driver_chain_direct_Inr:
  "driver_chain_direct alloc cells ds = Inr c \<longleftrightarrow>
     (\<exists>l. driver_chain_raw alloc cells (link_descriptors ds) 0 = Inr c \<and> chain_validation c = Inr l)"
proof (cases "driver_chain_raw alloc cells (link_descriptors ds) 0")
  case (Inr b)
  then show ?thesis
    by (cases "chain_validation b") (auto simp: driver_chain_direct_def)
qed (simp add: driver_chain_direct_def)

lemma raw_valid:
  "(\<exists>c. driver_chain_raw alloc cells ds head = Inr c \<and> chain_validation c = Inr l) \<longleftrightarrow>
     alloc \<and> length ds \<le> 32768 \<and>
     (\<exists>p. path_from ds head p \<and> distinct p \<and> length p = length ds
        \<and> validate_chain_layout (map (node_region cells ds) p) 0xFFFF = Inr l)"
proof -
  have "(\<exists>c. driver_chain_raw alloc cells ds head = Inr c \<and> chain_validation c = Inr l) \<longleftrightarrow>
      alloc \<and> ds \<noteq> [] \<and> length ds \<le> 32768 \<and>
      (\<exists>spans regions marks. analyze_chain alloc cells ds head (replicate (length ds) 0)
         = Inr (CA_Valid l spans regions, marks))"
  proof -
    have valid: "analysis_validation a = Inr l \<longleftrightarrow> (\<exists>spans regions. a = CA_Valid l spans regions)" for a
      by (cases a) auto
    show ?thesis
      by (auto simp: driver_chain_raw_def zeroed_u16_box_def MAX_SPLIT_QUEUE_SIZE_def chain_validation_def
          valid analyze_chain_def [of False])
  qed
  moreover have "path_from ds head p \<Longrightarrow> ds \<noteq> []" for p
    by (auto simp: path_from_unfold node_ok_def)
  ultimately show ?thesis
    unfolding analyze_chain_valid by blast
qed

text \<open>Descriptors made one after another own their cells.\<close>

lemma descriptor_raw_own:
  assumes "descriptors_own cells ds" "length bytes < 2 ^ 64" "descriptor_raw cells bytes flags nxt = (d, cells')"
  shows "descriptors_own cells' (ds @ [d])"
  using assms
  by (auto simp: descriptors_own_def descriptor_raw_def storage_mapped_def less_Suc_eq)

lemma descriptors_own_buffers:
  "descriptors_own cells ds \<longleftrightarrow>
     distinct (map storage_address (filter storage_is_mapped (map de_buffer ds)))
     \<and> (\<forall>b\<in>set (map de_buffer ds). storage_is_mapped b \<longrightarrow> storage_address b < length cells)
     \<and> (\<forall>bytes\<in>set cells. length bytes < 2 ^ 64)"
  by (simp add: descriptors_own_def filter_map comp_def)

lemma link_descriptors_own: "descriptors_own cells ds \<Longrightarrow> descriptors_own cells (link_descriptors ds)"
proof -
  have "map de_buffer (link_descriptors ds) = map de_buffer ds"
    by (rule nth_equalityI) (simp_all add: link_descriptors_def)
  then show "descriptors_own cells ds \<Longrightarrow> descriptors_own cells (link_descriptors ds)"
    unfolding descriptors_own_buffers by simp
qed

section \<open>One exchange over a chain\<close>

lemma read_device_writable_eq:
  "chain_wf cells (dc_data c) \<Longrightarrow> read_device_writable cells c offset n =
     (if unat offset + n \<le> length (side_bytes cells (dc_data c) True)
      then Inr (take n (drop (unat offset) (side_bytes cells (dc_data c) True))) else Inl BAE_OutOfBounds)"
  using chain_wf_side(2) [of cells "dc_data c" True]
  by (simp add: read_device_writable_def checked_logical_range_eq side_len_eqs chain_wf_read)

lemma split_source_read_eq:
  "chain_wf (sh_cells sh) (ss_data s) \<Longrightarrow> sh_epoch sh = ss_epoch s \<Longrightarrow> split_source_read_at sh s offset n =
     (if unat offset + n \<le> length (side_bytes (sh_cells sh) (ss_data s) False)
      then Inr (take n (drop (unat offset) (side_bytes (sh_cells sh) (ss_data s) False))) else Inl BAE_OutOfBounds)"
  using chain_wf_side(2) [of "sh_cells sh" "ss_data s" False]
  by (simp add: split_source_read_at_def split_source_check_epoch_def checked_logical_range_eq side_len_eqs
      chain_wf_read)

lemma write_device_readable_ok:
  assumes "chain_wf cells (dc_data c)" "unat offset + length src \<le> unat (device_readable_len c)"
  shows "\<exists>cells'. write_device_readable cells c offset src = (Inr (), cells') \<and> chain_wf cells' (dc_data c)
     \<and> side_bytes cells' (dc_data c) False = overwrite (side_bytes cells (dc_data c) False) (unat offset) src
     \<and> side_bytes cells' (dc_data c) True = side_bytes cells (dc_data c) True"
  using chain_wf_write [OF assms(1), of offset src False] chain_wf_side(2) [OF assms(1), of False] assms(2)
  by (simp add: write_device_readable_def checked_logical_range_eq side_len_eqs)

section \<open>Properties\<close>

text \<open>C26: A descriptor table is accepted exactly when it is one well-formed chain. Building a chain
  from a raw table and a head gives a valid layout precisely when the allocations succeed, the table
  has at most 32768 entries, and following the \<open>next\<close> links from the head visits every entry once:
  each visited entry is in the table, has only known flags, is not indirect and is mapped, the last
  one has no successor, and the visited regions form that layout. A loop, a dangling index, an
  unreachable entry or a length that overflows therefore never yields a valid chain.\<close>

theorem raw_chain_valid_exactly:
  "(\<exists>c. driver_chain_raw alloc cells ds head = Inr c \<and> chain_validation c = Inr l) \<longleftrightarrow>
     alloc \<and> length ds \<le> 32768 \<and>
     (\<exists>p. path_from ds head p \<and> distinct p \<and> length p = length ds
        \<and> validate_chain_layout (map (node_region cells ds) p) 0xFFFF = Inr l)"
  by (rule raw_valid)

text \<open>C27: Direct chains. Linking descriptors in vector order and building the chain succeeds precisely
  when the allocations do, there are at most 32768 descriptors, all of them are mapped and their
  regions in that order form a valid layout; the chain then carries that layout.\<close>

theorem direct_chain_valid_exactly:
  "(\<exists>c. driver_chain_direct alloc cells ds = Inr c \<and> chain_validation c = Inr l) \<longleftrightarrow>
     alloc \<and> length ds \<le> 32768 \<and> list_all (\<lambda>d. storage_is_mapped (de_buffer d)) ds
     \<and> validate_chain_layout (map (descriptor_region cells) ds) 0xFFFF = Inr l"
proof (cases "ds = [] \<or> 32768 < length ds")
  case True
  then show ?thesis
    by (auto simp: driver_chain_direct_Inr driver_chain_raw_def MAX_SPLIT_QUEUE_SIZE_def validate_chain_layout_def)
next
  case False
  then have n: "0 < length ds" "length ds \<le> 32768"
    by auto
  have "(\<forall>i\<in>{0..<length ds}. storage_is_mapped (de_buffer (ds ! i)))
      \<longleftrightarrow> list_all (\<lambda>d. storage_is_mapped (de_buffer d)) ds"
    by (auto simp: list_all_length)
  then have path: "path_from (link_descriptors ds) 0 p \<longleftrightarrow>
      p = map of_nat [0..<length ds] \<and> list_all (\<lambda>d. storage_is_mapped (de_buffer d)) ds" for p
    using link_path [OF n] by simp
  have "(\<exists>c. driver_chain_direct alloc cells ds = Inr c \<and> chain_validation c = Inr l) \<longleftrightarrow>
      (\<exists>c. driver_chain_raw alloc cells (link_descriptors ds) 0 = Inr c \<and> chain_validation c = Inr l)"
    by (auto simp: driver_chain_direct_Inr)
  then show ?thesis
    unfolding raw_valid path
    using n distinct_of_nat_u16 [of "length ds"] link_regions [OF n(2), of cells] by auto
qed

text \<open>C28: A chain carries a request and its response, across however many descriptors they span. For
  every chain the driver builds over its own cells: the request bytes the driver writes are what the
  device's source reads, the response bytes the device's sink writes are what the driver reads back,
  and writing the response leaves the request as it was. Once the queue has moved to another epoch,
  the source and the sink of the chain refuse every access and touch nothing.\<close>

theorem chain_exchange:
  assumes own: "descriptors_own cells ds" and built: "driver_chain_raw alloc cells ds head = Inr c"
    and req: "unat off + length req \<le> unat (device_readable_len c)"
    and resp: "unat off' + length resp \<le> unat (device_writable_len c)"
    and stale: "epoch' \<noteq> epoch"
  shows "\<exists>cells1 cells2. write_device_readable cells c off req = (Inr (), cells1)
      \<and> split_source_read_at \<lparr>sh_cells = cells1, sh_epoch = epoch\<rparr>
           \<lparr>ss_data = dc_data c, ss_epoch = epoch\<rparr> off (length req) = Inr req
      \<and> split_sink_write_at \<lparr>sn_data = dc_data c, sn_epoch = epoch\<rparr>
           \<lparr>sh_cells = cells1, sh_epoch = epoch\<rparr> off' resp = (Inr (), \<lparr>sh_cells = cells2, sh_epoch = epoch\<rparr>)
      \<and> read_device_writable cells2 c off' (length resp) = Inr resp
      \<and> split_source_read_at \<lparr>sh_cells = cells2, sh_epoch = epoch\<rparr>
           \<lparr>ss_data = dc_data c, ss_epoch = epoch\<rparr> off (length req) = Inr req
      \<and> split_source_read_at \<lparr>sh_cells = cells2, sh_epoch = epoch'\<rparr>
           \<lparr>ss_data = dc_data c, ss_epoch = epoch\<rparr> off (length req) = Inl BAE_Reset
      \<and> split_sink_write_at \<lparr>sn_data = dc_data c, sn_epoch = epoch\<rparr>
           \<lparr>sh_cells = cells2, sh_epoch = epoch'\<rparr> off' resp
         = (Inl BAE_Reset, \<lparr>sh_cells = cells2, sh_epoch = epoch'\<rparr>)"
proof -
  let ?cd = "dc_data c" and ?src = "\<lparr>ss_data = dc_data c, ss_epoch = epoch\<rparr>"
    and ?snk = "\<lparr>sn_data = dc_data c, sn_epoch = epoch\<rparr>"
  have wf: "chain_wf cells ?cd"
    by (rule driver_chain_wf [OF own built])
  have room: "unat off + length req \<le> length (side_bytes cells ?cd False)"
    "unat off' + length resp \<le> length (side_bytes cells ?cd True)"
    using req resp chain_wf_side(2) [OF wf] by (simp_all add: side_len_eqs)
  obtain cells1 where c1: "write_device_readable cells c off req = (Inr (), cells1)" "chain_wf cells1 ?cd"
      "side_bytes cells1 ?cd False = overwrite (side_bytes cells ?cd False) (unat off) req"
      "side_bytes cells1 ?cd True = side_bytes cells ?cd True"
    using write_device_readable_ok [OF wf req] by blast
  have "sink_valid ?snk \<lparr>sh_cells = cells1, sh_epoch = epoch\<rparr>"
    using c1(2) by (simp add: sink_valid_def)
  then obtain cells2 where c2: "split_sink_write_at ?snk \<lparr>sh_cells = cells1, sh_epoch = epoch\<rparr> off' resp
        = (Inr (), \<lparr>sh_cells = cells2, sh_epoch = epoch\<rparr>)" "chain_wf cells2 ?cd"
      "side_bytes cells2 ?cd True = overwrite (side_bytes cells1 ?cd True) (unat off') resp"
      "side_bytes cells2 ?cd False = side_bytes cells1 ?cd False"
    using split_sink_write(1) [of ?snk "\<lparr>sh_cells = cells1, sh_epoch = epoch\<rparr>" off' resp] room(2) c1(4) by auto
  show ?thesis
    using c1 c2 room stale
    by (intro exI [of _ cells1] exI [of _ cells2])
      (simp add: split_source_read_eq read_device_writable_eq take_drop_overwrite_same
        split_source_read_at_def [of "\<lparr>sh_cells = cells2, sh_epoch = epoch'\<rparr>"] split_source_check_epoch_def
        split_sink_write_at_def [of _ "\<lparr>sh_cells = cells2, sh_epoch = epoch'\<rparr>"] split_sink_check_epoch_def)
qed

text \<open>A request of three bytes over two descriptors and a response descriptor of two bytes.\<close>

definition sample_cells :: cells where
  "sample_cells = [[0, 0], [0, 0, 0], [0, 0]]"

definition sample_descriptors :: "descriptor list" where
  "sample_descriptors =
     [\<lparr>de_buffer = Mapped 2, de_flags = 2, de_next = 0\<rparr>, \<lparr>de_buffer = Mapped 0, de_flags = 1, de_next = 2\<rparr>,
      \<lparr>de_buffer = Mapped 1, de_flags = 1, de_next = 0\<rparr>]"

definition sample_chain :: driver_chain where
  "sample_chain = \<lparr>dc_data = \<lparr>cd_descriptors = sample_descriptors,
     cd_analysis = CA_Valid
       \<lparr>cl_descriptor_count = 3, cl_readable_descriptors = 2, cl_writable_descriptors = 1,
        cl_readable_bytes = 5, cl_writable_bytes = 2\<rparr>
       [\<lparr>sp_descriptor = 1, sp_end = 2\<rparr>, \<lparr>sp_descriptor = 2, sp_end = 5\<rparr>, \<lparr>sp_descriptor = 0, sp_end = 2\<rparr>]
       [region_readable 2, region_readable 3, region_writable 2]\<rparr>,
     dc_slots = [1, 1, 1], dc_head = 1\<rparr>"

lemma sample_chain_built: "driver_chain_raw True sample_cells sample_descriptors 1 = Inr sample_chain"
  by (simp add: driver_chain_raw_def MAX_SPLIT_QUEUE_SIZE_def zeroed_u16_box_def analyze_chain_def sample_chain_def
      sample_cells_def sample_descriptors_def walk_chain.simps walk_descriptor_def descriptor_flags
      descriptor_is_writable_def descriptor_len_def checked_add_def region_writable_def region_readable_def
      validate_chain_layout_def layout_acc_init_def layout_step_def layout_result_def)

lemma sample_chain_room: "device_readable_len sample_chain = 5" "device_writable_len sample_chain = 2"
  by (simp_all add: device_readable_len_def device_writable_len_def chain_validation_def sample_chain_def)

theorem chain_exchange_witness:
  "\<exists>cells1 cells2. write_device_readable sample_cells sample_chain 1 [7, 8, 9] = (Inr (), cells1)
      \<and> split_source_read_at \<lparr>sh_cells = cells1, sh_epoch = 1\<rparr>
           \<lparr>ss_data = dc_data sample_chain, ss_epoch = 1\<rparr> 1 3 = Inr [7, 8, 9]
      \<and> split_sink_write_at \<lparr>sn_data = dc_data sample_chain, sn_epoch = 1\<rparr>
           \<lparr>sh_cells = cells1, sh_epoch = 1\<rparr> 0 [5, 6] = (Inr (), \<lparr>sh_cells = cells2, sh_epoch = 1\<rparr>)
      \<and> read_device_writable cells2 sample_chain 0 2 = Inr [5, 6]"
proof -
  have own: "descriptors_own sample_cells sample_descriptors"
    by (simp add: descriptors_own_def sample_cells_def sample_descriptors_def)
  have req: "unat (1 :: u64) + length [7 :: u8, 8, 9] \<le> unat (device_readable_len sample_chain)"
    and resp: "unat (0 :: u64) + length [5 :: u8, 6] \<le> unat (device_writable_len sample_chain)"
    by (simp_all add: sample_chain_room)
  have len: "length [7 :: u8, 8, 9] = 3" "length [5 :: u8, 6] = 2" and stale: "(2 :: u64) \<noteq> 1"
    by simp_all
  show ?thesis
    using chain_exchange [OF own sample_chain_built req resp stale, unfolded len] by blast
qed

end
