(* ===== verification/Split_Properties.thy ===== *)
theory Split_Properties
  imports Split_Runs Split_Analysis "HOL-Library.Multiset"
begin

text \<open>
  Runs of a split queue: the driver publishes and takes back chains, the device takes and completes
  them, either side resets, and the control side configures. The properties hold after every run,
  in any order of the operations and with any failing allocation.
\<close>

section \<open>Every chain the queue holds\<close>

definition aq_all :: "abs_queue \<Rightarrow> (chain_id \<times> chain_content) multiset" where
  "aq_all A = mset (aq_available A) + mset_set (aq_flight A) + mset (map (\<lambda>(i, n, b). (i, b)) (aq_used A))"

text \<open>The iterator over reclaimed chains, run to its end.\<close>

lemma reclaimed_next_length: "reclaimed_next rs = Some (c, rs') \<Longrightarrow> length rs' < length rs"
  by (induction rs rule: reclaimed_next.induct) auto

function reclaimed_all :: "chain_record option list \<Rightarrow> driver_chain reclaimed_chain list" where
  "reclaimed_all rs = (case reclaimed_next rs of None \<Rightarrow> [] | Some (c, rs') \<Rightarrow> c # reclaimed_all rs')"
  by pat_completeness auto
termination
  by (relation "measure length") (auto dest: reclaimed_next_length)

declare reclaimed_all.simps [simp del]

definition reclaimed_entry :: "driver_chain reclaimed_chain \<Rightarrow> chain_id \<times> chain_content" where
  "reclaimed_entry c = (rcl_id c, chain_body (rcl_chain c))"

lemma reclaimed_all_simps [simp]:
  "reclaimed_all [] = []"
  "reclaimed_all (None # rs) = reclaimed_all rs"
  "reclaimed_all (Some rc # rs) = \<lparr>rcl_id = rc_id rc, rcl_chain = rc_chain rc\<rparr> # reclaimed_all rs"
  by (simp_all add: reclaimed_all.simps [of "_ # _"] reclaimed_all.simps [of "[]"] reclaimed_all.simps [of rs])

lemma reclaimed_all_eq:
  "map reclaimed_entry (reclaimed_all rs)
     = map (\<lambda>x. (rc_id (the x), chain_body (rc_chain (the x)))) (filter (\<lambda>x. x \<noteq> None) rs)"
proof (induction rs)
  case (Cons x rs)
  then show ?case
    by (cases x) (simp_all add: reclaimed_entry_def)
qed simp

lemma filter_nth: "filter P xs = map ((!) xs) (filter (\<lambda>i. P (xs ! i)) [0..<length xs])"
  using filter_map [of P "(!) xs" "[0..<length xs]"] by (simp add: map_nth comp_def)

lemma heads_mset:
  assumes inv: "ring_inv epoch st"
  shows "mset_set {h. unat h < length (rs_records st) \<and> rs_records st ! unat h \<noteq> None} =
     mset (avail_heads st) + mset_set {h. in_state (rs_records st) CS_InFlight h} + mset (map ue_head (used_list st))"
proof -
  let ?in = "\<lambda>s. {h. in_state (rs_records st) s h}"
  have lists: "ring_lists (rs_records st) (avail_heads st) (used_list st)"
    by (rule ring_invD(8) [OF inv])
  have "set (avail_heads st) = ?in CS_Available" "set (map ue_head (used_list st)) = ?in CS_Used"
    using lists by (auto simp: ring_lists_def)
  then have "mset (avail_heads st) = mset_set (?in CS_Available)" "mset (map ue_head (used_list st)) = mset_set (?in CS_Used)"
    using lists mset_set_set [of "avail_heads st"] mset_set_set [of "map ue_head (used_list st)"]
    by (simp_all add: ring_lists_def)
  moreover have "{h. unat h < length (rs_records st) \<and> rs_records st ! unat h \<noteq> None}
      = ?in CS_Available \<union> ?in CS_InFlight \<union> ?in CS_Used"
    by (auto simp: in_state_def) (metis chain_state.exhaust)
  moreover have "?in CS_Available \<inter> ?in CS_InFlight = {}" "(?in CS_Available \<union> ?in CS_InFlight) \<inter> ?in CS_Used = {}"
    by (auto simp: in_state_def)
  ultimately show ?thesis
    by (simp add: mset_set_Union)
qed

lemma all_entries:
  assumes inv: "ring_inv epoch st"
  shows "aq_all (storage_abs st)
     = image_mset (entry_of (rs_records st)) (mset_set {h. unat h < length (rs_records st) \<and> rs_records st ! unat h \<noteq> None})"
proof -
  let ?F = "{h. in_state (rs_records st) CS_InFlight h}"
  have "inj_on (entry_of (rs_records st)) ?F"
    using entry_inj [OF inv] by (auto simp: inj_on_def)
  then have flight: "mset_set (aq_flight (storage_abs st)) = image_mset (entry_of (rs_records st)) (mset_set ?F)"
    by (simp add: storage_abs_def image_mset_mset_set)
  have "(ue_id u, snd (entry_of (rs_records st) (ue_head u))) = entry_of (rs_records st) (ue_head u)"
    if "u \<in> set (used_list st)" for u
    using used_entry [OF inv that] by (auto simp: entry_of_def)
  then have used: "map (\<lambda>(i, n, b). (i, b)) (aq_used (storage_abs st))
      = map (entry_of (rs_records st)) (map ue_head (used_list st))"
    by (simp add: storage_abs_def)
  show ?thesis
    unfolding aq_all_def flight used heads_mset [OF inv] by (simp add: storage_abs_def image_mset.compositionality)
qed

lemma reclaimed_entries:
  assumes inv: "ring_inv epoch st"
  shows "mset (map reclaimed_entry (reclaimed_all (rs_records st))) = aq_all (storage_abs st)"
proof -
  let ?recs = "rs_records st"
  let ?H = "{h :: u16. unat h < length ?recs \<and> ?recs ! unat h \<noteq> None}"
  have len: "length ?recs \<le> 32768"
    using ring_invD(5) [OF inv] ring_inv_counts(5) [OF inv] by simp
  have heads: "set (filter (\<lambda>i. ?recs ! i \<noteq> None) [0..<length ?recs]) = unat ` ?H"
  proof (intro equalityI subsetI)
    fix i
    assume "i \<in> set (filter (\<lambda>i. ?recs ! i \<noteq> None) [0..<length ?recs])"
    moreover from this have "unat (of_nat i :: u16) = i"
      using len by (simp add: unat_of_nat take_bit_eq_mod)
    ultimately show "i \<in> unat ` ?H"
      by (intro image_eqI [of _ _ "of_nat i"]) auto
  qed auto
  have "mset (filter (\<lambda>i. ?recs ! i \<noteq> None) [0..<length ?recs]) = mset_set (unat ` ?H)"
    unfolding heads [symmetric] by (rule mset_set_set [symmetric]) simp
  also have "\<dots> = image_mset unat (mset_set ?H)"
    by (rule image_mset_mset_set [symmetric]) (simp add: inj_on_def)
  finally have idx: "mset (filter (\<lambda>i. ?recs ! i \<noteq> None) [0..<length ?recs]) = image_mset unat (mset_set ?H)" .
  have "mset (map reclaimed_entry (reclaimed_all ?recs))
      = image_mset (\<lambda>i. (rc_id (the (?recs ! i)), chain_body (rc_chain (the (?recs ! i)))))
          (mset (filter (\<lambda>i. ?recs ! i \<noteq> None) [0..<length ?recs]))"
    unfolding reclaimed_all_eq by (subst filter_nth) (simp only: map_map mset_map comp_def)
  also have "\<dots> = image_mset (entry_of ?recs) (mset_set ?H)"
    unfolding idx by (simp add: image_mset.compositionality comp_def entry_of_def [abs_def])
  finally show ?thesis
    using all_entries [OF inv] by simp
qed

lemma flight_finite [simp]: "finite (aq_flight (queue_abs q))"
  by (simp add: queue_abs_def storage_abs_def aq_empty_def split: option.split)

lemma take_fresh:
  assumes q: "queue_inv q" and head: "aq_available (queue_abs q) = (i, b) # es"
  shows "i \<notin> fst ` aq_flight (queue_abs q)"
proof
  assume "i \<in> fst ` aq_flight (queue_abs q)"
  moreover obtain st where st: "sq_storage q = Some st"
    using head by (cases "sq_storage q") (auto simp: queue_abs_def aq_empty_def)
  ultimately obtain h' where h': "in_state (rs_records st) CS_InFlight h'" "fst (entry_of (rs_records st) h') = i"
    by (auto simp: queue_abs_def storage_abs_def)
  note inv = queue_inv_storage [OF q st]
  obtain h hs where "avail_heads st = h # hs" "entry_of (rs_records st) h = (i, b)"
    using head st by (auto simp: queue_abs_def storage_abs_def)
  moreover from this have "in_state (rs_records st) CS_Available h"
    using ring_invD(8) [OF inv] by (auto simp: ring_lists_def)
  ultimately show False
    using entry_inj [OF inv, of CS_Available h CS_InFlight h'] h' by (auto simp: in_state_def)
qed

lemma flight_unique:
  assumes q: "queue_inv q" and "(i, b) \<in> aq_flight (queue_abs q)" "(i, b') \<in> aq_flight (queue_abs q)"
  shows "b = b'"
proof -
  obtain st where st: "sq_storage q = Some st"
    using assms(2) by (cases "sq_storage q") (auto simp: queue_abs_def aq_empty_def)
  obtain h h' where "in_state (rs_records st) CS_InFlight h" "entry_of (rs_records st) h = (i, b)"
    "in_state (rs_records st) CS_InFlight h'" "entry_of (rs_records st) h' = (i, b')"
    using assms(2,3) st by (auto simp: queue_abs_def storage_abs_def)
  then show ?thesis
    using entry_inj [OF queue_inv_storage [OF q st], of CS_InFlight h CS_InFlight h'] by simp
qed

text \<open>How the chains of the abstract queue change.\<close>

lemma aq_all_simps:
  "aq_all aq_empty = {#}"
  "aq_all (aq_publish i b A) = add_mset (i, b) (aq_all A)"
  "aq_available A = (i, b) # es \<Longrightarrow> (i, b) \<notin> aq_flight A \<Longrightarrow> finite (aq_flight A) \<Longrightarrow> aq_all (aq_take i b A) = aq_all A"
  "(i, b) \<in> aq_flight A \<Longrightarrow> finite (aq_flight A) \<Longrightarrow> aq_all (aq_complete i n b A) = aq_all A"
  "aq_used A = (i, n, b) # us \<Longrightarrow> aq_all A = add_mset (i, b) (aq_all (aq_return A))"
proof -
  show "aq_all (aq_complete i n b A) = aq_all A" if "(i, b) \<in> aq_flight A" "finite (aq_flight A)"
  proof -
    have "mset_set (aq_flight A) = add_mset (i, b) (mset_set (aq_flight A - {(i, b)}))"
      by (rule mset_set.remove [OF that(2,1)])
    then show ?thesis
      by (simp add: aq_all_def aq_complete_def)
  qed
qed (simp_all add: aq_all_def aq_empty_def aq_publish_def aq_take_def aq_return_def)

section \<open>Runs\<close>

text \<open>
  The queue, the tokens of the chains the device holds, and three accounts of chains with the
  identifier they were published under: given to the queue, given back to the driver, and dropped
  by a reset of the device.
\<close>

record queue_run =
  qr_queue :: split_queue
  qr_tokens :: "split_device_chain multiset"
  qr_given :: "(chain_id \<times> chain_content) multiset"
  qr_back :: "(chain_id \<times> chain_content) multiset"
  qr_dropped :: "(chain_id \<times> chain_content) multiset"

definition queue_start :: "split_queue \<Rightarrow> queue_run" where
  "queue_start q = \<lparr>qr_queue = q, qr_tokens = {#}, qr_given = {#}, qr_back = {#}, qr_dropped = {#}\<rparr>"

definition chains_of :: "ring_storage option \<Rightarrow> (chain_id \<times> chain_content) multiset" where
  "chains_of s = mset (map reclaimed_entry (reclaimed_all (reclaimed_chains_new s)))"

inductive queue_step :: "queue_run \<Rightarrow> queue_run \<Rightarrow> bool" where
  publish: "chain_ok c \<Longrightarrow> publish_inner (qr_queue R) c inject = (Inr p, q') \<Longrightarrow>
     queue_step R (R\<lparr>qr_queue := q', qr_given := add_mset (pc_id p, chain_body c) (qr_given R)\<rparr>)"
| refuse: "chain_ok c \<Longrightarrow> publish_inner (qr_queue R) c inject = (Inl e, q') \<Longrightarrow>
     queue_step R (R\<lparr>qr_queue := q'\<rparr>)"
| take: "pop_available (qr_queue R) = (Inr (Some t), q') \<Longrightarrow>
     queue_step R (R\<lparr>qr_queue := q', qr_tokens := add_mset t (qr_tokens R)\<rparr>)"
| take_none: "pop_available (qr_queue R) = (r, q') \<Longrightarrow> (\<forall>t. r \<noteq> Inr (Some t)) \<Longrightarrow>
     queue_step R (R\<lparr>qr_queue := q'\<rparr>)"
| complete: "t \<in># qr_tokens R \<Longrightarrow> complete (qr_queue R) t n = (r, q') \<Longrightarrow>
     queue_step R (R\<lparr>qr_queue := q', qr_tokens := qr_tokens R - {#t#}\<rparr>)"
| forget: "t \<in># qr_tokens R \<Longrightarrow> queue_step R (R\<lparr>qr_tokens := qr_tokens R - {#t#}\<rparr>)"
| "return": "pop_used (qr_queue R) = (Inr (Some u), q') \<Longrightarrow>
     queue_step R (R\<lparr>qr_queue := q', qr_back := add_mset (uc_id u, chain_body (uc_chain u)) (qr_back R)\<rparr>)"
| return_none: "pop_used (qr_queue R) = (r, q') \<Longrightarrow> (\<forall>u. r \<noteq> Inr (Some u)) \<Longrightarrow>
     queue_step R (R\<lparr>qr_queue := q'\<rparr>)"
| driver_reset: "e \<noteq> 0 \<Longrightarrow> driver_reset (qr_queue R) e = (Inr recs, q') \<Longrightarrow>
     queue_step R (R\<lparr>qr_queue := q', qr_back := qr_back R + mset (map reclaimed_entry (reclaimed_all recs))\<rparr>)"
| driver_reset_refused: "e \<noteq> 0 \<Longrightarrow> driver_reset (qr_queue R) e = (Inl x, q') \<Longrightarrow> queue_step R (R\<lparr>qr_queue := q'\<rparr>)"
| device_reset: "e \<noteq> 0 \<Longrightarrow> device_reset (qr_queue R) e = (Inr (), q') \<Longrightarrow>
     queue_step R (R\<lparr>qr_queue := q', qr_dropped := qr_dropped R + chains_of (sq_storage (qr_queue R))\<rparr>)"
| device_reset_refused: "e \<noteq> 0 \<Longrightarrow> device_reset (qr_queue R) e = (Inl x, q') \<Longrightarrow> queue_step R (R\<lparr>qr_queue := q'\<rparr>)"
| configure: "queue_size_new v = Some sz \<Longrightarrow> configure alloc (qr_queue R) sz = (r, q') \<Longrightarrow>
     queue_step R (R\<lparr>qr_queue := q'\<rparr>)"
| set_ready: "set_ready (qr_queue R) ready = (r, q') \<Longrightarrow> queue_step R (R\<lparr>qr_queue := q'\<rparr>)"
| switch: "q' \<in> {snd (disable_used_notifications (qr_queue R)), snd (enable_used_notifications (qr_queue R)),
       snd (disable_available_notifications (qr_queue R)), snd (enable_available_notifications (qr_queue R))} \<Longrightarrow>
     queue_step R (R\<lparr>qr_queue := q'\<rparr>)"
| hook: "q' \<in> {snd (set_empty_ring_index (qr_queue R) i), snd (set_next_descriptor (qr_queue R) i)} \<Longrightarrow>
     queue_step R (R\<lparr>qr_queue := q'\<rparr>)"

text \<open>
  The invariant of a run: no token is from the future, those of the current epoch are of different
  chains in flight, and every chain given is in exactly one place.
\<close>

definition current_tokens :: "queue_run \<Rightarrow> chain_id multiset" where
  "current_tokens R = image_mset sd_id (filter_mset (\<lambda>t. ci_epoch (sd_id t) = sq_current_epoch (qr_queue R)) (qr_tokens R))"

definition run_inv :: "queue_run \<Rightarrow> bool" where
  "run_inv R \<longleftrightarrow> queue_inv (qr_queue R)
     \<and> (\<forall>t\<in>#qr_tokens R. ci_epoch (sd_id t) \<le> sq_current_epoch (qr_queue R))
     \<and> current_tokens R \<subseteq># mset_set (fst ` aq_flight (queue_abs (qr_queue R)))
     \<and> qr_given R = qr_back R + qr_dropped R + aq_all (queue_abs (qr_queue R))"

lemma ring_size_new: "queue_size_new v = Some sz \<Longrightarrow> ring_size sz"
  by (auto simp: queue_size_new_def ring_size_def MAX_SPLIT_QUEUE_SIZE_def word_le_nat_alt split: if_splits)

lemma quiet_step:
  assumes "run_inv R" "queue_inv q'" "queue_abs q' = queue_abs (qr_queue R)"
    "sq_current_epoch q' = sq_current_epoch (qr_queue R)"
  shows "run_inv (R\<lparr>qr_queue := q'\<rparr>)"
  using assms by (simp add: run_inv_def current_tokens_def)

lemma storage_chains:
  "queue_inv q \<Longrightarrow> chains_of (sq_storage q) = aq_all (queue_abs q)"
  using reclaimed_entries [OF queue_inv_storage, of q]
  by (auto simp: chains_of_def reclaimed_chains_new_def queue_abs_def aq_all_simps split: option.splits)

text \<open>After a reset no token is of the current epoch, and the queue is empty.\<close>

lemma reset_step:
  assumes inv: "run_inv R" and q': "queue_inv q'" "queue_abs q' = aq_empty"
    and epoch: "sq_current_epoch (qr_queue R) < sq_current_epoch q'"
    and acc: "back + dropped = qr_back R + qr_dropped R + chains_of (sq_storage (qr_queue R))"
  shows "run_inv (R\<lparr>qr_queue := q', qr_back := back, qr_dropped := dropped\<rparr>)"
proof -
  have old: "ci_epoch (sd_id t) < sq_current_epoch q'" if "t \<in># qr_tokens R" for t
    using inv that epoch by (auto simp: run_inv_def)
  have "filter_mset (\<lambda>t. ci_epoch (sd_id t) = sq_current_epoch q') (qr_tokens R) = {#}"
    by (intro multiset_eqI) (auto simp: count_eq_zero_iff dest!: old)
  then have "current_tokens (R\<lparr>qr_queue := q', qr_back := back, qr_dropped := dropped\<rparr>) = {#}"
    by (simp add: current_tokens_def)
  then show ?thesis
    using inv q' old acc storage_chains [of "qr_queue R"]
    by (auto simp: run_inv_def aq_all_simps less_imp_le)
qed

lemma publish_step:
  assumes inv: "run_inv R" and c: "chain_ok c" and p: "publish_inner (qr_queue R) c inject = (Inr p, q')"
  shows "run_inv (R\<lparr>qr_queue := q', qr_given := add_mset (pc_id p, chain_body c) (qr_given R)\<rparr>)"
proof -
  have q: "queue_inv (qr_queue R)"
    using inv by (simp add: run_inv_def)
  note eff = publish_effect [OF q c p]
  have "sq_current_epoch q' = sq_current_epoch (qr_queue R)"
    using q eff(1,2) by (simp add: queue_inv_def)
  moreover have "aq_flight (queue_abs q') = aq_flight (queue_abs (qr_queue R))"
    using eff(3) by (simp add: aq_publish_def)
  ultimately show ?thesis
    using inv eff by (simp add: run_inv_def current_tokens_def aq_all_simps)
qed

lemma take_step:
  assumes inv: "run_inv R" and p: "pop_available (qr_queue R) = (Inr (Some t), q')"
  shows "run_inv (R\<lparr>qr_queue := q', qr_tokens := add_mset t (qr_tokens R)\<rparr>)"
proof -
  have q: "queue_inv (qr_queue R)"
    using inv by (simp add: run_inv_def)
  obtain b where eff: "queue_inv q'" "sq_current_epoch q' = sq_current_epoch (qr_queue R)"
      "aq_available (queue_abs (qr_queue R)) = (sd_id t, b) # aq_available (queue_abs q')"
      "ci_epoch (sd_id t) = sq_current_epoch (qr_queue R)"
      "queue_abs q' = aq_take (sd_id t) b (queue_abs (qr_queue R))"
    using pop_available_effect [OF q p] by auto
  note fresh = take_fresh [OF q eff(3)]
  have "mset_set (fst ` aq_flight (queue_abs q')) = add_mset (sd_id t) (mset_set (fst ` aq_flight (queue_abs (qr_queue R))))"
    using fresh by (simp add: eff(5) aq_take_def)
  moreover have "aq_all (queue_abs q') = aq_all (queue_abs (qr_queue R))"
    unfolding eff(5) using fresh by (intro aq_all_simps(3) [OF eff(3)]) force+
  ultimately show ?thesis
    using inv eff(1,2,4) by (simp add: run_inv_def current_tokens_def)
qed

lemma forget_step:
  assumes "run_inv R"
  shows "run_inv (R\<lparr>qr_tokens := qr_tokens R - {#t#}\<rparr>)"
proof -
  have "current_tokens (R\<lparr>qr_tokens := qr_tokens R - {#t#}\<rparr>) \<subseteq># current_tokens R"
    unfolding current_tokens_def by (intro image_mset_subseteq_mono) (simp add: multiset_filter_mono)
  then show ?thesis
    using assms subset_mset.trans by (fastforce simp: run_inv_def dest: in_diffD)
qed

lemma submset_remove: "X \<subseteq># Y \<Longrightarrow> X - {#a#} \<subseteq># Y - {#a#}"
  by (simp add: subseteq_mset_def diff_le_mono)

lemma complete_step:
  assumes inv: "run_inv R" and t: "t \<in># qr_tokens R" and p: "complete (qr_queue R) t n = (r, q')"
  shows "run_inv (R\<lparr>qr_queue := q', qr_tokens := qr_tokens R - {#t#}\<rparr>)"
proof -
  have q: "queue_inv (qr_queue R)"
    using inv by (simp add: run_inv_def)
  note eff = complete_effect [OF q p]
  show ?thesis
  proof (cases r)
    case (Inl e)
    then show ?thesis
      using eff forget_step [OF inv, of t] by simp
  next
    case (Inr hint)
    then obtain b where b: "(sd_id t, b) \<in> aq_flight (queue_abs (qr_queue R))"
      and abs: "queue_abs q' = aq_complete (sd_id t) n b (queue_abs (qr_queue R))"
      and q': "queue_inv q'" "sq_current_epoch q' = sq_current_epoch (qr_queue R)"
      using eff by auto
    have now: "ci_epoch (sd_id t) = sq_current_epoch (qr_queue R)"
      using p Inr q by (auto simp: complete_def Let_def queue_inv_def split: if_splits)
    have "fst ` aq_flight (queue_abs q') = fst ` aq_flight (queue_abs (qr_queue R)) - {sd_id t}"
      using flight_unique [OF q b] by (force simp: abs aq_complete_def)
    moreover have "sd_id t \<in> fst ` aq_flight (queue_abs (qr_queue R))"
      using b by force
    ultimately have "mset_set (fst ` aq_flight (queue_abs q')) = mset_set (fst ` aq_flight (queue_abs (qr_queue R))) - {#sd_id t#}"
      by (simp add: mset_set_Diff)
    moreover have "current_tokens (R\<lparr>qr_queue := q', qr_tokens := qr_tokens R - {#t#}\<rparr>) = current_tokens R - {#sd_id t#}"
      using t now q'(2) by (simp add: current_tokens_def image_mset_Diff)
    moreover have "aq_all (queue_abs q') = aq_all (queue_abs (qr_queue R))"
      unfolding abs using b by (intro aq_all_simps(4)) simp_all
    ultimately show ?thesis
      using inv q' submset_remove by (auto simp: run_inv_def dest: in_diffD)
  qed
qed

lemma return_step:
  assumes inv: "run_inv R" and p: "pop_used (qr_queue R) = (Inr (Some u), q')"
  shows "run_inv (R\<lparr>qr_queue := q', qr_back := add_mset (uc_id u, chain_body (uc_chain u)) (qr_back R)\<rparr>)"
proof -
  have q: "queue_inv (qr_queue R)"
    using inv by (simp add: run_inv_def)
  have eff: "queue_inv q'" "sq_current_epoch q' = sq_current_epoch (qr_queue R)"
      "aq_used (queue_abs (qr_queue R)) = (uc_id u, uc_used u, chain_body (uc_chain u)) # aq_used (queue_abs q')"
      "queue_abs q' = aq_return (queue_abs (qr_queue R))"
    using pop_used_effect [OF q p] by auto
  have "aq_flight (queue_abs q') = aq_flight (queue_abs (qr_queue R))"
    by (simp add: eff(4) aq_return_def)
  then show ?thesis
    using inv eff(1,2) aq_all_simps(5) [OF eff(3)] by (simp add: run_inv_def current_tokens_def eff(4) [symmetric])
qed

lemma queue_step_inv: "queue_step R R' \<Longrightarrow> run_inv R \<Longrightarrow> run_inv R'"
proof (induction rule: queue_step.induct)
  case (refuse c R inject e q')
  then show ?case
    using publish_effect [OF _ refuse(1,2)] by (simp add: run_inv_def)
next
  case (take_none R r q')
  then show ?case
    using pop_available_effect [OF _ take_none(1)] quiet_step [of R q']
    by (auto simp: run_inv_def split: sum.splits option.splits)
next
  case (return_none R r q')
  then show ?case
    using pop_used_effect [OF _ return_none(1)] quiet_step [of R q']
    by (auto simp: run_inv_def split: sum.splits option.splits)
next
  case (driver_reset e R recs q')
  then obtain s where s: "advance_epoch (qr_queue R) e = (Inr s, q')" "recs = reclaimed_chains_new s"
    by (auto simp: driver_reset_def split: prod.splits)
  then show ?case
    using advance_epoch_effect [OF _ s(1) driver_reset(1)] driver_reset(3)
      reset_step [of R q' "qr_back R + chains_of s" "qr_dropped R"]
    by (simp add: run_inv_def [of R] chains_of_def ac_simps)
next
  case (device_reset e R q')
  then obtain s where s: "advance_epoch (qr_queue R) e = (Inr s, q')"
    by (auto simp: device_reset_def split: prod.splits)
  then show ?case
    using advance_epoch_effect [OF _ s device_reset(1)] device_reset(3)
      reset_step [of R q' "qr_back R" "qr_dropped R + chains_of s"]
    by (simp add: run_inv_def [of R] ac_simps)
next
  case (driver_reset_refused e R x q')
  then show ?case
    using advance_epoch_effect [of "qr_queue R" e]
    by (fastforce simp: run_inv_def driver_reset_def and_then_eq_Inl split: prod.splits)
next
  case (device_reset_refused e R x q')
  then show ?case
    using advance_epoch_effect [of "qr_queue R" e]
    by (fastforce simp: run_inv_def device_reset_def and_then_eq_Inl split: prod.splits)
next
  case (configure v sz alloc R r q')
  then show ?case
    using configure_effect [OF _ ring_size_new [OF configure(1)] configure(2)] quiet_step [of R q'] by (auto simp: run_inv_def)
next
  case (set_ready R ready r q')
  then show ?case
    using set_ready_effect [OF _ set_ready(1)] quiet_step [of R q'] by (auto simp: run_inv_def)
next
  case (switch q' R)
  then show ?case
    using switch_effect [of "qr_queue R" q'] quiet_step [of R q'] by (auto simp: run_inv_def)
next
  case (hook q' R i)
  then show ?case
    using hook_effect [of "qr_queue R" q' i] quiet_step [of R q'] by (auto simp: run_inv_def)
qed (auto intro: publish_step take_step complete_step forget_step return_step)

lemma queue_run_inv:
  assumes "split_queue_new max_size limit = Inr q" "queue_size_new v = Some max_size" "queue_step\<^sup>*\<^sup>* (queue_start q) R"
  shows "run_inv R"
  using assms(3)
proof (induction rule: rtranclp_induct)
  case base
  show ?case
    using split_queue_new_inv [OF assms(1) ring_size_new [OF assms(2)]]
    by (simp add: run_inv_def queue_start_def current_tokens_def aq_all_simps)
next
  case (step R R')
  then show ?case
    using queue_step_inv by blast
qed

section \<open>Chains the driver can build\<close>

text \<open>Every chain that was built has one slot for each descriptor.\<close>

lemma walk_slots: "length (wk_visited (snd (walk_chain cells ds current wk))) = length (wk_visited wk)"
proof (induction cells ds current wk rule: walk_chain.induct)
  case (1 cells ds current wk)
  then show ?case
    by (subst walk_chain.simps) (auto simp: Let_def dest!: walk_descriptor_visited split: sum.split)
qed

lemma raw_chain_ok:
  assumes "driver_chain_raw alloc cells ds head = Inr c"
  shows "chain_ok c"
proof -
  note D = driver_chain_rawD [OF assms]
  have "length (dc_slots c) = length ds"
    using D(5) walk_slots [of cells ds head "\<lparr>wk_visited = replicate (length ds) 0, wk_spans = [], wk_regions = [],
      wk_readable_end = 0, wk_writable_end = 0\<rparr>"]
    by (auto simp: analyze_chain_def split: if_splits prod.splits sum.splits)
  then show ?thesis
    using D(1,3,4) by (auto simp: chain_ok_def)
qed

lemma token_in_flight:
  assumes inv: "run_inv R" and t: "t \<in># qr_tokens R" and now: "ci_epoch (sd_id t) = sq_current_epoch (qr_queue R)"
  shows "in_flight (qr_queue R) (sd_id t)"
proof -
  have "sd_id t \<in># current_tokens R"
    using t now by (auto simp: current_tokens_def)
  then have "sd_id t \<in># mset_set (fst ` aq_flight (queue_abs (qr_queue R)))"
    using inv by (auto simp: run_inv_def dest: mset_subset_eqD)
  then show ?thesis
    by (simp add: in_flight_def)
qed

lemma held_token:
  assumes inv: "run_inv R" and t: "t \<in># qr_tokens R"
  shows "let q = qr_queue R in
     if ci_epoch (sd_id t) \<noteq> sq_current_epoch q
     then complete q t n = (Inl (QE_ResetRace (ci_epoch (sd_id t)) (sq_current_epoch q)), q)
     else if \<not> qs_ready (sq_state q) then complete q t n = (Inl QE_NotReady, q)
     else if unat (writable_capacity t) < unat n
     then complete q t n = (Inl (QE_UsedLengthExceeded n (writable_capacity t)), q)
     else \<exists>hint q'. complete q t n = (Inr hint, q')"
proof -
  have q: "queue_inv (qr_queue R)"
    using inv by (simp add: run_inv_def)
  then have epoch: "qs_epoch (sq_state (qr_queue R)) = sq_current_epoch (qr_queue R)"
    by (simp add: queue_inv_def)
  have less: "writable_capacity t < ucast n \<longleftrightarrow> unat (writable_capacity t) < unat n"
    by (simp add: word_less_nat_alt unat_used_length)
  have "\<exists>hint q'. complete (qr_queue R) t n = (Inr hint, q')"
    if "ci_epoch (sd_id t) = sq_current_epoch (qr_queue R)" "qs_ready (sq_state (qr_queue R))"
      "\<not> unat (writable_capacity t) < unat n"
    using complete_honest(2) [OF q token_in_flight [OF inv t that(1)] that(2)] that(3) by simp
  then show ?thesis
    by (simp add: Let_def complete_def [of "qr_queue R"] epoch less del: split_paired_Ex)
qed

lemma publish_accepted:
  assumes q: "queue_inv q" and c: "chain_ok chain"
  shows "(\<exists>p q'. publish q chain = (Inr p, q')) \<longleftrightarrow>
     qs_ready (sq_state q) \<and> (\<exists>l. chain_validation chain = Inr l) \<and> descriptor_count chain \<le> sq_max_chain_descriptors q
     \<and> (\<exists>st. sq_storage q = Some st \<and> rs_available_count st \<noteq> rs_size st \<and> descriptor_count chain \<le> rs_free_descriptors st)"
proof -
  have "(\<exists>p q'. publish_chain q st chain = (Inr p, q'))"
    if "sq_storage q = Some st" "rs_available_count st \<noteq> rs_size st" "\<not> rs_free_descriptors st < descriptor_count chain" for st
    using publish_chain_effect [OF q that(1) c that(2,3)] by blast
  then show ?thesis
    by (cases "sq_storage q"; cases "chain_validation chain")
      (auto simp: publish_def publish_inner_def refuse_chain_def not_less)
qed

section \<open>Properties\<close>

text \<open>A ready queue of four descriptors that accepts chains of three.\<close>

definition sample_new :: split_queue where
  "sample_new = (case split_queue_new 4 3 of Inr q \<Rightarrow> q)"

definition sample_sized :: split_queue where
  "sample_sized = snd (configure True sample_new 4)"

definition sample_ready :: split_queue where
  "sample_ready = snd (set_ready sample_sized True)"

definition sample_published :: split_queue where
  "sample_published = snd (publish sample_ready sample_chain)"

definition sample_id :: chain_id where
  "sample_id = \<lparr>ci_epoch = 1, ci_token = 1\<rparr>"

definition sample_token :: split_device_chain where
  "sample_token = split_device_chain_new sample_id (dc_data sample_chain) 3"

definition sample_taken :: split_queue where
  "sample_taken = snd (pop_available sample_published)"

definition sample_run :: queue_run where
  "sample_run = \<lparr>qr_queue = sample_taken, qr_tokens = {#sample_token#},
     qr_given = {#(sample_id, chain_body sample_chain)#}, qr_back = {#}, qr_dropped = {#}\<rparr>"

lemma sample_calls:
  "split_queue_new 4 3 = Inr sample_new" "queue_size_new 4 = Some 4"
  "configure True sample_new 4 = (Inr (), sample_sized)" "set_ready sample_sized True = (Inr (), sample_ready)"
  "publish_inner sample_ready sample_chain False = (Inr \<lparr>pc_id = sample_id, pc_notification = NH_Notify\<rparr>, sample_published)"
  "pop_available sample_published = (Inr (Some sample_token), sample_taken)"
  "qs_ready (sq_state sample_taken)" "sq_current_epoch sample_taken = 1"
  by code_simp+

lemma sample_ready_steps: "queue_step\<^sup>*\<^sup>* (queue_start sample_new) (queue_start sample_ready)"
proof -
  have "queue_step (queue_start sample_new) (queue_start sample_sized)"
    using queue_step.configure [OF sample_calls(2), of True "queue_start sample_new"] sample_calls(3) by (simp add: queue_start_def)
  moreover have "queue_step (queue_start sample_sized) (queue_start sample_ready)"
    using queue_step.set_ready [of "queue_start sample_sized" True] sample_calls(4) by (simp add: queue_start_def)
  ultimately show ?thesis
    by simp
qed

lemma sample_run_steps: "queue_step\<^sup>*\<^sup>* (queue_start sample_new) sample_run"
proof -
  let ?given = "(queue_start sample_published)\<lparr>qr_given := {#(sample_id, chain_body sample_chain)#}\<rparr>"
  have "queue_step (queue_start sample_ready) ?given"
    using queue_step.publish [OF raw_chain_ok [OF sample_chain_built], of "queue_start sample_ready" False] sample_calls(5)
    by (simp add: queue_start_def)
  moreover have "queue_step ?given sample_run"
    using queue_step.take [of ?given] sample_calls(6) by (simp add: queue_start_def sample_run_def)
  ultimately show ?thesis
    using sample_ready_steps by (meson rtranclp.rtrancl_into_rtrancl)
qed

text \<open>C22: no chain is lost or duplicated. In every run of the queue from its construction, with any
  interleaving of the driver's and the device's calls, resets, refused calls and dropped tokens, the
  chains the queue accepted are exactly those it gave back to the driver (as used chains or as chains
  reclaimed by the driver's reset), those a reset of the device dropped, and those it still holds, each
  under the identifier it was published with.\<close>

theorem no_chain_lost:
  assumes "split_queue_new max_size limit = Inr q" "queue_size_new v = Some max_size" "queue_step\<^sup>*\<^sup>* (queue_start q) R"
  shows "qr_given R = qr_back R + qr_dropped R + chains_of (sq_storage (qr_queue R))"
  using queue_run_inv [OF assms] storage_chains [of "qr_queue R"] by (simp add: run_inv_def)

theorem no_chain_lost_witness:
  "chains_of (sq_storage (qr_queue sample_run)) = {#(sample_id, chain_body sample_chain)#}"
  using no_chain_lost [OF sample_calls(1,2) sample_run_steps] by (simp add: sample_run_def)

text \<open>C24: the queue is never found corrupt. After any run, publishing or injecting a chain either enters
  it or returns it with the queue unchanged, and never for a corrupt queue; taking an available chain and
  collecting a used one fail only while the queue is not ready. Completing a chain the device holds
  reports the race if the queue was reset since the chain was taken, that the queue is not ready if it is
  not, and the used length and the capacity if the former exceeds the latter, each with the queue
  unchanged; in every other case the completion succeeds.\<close>

theorem queue_never_corrupt:
  assumes "split_queue_new max_size limit = Inr q0" "queue_size_new v = Some max_size" "queue_step\<^sup>*\<^sup>* (queue_start q0) R"
    and "chain_ok c"
  shows "let q = qr_queue R in
     (\<forall>e q'. publish q c = (Inl e, q') \<or> inject_available q c = (Inl e, q') \<longrightarrow>
        q' = q \<and> pe_chain e = c \<and> pe_kind e \<noteq> PEK_Transport SQE_CorruptState)
   \<and> (\<forall>e q'. pop_available q = (Inl e, q') \<longrightarrow> q' = q \<and> e = QE_NotReady \<and> \<not> qs_ready (sq_state q))
   \<and> (\<forall>e q'. pop_used q = (Inl e, q') \<longrightarrow> q' = q \<and> e = QE_NotReady \<and> \<not> qs_ready (sq_state q))
   \<and> (\<forall>t\<in>#qr_tokens R.
        if ci_epoch (sd_id t) \<noteq> sq_current_epoch q
        then complete q t n = (Inl (QE_ResetRace (ci_epoch (sd_id t)) (sq_current_epoch q)), q)
        else if \<not> qs_ready (sq_state q) then complete q t n = (Inl QE_NotReady, q)
        else if unat (writable_capacity t) < unat n
        then complete q t n = (Inl (QE_UsedLengthExceeded n (writable_capacity t)), q)
        else \<exists>hint q'. complete q t n = (Inr hint, q'))"
proof -
  have inv: "run_inv R"
    by (rule queue_run_inv [OF assms(1-3)])
  then have q: "queue_inv (qr_queue R)"
    by (simp add: run_inv_def)
  have "q' = qr_queue R \<and> pe_chain e = c \<and> pe_kind e \<noteq> PEK_Transport SQE_CorruptState"
    if "publish (qr_queue R) c = (Inl e, q') \<or> inject_available (qr_queue R) c = (Inl e, q')" for e q'
    using that publish_effect(3) [OF q assms(4), where r = "Inl e" and q' = q']
    by (auto simp: publish_def inject_available_def)
  moreover have "q' = qr_queue R \<and> e = QE_NotReady \<and> \<not> qs_ready (sq_state (qr_queue R))"
    if "pop_available (qr_queue R) = (Inl e, q')" for e q'
    using pop_available_effect [OF q that] by simp
  moreover have "q' = qr_queue R \<and> e = QE_NotReady \<and> \<not> qs_ready (sq_state (qr_queue R))"
    if "pop_used (qr_queue R) = (Inl e, q')" for e q'
    using pop_used_effect [OF q that] by simp
  ultimately show ?thesis
    unfolding Let_def using held_token [OF inv, of _ n, unfolded Let_def]
    by (intro conjI allI impI ballI) (simp_all del: split_paired_Ex)
qed

theorem queue_never_corrupt_witness:
  "\<exists>hint q'. complete (qr_queue sample_run) sample_token 2 = (Inr hint, q')"
proof -
  have "sample_token \<in># qr_tokens sample_run" "ci_epoch (sd_id sample_token) = sq_current_epoch (qr_queue sample_run)"
    "qs_ready (sq_state (qr_queue sample_run))" "unat (2 :: u32) \<le> unat (writable_capacity sample_token)"
    using sample_calls(7,8)
    by (simp_all add: sample_run_def sample_token_def sample_id_def split_device_chain_new_def writable_capacity_def sample_chain_def)
  then show ?thesis
    using queue_never_corrupt [OF sample_calls(1,2) sample_run_steps raw_chain_ok [OF sample_chain_built], of 2]
    by (simp add: Let_def)
qed

text \<open>C23: the queue is a first-in first-out exchange. After any run, an accepted chain joins the end of
  the available list under an identifier no chain of the queue has; taking gives the first available
  chain, with its content, and puts it in flight; a successful completion moves exactly the chain of the
  token, which was in flight, to the end of the used list with its used length; and collecting returns the
  first used chain with its identifier, its used length and its content. Taking and collecting find nothing
  only when the list is empty.\<close>

theorem queue_refines_fifo:
  assumes "split_queue_new max_size limit = Inr q0" "queue_size_new v = Some max_size" "queue_step\<^sup>*\<^sup>* (queue_start q0) R"
    and "chain_ok c"
  shows "let q = qr_queue R; A = queue_abs q in
     (\<forall>p q'. publish q c = (Inr p, q') \<or> inject_available q c = (Inr p, q') \<longrightarrow>
        pc_id p \<notin> aq_ids A \<and> queue_abs q' = aq_publish (pc_id p) (chain_body c) A)
   \<and> (\<forall>q'. pop_available q = (Inr None, q') \<longrightarrow> aq_available A = [] \<and> q' = q)
   \<and> (\<forall>t q'. pop_available q = (Inr (Some t), q') \<longrightarrow>
        (\<exists>b rest. aq_available A = (sd_id t, b) # rest \<and> sd_data t = fst b \<and> queue_abs q' = aq_take (sd_id t) b A))
   \<and> (\<forall>t n hint q'. complete q t n = (Inr hint, q') \<longrightarrow>
        (\<exists>b. (sd_id t, b) \<in> aq_flight A \<and> queue_abs q' = aq_complete (sd_id t) n b A))
   \<and> (\<forall>q'. pop_used q = (Inr None, q') \<longrightarrow> aq_used A = [] \<and> q' = q)
   \<and> (\<forall>u q'. pop_used q = (Inr (Some u), q') \<longrightarrow>
        (\<exists>rest. aq_used A = (uc_id u, uc_used u, chain_body (uc_chain u)) # rest \<and> queue_abs q' = aq_return A))"
proof -
  have q: "queue_inv (qr_queue R)"
    using queue_run_inv [OF assms(1-3)] by (simp add: run_inv_def)
  have data: "sd_data (split_device_chain_new i d n) = d" for i d n
    by (simp add: split_device_chain_new_def)
  have "pc_id p \<notin> aq_ids (queue_abs (qr_queue R))
      \<and> queue_abs q' = aq_publish (pc_id p) (chain_body c) (queue_abs (qr_queue R))"
    if "publish (qr_queue R) c = (Inr p, q') \<or> inject_available (qr_queue R) c = (Inr p, q')" for p q'
    using that publish_effect(3) [OF q assms(4), where r = "Inr p" and q' = q']
    by (auto simp: publish_def inject_available_def)
  moreover have "\<exists>b rest. aq_available (queue_abs (qr_queue R)) = (sd_id t, b) # rest \<and> sd_data t = fst b
      \<and> queue_abs q' = aq_take (sd_id t) b (queue_abs (qr_queue R))"
    if took: "pop_available (qr_queue R) = (Inr (Some t), q')" for t q'
  proof -
    obtain b where "aq_available (queue_abs (qr_queue R)) = (sd_id t, b) # aq_available (queue_abs q')"
      "t = split_device_chain_new (sd_id t) (fst b) (sq_max_chain_descriptors (qr_queue R))"
      "queue_abs q' = aq_take (sd_id t) b (queue_abs (qr_queue R))"
      using pop_available_effect [OF q took] by auto
    then show ?thesis
      using data by metis
  qed
  moreover have "\<exists>b. (sd_id t, b) \<in> aq_flight (queue_abs (qr_queue R))
      \<and> queue_abs q' = aq_complete (sd_id t) n b (queue_abs (qr_queue R))"
    if "complete (qr_queue R) t n = (Inr hint, q')" for t n hint q'
    using complete_effect [OF q that] by auto
  moreover have "\<exists>rest. aq_used (queue_abs (qr_queue R)) = (uc_id u, uc_used u, chain_body (uc_chain u)) # rest
      \<and> queue_abs q' = aq_return (queue_abs (qr_queue R))"
    if "pop_used (qr_queue R) = (Inr (Some u), q')" for u q'
    using pop_used_effect [OF q that] by auto
  moreover have "(pop_available (qr_queue R) = (Inr None, q') \<longrightarrow> aq_available (queue_abs (qr_queue R)) = [] \<and> q' = qr_queue R)
      \<and> (pop_used (qr_queue R) = (Inr None, q') \<longrightarrow> aq_used (queue_abs (qr_queue R)) = [] \<and> q' = qr_queue R)" for q'
    using pop_available_effect [OF q, of "Inr None" q'] pop_used_effect [OF q, of "Inr None" q'] by auto
  ultimately show ?thesis
    unfolding Let_def by blast
qed

theorem queue_refines_fifo_witness:
  "\<exists>hint q' b. complete (qr_queue sample_run) sample_token 2 = (Inr hint, q')
     \<and> queue_abs q' = aq_complete sample_id 2 b (queue_abs (qr_queue sample_run))"
proof -
  obtain hint q' where done': "complete (qr_queue sample_run) sample_token 2 = (Inr hint, q')"
    using held_token [OF queue_run_inv [OF sample_calls(1,2) sample_run_steps], of sample_token 2] sample_calls(7,8)
    by (auto simp: Let_def sample_run_def sample_token_def sample_id_def split_device_chain_new_def writable_capacity_def sample_chain_def)
  moreover have "sd_id sample_token = sample_id"
    by (simp add: sample_token_def split_device_chain_new_def)
  ultimately show ?thesis
    using queue_refines_fifo [OF sample_calls(1,2) sample_run_steps raw_chain_ok [OF sample_chain_built]]
    unfolding Let_def by metis
qed

text \<open>C25: when a chain is published. After any run, publishing a chain succeeds precisely when the queue is
  ready, the chain is valid, it has no more descriptors than a chain may have, the available ring has room,
  and enough descriptors of the table are free: whatever the fragmentation of the table, the allocator finds
  them.\<close>

theorem publish_succeeds_exactly:
  assumes "split_queue_new max_size limit = Inr q0" "queue_size_new v = Some max_size" "queue_step\<^sup>*\<^sup>* (queue_start q0) R"
    and "driver_chain_raw alloc cells ds head = Inr c"
  shows "let q = qr_queue R in (\<exists>p q'. publish q c = (Inr p, q')) \<longleftrightarrow>
     qs_ready (sq_state q) \<and> (\<exists>l. chain_validation c = Inr l) \<and> descriptor_count c \<le> sq_max_chain_descriptors q
     \<and> (\<exists>st. sq_storage q = Some st \<and> rs_available_count st \<noteq> rs_size st
          \<and> unat (descriptor_count c) \<le> length (filter (\<lambda>slot. slot = None) (rs_descriptors st)))"
proof -
  have q: "queue_inv (qr_queue R)"
    using queue_run_inv [OF assms(1-3)] by (simp add: run_inv_def)
  have "unat (rs_free_descriptors st) = length (filter (\<lambda>slot. slot = None) (rs_descriptors st))"
    if "sq_storage (qr_queue R) = Some st" for st
    using ring_invD(2,10) [OF queue_inv_storage [OF q that]] sum_length_filter_compl [of "\<lambda>slot. slot = None" "rs_descriptors st"]
    by (simp add: occupied_def)
  then show ?thesis
    unfolding Let_def publish_accepted [OF q raw_chain_ok [OF assms(4)]] by (auto simp: word_le_nat_alt)
qed

theorem publish_succeeds_exactly_witness:
  "\<not> (\<exists>p q'. publish (qr_queue sample_run) sample_chain = (Inr p, q'))"
proof -
  have "length (filter (\<lambda>slot. slot = None) (rs_descriptors (the (sq_storage sample_taken)))) = 1"
    "unat (descriptor_count sample_chain) = 3"
    by code_simp+
  then show ?thesis
    using publish_succeeds_exactly [OF sample_calls(1,2) sample_run_steps sample_chain_built]
    by (auto simp: Let_def sample_run_def)
qed

end
