(* ===== verification/Spec2Isabelle.thy ===== *)
theory Spec2Isabelle
  imports Engine_Properties Engine_Answers Engine_Guard Split_Properties
begin

text \<open>
  Verification of \<open>virtio-accel\<close>, the portable layers that expose an accelerator to a guest.

  \<^bold>\<open>The program.\<close> A guest sends commands as chains of memory regions. The device layer
  (\<open>src/crates/virtio-accel-device\<close>) checks the layout of a chain and decodes its request frame,
  looks up the objects it names, calls a provider (the trait \<open>Accelerator\<close> of
  \<open>src/crates/virtio-accel-core\<close>), and writes a response frame. Objects are contexts, buffers, programs,
  queues and events; they live in generation-checked tables, own native handles of the provider, and are
  released in two phases. After a failure the engine is reset, in one bounded pass that releases
  children before parents, or the provider is discarded.

  \<^bold>\<open>Conventions.\<close> Machine integers are words, \<open>usize\<close> is a natural number. A \<open>Result\<close> is a sum with the
  error on the left, \<open>?\<close> is \<open>and_then\<close>. State is passed explicitly; a method that takes \<open>&mut self\<close>
  returns the new value. \<open>get_mut\<close> is a value with the function that writes it back. The provider is a
  record of arbitrary functions that act on a world of arbitrary type, so every theorem about the engine
  holds for every provider. A fallible reservation of memory is a boolean parameter. A sink is a record of
  its methods that acts on a port state.

  \<^bold>\<open>Theories.\<close>

  \<^item> \<open>Accel_Prelude\<close>: results, checked and saturating arithmetic, byte order, lists and sums.
  \<^item> \<open>Accel_Core\<close>: \<open>virtio-accel-core/src/lib.rs\<close>: device information, descriptors, ranges, bindings, and
    the validation of each. Validators accept exactly what they document.
  \<^item> \<open>Accel_Proto\<close>: \<open>virtio-accel-proto/src/lib.rs\<close>: every wire structure with its encoding. The locale
    \<open>wire_codec\<close> states the round trip once; each structure interprets it.
  \<^item> \<open>Transport\<close>: \<open>virtio-accel-transport/src/regions.rs\<close> and the value types of \<open>queue.rs\<close>: chain layouts
    and their validation.
  \<^item> \<open>Byte_Ports\<close>: \<open>bytes.rs\<close>, the byte traits of the core, and \<open>device/src/regions.rs\<close>: sources and sinks,
    contiguous and segmented, and subregions. The locales \<open>byte_source_port\<close> and \<open>byte_sink_port\<close> are the
    contracts of the traits; slices, segments and subregions interpret them.
  \<^item> \<open>Split_Chain\<close>, \<open>Split_Ports\<close>, \<open>Split_Analysis\<close>: \<open>split-queue/src/chain.rs\<close>: descriptors over shared
    cells, the walk that classifies a chain, and the ports over its two sides. A copy over descriptors
    is a window of their concatenation, the ports interpret the contracts of \<open>Byte_Ports\<close>, and a table is
    accepted exactly when it is one well-formed chain.
  \<^item> \<open>Split_Queue\<close>, \<open>Split_Ring\<close>, \<open>Split_Inv\<close>: \<open>split-queue/src/queue.rs\<close>: ring storage, the descriptor
    allocator and the operations of both sides; rings as first-in-first-out lists over wrapping
    indices; and the invariant of ownership and lists that the operations keep.
  \<^item> \<open>Split_Ops\<close>, \<open>Split_Runs\<close>, \<open>Split_Properties\<close>: completing and returning a chain; the abstract queue (a
    list of available chains, a set in flight, a list of used ones) with the effect of every operation on
    it; and runs, in which the driver and the device interleave their calls, with the accounts of the
    chains given, given back and dropped. Tokens of the device are a multiset: each is spent once.
  \<^item> \<open>Object_Table\<close>: \<open>device/src/object_table.rs\<close>: slots, generations, free list, retirement, identifiers.
    A table refines a finite map, and the identifier of a removed object never resolves again.
  \<^item> \<open>Device_State\<close>, \<open>Device_Graph\<close>, \<open>Device_Ops\<close>, \<open>Device_Events\<close>, \<open>Device_Steps\<close>, \<open>Device_Phases\<close>:
    \<open>device/src/state.rs\<close>: the records and operations, the invariant (every child count, reference count
    and retained byte is what the objects add up to), its preservation by each operation, the step
    relation with its properties, and the phase of every object. The locale \<open>release_protocol\<close> is the
    contract of begin, restore and commit; each kind of object interprets it.
  \<^item> \<open>Response_Writer\<close>: \<open>device/src/response.rs\<close>: frames are written exactly, the copy loop terminates.
  \<^item> \<open>Frame_Decoder\<close>, \<open>Frame_Exact\<close>: \<open>device/src/decoder.rs\<close> and \<open>frame.rs\<close>: the decoder accepts exactly the
    canonical encodings within the negotiated limits.
  \<^item> \<open>Accel_Backend\<close>, \<open>Command_Engine\<close>: the provider trait and the command handlers of
    \<open>device/src/engine.rs\<close>.
  \<^item> \<open>Engine_Reset\<close>: the reset of \<open>engine.rs\<close>. Its loops are total functions: each walks its table once.
  \<^item> \<open>Engine_Inv\<close>, \<open>Engine_Recovery\<close>, \<open>Engine_Runs\<close>: the invariant of the engine, the accounting of a
    reset (locale \<open>reset_loop\<close>, interpreted by the five loops), and runs.
  \<^item> \<open>Engine_Properties\<close>, \<open>Engine_Answers\<close>, \<open>Engine_Guard\<close>: what the guest and the provider can rely on.
  \<^item> This theory: a command from the driver's chain through the queue and the engine to its completion.

  \<^bold>\<open>Bounds and termination.\<close> No definition uses fuel. The loops of a reset are bounded by the slots of the
  tables, the copy loop of a response by its length, and all are total functions with termination proofs.
  The byte counters of the report are 128 bits wide; the accounting shows that they do not overflow.

  \<^bold>\<open>Not modelled.\<close> The guest client builds requests and parses responses on the other side of the wire; the
  device does not trust it, and the theorems hold for every byte string it may send. The hardware providers bind vendor runtimes that are not in the repository, and the
  theorems quantify over all providers. The mock providers, the conformance suite, the fuzz targets and the
  examples are tests. The TOSA crates define the contents of program artifacts, which are opaque to
  the device. \<open>Debug\<close> output and the getters that return a field are not modelled.
\<close>

section \<open>The engine over the split queue\<close>

text \<open>A taken chain of a well-formed table opens into ports that keep their contracts.\<close>

lemma token_ports:
  assumes "descriptors_own cells ds" "driver_chain_raw alloc cells ds head = Inr c" "chain_validation c = Inr l"
    and "cl_descriptor_count l \<le> max_descriptors" "t = split_device_chain_new i (dc_data c) max_descriptors"
    and "sh = \<lparr>sh_cells = cells, sh_epoch = ci_epoch i\<rparr>"
  shows "\<exists>regions. device_chain_io sh t = Inr (regions, sd_source t, sd_sink t)"
    and "source_valid (sh, sd_source t)" and "sink_valid (sd_sink t) sh" and "sn_data (sd_sink t) = dc_data c"
  using assms driver_chain_wf [OF assms(1,2)]
  by (simp_all add: device_chain_io_def device_chain_check_epoch_def split_device_chain_new_def
      chain_validation_def source_valid_def sink_valid_def not_less [symmetric])

text \<open>The device completes the chain it has just taken.\<close>

lemma taken_completes:
  assumes inv: "run_inv R" and took: "pop_available (qr_queue R) = (Inr (Some t), q)"
    and n: "unat n \<le> unat (writable_capacity t)"
  shows "\<exists>hint q' b. complete q t n = (Inr hint, q') \<and> fst b = sd_data t
     \<and> aq_used (queue_abs q') = aq_used (queue_abs q) @ [(sd_id t, n, b)]"
proof -
  have q0: "queue_inv (qr_queue R)"
    using inv by (simp add: run_inv_def)
  have ready: "qs_ready (sq_state (qr_queue R))"
    using took by (auto simp: pop_available_def split: if_splits)
  obtain b where b: "t = split_device_chain_new (sd_id t) (fst b) (sq_max_chain_descriptors (qr_queue R))"
      "queue_abs q = aq_take (sd_id t) b (queue_abs (qr_queue R))"
    and q: "queue_inv q" "sq_state q = sq_state (qr_queue R)"
    using pop_available_effect [OF q0 took] by auto
  have flight: "(sd_id t, b) \<in> aq_flight (queue_abs q)"
    using b(2) by (simp add: aq_take_def)
  then have "in_flight q (sd_id t)"
    by (force simp: in_flight_def)
  then obtain hint q' where fin: "complete q t n = (Inr hint, q')"
    using complete_honest(2) [OF q(1)] ready q(2) n by metis
  then obtain b' where b': "(sd_id t, b') \<in> aq_flight (queue_abs q)" "queue_abs q' = aq_complete (sd_id t) n b' (queue_abs q)"
    using complete_effect [OF q(1) fin] by auto
  have "fst b = sd_data t"
    by (subst b(1)) (simp add: split_device_chain_new_def)
  then show ?thesis
    using fin b'(2) flight_unique [OF q(1) flight b'(1)]
    by (intro exI [of _ hint] exI [of _ q'] exI [of _ b]) (simp add: aq_complete_def)
qed

text \<open>C3: a command crosses the whole device. The driver builds a valid chain from a table whose descriptors
  own their cells, and the device takes it from a queue in any reachable state. The chain then opens into its
  two ports, and the engine processes it without failing, whatever the allocator and the backend do. If the
  outcome is a response, the driver reads from the writable side of its own chain, byte for byte, one
  well-formed frame with the status and identifier of the outcome; and the queue accepts the completion with
  the length of that frame and appends the chain to its used list. The readable port is the one at the time
  the chain is opened: the two sides of a chain share no cell.\<close>

theorem command_crosses_split_queue:
  assumes engine: "engine_inv cp" "writes_through (cp_accelerator cp)" "length (di_uuid (di_identity (cp_info cp))) = 16"
    and queue: "split_queue_new max_size limit = Inr q0" "queue_size_new v = Some max_size"
      "queue_step\<^sup>*\<^sup>* (queue_start q0) R" "pop_available (qr_queue R) = (Inr (Some t), q)"
    and chain: "descriptors_own cells ds" "driver_chain_raw alloc0 cells ds head = Inr c" "chain_validation c = Inr l"
      "cl_descriptor_count l \<le> sq_max_chain_descriptors (qr_queue R)" "sd_data t = dc_data c"
  shows "\<exists>regions src snk out cp' sh' w'.
     device_chain_io \<lparr>sh_cells = cells, sh_epoch = sq_current_epoch q\<rparr> t = Inr (regions, src, snk)
   \<and> process cp alloc regions (transport_byte_source (split_readable (\<lparr>sh_cells = cells, sh_epoch = sq_current_epoch q\<rparr>, src)))
       (transport_byte_sink (split_writable snk)) \<lparr>sh_cells = cells, sh_epoch = sq_current_epoch q\<rparr> w = (Inr out, cp', sh', w')
   \<and> (case out of
        CO_Unusable u \<Rightarrow> cp' = cp \<and> sh_cells sh' = cells \<and> w' = w
      | CO_Response request_id status used \<Rightarrow> \<exists>payload.
          read_device_writable (sh_cells sh') c 0 (16 + length payload) = Inr (response_frame status request_id payload)
        \<and> used = of_nat (16 + length payload)
        \<and> (\<exists>hint q' b. complete q t used = (Inr hint, q') \<and> fst b = dc_data c
             \<and> aq_used (queue_abs q') = aq_used (queue_abs q) @ [(sd_id t, used, b)]))"
proof -
  let ?sh = "\<lparr>sh_cells = cells, sh_epoch = sq_current_epoch q\<rparr>"
  have inv: "run_inv R"
    by (rule queue_run_inv [OF queue(1-3)])
  then have q: "queue_inv (qr_queue R)"
    by (simp add: run_inv_def)
  obtain b where "t = split_device_chain_new (sd_id t) (fst b) (sq_max_chain_descriptors (qr_queue R))"
      and epoch: "ci_epoch (sd_id t) = sq_current_epoch q"
    using pop_available_effect [OF q queue(4)] by auto
  then have t: "t = split_device_chain_new (sd_id t) (dc_data c) (sq_max_chain_descriptors (qr_queue R))"
    using chain(5) by (cases t) (simp add: split_device_chain_new_def)
  note ports = token_ports [OF chain(1-4) t, of ?sh, unfolded epoch, OF refl]
  obtain regions where io: "device_chain_io ?sh t = Inr (regions, sd_source t, sd_sink t)"
    using ports(1) by blast
  let ?content = "\<lambda>sh. side_bytes (sh_cells sh) (sn_data (sd_sink t)) True"
  obtain out cp' sh' w' where run: "process cp alloc regions (transport_byte_source (split_readable (?sh, sd_source t)))
        (transport_byte_sink (split_writable (sd_sink t))) ?sh w = (Inr out, cp', sh', w')"
    and out: "case out of
         CO_Unusable u \<Rightarrow> cp' = cp \<and> sh' = ?sh \<and> w' = w
       | CO_Response request_id status used \<Rightarrow> sink_valid (sd_sink t) sh' \<and> length (?content sh') = length (?content ?sh)
           \<and> (\<exists>payload. used = of_nat (16 + length payload)
               \<and> 16 + length payload \<le> unat (dl_max_response_bytes (cp_decoder cp)) \<and> 16 + length payload \<le> length (?content ?sh)
               \<and> take (16 + length payload) (?content sh') = response_frame status request_id payload)"
    using process_answers [OF engine(1) split_out.byte_sink_port_axioms ports(3) split_in.port_source_ok [OF ports(2)] engine(2,3)]
    by blast
  have "case out of
        CO_Unusable u \<Rightarrow> cp' = cp \<and> sh_cells sh' = cells \<and> w' = w
      | CO_Response request_id status used \<Rightarrow> \<exists>payload.
          read_device_writable (sh_cells sh') c 0 (16 + length payload) = Inr (response_frame status request_id payload)
        \<and> used = of_nat (16 + length payload)
        \<and> (\<exists>hint q' b. complete q t used = (Inr hint, q') \<and> fst b = dc_data c
             \<and> aq_used (queue_abs q') = aq_used (queue_abs q) @ [(sd_id t, used, b)])"
  proof (cases out)
    case (CO_Response request_id status used)
    then obtain payload where wf: "chain_wf (sh_cells sh') (dc_data c)" and used: "used = of_nat (16 + length payload)"
      and len: "16 + length payload \<le> length (side_bytes cells (dc_data c) True)"
        "length (side_bytes (sh_cells sh') (dc_data c) True) = length (side_bytes cells (dc_data c) True)"
      and frame: "take (16 + length payload) (side_bytes (sh_cells sh') (dc_data c) True) = response_frame status request_id payload"
      using out ports(4) by (auto simp: sink_valid_def)
    have "unat used \<le> 16 + length payload"
      unfolding used unat_of_nat by (rule mod_less_eq_dividend)
    also have "\<dots> \<le> unat (writable_capacity t)"
      unfolding side_len_eqs chain(5) using chain_wf_side(2) [OF wf, of True] len by simp
    finally have fin: "\<exists>hint q' b. complete q t used = (Inr hint, q') \<and> fst b = dc_data c
        \<and> aq_used (queue_abs q') = aq_used (queue_abs q) @ [(sd_id t, used, b)]"
      using taken_completes [OF inv queue(4)] chain(5) by simp
    have "read_device_writable (sh_cells sh') c 0 (16 + length payload) = Inr (response_frame status request_id payload)"
      using wf len frame by (simp add: read_device_writable_eq)
    with fin used show ?thesis
      unfolding CO_Response command_outcome.case by blast
  qed (use out in simp)
  with io run show ?thesis
    by blast
qed

text \<open>A command to destroy a context, sent over a queue to an engine with a backend that works on its ports.\<close>

definition exchange_cells :: cells where
  "exchange_cells = [request_frame Op_DestroyContext 9 (encode_object_payload \<lparr>op_object_id = 5\<rparr>), replicate 16 0]"

definition exchange_descriptors :: "descriptor list" where
  "exchange_descriptors =
     [\<lparr>de_buffer = Mapped 0, de_flags = 1, de_next = 1\<rparr>, \<lparr>de_buffer = Mapped 1, de_flags = 2, de_next = 0\<rparr>]"

definition exchange_layout :: chain_layout where
  "exchange_layout = \<lparr>cl_descriptor_count = 2, cl_readable_descriptors = 1, cl_writable_descriptors = 1,
     cl_readable_bytes = 24, cl_writable_bytes = 16\<rparr>"

definition exchange_chain :: driver_chain where
  "exchange_chain = \<lparr>dc_data = \<lparr>cd_descriptors = exchange_descriptors,
     cd_analysis = CA_Valid exchange_layout
       [\<lparr>sp_descriptor = 0, sp_end = 24\<rparr>, \<lparr>sp_descriptor = 1, sp_end = 16\<rparr>] [region_readable 24, region_writable 16]\<rparr>,
     dc_slots = [1, 1], dc_head = 0\<rparr>"

definition exchange_published :: split_queue where
  "exchange_published = snd (publish sample_ready exchange_chain)"

definition exchange_id :: chain_id where
  "exchange_id = \<lparr>ci_epoch = 1, ci_token = 0\<rparr>"

definition exchange_token :: split_device_chain where
  "exchange_token = split_device_chain_new exchange_id (dc_data exchange_chain) 3"

definition exchange_taken :: split_queue where
  "exchange_taken = snd (pop_available exchange_published)"

definition exchange_run :: queue_run where
  "exchange_run = (queue_start exchange_published)\<lparr>qr_given := {#(exchange_id, chain_body exchange_chain)#}\<rparr>"

lemma exchange_request_length:
  "length (request_frame Op_DestroyContext 9 (encode_object_payload \<lparr>op_object_id = 5\<rparr>)) = 24"
  by code_simp

lemma exchange_chain_built: "driver_chain_raw True exchange_cells exchange_descriptors 0 = Inr exchange_chain"
  by (simp add: driver_chain_raw_def MAX_SPLIT_QUEUE_SIZE_def zeroed_u16_box_def analyze_chain_def exchange_chain_def
      exchange_cells_def exchange_descriptors_def exchange_layout_def exchange_request_length walk_chain.simps
      walk_descriptor_def descriptor_flags
      descriptor_is_writable_def descriptor_len_def checked_add_def region_writable_def region_readable_def
      validate_chain_layout_def layout_acc_init_def layout_step_def layout_result_def)

lemma exchange_calls:
  "publish_inner sample_ready exchange_chain False
     = (Inr \<lparr>pc_id = exchange_id, pc_notification = NH_Notify\<rparr>, exchange_published)"
  "pop_available exchange_published = (Inr (Some exchange_token), exchange_taken)"
  "sq_max_chain_descriptors exchange_published = 3"
  by code_simp+

lemma exchange_run_steps: "queue_step\<^sup>*\<^sup>* (queue_start sample_new) exchange_run"
  using sample_ready_steps queue_step.publish [OF raw_chain_ok [OF exchange_chain_built], of "queue_start sample_ready" False]
    exchange_calls(1)
  by (auto simp: exchange_run_def queue_start_def intro: rtranclp.rtrancl_into_rtrancl)

definition split_accelerator :: "(nat, nat, nat, nat, nat, split_shared, nat) accelerator" where
  "split_accelerator =
     \<lparr>ac_device_info = (\<lambda>w. (Inr sample_info, Suc w)),
      ac_create_context = (\<lambda>_ w. (Inr 7, Suc w)), ac_destroy_context = (\<lambda>_ w. (Inr (), Suc w)),
      ac_allocate_buffer = (\<lambda>_ _ w. (Inl BE_OutOfMemory, Suc w)),
      ac_write_buffer = (\<lambda>buffer _ _ w. (Inr (), buffer, Suc w)),
      ac_read_buffer = (\<lambda>_ _ sink k w. (fst (sk_write_at sink k 0 [1]), snd (sk_write_at sink k 0 [1]), Suc w)),
      ac_free_buffer = (\<lambda>_ w. (Inr (), Suc w)),
      ac_load_program = (\<lambda>_ _ w. (Inl BE_Unsupported, Suc w)), ac_unload_program = (\<lambda>_ w. (Inr (), Suc w)),
      ac_create_queue = (\<lambda>_ _ w. (Inr 8, Suc w)), ac_destroy_queue = (\<lambda>_ w. (Inr (), Suc w)),
      ac_submit = (\<lambda>_ _ _ _ w. (Inl (SF_Rejected BE_Unsupported), Suc w)),
      ac_poll_event = (\<lambda>_ w. (Inr ES_Complete, Suc w)), ac_cancel_event = cancel_event_unsupported,
      ac_destroy_event = (\<lambda>_ w. (Inr (), Suc w))\<rparr>"

definition split_engine :: "(nat, nat, nat, nat, nat, split_shared, nat) cp" where
  "split_engine = \<lparr>cp_state = sample_new_state, cp_accelerator = split_accelerator, cp_info = sample_info,
     cp_policy = sample_policy, cp_decoder = sample_decoder, cp_health = Running,
     cp_quarantined = resource_counts_default, cp_quarantined_bytes = retained_bytes_default, cp_last_reset = None\<rparr>"

lemma split_engine_ok:
  "engine_inv split_engine" "writes_through (cp_accelerator split_engine)"
  "length (di_uuid (di_identity (cp_info split_engine))) = 16"
proof -
  show "engine_inv split_engine"
    using processor_new_inv(1) [OF sample_engine_new]
    by (simp add: engine_inv_def consistent_def configured_def orderly_def sample_engine_def split_engine_def)
  show "writes_through (cp_accelerator split_engine)"
    by (simp add: writes_through_def split_engine_def split_accelerator_def)
  show "length (di_uuid (di_identity (cp_info split_engine))) = 16"
    by (simp add: split_engine_def sample_info_def)
qed

theorem command_crosses_split_queue_witness:
  "\<exists>regions src snk out cp' sh' w'.
     device_chain_io \<lparr>sh_cells = exchange_cells, sh_epoch = sq_current_epoch exchange_taken\<rparr> exchange_token = Inr (regions, src, snk)
   \<and> process split_engine (\<lambda>_. True) regions
       (transport_byte_source (split_readable (\<lparr>sh_cells = exchange_cells, sh_epoch = sq_current_epoch exchange_taken\<rparr>, src)))
       (transport_byte_sink (split_writable snk)) \<lparr>sh_cells = exchange_cells, sh_epoch = sq_current_epoch exchange_taken\<rparr> 1
     = (Inr out, cp', sh', w')"
proof -
  have own: "descriptors_own exchange_cells exchange_descriptors"
    by (simp add: descriptors_own_def exchange_cells_def exchange_descriptors_def exchange_request_length)
  have valid: "chain_validation exchange_chain = Inr exchange_layout"
    by (simp add: chain_validation_def exchange_chain_def)
  have took: "pop_available (qr_queue exchange_run) = (Inr (Some exchange_token), exchange_taken)"
    and fits: "cl_descriptor_count exchange_layout \<le> sq_max_chain_descriptors (qr_queue exchange_run)"
    and data: "sd_data exchange_token = dc_data exchange_chain"
    using exchange_calls(2,3)
    by (simp_all add: exchange_run_def queue_start_def exchange_layout_def exchange_token_def split_device_chain_new_def)
  show ?thesis
    using command_crosses_split_queue [OF split_engine_ok sample_calls(1,2) exchange_run_steps took own
        exchange_chain_built valid fits data, of "\<lambda>_. True" 1] by blast
qed

end
